(* ===== verification/Lode_Prelude.thy ===== *)
theory Lode_Prelude
  imports
    Complex_Main
    "HOL-Library.Word"
    "HOL-Library.Char_ord"
    "HOL-Library.List_Lexorder"
    "HOL-Library.Sublist"
begin

text \<open>
  The vocabulary every component of the development shares: the fixed-width integer types of the
  C++ sources, the character classes of \<open>cctype\<close> in the C locale, the searches of
  \<open>std::string\<close> (with \<open>npos\<close> as \<^const>\<open>None\<close>), and generic lemmas about lists and words.
  Strings are \<^typ>\<open>string\<close>, one \<^typ>\<open>char\<close> per byte, as \<open>std::string\<close> has it; the order
  on strings is that of \<open>std::string::operator<\<close>, lexicographic on unsigned bytes.
\<close>

unbundle bit_operations_syntax

section \<open>Machine integers\<close>

type_synonym u8 = "8 word"
type_synonym u16 = "16 word"
type_synonym u32 = "32 word"
type_synonym u64 = "64 word"
type_synonym size_t = "64 word"
type_synonym bytes = "u8 list"

named_theorems lode_defs \<open>definitions of the operations, unfolded by the component proofs\<close>

definition byte_of :: "char \<Rightarrow> u8" where
  "byte_of c = of_char c"

definition bytes_of :: "string \<Rightarrow> bytes" where
  "bytes_of s = map byte_of s"

definition string_of :: "bytes \<Rightarrow> string" where
  "string_of bs = map (\<lambda>b. char_of (unat b)) bs"

lemma unat_less_pow: "unat (x :: 'a::len word) < 2 ^ LENGTH('a)"
  by (rule unsigned_less)

lemma unat_byte_less [simp]: "unat (b :: u8) < 256"
  using unat_less_pow [of b] by simp

lemma unat_byte_le [simp]: "unat (b :: u8) \<le> 255"
  using unat_byte_less [of b] by linarith

lemma unat64_less: "unat (n :: u64) < 18446744073709551616"
  using unat_less_pow [of n] by simp

lemma unat64_le_less: "k \<le> unat (n :: u64) \<Longrightarrow> k < 18446744073709551616"
  by (rule le_less_trans [OF _ unat64_less])

lemma length_bytes_of [simp]: "length (bytes_of s) = length s"
  by (simp add: bytes_of_def)

lemma bytes_of_append [simp]: "bytes_of (s @ t) = bytes_of s @ bytes_of t"
  by (simp add: bytes_of_def)

lemma unat_of_char: "unat (of_char c :: u8) = of_char c"
proof -
  have "(of_char c :: u8) = of_nat (of_char c)" by (simp add: of_nat_of_char)
  then show ?thesis by (simp add: unat_of_nat take_bit_eq_mod)
qed

lemma of_char_of_word: "of_char (char_of (unat b)) = (b :: u8)"
proof -
  have "unat (of_char (char_of (unat b)) :: u8) = unat b mod 256" by (simp add: unat_of_char of_char_of)
  also have "\<dots> = unat b" using unat_byte_less [of b] by simp
  finally show ?thesis by (rule word_unat_eq_iff [THEN iffD2])
qed

lemma length_string_of [simp]: "length (string_of bs) = length bs"
  by (simp add: string_of_def)

lemma string_of_append [simp]: "string_of (bs @ cs) = string_of bs @ string_of cs"
  by (simp add: string_of_def)

lemma string_of_bytes_of [simp]: "string_of (bytes_of s) = s"
  by (induction s) (auto simp: string_of_def bytes_of_def byte_of_def unat_of_char)

lemma bytes_of_string_of [simp]: "bytes_of (string_of bs) = bs"
  by (induction bs) (auto simp: string_of_def bytes_of_def byte_of_def of_char_of_word)

section \<open>Character classes (the C locale)\<close>

abbreviation ascii :: "char \<Rightarrow> nat" where
  "ascii c \<equiv> of_char c"

definition is_digit :: "char \<Rightarrow> bool" where
  "is_digit c \<longleftrightarrow> 48 \<le> ascii c \<and> ascii c \<le> 57"

definition is_upper :: "char \<Rightarrow> bool" where
  "is_upper c \<longleftrightarrow> 65 \<le> ascii c \<and> ascii c \<le> 90"

definition is_lower :: "char \<Rightarrow> bool" where
  "is_lower c \<longleftrightarrow> 97 \<le> ascii c \<and> ascii c \<le> 122"

definition is_alpha :: "char \<Rightarrow> bool" where
  "is_alpha c \<longleftrightarrow> is_upper c \<or> is_lower c"

definition is_alnum :: "char \<Rightarrow> bool" where
  "is_alnum c \<longleftrightarrow> is_alpha c \<or> is_digit c"

definition is_xdigit :: "char \<Rightarrow> bool" where
  "is_xdigit c \<longleftrightarrow> is_digit c \<or> (65 \<le> ascii c \<and> ascii c \<le> 70) \<or> (97 \<le> ascii c \<and> ascii c \<le> 102)"

definition is_space :: "char \<Rightarrow> bool" where
  "is_space c \<longleftrightarrow> ascii c = 32 \<or> (9 \<le> ascii c \<and> ascii c \<le> 13)"

definition to_lower :: "char \<Rightarrow> char" where
  "to_lower c = (if is_upper c then char_of (ascii c + 32) else c)"

definition to_upper :: "char \<Rightarrow> char" where
  "to_upper c = (if is_lower c then char_of (ascii c - 32) else c)"

lemmas char_class_defs =
  is_digit_def is_upper_def is_lower_def is_alpha_def is_alnum_def is_xdigit_def is_space_def

lemma ascii_less_256: "ascii c < 256"
  by simp

lemma ascii_to_lower: "ascii (to_lower c) = (if is_upper c then ascii c + 32 else ascii c)"
  by (auto simp: to_lower_def is_upper_def of_char_of mod_less)

lemma ascii_to_upper: "ascii (to_upper c) = (if is_lower c then ascii c - 32 else ascii c)"
  by (auto simp: to_upper_def is_lower_def of_char_of mod_less)

lemma not_upper_to_lower [simp]: "\<not> is_upper (to_lower c)"
  by (auto simp: is_upper_def ascii_to_lower)

lemma to_lower_idem [simp]: "to_lower (to_lower c) = to_lower c"
  by (simp add: to_lower_def [of "to_lower c"])

lemma not_lower_to_upper [simp]: "\<not> is_lower (to_upper c)"
  by (auto simp: is_lower_def ascii_to_upper)

lemma to_upper_idem [simp]: "to_upper (to_upper c) = to_upper c"
  by (simp add: to_upper_def [of "to_upper c"])

section \<open>Searching strings\<close>

text \<open>\<open>find_idx\<close> is \<open>find(char)\<close>, \<open>find_first_of\<close> and \<open>find_first_not_of\<close>;
  \<open>rfind_idx\<close> is \<open>rfind\<close> and \<open>find_last_not_of\<close>; \<open>find_sub\<close> is \<open>find(string)\<close>.\<close>

fun find_idx :: "('a \<Rightarrow> bool) \<Rightarrow> 'a list \<Rightarrow> nat option" where
  "find_idx P [] = None"
| "find_idx P (x # xs) = (if P x then Some 0 else map_option Suc (find_idx P xs))"

definition rfind_idx :: "('a \<Rightarrow> bool) \<Rightarrow> 'a list \<Rightarrow> nat option" where
  "rfind_idx P xs = map_option (\<lambda>i. length xs - 1 - i) (find_idx P (rev xs))"

fun find_sub :: "'a list \<Rightarrow> 'a list \<Rightarrow> nat option" where
  "find_sub p [] = (if p = [] then Some 0 else None)"
| "find_sub p (x # xs) = (if prefix p (x # xs) then Some 0 else map_option Suc (find_sub p xs))"

lemma find_idx_None: "find_idx P xs = None \<longleftrightarrow> (\<forall>x \<in> set xs. \<not> P x)"
  by (induction xs) auto

lemma find_idx_absent: "\<forall>x \<in> set xs. \<not> P x \<Longrightarrow> find_idx P xs = None"
  by (rule find_idx_None [THEN iffD2])

lemma find_idx_SomeD:
  "find_idx P xs = Some i \<Longrightarrow> i < length xs \<and> P (xs ! i) \<and> (\<forall>x \<in> set (take i xs). \<not> P x)"
proof (induction xs arbitrary: i)
  case (Cons x xs)
  then show ?case by (cases i) (auto split: if_splits)
qed simp

lemma find_idx_takeWhile: "find_idx P xs = Some i \<Longrightarrow> take i xs = takeWhile (\<lambda>x. \<not> P x) xs"
proof (induction xs arbitrary: i)
  case (Cons x xs)
  then show ?case by (cases i) (auto split: if_splits)
qed simp

lemma find_idx_first: "\<forall>x \<in> set xs. \<not> P x \<Longrightarrow> P y \<Longrightarrow> find_idx P (xs @ y # ys) = Some (length xs)"
  by (induction xs) auto

lemma find_idx_distinct: "distinct xs \<Longrightarrow> i < length xs \<Longrightarrow> find_idx (\<lambda>d. d = xs ! i) xs = Some i"
proof (induction xs arbitrary: i)
  case (Cons x xs)
  then show ?case by (cases i) auto
qed simp

lemma rfind_idx_SomeD:
  assumes "rfind_idx P xs = Some i"
  shows "i < length xs \<and> P (xs ! i) \<and> (\<forall>x \<in> set (drop (Suc i) xs). \<not> P x)"
proof -
  from assms obtain j where j: "find_idx P (rev xs) = Some j" and i: "i = length xs - 1 - j"
    by (auto simp: rfind_idx_def)
  from find_idx_SomeD [OF j] have jl: "j < length xs" and Pj: "P (rev xs ! j)"
    and no: "\<forall>x \<in> set (take j (rev xs)). \<not> P x" by auto
  from jl i have "Suc i = length xs - j" by simp
  with no have "\<forall>x \<in> set (drop (Suc i) xs). \<not> P x" by (simp add: take_rev)
  moreover from Pj jl i have "P (xs ! i)" by (simp add: rev_nth)
  ultimately show ?thesis using i jl by simp
qed

lemma rfind_idx_None: "rfind_idx P xs = None \<longleftrightarrow> (\<forall>x \<in> set xs. \<not> P x)"
  by (simp add: rfind_idx_def find_idx_None)

lemma rfind_idx_absent: "\<forall>x \<in> set xs. \<not> P x \<Longrightarrow> rfind_idx P xs = None"
  by (rule rfind_idx_None [THEN iffD2])

lemma find_idx_snoc:
  "find_idx P (ys @ [x]) = (case find_idx P ys of Some i \<Rightarrow> Some i | None \<Rightarrow> if P x then Some (length ys) else None)"
proof (induction ys)
  case (Cons y ys)
  then show ?case by (cases "find_idx P ys") (simp_all add: find_idx_absent)
qed simp

lemma rfind_idx_Cons:
  "rfind_idx P (x # xs) = (case rfind_idx P xs of Some j \<Rightarrow> Some (Suc j) | None \<Rightarrow> if P x then Some 0 else None)"
proof (cases "find_idx P (rev xs)")
  case None
  then show ?thesis by (simp add: rfind_idx_def find_idx_snoc find_idx_absent)
next
  case (Some j)
  with find_idx_SomeD [OF Some] show ?thesis by (auto simp: rfind_idx_def find_idx_snoc)
qed

lemma find_sub_SomeD: "find_sub p xs = Some i \<Longrightarrow> i + length p \<le> length xs \<and> take (length p) (drop i xs) = p"
proof (induction xs arbitrary: i)
  case Nil
  then show ?case by (simp split: if_splits)
next
  case (Cons x xs)
  then show ?case
    by (cases i) (auto simp: prefix_def split: if_splits dest: arg_cong [where f = length])
qed

lemma find_sub_length: "find_sub p xs = Some i \<Longrightarrow> i + length p \<le> length xs"
  by (simp add: find_sub_SomeD)

section \<open>Overwriting part of an array\<close>

definition overwrite :: "nat \<Rightarrow> 'a list \<Rightarrow> 'a list \<Rightarrow> 'a list" where
  "overwrite k vs xs = take k xs @ vs @ drop (k + length vs) xs"

lemma length_overwrite [simp]: "k + length vs \<le> length xs \<Longrightarrow> length (overwrite k vs xs) = length xs"
  by (simp add: overwrite_def)

lemma overwrite_Nil [simp]: "overwrite k [] xs = xs"
  by (simp add: overwrite_def)

lemma overwrite_Cons:
  "k + Suc (length vs) \<le> length xs \<Longrightarrow> overwrite (Suc k) vs (xs[k := v]) = overwrite k (v # vs) xs"
  by (simp add: overwrite_def take_Suc_conv_app_nth take_update_swap drop_update_cancel list_update_append)

lemma overwrite_read_same:
  "k + length vs \<le> length xs \<Longrightarrow> take (length vs) (drop k (overwrite k vs xs)) = vs"
  by (simp add: overwrite_def)

lemma overwrite_read_before:
  "i + n \<le> k \<Longrightarrow> k + length vs \<le> length xs \<Longrightarrow> take n (drop i (overwrite k vs xs)) = take n (drop i xs)"
  by (simp add: overwrite_def drop_take)

lemma overwrite_read_after:
  assumes "k + length vs \<le> i" "k + length vs \<le> length xs"
  shows "take n (drop i (overwrite k vs xs)) = take n (drop i xs)"
proof -
  have "drop i (overwrite k vs xs) = drop (i - k - length vs) (drop (k + length vs) xs)"
    using assms by (simp add: overwrite_def)
  also have "\<dots> = drop i xs" using assms by simp
  finally show ?thesis by simp
qed

section \<open>Little-endian numbers\<close>

text \<open>The number a little-endian byte sequence denotes, and the \<open>n\<close> low bytes of a value.\<close>

fun le_nat :: "bytes \<Rightarrow> nat" where
  "le_nat [] = 0"
| "le_nat (b # bs) = unat b + 256 * le_nat bs"

fun le_bytes :: "nat \<Rightarrow> nat \<Rightarrow> bytes" where
  "le_bytes 0 v = []"
| "le_bytes (Suc n) v = of_nat (v mod 256) # le_bytes n (v div 256)"

lemma length_le_bytes [simp]: "length (le_bytes n v) = n"
  by (induction n arbitrary: v) auto

lemma le_nat_le_bytes [simp]: "le_nat (le_bytes n v) = v mod 256 ^ n"
proof (induction n arbitrary: v)
  case (Suc n)
  have "unat (of_nat (v mod 256) :: u8) = v mod 256"
    by (simp add: unat_of_nat)
  with Suc show ?case by (simp add: mod_mult2_eq)
qed simp

lemma le_nat_less: "le_nat bs < 256 ^ length bs"
proof (induction bs)
  case (Cons b bs)
  have "unat b + 256 * le_nat bs < 256 * 256 ^ length bs"
    using Cons unat_byte_less [of b] by linarith
  then show ?case by simp
qed simp

lemma le_bytes_le_nat [simp]: "le_bytes (length bs) (le_nat bs) = bs"
proof (induction bs)
  case (Cons b bs)
  with Cons unat_byte_less [of b] show ?case by simp
qed simp

lemma le_nat_append: "le_nat (xs @ ys) = le_nat xs + 256 ^ length xs * le_nat ys"
  by (induction xs) (auto simp: algebra_simps)

section \<open>Bytes of machine words\<close>

lemma and_FF: "(x AND 0xFF) = take_bit 8 (x :: 'a::len word)"
  by (simp add: take_bit_eq_mask mask_eq_exp_minus_1)

lemma unat_byte_at:
  "unat (ucast (drop_bit k n AND 0xFF) :: u8) = unat n div 2 ^ k mod 256" for n :: "'a::len word"
  by (simp add: and_FF unsigned_ucast_eq unsigned_take_bit_eq unat_drop_bit_eq
      take_bit_eq_mod [where 'a = nat] drop_bit_eq_div [where 'a = nat])

lemma take_bit_small: "unat (z :: 'a::len word) < 2 ^ k \<Longrightarrow> take_bit k z = z"
  by (simp add: word_unat_eq_iff unsigned_take_bit_eq take_bit_nat_eq_self)

lemma push_or_add: "unat z < 2 ^ k \<Longrightarrow> push_bit k y OR z = push_bit k y + (z :: 'a::len word)"
proof (rule disjunctive_add [symmetric])
  fix n
  assume "unat z < 2 ^ k"
  then have "take_bit k z = z" by (rule take_bit_small)
  then have "bit z n \<Longrightarrow> n < k" by (metis bit_take_bit_iff)
  then show "\<not> bit (push_bit k y) n \<or> \<not> bit z n" by (auto simp: bit_push_bit_iff)
qed

section \<open>Decimal numbers as text\<close>

text \<open>\<open>std::to_string\<close> of a non-negative number, and the value of a run of digits.\<close>

definition digit_char :: "nat \<Rightarrow> char" where
  "digit_char d = char_of (48 + d)"

fun nat_string :: "nat \<Rightarrow> string" where
  "nat_string n = (if n < 10 then [digit_char n] else nat_string (n div 10) @ [digit_char (n mod 10)])"

declare nat_string.simps [simp del]

definition digit_val :: "char \<Rightarrow> nat" where
  "digit_val c = ascii c - 48"

definition digits_value :: "string \<Rightarrow> nat" where
  "digits_value s = foldl (\<lambda>n c. 10 * n + digit_val c) 0 s"

lemma ascii_digit_char: "d < 10 \<Longrightarrow> ascii (digit_char d) = 48 + d"
  by (simp add: digit_char_def of_char_of)

lemma digit_val_char [simp]: "d < 10 \<Longrightarrow> digit_val (digit_char d) = d"
  by (simp add: digit_val_def ascii_digit_char)

lemma is_digit_char [simp]: "d < 10 \<Longrightarrow> is_digit (digit_char d)"
  by (simp add: is_digit_def ascii_digit_char)

lemma nat_string_induct [case_names small big]:
  assumes "\<And>n. n < 10 \<Longrightarrow> P n" "\<And>n. 10 \<le> n \<Longrightarrow> P (n div 10) \<Longrightarrow> P n"
  shows "P (n::nat)"
proof (induction n rule: less_induct)
  case (less n)
  show ?case
  proof (cases "n < 10")
    case False
    then have "P (n div 10)" by (intro less) simp
    moreover from False have "10 \<le> n" by simp
    ultimately show ?thesis by (rule assms(2) [rotated])
  qed (rule assms(1))
qed

lemma nat_string_small: "n < 10 \<Longrightarrow> nat_string n = [digit_char n]"
  by (simp add: nat_string.simps)

lemma nat_string_big: "10 \<le> n \<Longrightarrow> nat_string n = nat_string (n div 10) @ [digit_char (n mod 10)]"
  by (simp add: nat_string.simps [of n])

lemma digits_value_nat_string [simp]: "digits_value (nat_string n) = n"
  by (induction n rule: nat_string_induct) (simp_all add: nat_string_small nat_string_big digits_value_def)

lemma nat_string_digits: "list_all is_digit (nat_string n)"
  by (induction n rule: nat_string_induct) (simp_all add: nat_string_small nat_string_big)

lemma nat_string_nonempty [simp]: "nat_string n \<noteq> []"
  by (simp add: nat_string.simps [of n])

lemma length_filter_update:
  "r < length xs \<Longrightarrow> length (filter P (xs[r := y])) + of_bool (P (xs ! r)) = length (filter P xs) + of_bool (P y)"
proof (induction xs arbitrary: r)
  case (Cons x xs)
  then show ?case by (cases r) auto
qed simp

end
