(* ===== verification/Lode_Buffer.thy ===== *)
theory Lode_Buffer
  imports Lode_Prelude
begin

text \<open>
  \<open>Lode::Buffer\<close> (\<open>src/src/Buffer.cpp\<close>): the typed view of a Luau buffer object. The Luau heap is
  an explicit store, because two \<open>Buffer\<close>s may name the same object: \<open>registry\<close> takes a registry
  reference to an object and \<open>buffers\<close> an object to its bytes. A \<open>std::span\<close> is an object, a start
  and a length. Indexing a span outside its length is undefined behaviour in C++: \<open>load\<close> and
  \<open>store\<close> return \<^const>\<open>None\<close> there, so "the method returns \<open>Some\<close>" is a statement of
  memory safety. Sizes and offsets are 64-bit words, so that \<open>offset + i\<close> wraps as it does in the
  code. Floating-point values are their IEEE bit patterns, which is all the methods touch.
\<close>

section \<open>State\<close>

record luau =
  registry :: "nat \<Rightarrow> nat option"
  buffers :: "nat \<Rightarrow> bytes option"

datatype RefId = NoRef | RefNil | Ref nat

record PinnedRef =
  refL :: bool
  refId :: RefId

record Buffer =
  buf_ref :: "PinnedRef option"
  cachedData :: "nat option"
  cachedSize :: size_t
  hasCache :: bool

record span =
  obj :: "nat option"
  start :: nat
  len :: size_t

definition empty_span :: span where
  "empty_span = \<lparr>obj = None, start = 0, len = 0\<rparr>"

section \<open>Spans\<close>

definition HasRange :: "span \<Rightarrow> size_t \<Rightarrow> size_t \<Rightarrow> bool" where
  "HasRange sp offset width \<longleftrightarrow> offset \<le> len sp \<and> width \<le> len sp - offset"

text \<open>Reading and writing one element of a span; \<^const>\<open>None\<close> is undefined behaviour.\<close>

definition cell :: "luau \<Rightarrow> span \<Rightarrow> size_t \<Rightarrow> (nat \<times> bytes \<times> nat) option" where
  "cell lua sp i =
     (if i < len sp then
        case obj sp of None \<Rightarrow> None
        | Some p \<Rightarrow>
          (case buffers lua p of None \<Rightarrow> None
           | Some bs \<Rightarrow> if start sp + unat i < length bs then Some (p, bs, start sp + unat i) else None)
      else None)"

definition load :: "luau \<Rightarrow> span \<Rightarrow> size_t \<Rightarrow> u8 option" where
  "load lua sp i = map_option (\<lambda>(p, bs, k). bs ! k) (cell lua sp i)"

definition store :: "luau \<Rightarrow> span \<Rightarrow> size_t \<Rightarrow> u8 \<Rightarrow> luau option" where
  "store lua sp i v =
     map_option (\<lambda>(p, bs, k). lua\<lparr>buffers := (buffers lua)(p \<mapsto> bs[k := v])\<rparr>) (cell lua sp i)"

fun store_all :: "luau \<Rightarrow> span \<Rightarrow> size_t \<Rightarrow> bytes \<Rightarrow> luau option" where
  "store_all lua sp i [] = Some lua"
| "store_all lua sp i (v # vs) =
     (case store lua sp i v of None \<Rightarrow> None | Some lua' \<Rightarrow> store_all lua' sp (i + 1) vs)"

definition load_all :: "luau \<Rightarrow> span \<Rightarrow> size_t \<Rightarrow> nat \<Rightarrow> bytes option" where
  "load_all lua sp i n = those (map (\<lambda>k. load lua sp (i + of_nat k)) [0..<n])"

section \<open>Little-endian representation\<close>

definition ReadLittleEndian :: "nat \<Rightarrow> luau \<Rightarrow> span \<Rightarrow> size_t \<Rightarrow> nat option" where
  "ReadLittleEndian n lua sp offset = map_option le_nat (load_all lua sp offset n)"

definition WriteLittleEndian :: "nat \<Rightarrow> luau \<Rightarrow> span \<Rightarrow> size_t \<Rightarrow> nat \<Rightarrow> luau option" where
  "WriteLittleEndian n lua sp offset v = store_all lua sp offset (le_bytes n v)"

definition ClampRange :: "span \<Rightarrow> size_t \<Rightarrow> size_t \<Rightarrow> span" where
  "ClampRange sp offset cnt =
     (if offset \<ge> len sp then empty_span
      else let available = len sp - offset;
               cnt' = (if cnt > available then available else cnt)
           in sp\<lparr>start := start sp + unat offset, len := cnt'\<rparr>)"

section \<open>The buffer object\<close>

definition lua_tobuffer :: "luau \<Rightarrow> RefId \<Rightarrow> nat option \<times> size_t" where
  "lua_tobuffer lua r =
     (case r of Ref k \<Rightarrow>
        (case registry lua k of None \<Rightarrow> (None, 0)
         | Some p \<Rightarrow> (case buffers lua p of None \<Rightarrow> (None, 0) | Some bs \<Rightarrow> (Some p, of_nat (length bs))))
      | _ \<Rightarrow> (None, 0))"

definition Buffer_default :: Buffer where
  "Buffer_default = \<lparr>buf_ref = None, cachedData = None, cachedSize = 0, hasCache = False\<rparr>"

text \<open>The constructor on the value at a stack index: \<open>v\<close> is the object when the value is a buffer,
  \<open>r\<close> the registry slot \<open>CaptureRef\<close> obtains for it.\<close>

definition Buffer_new :: "luau \<Rightarrow> nat option \<Rightarrow> nat \<Rightarrow> Buffer \<times> luau" where
  "Buffer_new lua v r =
     (case v of None \<Rightarrow> (Buffer_default, lua)
      | Some p \<Rightarrow>
        let lua' = lua\<lparr>registry := (registry lua)(r \<mapsto> p)\<rparr>;
            (data, size) = lua_tobuffer lua' (Ref r);
            b = Buffer_default\<lparr>buf_ref := Some \<lparr>refL = True, refId = Ref r\<rparr>\<rparr>
        in (if data \<noteq> None \<or> size \<noteq> 0
            then b\<lparr>cachedData := data, cachedSize := size, hasCache := True\<rparr> else b, lua'))"

definition Buffer_IsValid :: "Buffer \<Rightarrow> bool" where
  "Buffer_IsValid b \<longleftrightarrow>
     (case buf_ref b of None \<Rightarrow> False | Some r \<Rightarrow> refL r \<and> refId r \<noteq> NoRef \<and> refId r \<noteq> RefNil)"

definition Buffer_ref :: "Buffer \<Rightarrow> RefId" where
  "Buffer_ref b = (case buf_ref b of None \<Rightarrow> NoRef | Some r \<Rightarrow> refId r)"

definition Data :: "luau \<Rightarrow> Buffer \<Rightarrow> nat option" where
  "Data lua b =
     (if \<not> Buffer_IsValid b then None
      else if hasCache b then cachedData b
      else fst (lua_tobuffer lua (Buffer_ref b)))"

definition Size :: "luau \<Rightarrow> Buffer \<Rightarrow> size_t" where
  "Size lua b =
     (if \<not> Buffer_IsValid b then 0
      else if hasCache b then cachedSize b
      else snd (lua_tobuffer lua (Buffer_ref b)))"

definition Span :: "luau \<Rightarrow> Buffer \<Rightarrow> span" where
  "Span lua b =
     (if \<not> Buffer_IsValid b then empty_span
      else if hasCache b then \<lparr>obj = cachedData b, start = 0, len = cachedSize b\<rparr>
      else let (ptr, size) = lua_tobuffer lua (Buffer_ref b)
           in \<lparr>obj = ptr, start = 0, len = size\<rparr>)"

section \<open>Reads\<close>

definition ReadInt8 :: "luau \<Rightarrow> Buffer \<Rightarrow> size_t \<Rightarrow> int option" where
  "ReadInt8 lua b offset =
     (let sp = Span lua b in
      if offset \<ge> len sp then Some 0 else map_option sint (load lua sp offset))"

definition ReadUInt8 :: "luau \<Rightarrow> Buffer \<Rightarrow> size_t \<Rightarrow> u8 option" where
  "ReadUInt8 lua b offset =
     (let sp = Span lua b in if offset \<ge> len sp then Some 0 else load lua sp offset)"

text \<open>The body the multi-byte readers share, at the width \<open>sizeof(T)\<close> and with the conversion of
  the object representation to \<open>T\<close>.\<close>

definition ReadField :: "nat \<Rightarrow> (nat \<Rightarrow> 'v::zero) \<Rightarrow> luau \<Rightarrow> Buffer \<Rightarrow> size_t \<Rightarrow> 'v option" where
  "ReadField w dec lua b offset =
     (let sp = Span lua b in
      if \<not> HasRange sp offset (of_nat w) then Some 0
      else map_option dec (ReadLittleEndian w lua sp offset))"

definition dec_i16 :: "nat \<Rightarrow> int" where "dec_i16 n = sint (of_nat n :: u16)"
definition dec_u16 :: "nat \<Rightarrow> u16" where "dec_u16 n = of_nat n"
definition dec_i32 :: "nat \<Rightarrow> int" where "dec_i32 n = sint (of_nat n :: u32)"
definition dec_u32 :: "nat \<Rightarrow> u32" where "dec_u32 n = of_nat n"
definition dec_u64 :: "nat \<Rightarrow> u64" where "dec_u64 n = of_nat n"

definition ReadInt16 :: "luau \<Rightarrow> Buffer \<Rightarrow> size_t \<Rightarrow> int option" where
  "ReadInt16 = ReadField 2 dec_i16"

definition ReadUInt16 :: "luau \<Rightarrow> Buffer \<Rightarrow> size_t \<Rightarrow> u16 option" where
  "ReadUInt16 = ReadField 2 dec_u16"

definition ReadInt32 :: "luau \<Rightarrow> Buffer \<Rightarrow> size_t \<Rightarrow> int option" where
  "ReadInt32 = ReadField 4 dec_i32"

definition ReadUInt32 :: "luau \<Rightarrow> Buffer \<Rightarrow> size_t \<Rightarrow> u32 option" where
  "ReadUInt32 = ReadField 4 dec_u32"

definition ReadFloat32 :: "luau \<Rightarrow> Buffer \<Rightarrow> size_t \<Rightarrow> u32 option" where
  "ReadFloat32 = ReadField 4 dec_u32"

definition ReadFloat64 :: "luau \<Rightarrow> Buffer \<Rightarrow> size_t \<Rightarrow> u64 option" where
  "ReadFloat64 = ReadField 8 dec_u64"

definition Buffer_ReadString :: "luau \<Rightarrow> Buffer \<Rightarrow> size_t \<Rightarrow> size_t \<Rightarrow> bytes option" where
  "Buffer_ReadString lua b offset cnt =
     (let sp = Span lua b in
      if offset \<ge> len sp then Some []
      else let available = len sp - offset;
               actualCount = (if cnt > available then available else cnt)
           in load_all lua sp offset (unat actualCount))"

section \<open>Writes\<close>

definition WriteInt8 :: "luau \<Rightarrow> Buffer \<Rightarrow> size_t \<Rightarrow> int \<Rightarrow> luau option" where
  "WriteInt8 lua b offset value =
     (let sp = Span lua b in
      if offset < len sp then store lua sp offset (of_int value) else Some lua)"

definition WriteUInt8 :: "luau \<Rightarrow> Buffer \<Rightarrow> size_t \<Rightarrow> u8 \<Rightarrow> luau option" where
  "WriteUInt8 lua b offset value =
     (let sp = Span lua b in if offset < len sp then store lua sp offset value else Some lua)"

definition WriteField :: "nat \<Rightarrow> ('v \<Rightarrow> nat) \<Rightarrow> luau \<Rightarrow> Buffer \<Rightarrow> size_t \<Rightarrow> 'v \<Rightarrow> luau option" where
  "WriteField w enc lua b offset value =
     (let sp = Span lua b in
      if HasRange sp offset (of_nat w) then WriteLittleEndian w lua sp offset (enc value) else Some lua)"

definition enc_i16 :: "int \<Rightarrow> nat" where "enc_i16 v = unat (of_int v :: u16)"
definition enc_i32 :: "int \<Rightarrow> nat" where "enc_i32 v = unat (of_int v :: u32)"

definition WriteInt16 :: "luau \<Rightarrow> Buffer \<Rightarrow> size_t \<Rightarrow> int \<Rightarrow> luau option" where
  "WriteInt16 = WriteField 2 enc_i16"

definition WriteUInt16 :: "luau \<Rightarrow> Buffer \<Rightarrow> size_t \<Rightarrow> u16 \<Rightarrow> luau option" where
  "WriteUInt16 = WriteField 2 unat"

definition WriteInt32 :: "luau \<Rightarrow> Buffer \<Rightarrow> size_t \<Rightarrow> int \<Rightarrow> luau option" where
  "WriteInt32 = WriteField 4 enc_i32"

definition WriteUInt32 :: "luau \<Rightarrow> Buffer \<Rightarrow> size_t \<Rightarrow> u32 \<Rightarrow> luau option" where
  "WriteUInt32 = WriteField 4 unat"

definition WriteFloat32 :: "luau \<Rightarrow> Buffer \<Rightarrow> size_t \<Rightarrow> u32 \<Rightarrow> luau option" where
  "WriteFloat32 = WriteField 4 unat"

definition WriteFloat64 :: "luau \<Rightarrow> Buffer \<Rightarrow> size_t \<Rightarrow> u64 \<Rightarrow> luau option" where
  "WriteFloat64 = WriteField 8 unat"

text \<open>\<open>memcpy\<close>, \<open>memset\<close> and \<open>memmove\<close> of a clamped range. \<open>memmove\<close> reads the whole source
  before it writes, so source and target may overlap.\<close>

definition WriteString :: "luau \<Rightarrow> Buffer \<Rightarrow> size_t \<Rightarrow> bytes \<Rightarrow> luau option" where
  "WriteString lua b offset value =
     (let range = ClampRange (Span lua b) offset (of_nat (length value)) in
      if len range \<noteq> 0 then store_all lua range 0 (take (unat (len range)) value) else Some lua)"

definition Fill :: "luau \<Rightarrow> Buffer \<Rightarrow> size_t \<Rightarrow> u8 \<Rightarrow> size_t \<Rightarrow> luau option" where
  "Fill lua b offset value cnt =
     (let range = ClampRange (Span lua b) offset cnt in
      if len range \<noteq> 0 then store_all lua range 0 (replicate (unat (len range)) value) else Some lua)"

definition CopyFrom :: "luau \<Rightarrow> Buffer \<Rightarrow> size_t \<Rightarrow> Buffer \<Rightarrow> size_t \<Rightarrow> size_t \<Rightarrow> luau option" where
  "CopyFrom lua b targetOffset source sourceOffset cnt =
     (let target = ClampRange (Span lua b) targetOffset cnt;
          sourceRange = ClampRange (Span lua source) sourceOffset cnt;
          copyCount = min (len target) (len sourceRange)
      in if copyCount > 0
         then Option.bind (load_all lua sourceRange 0 (unat copyCount)) (store_all lua target 0)
         else Some lua)"

section \<open>Spans inside their object\<close>

definition span_in :: "luau \<Rightarrow> span \<Rightarrow> nat \<Rightarrow> bytes \<Rightarrow> bool" where
  "span_in lua sp p bs \<longleftrightarrow>
     obj sp = Some p \<and> buffers lua p = Some bs \<and> start sp + unat (len sp) \<le> length bs"

lemma unat_Suc_index: "unat (i::size_t) < unat (n::size_t) \<Longrightarrow> unat (i + 1) = Suc (unat i)"
proof -
  assume "unat i < unat n"
  then have "Suc (unat i) < 18446744073709551616" by (intro unat64_le_less [of _ n]) simp
  then show ?thesis by (simp add: unat_word_ariths mod_less)
qed

lemma unat_plus_index: "unat (i::size_t) + k \<le> unat (n::size_t) \<Longrightarrow> unat (i + of_nat k) = unat i + k"
proof -
  assume "unat i + k \<le> unat n"
  then have "unat i + k < 18446744073709551616" by (rule unat64_le_less)
  then show ?thesis by (simp add: unat_word_ariths unat_of_nat mod_less)
qed

lemma cell_in: "span_in lua sp p bs \<Longrightarrow> unat i < unat (len sp) \<Longrightarrow>
    cell lua sp i = Some (p, bs, start sp + unat i)"
  by (auto simp: cell_def span_in_def word_less_nat_alt)

lemma load_in: "span_in lua sp p bs \<Longrightarrow> unat i < unat (len sp) \<Longrightarrow>
    load lua sp i = Some (bs ! (start sp + unat i))"
  by (simp add: load_def cell_in)

lemma those_map_Some: "(\<And>x. x \<in> set xs \<Longrightarrow> f x = Some (g x)) \<Longrightarrow> those (map f xs) = Some (map g xs)"
  by (induction xs) auto

lemma load_all_in:
  assumes "span_in lua sp p bs" "unat i + n \<le> unat (len sp)"
  shows "load_all lua sp i n = Some (take n (drop (start sp + unat i) bs))"
proof -
  have "load lua sp (i + of_nat k) = Some (bs ! (start sp + unat i + k))" if "k \<in> set [0..<n]" for k
  proof -
    from that assms(2) have "unat (i + of_nat k) = unat i + k"
      by (intro unat_plus_index [of i k "len sp"]) auto
    with that assms show ?thesis by (simp add: load_in add.assoc)
  qed
  then have "load_all lua sp i n = Some (map (\<lambda>k. bs ! (start sp + unat i + k)) [0..<n])"
    unfolding load_all_def by (rule those_map_Some)
  also have "map (\<lambda>k. bs ! (start sp + unat i + k)) [0..<n] = take n (drop (start sp + unat i) bs)"
    using assms by (intro nth_equalityI) (auto simp: span_in_def)
  finally show ?thesis .
qed

lemma store_all_in:
  "span_in lua sp p bs \<Longrightarrow> unat i + length vs \<le> unat (len sp) \<Longrightarrow>
   store_all lua sp i vs =
     Some (lua\<lparr>buffers := (buffers lua)(p \<mapsto> overwrite (start sp + unat i) vs bs)\<rparr>)"
proof (induction vs arbitrary: lua i bs)
  case Nil
  then show ?case by (simp add: span_in_def fun_upd_idem)
next
  case (Cons v vs)
  let ?k = "start sp + unat i"
  let ?lua = "lua\<lparr>buffers := (buffers lua)(p \<mapsto> bs[?k := v])\<rparr>"
  from Cons.prems have st: "store lua sp i v = Some ?lua"
    by (simp add: store_def cell_in)
  have next_i: "unat (i + 1) = Suc (unat i)"
    using Cons.prems by (intro unat_Suc_index [of _ "len sp"]) simp
  have "span_in ?lua sp p (bs[?k := v])"
    using Cons.prems(1) by (simp add: span_in_def)
  moreover have "unat (i + 1) + length vs \<le> unat (len sp)"
    using Cons.prems(2) next_i by simp
  ultimately have "store_all ?lua sp (i + 1) vs =
      Some (?lua\<lparr>buffers := (buffers ?lua)(p \<mapsto> overwrite (start sp + unat (i + 1)) vs (bs[?k := v]))\<rparr>)"
    by (rule Cons.IH)
  moreover have "overwrite (start sp + unat (i + 1)) vs (bs[?k := v]) = overwrite ?k (v # vs) bs"
    using Cons.prems overwrite_Cons [of ?k vs bs v] by (simp add: next_i span_in_def)
  moreover have "?lua\<lparr>buffers := (buffers ?lua)(p \<mapsto> cs)\<rparr> = lua\<lparr>buffers := (buffers lua)(p \<mapsto> cs)\<rparr>" for cs
    by simp
  ultimately show ?case by (simp only: store_all.simps st option.case)
qed

lemma HasRange_iff: "HasRange sp offset width \<longleftrightarrow> unat offset + unat width \<le> unat (len sp)"
proof (cases "offset \<le> len sp")
  case True
  then have "unat (len sp - offset) = unat (len sp) - unat offset"
    by (simp add: unat_sub)
  with True show ?thesis by (auto simp: HasRange_def word_le_nat_alt)
next
  case False
  then show ?thesis by (auto simp: HasRange_def word_le_nat_alt)
qed

section \<open>Well-formed buffers and their content\<close>

definition obj_of :: "luau \<Rightarrow> Buffer \<Rightarrow> nat option" where
  "obj_of lua b = (case Buffer_ref b of Ref k \<Rightarrow> registry lua k | _ \<Rightarrow> None)"

definition content :: "luau \<Rightarrow> Buffer \<Rightarrow> bytes" where
  "content lua b =
     (if Buffer_IsValid b
      then case Option.bind (obj_of lua b) (buffers lua) of None \<Rightarrow> [] | Some bs \<Rightarrow> bs
      else [])"

definition put :: "luau \<Rightarrow> Buffer \<Rightarrow> bytes \<Rightarrow> luau" where
  "put lua b cs =
     (case obj_of lua b of
        None \<Rightarrow> lua
      | Some p \<Rightarrow> if Buffer_IsValid b then lua\<lparr>buffers := (buffers lua)(p \<mapsto> cs)\<rparr> else lua)"

text \<open>The invariant the constructor establishes and every method keeps: a valid buffer's reference
  names a live buffer object, and the cached pointer and size are those of that object.\<close>

definition wf_buffer :: "luau \<Rightarrow> Buffer \<Rightarrow> bool" where
  "wf_buffer lua b \<longleftrightarrow>
     (Buffer_IsValid b \<longrightarrow>
        (case obj_of lua b of None \<Rightarrow> False
         | Some p \<Rightarrow>
           (case buffers lua p of None \<Rightarrow> False
            | Some bs \<Rightarrow> length bs < 2 ^ 64 \<and>
                (hasCache b \<longrightarrow> cachedData b = Some p \<and> cachedSize b = of_nat (length bs)))))"

lemma wf_buffer_validE:
  assumes "wf_buffer lua b" "Buffer_IsValid b"
  obtains p bs where "obj_of lua b = Some p" "buffers lua p = Some bs" "length bs < 2 ^ 64"
    "hasCache b \<Longrightarrow> cachedData b = Some p \<and> cachedSize b = of_nat (length bs)" "content lua b = bs"
  using assms by (auto simp: wf_buffer_def content_def split: option.splits)

lemma content_invalid [simp]: "\<not> Buffer_IsValid b \<Longrightarrow> content lua b = []"
  by (simp add: content_def)

lemma put_invalid [simp]: "\<not> Buffer_IsValid b \<Longrightarrow> put lua b cs = lua"
  by (simp add: put_def split: option.splits)

lemma Span_invalid [simp]: "\<not> Buffer_IsValid b \<Longrightarrow> Span lua b = empty_span"
  by (simp add: Span_def)

lemma lua_tobuffer_obj:
  "obj_of lua b = Some p \<Longrightarrow> buffers lua p = Some bs \<Longrightarrow>
     lua_tobuffer lua (Buffer_ref b) = (Some p, of_nat (length bs))"
  by (auto simp: lua_tobuffer_def obj_of_def split: RefId.splits)

lemma Span_valid:
  assumes "wf_buffer lua b" "Buffer_IsValid b" "obj_of lua b = Some p" "buffers lua p = Some bs"
  shows "Span lua b = \<lparr>obj = Some p, start = 0, len = of_nat (length bs)\<rparr>"
  using assms by (auto simp: Span_def wf_buffer_def lua_tobuffer_obj)

lemma unat_of_nat_64: "n < 2 ^ 64 \<Longrightarrow> unat (of_nat n :: size_t) = n"
  by (simp add: unat_of_nat)

lemma len_Span: "wf_buffer lua b \<Longrightarrow> unat (len (Span lua b)) = length (content lua b)"
proof (cases "Buffer_IsValid b")
  case True
  moreover assume wf: "wf_buffer lua b"
  ultimately obtain p bs where "obj_of lua b = Some p" "buffers lua p = Some bs"
      "length bs < 2 ^ 64" "content lua b = bs"
    by (metis wf_buffer_validE)
  with True wf show ?thesis by (simp add: Span_valid unat_of_nat)
qed (simp add: empty_span_def)

lemma Span_in:
  assumes "wf_buffer lua b" "Buffer_IsValid b"
  obtains p where "obj_of lua b = Some p" "span_in lua (Span lua b) p (content lua b)"
    "start (Span lua b) = 0"
proof -
  from assms obtain p bs where *: "obj_of lua b = Some p" "buffers lua p = Some bs"
      "length bs < 2 ^ 64" "content lua b = bs"
    by (rule wf_buffer_validE)
  then have "span_in lua (Span lua b) p bs"
    using assms by (simp add: span_in_def Span_valid unat_of_nat)
  with * assms show thesis by (intro that [of p]) (auto simp: Span_valid)
qed

lemma below_min_diff: "n \<le> min c (l - off) \<Longrightarrow> 0 < n \<Longrightarrow> off < (l::nat)"
  by arith

lemma ClampRange_Span:
  assumes "wf_buffer lua b"
  shows "unat (len (ClampRange (Span lua b) off cnt)) = min (unat cnt) (length (content lua b) - unat off)"
proof (cases "len (Span lua b) \<le> off")
  case True
  then have "length (content lua b) \<le> unat off"
    using assms len_Span [of lua b] by (simp add: word_le_nat_alt)
  with True show ?thesis by (simp add: ClampRange_def empty_span_def)
next
  case False
  then have "off \<le> len (Span lua b)" by simp
  then have "unat (len (Span lua b) - off) = length (content lua b) - unat off"
    by (simp add: unat_sub len_Span [OF assms])
  with False show ?thesis
    by (auto simp: ClampRange_def Let_def word_less_nat_alt)
qed

lemma ClampRange_in:
  assumes "wf_buffer lua b" "0 < unat (len (ClampRange (Span lua b) off cnt))"
  obtains p where "Buffer_IsValid b" "obj_of lua b = Some p"
    "span_in lua (ClampRange (Span lua b) off cnt) p (content lua b)"
    "start (ClampRange (Span lua b) off cnt) = unat off"
proof -
  let ?sp = "ClampRange (Span lua b) off cnt"
  have sz: "unat (len ?sp) = min (unat cnt) (length (content lua b) - unat off)"
    using assms(1) by (rule ClampRange_Span)
  with assms(2) have less: "unat off < length (content lua b)" by simp
  then have valid: "Buffer_IsValid b" by (cases "Buffer_IsValid b") auto
  have off: "\<not> len (Span lua b) \<le> off"
    using less by (simp add: word_le_nat_alt len_Span [OF assms(1)])
  obtain p where p: "obj_of lua b = Some p" "span_in lua (Span lua b) p (content lua b)"
    and st: "start (Span lua b) = 0"
    using assms(1) valid by (rule Span_in)
  have start: "start ?sp = unat off" and obj: "obj ?sp = obj (Span lua b)"
    using off st by (simp_all add: ClampRange_def Let_def)
  have "unat off + unat (len ?sp) \<le> length (content lua b)"
    using less sz by simp
  with p obj start have "span_in lua ?sp p (content lua b)"
    by (simp add: span_in_def)
  with valid p start show thesis by (intro that [of p])
qed

lemma load_all_clamped:
  assumes "wf_buffer lua b" "n \<le> unat (len (ClampRange (Span lua b) off cnt))" "0 < n"
  shows "load_all lua (ClampRange (Span lua b) off cnt) 0 n = Some (take n (drop (unat off) (content lua b)))"
proof -
  let ?sp = "ClampRange (Span lua b) off cnt"
  from assms obtain p where "span_in lua ?sp p (content lua b)" and st: "start ?sp = unat off"
    by (metis ClampRange_in less_le_trans)
  with assms(2) have "load_all lua ?sp 0 n = Some (take n (drop (start ?sp + unat (0::size_t)) (content lua b)))"
    by (intro load_all_in) auto
  with st show ?thesis by simp
qed

lemma store_all_clamped:
  assumes "wf_buffer lua b" "length vs \<le> unat (len (ClampRange (Span lua b) off cnt))" "0 < length vs"
  shows "store_all lua (ClampRange (Span lua b) off cnt) 0 vs =
           Some (put lua b (overwrite (unat off) vs (content lua b)))"
proof -
  let ?sp = "ClampRange (Span lua b) off cnt"
  from assms obtain p where p: "Buffer_IsValid b" "obj_of lua b = Some p"
      "span_in lua ?sp p (content lua b)" and st: "start ?sp = unat off"
    by (metis ClampRange_in less_le_trans)
  with assms(2) have "store_all lua ?sp 0 vs =
      Some (lua\<lparr>buffers := (buffers lua)(p \<mapsto> overwrite (start ?sp + unat (0::size_t)) vs (content lua b))\<rparr>)"
    by (intro store_all_in) auto
  with st p show ?thesis by (simp add: put_def)
qed

lemma load_all_Span:
  assumes "wf_buffer lua b" "unat i + n \<le> length (content lua b)"
  shows "load_all lua (Span lua b) i n = Some (take n (drop (unat i) (content lua b)))"
proof (cases "Buffer_IsValid b")
  case True
  with assms(1) obtain p where "span_in lua (Span lua b) p (content lua b)" "start (Span lua b) = 0"
    by (rule Span_in)
  with assms show ?thesis using load_all_in [of lua "Span lua b" p "content lua b" i n] by (simp add: len_Span)
next
  case False
  with assms show ?thesis by (simp add: load_all_def)
qed

lemma store_all_Span:
  assumes "wf_buffer lua b" "unat i + length vs \<le> length (content lua b)"
  shows "store_all lua (Span lua b) i vs = Some (put lua b (overwrite (unat i) vs (content lua b)))"
proof (cases "Buffer_IsValid b")
  case True
  with assms(1) obtain p where "obj_of lua b = Some p" "span_in lua (Span lua b) p (content lua b)"
      "start (Span lua b) = 0"
    by (rule Span_in)
  with assms True show ?thesis
    using store_all_in [of lua "Span lua b" p "content lua b" i vs] by (simp add: len_Span put_def)
next
  case False
  with assms show ?thesis by simp
qed

lemma content_put:
  "wf_buffer lua b \<Longrightarrow> length cs = length (content lua b) \<Longrightarrow> content (put lua b cs) b = cs"
  by (cases "Buffer_IsValid b") (auto simp: content_def put_def obj_of_def split: option.splits RefId.splits
      elim!: wf_buffer_validE)

lemma obj_of_buffers [simp]: "obj_of (lua\<lparr>buffers := h\<rparr>) b = obj_of lua b"
  by (simp add: obj_of_def split: RefId.splits)

lemma obj_of_put [simp]: "obj_of (put lua b cs) b' = obj_of lua b'"
  by (simp add: obj_of_def put_def split: RefId.splits option.splits)

lemma wf_put:
  assumes "wf_buffer lua b" "wf_buffer lua b'" "length cs = length (content lua b)"
  shows "wf_buffer (put lua b cs) b'"
proof (cases "Buffer_IsValid b \<and> Buffer_IsValid b'")
  case True
  then obtain p bs p' bs' where *: "obj_of lua b = Some p" "buffers lua p = Some bs" "content lua b = bs"
     "length bs < 2 ^ 64" and **: "obj_of lua b' = Some p'" "buffers lua p' = Some bs'"
     "length bs' < 2 ^ 64" "hasCache b' \<Longrightarrow> cachedData b' = Some p' \<and> cachedSize b' = of_nat (length bs')"
    using assms(1,2) by (metis wf_buffer_validE)
  then show ?thesis
    using True assms(3) by (cases "p = p'") (auto simp: wf_buffer_def put_def [of lua b])
next
  case False
  then consider "\<not> Buffer_IsValid b" | "\<not> Buffer_IsValid b'" by blast
  then show ?thesis
  proof cases
    case 1
    with assms(2) show ?thesis by simp
  next
    case 2
    then show ?thesis by (simp add: wf_buffer_def)
  qed
qed

lemma put_content: "wf_buffer lua b \<Longrightarrow> put lua b (content lua b) = lua"
proof (cases "Buffer_IsValid b")
  case True
  moreover assume "wf_buffer lua b"
  ultimately obtain p where "obj_of lua b = Some p" "buffers lua p = Some (content lua b)"
    by (metis wf_buffer_validE)
  with True show ?thesis by (simp add: put_def fun_upd_idem)
qed simp

section \<open>What each method does\<close>

abbreviation fits :: "luau \<Rightarrow> Buffer \<Rightarrow> size_t \<Rightarrow> nat \<Rightarrow> bool" where
  "fits lua b offset w \<equiv> unat offset + w \<le> length (content lua b)"

lemma HasRange_Span: "wf_buffer lua b \<Longrightarrow> w < 2 ^ 64 \<Longrightarrow> HasRange (Span lua b) offset (of_nat w) \<longleftrightarrow> fits lua b offset w"
  by (simp add: HasRange_iff len_Span unat_of_nat)

lemma ReadField_spec:
  "wf_buffer lua b \<Longrightarrow> w < 2 ^ 64 \<Longrightarrow>
   ReadField w dec lua b offset =
     Some (if fits lua b offset w then dec (le_nat (take w (drop (unat offset) (content lua b)))) else 0)"
  by (simp add: ReadField_def Let_def HasRange_Span ReadLittleEndian_def load_all_Span)

lemma WriteField_spec:
  "wf_buffer lua b \<Longrightarrow> w < 2 ^ 64 \<Longrightarrow>
   WriteField w enc lua b offset v =
     Some (if fits lua b offset w
           then put lua b (overwrite (unat offset) (le_bytes w (enc v)) (content lua b)) else lua)"
  by (simp add: WriteField_def Let_def HasRange_Span WriteLittleEndian_def store_all_Span)

lemma in_Span_iff: "wf_buffer lua b \<Longrightarrow> len (Span lua b) \<le> offset \<longleftrightarrow> \<not> fits lua b offset 1"
  by (auto simp: word_le_nat_alt len_Span)

lemma in_Span_less: "wf_buffer lua b \<Longrightarrow> offset < len (Span lua b) \<longleftrightarrow> fits lua b offset 1"
  by (auto simp: word_less_nat_alt len_Span)

lemma load_Span:
  assumes "wf_buffer lua b" and l: "fits lua b offset 1"
  shows "load lua (Span lua b) offset = Some (content lua b ! unat offset)"
proof -
  have "load_all lua (Span lua b) offset 1 = Some (take 1 (drop (unat offset) (content lua b)))"
    using assms by (intro load_all_Span) auto
  with l show ?thesis by (auto simp: load_all_def take_Suc hd_drop_conv_nth split: option.splits)
qed

lemma store_Span:
  assumes "wf_buffer lua b" "fits lua b offset 1"
  shows "store lua (Span lua b) offset v = Some (put lua b (overwrite (unat offset) [v] (content lua b)))"
proof -
  have "store_all lua (Span lua b) offset [v] = Some (put lua b (overwrite (unat offset) [v] (content lua b)))"
    using assms by (intro store_all_Span) auto
  then show ?thesis by (auto split: option.splits)
qed

lemmas byte_access = Let_def in_Span_iff in_Span_less load_Span store_Span

lemma ReadUInt8_spec: "wf_buffer lua b \<Longrightarrow>
   ReadUInt8 lua b offset = Some (if fits lua b offset 1 then content lua b ! unat offset else 0)"
  by (simp add: ReadUInt8_def byte_access)

lemma ReadInt8_spec: "wf_buffer lua b \<Longrightarrow>
   ReadInt8 lua b offset = Some (if fits lua b offset 1 then sint (content lua b ! unat offset) else 0)"
  by (simp add: ReadInt8_def byte_access)

lemma WriteUInt8_spec: "wf_buffer lua b \<Longrightarrow>
   WriteUInt8 lua b offset v =
     Some (if fits lua b offset 1 then put lua b (overwrite (unat offset) [v] (content lua b)) else lua)"
  by (simp add: WriteUInt8_def byte_access)

lemma WriteInt8_spec: "wf_buffer lua b \<Longrightarrow>
   WriteInt8 lua b offset v =
     Some (if fits lua b offset 1 then put lua b (overwrite (unat offset) [of_int v] (content lua b)) else lua)"
  by (simp add: WriteInt8_def byte_access)

lemma min_sub_word: "(off::size_t) \<le> n \<Longrightarrow>
   unat (if n - off < cnt then n - off else cnt) = min (unat cnt) (unat n - unat off)"
  by (auto simp: unat_sub word_less_nat_alt)

lemma Buffer_ReadString_spec:
  assumes "wf_buffer lua b"
  shows "Buffer_ReadString lua b offset cnt = Some (take (unat cnt) (drop (unat offset) (content lua b)))"
proof (cases "len (Span lua b) \<le> offset")
  case True
  with assms show ?thesis by (auto simp: Buffer_ReadString_def Let_def in_Span_iff)
next
  case False
  let ?n = "min (unat cnt) (length (content lua b) - unat offset)"
  from False have "Buffer_ReadString lua b offset cnt = load_all lua (Span lua b) offset ?n"
    by (simp add: Buffer_ReadString_def Let_def min_sub_word len_Span [OF assms] del: if_split)
  also have "\<dots> = Some (take ?n (drop (unat offset) (content lua b)))"
    using assms False by (intro load_all_Span) (auto simp: in_Span_iff)
  also have "take ?n (drop (unat offset) (content lua b)) = take (unat cnt) (drop (unat offset) (content lua b))"
    by (simp add: min_def)
  finally show ?thesis .
qed

text \<open>The bytes that \<open>vs\<close> leaves at \<open>offset\<close>, cut off at the end of the content.\<close>

definition clip :: "size_t \<Rightarrow> bytes \<Rightarrow> bytes \<Rightarrow> bytes" where
  "clip offset vs cs = overwrite (unat offset) (take (length cs - unat offset) vs) cs"

lemma length_clip [simp]: "length (clip offset vs cs) = length cs"
  by (cases "unat offset \<le> length cs") (auto simp: clip_def)

lemma store_clipped:
  assumes "wf_buffer lua b" and small: "length vs < 2 ^ 64"
  shows "(if len (ClampRange (Span lua b) offset (of_nat (length vs))) \<noteq> 0
          then store_all lua (ClampRange (Span lua b) offset (of_nat (length vs))) 0
                 (take (unat (len (ClampRange (Span lua b) offset (of_nat (length vs))))) vs)
          else Some lua)
         = Some (put lua b (clip offset vs (content lua b)))" (is "(if len ?r \<noteq> 0 then _ else _) = _")
proof -
  let ?m = "length (content lua b) - unat offset"
  have n: "unat (len ?r) = min (length vs) ?m"
    using small by (simp add: ClampRange_Span [OF assms(1)] unat_of_nat)
  have tk: "take (unat (len ?r)) vs = take ?m vs"
    by (simp add: n min_def)
  show ?thesis
  proof (cases "len ?r = 0")
    case True
    with n have "take ?m vs = []" by (auto simp: min_def split: if_splits)
    then have "clip offset vs (content lua b) = content lua b" by (simp only: clip_def overwrite_Nil)
    with True show ?thesis by (simp add: put_content [OF assms(1)])
  next
    case False
    then have "0 < unat (len ?r)" by (simp add: unat_gt_0)
    with n have "store_all lua ?r 0 (take ?m vs) = Some (put lua b (overwrite (unat offset) (take ?m vs) (content lua b)))"
      by (intro store_all_clamped [OF assms(1)]) auto
    with False show ?thesis by (simp add: clip_def tk)
  qed
qed

lemma WriteString_spec: "wf_buffer lua b \<Longrightarrow> length vs < 2 ^ 64 \<Longrightarrow>
    WriteString lua b offset vs = Some (put lua b (clip offset vs (content lua b)))"
  using store_clipped by (simp only: WriteString_def Let_def)

lemma Fill_spec: "wf_buffer lua b \<Longrightarrow>
    Fill lua b offset v cnt = Some (put lua b (clip offset (replicate (unat cnt) v) (content lua b)))"
proof -
  assume wf: "wf_buffer lua b"
  let ?r = "ClampRange (Span lua b) offset cnt"
  have rep: "replicate (unat (len ?r)) v = take (unat (len ?r)) (replicate (unat cnt) v)"
    by (simp add: ClampRange_Span [OF wf])
  have cnt: "(of_nat (length (replicate (unat cnt) v)) :: size_t) = cnt" by simp
  have "length (replicate (unat cnt) v) < 2 ^ 64" using unat64_less [of cnt] by simp
  from store_clipped [OF wf this, of offset] show ?thesis
    by (simp only: Fill_def Let_def cnt rep)
qed

lemma take_copy_count:
  "take (min (min c t) (min c (length xs - s))) (drop s xs) = take t (take c (drop s xs))"
proof -
  have "min (min c t) (min c (length xs - s)) = min (min t c) (length (drop s xs))"
    by (simp add: min.commute min.left_commute)
  moreover have "take (min n (length ys)) ys = take n ys" for n and ys :: "'a list"
    by (simp add: min_def)
  ultimately show ?thesis by (simp only: take_take)
qed

lemma CopyFrom_spec:
  assumes "wf_buffer lua b" "wf_buffer lua src"
  shows "CopyFrom lua b toff src soff cnt =
     Some (put lua b (clip toff (take (unat cnt) (drop (unat soff) (content lua src))) (content lua b)))"
proof -
  let ?t = "ClampRange (Span lua b) toff cnt" and ?s = "ClampRange (Span lua src) soff cnt"
  let ?n = "unat (min (len ?t) (len ?s))"
  let ?vs = "take (unat cnt) (drop (unat soff) (content lua src))"
  have n: "?n = min (unat (len ?t)) (unat (len ?s))"
    by (simp add: min_def word_le_nat_alt)
  then have tk: "take ?n (drop (unat soff) (content lua src)) = take (length (content lua b) - unat toff) ?vs"
    by (simp only: ClampRange_Span [OF assms(1)] ClampRange_Span [OF assms(2)] take_copy_count)
  show ?thesis
  proof (cases "min (len ?t) (len ?s) > 0")
    case True
    then have pos: "0 < ?n" by (simp add: word_less_nat_alt)
    then have "load_all lua ?s 0 ?n = Some (take ?n (drop (unat soff) (content lua src)))"
      using n by (intro load_all_clamped [OF assms(2)]) auto
    moreover have "length (take ?n (drop (unat soff) (content lua src))) = ?n"
      using n pos by (auto simp: ClampRange_Span [OF assms(2)])
    then have "store_all lua ?t 0 (take ?n (drop (unat soff) (content lua src))) =
        Some (put lua b (overwrite (unat toff) (take ?n (drop (unat soff) (content lua src))) (content lua b)))"
      using n pos by (intro store_all_clamped [OF assms(1)]) auto
    ultimately show ?thesis
      using True by (simp only: CopyFrom_def Let_def clip_def tk if_True bind.bind_lunit)
  next
    case False
    then have "?n = 0" by (simp add: word_less_nat_alt)
    with tk have "take (length (content lua b) - unat toff) ?vs = []" by simp
    then have "clip toff ?vs (content lua b) = content lua b" by (simp only: clip_def overwrite_Nil)
    with False show ?thesis by (simp only: CopyFrom_def Let_def if_False put_content [OF assms(1)])
  qed
qed

section \<open>The contract of a numeric field\<close>

text \<open>What \<open>ReadLittleEndian<T>\<close> and \<open>WriteLittleEndian<T>\<close> rely on for a type \<open>T\<close> of \<open>w\<close> bytes:
  the object representation of every value \<open>rng\<close> admits reads back as that value.\<close>

locale fixed_field =
  fixes w :: nat
    and enc :: "'v::zero \<Rightarrow> nat"
    and dec :: "nat \<Rightarrow> 'v"
    and rng :: "'v \<Rightarrow> bool"
  assumes w_small: "w < 2 ^ 64"
    and dec_enc: "rng v \<Longrightarrow> dec (enc v mod 256 ^ w) = v"
begin

lemma read_after_write:
  assumes "wf_buffer lua b" "fits lua b offset w" "rng v"
  shows "\<exists>lua'. WriteField w enc lua b offset v = Some lua' \<and> ReadField w dec lua' b offset = Some v"
proof -
  let ?cs = "overwrite (unat offset) (le_bytes w (enc v)) (content lua b)"
  have wr: "WriteField w enc lua b offset v = Some (put lua b ?cs)"
    using assms w_small by (simp add: WriteField_spec)
  have "length ?cs = length (content lua b)" using assms by simp
  then have c: "content (put lua b ?cs) b = ?cs" and wf: "wf_buffer (put lua b ?cs) b"
    using assms(1) by (simp_all add: content_put wf_put)
  have "take w (drop (unat offset) ?cs) = le_bytes w (enc v)"
    using assms(2) overwrite_read_same [of "unat offset" "le_bytes w (enc v)" "content lua b"] by simp
  then have "ReadField w dec (put lua b ?cs) b offset = Some v"
    using wf w_small assms by (simp add: ReadField_spec c dec_enc)
  with wr show ?thesis by blast
qed

lemma write_keeps_disjoint:
  assumes "wf_buffer lua b" "WriteField w enc lua b offset v = Some lua'" "w' < 2 ^ 64"
    and disjoint: "unat offset' + w' \<le> unat offset \<or> unat offset + w \<le> unat offset'"
  shows "ReadField w' dec' lua' b offset' = ReadField w' dec' lua b offset'"
proof (cases "fits lua b offset w")
  case True
  let ?cs = "overwrite (unat offset) (le_bytes w (enc v)) (content lua b)"
  have lua': "lua' = put lua b ?cs"
    using assms(1,2) True w_small by (simp add: WriteField_spec)
  have "length ?cs = length (content lua b)" using True by simp
  then have c: "content (put lua b ?cs) b = ?cs" and wf: "wf_buffer (put lua b ?cs) b"
    using assms(1) by (simp_all add: content_put wf_put)
  have "take w' (drop (unat offset') ?cs) = take w' (drop (unat offset') (content lua b))"
    using disjoint True by (auto intro: overwrite_read_before overwrite_read_after)
  with assms(1,3) wf True show ?thesis by (simp add: lua' ReadField_spec c)
next
  case False
  with assms(1,2) w_small show ?thesis by (simp add: WriteField_spec)
qed

end

lemma of_nat_mod_pow: "LENGTH('a::len) = 8 * w \<Longrightarrow> (of_nat (n mod 256 ^ w) :: 'a word) = of_nat n"
proof -
  assume w: "LENGTH('a) = 8 * w"
  have "(256::nat) ^ w = 2 ^ LENGTH('a)" by (simp add: w power_mult)
  then show ?thesis by (simp add: word_of_nat_eq_iff take_bit_eq_mod)
qed

lemma sint_of_int_self: "- (2 ^ (LENGTH('a::len) - 1)) \<le> v \<Longrightarrow> v < 2 ^ (LENGTH('a) - 1) \<Longrightarrow> sint (of_int v :: 'a word) = v"
  by (simp add: sint_sbintrunc' signed_take_bit_int_eq_self)

interpretation f_i16: fixed_field 2 enc_i16 dec_i16 "\<lambda>v. - 32768 \<le> v \<and> v < 32768"
  by unfold_locales
    (auto simp: enc_i16_def dec_i16_def of_nat_mod_pow [of 2, simplified] sint_of_int_self)

interpretation f_u16: fixed_field 2 unat dec_u16 "\<lambda>v. True"
  by unfold_locales (simp_all add: dec_u16_def of_nat_mod_pow [of 2, simplified])

interpretation f_i32: fixed_field 4 enc_i32 dec_i32 "\<lambda>v. - 2147483648 \<le> v \<and> v < 2147483648"
  by unfold_locales
    (auto simp: enc_i32_def dec_i32_def of_nat_mod_pow [of 4, simplified] sint_of_int_self)

interpretation f_u32: fixed_field 4 unat dec_u32 "\<lambda>v. True"
  by unfold_locales (simp_all add: dec_u32_def of_nat_mod_pow [of 4, simplified])

interpretation f_u64: fixed_field 8 unat dec_u64 "\<lambda>v. True"
  by unfold_locales (simp_all add: dec_u64_def of_nat_mod_pow [of 8, simplified])

section \<open>Properties\<close>

definition safe_write :: "luau \<Rightarrow> luau option \<Rightarrow> bool" where
  "safe_write lua r \<longleftrightarrow> (\<exists>lua'. r = Some lua' \<and> (\<forall>b. wf_buffer lua b \<longrightarrow> wf_buffer lua' b))"

lemma safe_write_put: "wf_buffer lua b \<Longrightarrow> length cs = length (content lua b) \<Longrightarrow> safe_write lua (Some (put lua b cs))"
  by (simp add: safe_write_def wf_put)

lemma safe_write_same: "safe_write lua (Some lua)"
  by (simp add: safe_write_def)

lemma safe_WriteField: "wf_buffer lua b \<Longrightarrow> w < 2 ^ 64 \<Longrightarrow> safe_write lua (WriteField w enc lua b offset v)"
  by (simp add: WriteField_spec safe_write_put safe_write_same)

lemmas numeric_defs = ReadInt16_def ReadUInt16_def ReadInt32_def ReadUInt32_def ReadFloat32_def ReadFloat64_def
  WriteInt16_def WriteUInt16_def WriteInt32_def WriteUInt32_def WriteFloat32_def WriteFloat64_def

lemma nth_clip:
  assumes "i < length cs"
  shows "clip offset vs cs ! i =
    (if unat offset \<le> i \<and> i < unat offset + length vs then vs ! (i - unat offset) else cs ! i)"
proof (cases "unat offset \<le> length cs")
  case True
  then show ?thesis using assms
    by (auto simp: clip_def overwrite_def nth_append min_def)
next
  case False
  then show ?thesis using assms by (simp add: clip_def)
qed

text \<open>C32. \<open>HasRange\<close> computes in 64-bit words, where \<open>offset + width\<close> could wrap around; it
  nevertheless holds exactly when the mathematical sum of the offset and the width is within the
  span.\<close>

theorem HasRange_exact:
  "HasRange sp offset width \<longleftrightarrow> unat offset + unat width \<le> unat (len sp)"
  by (rule HasRange_iff)

text \<open>C16. Memory safety of the whole class: on well-formed buffers no method, whatever its offset
  and count, indexes a span outside its object (no result is \<^const>\<open>None\<close>), and every write
  keeps every buffer over the same heap well-formed, aliases of the target included.\<close>

theorem buffer_memory_safe:
  assumes "wf_buffer lua b" "wf_buffer lua src" "length str < 2 ^ 64"
  shows "ReadInt8 lua b off \<noteq> None \<and>
    ReadUInt8 lua b off \<noteq> None \<and>
    ReadInt16 lua b off \<noteq> None \<and>
    ReadUInt16 lua b off \<noteq> None \<and>
    ReadInt32 lua b off \<noteq> None \<and>
    ReadUInt32 lua b off \<noteq> None \<and>
    ReadFloat32 lua b off \<noteq> None \<and>
    ReadFloat64 lua b off \<noteq> None \<and>
    Buffer_ReadString lua b off n \<noteq> None \<and>
    safe_write lua (WriteInt8 lua b off i) \<and>
    safe_write lua (WriteUInt8 lua b off v8) \<and>
    safe_write lua (WriteInt16 lua b off i) \<and>
    safe_write lua (WriteUInt16 lua b off v16) \<and>
    safe_write lua (WriteInt32 lua b off i) \<and>
    safe_write lua (WriteUInt32 lua b off v32) \<and>
    safe_write lua (WriteFloat32 lua b off v32) \<and>
    safe_write lua (WriteFloat64 lua b off v64) \<and>
    safe_write lua (WriteString lua b off str) \<and>
    safe_write lua (Fill lua b off v8 n) \<and>
    safe_write lua (CopyFrom lua b off src off' n)"
  using assms
  by (simp add: ReadInt8_spec ReadUInt8_spec numeric_defs ReadField_spec Buffer_ReadString_spec
      WriteInt8_spec WriteUInt8_spec WriteString_spec Fill_spec CopyFrom_spec
      safe_WriteField safe_write_put safe_write_same)

text \<open>A heap with one eight-byte buffer, and the \<open>Buffer\<close> the constructor makes of it.\<close>

definition demo_heap :: luau where
  "demo_heap = \<lparr>registry = Map.empty, buffers = [7 \<mapsto> [1, 2, 3, 4, 5, 6, 7, 8]]\<rparr>"

definition demo_buffer :: Buffer where
  "demo_buffer = fst (Buffer_new demo_heap (Some 7) 3)"

definition demo_lua :: luau where
  "demo_lua = snd (Buffer_new demo_heap (Some 7) 3)"

lemmas demo_defs = demo_heap_def demo_buffer_def demo_lua_def Buffer_new_def Buffer_default_def
  lua_tobuffer_def Buffer_IsValid_def Buffer_ref_def obj_of_def

lemma demo_wf: "wf_buffer demo_lua demo_buffer"
  by (simp add: wf_buffer_def demo_defs)

lemma demo_content: "content demo_lua demo_buffer = [1, 2, 3, 4, 5, 6, 7, 8]"
  by (simp add: content_def demo_defs)

theorem buffer_memory_safe_witness:
  "safe_write demo_lua (WriteUInt32 demo_lua demo_buffer 18446744073709551615 9) \<and>
   ReadUInt32 demo_lua demo_buffer 6 \<noteq> None"
  using buffer_memory_safe [OF demo_wf demo_wf, of "[]" 6]
    buffer_memory_safe [OF demo_wf demo_wf, of "[]" 18446744073709551615] by simp

text \<open>The constructor establishes the invariant: on a live buffer object of any size below
  \<open>2^64\<close> (an empty one too) the new \<open>Buffer\<close> is valid, well-formed and shows exactly the object's
  bytes; on any other value it is the invalid default, whose reads give zero.\<close>

theorem Buffer_new_wf:
  assumes "v = None \<or> (\<exists>p. v = Some p \<and> buffers lua p = Some bs \<and> length bs < 2 ^ 64)"
    and "Buffer_new lua v r = (b, lua')"
  shows "wf_buffer lua' b \<and> (v \<noteq> None \<longrightarrow> Buffer_IsValid b \<and> content lua' b = bs) \<and>
    (v = None \<longrightarrow> \<not> Buffer_IsValid b \<and> ReadUInt32 lua' b off = Some 0)"
  using assms
  by (auto simp: Buffer_new_def Buffer_default_def lua_tobuffer_def wf_buffer_def content_def obj_of_def
      Buffer_ref_def Buffer_IsValid_def numeric_defs ReadField_def Span_def empty_span_def HasRange_def
      Let_def split: option.splits)

theorem Buffer_new_wf_witness: "wf_buffer demo_lua demo_buffer \<and> content demo_lua demo_buffer = [1, 2, 3, 4, 5, 6, 7, 8]"
proof -
  have b: "Buffer_new demo_heap (Some 7) 3 = (demo_buffer, demo_lua)"
    by (simp add: demo_buffer_def demo_lua_def)
  have live: "Some 7 = None \<or> (\<exists>p. Some 7 = Some p \<and> buffers demo_heap p = Some [1, 2, 3, 4, 5, 6, 7, 8] \<and>
      length [1, 2, 3, 4, 5, 6, 7, 8 :: u8] < 2 ^ 64)"
    by (simp add: demo_heap_def)
  show ?thesis using Buffer_new_wf [OF live b] by simp
qed

text \<open>Round trip: a numeric value written at an offset where it fits is the value read back
  there, for every numeric type of the class, signed ones over their whole range.\<close>

theorem buffer_field_roundtrip:
  assumes "wf_buffer lua b"
  shows "(fits lua b off 2 \<longrightarrow> - 32768 \<le> i \<and> i < 32768 \<longrightarrow>
      (\<exists>lua'. WriteInt16 lua b off i = Some lua' \<and> ReadInt16 lua' b off = Some i)) \<and>
    (fits lua b off 2 \<longrightarrow> (\<exists>lua'. WriteUInt16 lua b off v16 = Some lua' \<and> ReadUInt16 lua' b off = Some v16)) \<and>
    (fits lua b off 4 \<longrightarrow> - 2147483648 \<le> i \<and> i < 2147483648 \<longrightarrow>
      (\<exists>lua'. WriteInt32 lua b off i = Some lua' \<and> ReadInt32 lua' b off = Some i)) \<and>
    (fits lua b off 4 \<longrightarrow> (\<exists>lua'. WriteUInt32 lua b off v32 = Some lua' \<and> ReadUInt32 lua' b off = Some v32)) \<and>
    (fits lua b off 4 \<longrightarrow> (\<exists>lua'. WriteFloat32 lua b off v32 = Some lua' \<and> ReadFloat32 lua' b off = Some v32)) \<and>
    (fits lua b off 8 \<longrightarrow> (\<exists>lua'. WriteFloat64 lua b off v64 = Some lua' \<and> ReadFloat64 lua' b off = Some v64))"
  using assms unfolding numeric_defs
  by (auto intro: f_i16.read_after_write f_u16.read_after_write f_i32.read_after_write
      f_u32.read_after_write f_u64.read_after_write)

theorem buffer_field_roundtrip_witness:
  "\<exists>lua'. WriteInt32 demo_lua demo_buffer 4 (- 77) = Some lua' \<and> ReadInt32 lua' demo_buffer 4 = Some (- 77)"
  using buffer_field_roundtrip [OF demo_wf, of 4 "- 77"] by (simp add: demo_content)

text \<open>C26. \<open>CopyFrom\<close> is \<open>memmove\<close> with clamping, also when both buffers are the same object: each
  byte of the target range that exists and has a source byte receives the source byte as it was
  before the call; every other byte of the target is unchanged.\<close>

theorem CopyFrom_memmove:
  assumes "wf_buffer lua b" "wf_buffer lua src"
  shows "\<exists>lua'. CopyFrom lua b toff src soff cnt = Some lua' \<and>
    length (content lua' b) = length (content lua b) \<and>
    (\<forall>i < length (content lua b). content lua' b ! i =
      (if unat toff \<le> i \<and> i < unat toff + unat cnt \<and> unat soff + (i - unat toff) < length (content lua src)
       then content lua src ! (unat soff + (i - unat toff)) else content lua b ! i))"
proof -
  let ?vs = "take (unat cnt) (drop (unat soff) (content lua src))"
  let ?lua = "put lua b (clip toff ?vs (content lua b))"
  have "content ?lua b = clip toff ?vs (content lua b)"
    using assms(1) by (simp add: content_put)
  with assms show ?thesis
    by (intro exI [of _ ?lua]) (auto simp: CopyFrom_spec nth_clip)
qed

theorem CopyFrom_memmove_witness:
  "\<exists>lua'. CopyFrom demo_lua demo_buffer 2 demo_buffer 0 4 = Some lua' \<and> content lua' demo_buffer ! 3 = 2"
  using CopyFrom_memmove [OF demo_wf demo_wf, of 2 0 4] by (auto simp: demo_content)

end
