(* ===== verification/Lode_Sha256.thy ===== *)
theory Lode_Sha256
  imports Lode_Prelude
begin

text \<open>
  The SHA-256 implementation of \<open>src/src/Sha256.cpp\<close>: the compression function, the buffering hasher
  with its \<open>Update\<close> loop and \<open>Finalize\<close>, and the three entry points. \<open>Update\<close>'s loop does not end
  when the block buffer is full on entry (it would copy nothing for ever), so it is a partial
  function whose \<^const>\<open>None\<close> is "does not return"; the invariant of the hasher excludes that.
  The specification is the padded message of FIPS 180-4 folded over its 64-byte blocks.
\<close>

section \<open>The compression function\<close>

definition rotr :: "u32 \<Rightarrow> nat \<Rightarrow> u32" where
  "rotr x n = drop_bit n x OR push_bit (32 - n) x"

definition Sha256_K :: "u32 list" where
  "Sha256_K = concat [
    [0x428a2f98, 0x71374491, 0xb5c0fbcf, 0xe9b5dba5, 0x3956c25b, 0x59f111f1, 0x923f82a4, 0xab1c5ed5],
    [0xd807aa98, 0x12835b01, 0x243185be, 0x550c7dc3, 0x72be5d74, 0x80deb1fe, 0x9bdc06a7, 0xc19bf174],
    [0xe49b69c1, 0xefbe4786, 0x0fc19dc6, 0x240ca1cc, 0x2de92c6f, 0x4a7484aa, 0x5cb0a9dc, 0x76f988da],
    [0x983e5152, 0xa831c66d, 0xb00327c8, 0xbf597fc7, 0xc6e00bf3, 0xd5a79147, 0x06ca6351, 0x14292967, 0x27b70a85],
    [0x2e1b2138, 0x4d2c6dfc, 0x53380d13, 0x650a7354, 0x766a0abb, 0x81c2c92e, 0x92722c85, 0xa2bfe8a1],
    [0xa81a664b, 0xc24b8b70, 0xc76c51a3, 0xd192e819, 0xd6990624, 0xf40e3585, 0x106aa070, 0x19a4c116],
    [0x1e376c08, 0x2748774c, 0x34b0bcb5, 0x391c0cb3, 0x4ed8aa4a, 0x5b9cca4f, 0x682e6ff3, 0x748f82ee],
    [0x78a5636f, 0x84c87814, 0x8cc70208, 0x90befffa, 0xa4506ceb, 0xbef9a3f7, 0xc67178f2]]"

definition be32 :: "u8 \<Rightarrow> u8 \<Rightarrow> u8 \<Rightarrow> u8 \<Rightarrow> u32" where
  "be32 b0 b1 b2 b3 =
     push_bit 24 (ucast b0) OR push_bit 16 (ucast b1) OR push_bit 8 (ucast b2) OR ucast b3"

definition block_words :: "bytes \<Rightarrow> u32 list" where
  "block_words block =
     map (\<lambda>i. be32 (block ! (i * 4)) (block ! (i * 4 + 1)) (block ! (i * 4 + 2)) (block ! (i * 4 + 3))) [0..<16]"

text \<open>The message schedule \<open>w\<close> grows by one word per iteration of the loop from 16 to 63.\<close>

definition schedule_step :: "u32 list \<Rightarrow> u32 list" where
  "schedule_step w =
     (let i = length w;
          s0 = rotr (w ! (i - 15)) 7 XOR rotr (w ! (i - 15)) 18 XOR drop_bit 3 (w ! (i - 15));
          s1 = rotr (w ! (i - 2)) 17 XOR rotr (w ! (i - 2)) 19 XOR drop_bit 10 (w ! (i - 2))
      in w @ [w ! (i - 16) + s0 + w ! (i - 7) + s1])"

fun iterate :: "nat \<Rightarrow> ('a \<Rightarrow> 'a) \<Rightarrow> 'a \<Rightarrow> 'a" where
  "iterate 0 f x = x"
| "iterate (Suc n) f x = iterate n f (f x)"

type_synonym regs = "u32 \<times> u32 \<times> u32 \<times> u32 \<times> u32 \<times> u32 \<times> u32 \<times> u32"

definition Sha256_round :: "regs \<Rightarrow> u32 \<times> u32 \<Rightarrow> regs" where
  "Sha256_round r kw =
     (case r of (a, b, c, d, e, f, g, h) \<Rightarrow>
      case kw of (k, w) \<Rightarrow>
      let s1 = rotr e 6 XOR rotr e 11 XOR rotr e 25;
          ch = (e AND f) XOR (NOT e AND g);
          t1 = h + s1 + ch + k + w;
          s0 = rotr a 2 XOR rotr a 13 XOR rotr a 22;
          maj = (a AND b) XOR (a AND c) XOR (b AND c);
          t2 = s0 + maj
      in (t1 + t2, a, b, c, d + t1, e, f, g))"

definition Sha256Transform :: "u32 list \<Rightarrow> bytes \<Rightarrow> u32 list" where
  "Sha256Transform state block =
     (let w = iterate 48 schedule_step (block_words block);
          (a, b, c, d, e, f, g, h) =
            foldl Sha256_round (state ! 0, state ! 1, state ! 2, state ! 3, state ! 4, state ! 5, state ! 6, state ! 7)
              (zip Sha256_K w)
      in [state ! 0 + a, state ! 1 + b, state ! 2 + c, state ! 3 + d,
          state ! 4 + e, state ! 5 + f, state ! 6 + g, state ! 7 + h])"

section \<open>The buffering hasher\<close>

record Sha256Hasher =
  hstate :: "u32 list"
  hblock :: bytes
  blockSize :: nat
  totalBytes :: u64

definition Sha256_IV :: "u32 list" where
  "Sha256_IV = [0x6a09e667, 0xbb67ae85, 0x3c6ef372, 0xa54ff53a, 0x510e527f, 0x9b05688c, 0x1f83d9ab, 0x5be0cd19]"

definition Sha256Hasher_init :: Sha256Hasher where
  "Sha256Hasher_init = \<lparr>hstate = Sha256_IV, hblock = replicate 64 0, blockSize = 0, totalBytes = 0\<rparr>"

text \<open>One iteration of \<open>Update\<close>'s loop: copy what fits, compress a full block.\<close>

definition Update_copy :: "Sha256Hasher \<Rightarrow> bytes \<Rightarrow> Sha256Hasher \<times> bytes" where
  "Update_copy h input =
     (let copied = min (length input) (64 - blockSize h);
          block' = overwrite (blockSize h) (take copied input) (hblock h);
          size' = blockSize h + copied;
          h' = h\<lparr>hblock := block', blockSize := size'\<rparr>
      in (if size' = 64 then h'\<lparr>hstate := Sha256Transform (hstate h') block', blockSize := 0\<rparr> else h',
          drop copied input))"

partial_function (option) Update_loop :: "Sha256Hasher \<Rightarrow> bytes \<Rightarrow> Sha256Hasher option" where
  "Update_loop h input =
     (if input = [] then Some h else Update_loop (fst (Update_copy h input)) (snd (Update_copy h input)))"

definition Update :: "Sha256Hasher \<Rightarrow> bytes \<Rightarrow> Sha256Hasher option" where
  "Update h input = Update_loop (h\<lparr>totalBytes := totalBytes h + of_nat (length input)\<rparr>) input"

definition be64_bytes :: "u64 \<Rightarrow> bytes" where
  "be64_bytes v = map (\<lambda>i. ucast (drop_bit (i * 8) v AND 0xff)) [7, 6, 5, 4, 3, 2, 1, 0]"

definition be32_bytes :: "u32 \<Rightarrow> bytes" where
  "be32_bytes v = [ucast (drop_bit 24 v), ucast (drop_bit 16 v), ucast (drop_bit 8 v), ucast v]"

definition Finalize :: "Sha256Hasher \<Rightarrow> bytes" where
  "Finalize h =
     (let bitLength = totalBytes h * 8;
          blk0 = (hblock h)[blockSize h := 0x80];
          n0 = blockSize h + 1;
          (st1, blk1, n1) =
            (if n0 > 56
             then let blk = overwrite n0 (replicate (64 - n0) 0) blk0
                  in (Sha256Transform (hstate h) blk, blk, 0)
             else (hstate h, blk0, n0));
          blk2 = overwrite n1 (replicate (56 - n1) 0) blk1;
          blk3 = overwrite 56 (be64_bytes bitLength) blk2
      in concat (map be32_bytes (Sha256Transform st1 blk3)))"

section \<open>Entry points\<close>

definition Sha256 :: "bytes \<Rightarrow> bytes option" where
  "Sha256 data = map_option Finalize (Update Sha256Hasher_init data)"

definition hex_digits :: string where
  "hex_digits = ''0123456789abcdef''"

definition ToHex :: "bytes \<Rightarrow> string" where
  "ToHex bs = concat (map (\<lambda>b. [hex_digits ! unat (drop_bit 4 b), hex_digits ! unat (b AND 0x0f)]) bs)"

definition Sha256Hex :: "bytes \<Rightarrow> string option" where
  "Sha256Hex data = map_option ToHex (Sha256 data)"

text \<open>A file as \<open>Sha256FileHex\<close> meets it: it may fail to open, or fail after some bytes were read
  (no end-of-file), or give all its bytes. The reads return 64 KiB pieces.\<close>

datatype file_input = NotOpen | ReadFails bytes | Contents bytes

datatype hash_error = CannotOpen | CannotRead

function pieces :: "nat \<Rightarrow> 'a list \<Rightarrow> 'a list list" where
  "pieces n xs = (if n = 0 \<or> xs = [] then [] else take n xs # pieces n (drop n xs))"
  by pat_completeness auto
termination by (relation "measure (\<lambda>(n, xs). length xs)") auto

declare pieces.simps [simp del]

fun feed :: "('h \<Rightarrow> 'a list \<Rightarrow> 'h option) \<Rightarrow> 'h \<Rightarrow> 'a list list \<Rightarrow> 'h option" where
  "feed update h [] = Some h"
| "feed update h (p # ps) = (case update h p of None \<Rightarrow> None | Some h' \<Rightarrow> feed update h' ps)"

definition Sha256FileHex :: "file_input \<Rightarrow> (hash_error + string) option" where
  "Sha256FileHex file =
     (case file of
        NotOpen \<Rightarrow> Some (Inl CannotOpen)
      | ReadFails read \<Rightarrow> map_option (\<lambda>_. Inl CannotRead) (feed Update Sha256Hasher_init (pieces 65536 read))
      | Contents read \<Rightarrow>
          map_option (\<lambda>h. Inr (ToHex (Finalize h))) (feed Update Sha256Hasher_init (pieces 65536 read)))"

section \<open>Specification: the padded message, block by block\<close>

text \<open>The padding both SHA-1 and SHA-256 prescribe: a one bit, zeros up to 56 bytes modulo 64, and
  the length in bits as a big-endian 64-bit number.\<close>

definition md_pad :: "bytes \<Rightarrow> bytes" where
  "md_pad msg =
     msg @ 0x80 # replicate ((119 - length msg mod 64) mod 64) 0 @ be64_bytes (of_nat (8 * length msg))"

definition Sha256_spec :: "bytes \<Rightarrow> bytes" where
  "Sha256_spec msg = concat (map be32_bytes (foldl Sha256Transform Sha256_IV (pieces 64 (md_pad msg))))"

subsection \<open>Splitting into blocks\<close>

lemma pieces_Nil [simp]: "pieces n [] = []"
  by (simp add: pieces.simps)

lemma pieces_Cons: "length xs = n \<Longrightarrow> xs \<noteq> [] \<Longrightarrow> pieces n (xs @ ys) = xs # pieces n ys"
  by (subst pieces.simps) auto

lemma pieces_single: "length xs = n \<Longrightarrow> xs \<noteq> [] \<Longrightarrow> pieces n xs = [xs]"
  using pieces_Cons [of xs n "[]"] by simp

lemma pieces_append:
  assumes "n dvd length xs"
  shows "pieces n (xs @ ys) = pieces n xs @ pieces n ys"
  using assms
proof (induction n xs rule: pieces.induct)
  case (1 n xs)
  show ?case
  proof (cases "n = 0 \<or> xs = []")
    case True
    with "1.prems" have "xs = []" by auto
    then show ?thesis by simp
  next
    case False
    then have n: "n \<le> length xs" using "1.prems" by (auto simp: dvd_imp_le)
    then have "n dvd length (drop n xs)" using "1.prems" by (simp add: dvd_diff_nat)
    with "1.IH" False have IH: "pieces n (drop n xs @ ys) = pieces n (drop n xs) @ pieces n ys" by simp
    have "pieces n (xs @ ys) = take n xs # pieces n (drop n xs @ ys)"
      using False n by (subst pieces.simps) simp
    also have "\<dots> = (take n xs # pieces n (drop n xs)) @ pieces n ys" by (simp add: IH)
    also have "take n xs # pieces n (drop n xs) = pieces n xs"
      using False by (subst (2) pieces.simps) simp
    finally show ?thesis .
  qed
qed

lemma concat_pieces: "0 < n \<Longrightarrow> concat (pieces n xs) = xs"
proof (induction n xs rule: pieces.induct)
  case (1 n xs)
  then show ?case by (subst pieces.simps) auto
qed

definition whole :: "'a list \<Rightarrow> 'a list" where
  "whole xs = take (64 * (length xs div 64)) xs"

definition part :: "'a list \<Rightarrow> 'a list" where
  "part xs = drop (64 * (length xs div 64)) xs"

lemma whole_part: "whole xs @ part xs = xs"
  by (simp add: whole_def part_def)

lemma length_part [simp]: "length (part xs) = length xs mod 64"
  by (simp add: part_def minus_mult_div_eq_mod)

lemma length_whole: "length (whole xs) = 64 * (length xs div 64)"
  by (simp add: whole_def)

lemma dvd_length_whole: "64 dvd length (whole xs)"
  by (simp add: length_whole)

lemma whole_part_unique:
  assumes "xs = ys @ zs" "64 dvd length ys" "length zs < 64"
  shows "whole xs = ys \<and> part xs = zs"
proof -
  from assms(2) obtain k where k: "length ys = 64 * k" by (rule dvdE)
  with assms have "length xs div 64 = k" by simp
  with assms(1) k show ?thesis by (simp add: whole_def part_def)
qed

lemma whole_append_small:
  assumes "length (part xs) + length ys < 64"
  shows "whole (xs @ ys) = whole xs \<and> part (xs @ ys) = part xs @ ys"
  using assms whole_part [of xs] dvd_length_whole [of xs]
  by (intro whole_part_unique) (auto simp flip: append_assoc)

lemma whole_append_full:
  assumes "length (part xs) + length ys = 64"
  shows "whole (xs @ ys) = whole xs @ part xs @ ys \<and> part (xs @ ys) = []"
proof (rule whole_part_unique)
  show "xs @ ys = (whole xs @ part xs @ ys) @ []"
    by (simp add: whole_part flip: append_assoc)
  show "64 dvd length (whole xs @ part xs @ ys)"
    using assms by (simp add: length_whole del: length_part)
qed simp

subsection \<open>The invariant of the hasher\<close>

definition hasher_inv :: "Sha256Hasher \<Rightarrow> bytes \<Rightarrow> bool" where
  "hasher_inv h msg \<longleftrightarrow>
     hstate h = foldl Sha256Transform Sha256_IV (pieces 64 (whole msg)) \<and>
     length (hblock h) = 64 \<and> blockSize h = length (part msg) \<and> take (blockSize h) (hblock h) = part msg"

lemma hasher_inv_init: "hasher_inv Sha256Hasher_init []"
  by (simp add: hasher_inv_def Sha256Hasher_init_def whole_def part_def)

lemma hasher_inv_size: "hasher_inv h msg \<Longrightarrow> blockSize h < 64"
  by (simp add: hasher_inv_def)

lemma take_overwrite: "k + length vs \<le> length xs \<Longrightarrow> take (k + length vs) (overwrite k vs xs) = take k xs @ vs"
  by (simp add: overwrite_def)

lemma Update_copy_inv:
  assumes "hasher_inv h msg" "copied = min (length input) (64 - blockSize h)"
  shows "hasher_inv (fst (Update_copy h input)) (msg @ take copied input)
    \<and> snd (Update_copy h input) = drop copied input
    \<and> totalBytes (fst (Update_copy h input)) = totalBytes h"
proof -
  let ?x = "take copied input" and ?n = "blockSize h"
  let ?blk = "overwrite ?n ?x (hblock h)"
  have bs: "?n < 64" using assms(1) by (rule hasher_inv_size)
  have len: "length ?x = copied" "?n + copied \<le> 64" "length (hblock h) = 64"
    using assms bs by (auto simp: hasher_inv_def)
  then have tk: "take (?n + copied) ?blk = part msg @ ?x" and lb: "length ?blk = 64"
    using assms(1) take_overwrite [of ?n ?x "hblock h"] by (auto simp: hasher_inv_def)
  have part: "length (part msg) = ?n" using assms(1) by (simp add: hasher_inv_def)
  show ?thesis
  proof (cases "?n + copied = 64")
    case True
    with tk lb have blk: "?blk = part msg @ ?x" by simp
    have w: "whole (msg @ ?x) = whole msg @ ?blk \<and> part (msg @ ?x) = []"
      using True len part whole_append_full [of msg ?x] blk by simp
    have "pieces 64 (whole msg @ ?blk) = pieces 64 (whole msg) @ [?blk]"
    proof -
      from lb have "?blk \<noteq> []" by (intro notI) simp
      with lb show ?thesis by (subst pieces_append [OF dvd_length_whole]) (simp add: pieces_single)
    qed
    with True w lb assms show ?thesis
      by (simp add: Update_copy_def Let_def hasher_inv_def)
  next
    case False
    with len bs have lt: "?n + copied < 64" by simp
    then have "whole (msg @ ?x) = whole msg \<and> part (msg @ ?x) = part msg @ ?x"
      using len part by (intro whole_append_small) simp
    with False tk lb len part assms show ?thesis
      by (simp add: Update_copy_def Let_def hasher_inv_def)
  qed
qed

lemma Update_loop_inv:
  "hasher_inv h msg \<Longrightarrow>
   \<exists>h'. Update_loop h input = Some h' \<and> hasher_inv h' (msg @ input) \<and> totalBytes h' = totalBytes h"
proof (induction "length input" arbitrary: h msg input rule: less_induct)
  case less
  show ?case
  proof (cases "input = []")
    case True
    with less.prems show ?thesis by (simp add: Update_loop.simps)
  next
    case False
    let ?c = "min (length input) (64 - blockSize h)" and ?h = "fst (Update_copy h input)"
    have pos: "0 < ?c" using False hasher_inv_size [OF less.prems] by simp
    have step: "hasher_inv ?h (msg @ take ?c input)" "snd (Update_copy h input) = drop ?c input"
        "totalBytes ?h = totalBytes h"
      using Update_copy_inv [OF less.prems refl] by auto
    have "length (drop ?c input) < length input" using pos False by simp
    from less.hyps [OF this step(1)] obtain h' where "Update_loop ?h (drop ?c input) = Some h'"
        "hasher_inv h' ((msg @ take ?c input) @ drop ?c input)" "totalBytes h' = totalBytes ?h"
      by blast
    moreover have "Update_loop h input = Update_loop ?h (drop ?c input)"
      using False step(2) by (simp add: Update_loop.simps [of h])
    ultimately show ?thesis using step(3) by (simp del: append_assoc add: append.assoc)
  qed
qed

definition hasher_for :: "Sha256Hasher \<Rightarrow> bytes \<Rightarrow> bool" where
  "hasher_for h msg \<longleftrightarrow> hasher_inv h msg \<and> totalBytes h = of_nat (length msg)"

lemma Update_for: "hasher_for h msg \<Longrightarrow> \<exists>h'. Update h input = Some h' \<and> hasher_for h' (msg @ input)"
proof -
  assume h: "hasher_for h msg"
  let ?h = "h\<lparr>totalBytes := totalBytes h + of_nat (length input)\<rparr>"
  from h have "hasher_inv ?h msg" by (auto simp: hasher_for_def hasher_inv_def)
  from Update_loop_inv [OF this, of input] h show ?thesis
    by (auto simp: Update_def hasher_for_def)
qed

lemma hasher_for_init: "hasher_for Sha256Hasher_init []"
  by (simp add: hasher_for_def hasher_inv_init) (simp add: Sha256Hasher_init_def)

subsection \<open>Finalize computes the specification\<close>

lemma length_be64_bytes [simp]: "length (be64_bytes v) = 8"
  by (simp add: be64_bytes_def)

lemma list_update_take_drop: "k < length xs \<Longrightarrow> xs[k := v] = take k xs @ v # drop (Suc k) xs"
  by (simp add: upd_conv_take_nth_drop)

lemma pad_zeros_short: "n \<le> 55 \<Longrightarrow> (119 - n) mod 64 = 55 - (n::nat)"
proof -
  assume "n \<le> 55"
  then have "(119 - n) mod 64 = (55 - n + 64) mod 64"
    by (intro arg_cong [where f = "\<lambda>x. x mod 64"]) simp
  also have "\<dots> = 55 - n" by simp
  finally show ?thesis .
qed

lemma md_pad_pieces:
  "pieces 64 (md_pad msg) =
     pieces 64 (whole msg) @
     pieces 64 (part msg @ 0x80 # replicate ((119 - length msg mod 64) mod 64) 0 @ be64_bytes (of_nat (8 * length msg)))"
proof -
  let ?t = "0x80 # replicate ((119 - length msg mod 64) mod 64) 0 @ be64_bytes (of_nat (8 * length msg))"
  have "md_pad msg = whole msg @ part msg @ ?t"
    by (simp add: md_pad_def whole_part flip: append_assoc)
  then show ?thesis by (simp only: pieces_append [OF dvd_length_whole])
qed

lemma Finalize_spec:
  assumes "hasher_for h msg"
  shows "Finalize h = Sha256_spec msg"
proof -
  let ?n = "length msg mod 64" and ?z = "(119 - length msg mod 64) mod 64"
  let ?len = "be64_bytes (of_nat (8 * length msg))"
  have inv: "hstate h = foldl Sha256Transform Sha256_IV (pieces 64 (whole msg))" "length (hblock h) = 64"
      "blockSize h = ?n" "take ?n (hblock h) = part msg"
    using assms by (auto simp: hasher_for_def hasher_inv_def)
  have bits: "totalBytes h * 8 = of_nat (8 * length msg)"
    using assms by (simp add: hasher_for_def)
  have n: "?n < 64" by simp
  let ?b0 = "(hblock h)[?n := 0x80]"
  have b0: "?b0 = part msg @ 0x80 # drop (Suc ?n) (hblock h)"
    using inv n by (simp add: list_update_take_drop)
  show ?thesis
  proof (cases "?n + 1 > 56")
    case True
    then have z: "?z = (63 - ?n) + 56" by simp
    let ?blk = "part msg @ 0x80 # replicate (63 - ?n) 0" and ?blk' = "replicate 56 0 @ ?len"
    have fill: "overwrite (?n + 1) (replicate (64 - (?n + 1)) 0) ?b0 = ?blk"
      using n inv(2) by (simp add: b0 overwrite_def)
    have l: "length ?blk = 64" using n by simp
    have fill': "overwrite 56 ?len (overwrite 0 (replicate (56 - 0) 0) ?blk) = ?blk'"
      using l by (simp add: overwrite_def)
    have "pieces 64 (part msg @ 0x80 # replicate ?z 0 @ ?len) = [?blk, ?blk']"
    proof -
      have "part msg @ 0x80 # replicate ?z 0 @ ?len = ?blk @ ?blk'"
        unfolding z replicate_add by simp
      moreover have "pieces 64 (?blk @ ?blk') = ?blk # pieces 64 ?blk'"
        using l by (intro pieces_Cons) auto
      moreover have "pieces 64 ?blk' = [?blk']"
        by (intro pieces_single) auto
      ultimately show ?thesis by (simp only:)
    qed
    with True inv bits fill fill' show ?thesis
      by (simp add: Finalize_def Sha256_spec_def md_pad_pieces Let_def)
  next
    case False
    then have z: "?z = 55 - ?n" by (intro pad_zeros_short) simp
    let ?blk = "part msg @ 0x80 # replicate (55 - ?n) 0 @ ?len"
    have "56 - ?n = Suc (55 - ?n)" using False by simp
    then have fill: "overwrite 56 ?len (overwrite (?n + 1) (replicate (56 - (?n + 1)) 0) ?b0) = ?blk"
      using False inv(2) by (simp add: b0 overwrite_def)
    have "length ?blk = 64" using False by simp
    then have "pieces 64 (part msg @ 0x80 # replicate ?z 0 @ ?len) = [?blk]"
      unfolding z by (intro pieces_single) auto
    with False inv bits fill show ?thesis
      by (simp add: Finalize_def Sha256_spec_def md_pad_pieces Let_def)
  qed
qed

section \<open>The contract of a streaming hash\<close>

text \<open>What a caller that feeds data in pieces relies on: each state denotes the bytes it has
  absorbed, absorbing always returns, and finishing gives the digest of those bytes.\<close>

locale stream_hash =
  fixes init :: 'h
    and update :: "'h \<Rightarrow> 'a list \<Rightarrow> 'h option"
    and finalize :: "'h \<Rightarrow> 'd"
    and denotes :: "'h \<Rightarrow> 'a list \<Rightarrow> bool"
    and spec :: "'a list \<Rightarrow> 'd"
  assumes denotes_init: "denotes init []"
    and denotes_update: "denotes h msg \<Longrightarrow> \<exists>h'. update h x = Some h' \<and> denotes h' (msg @ x)"
    and finalize_spec: "denotes h msg \<Longrightarrow> finalize h = spec msg"
begin

lemma denotes_feed: "denotes h msg \<Longrightarrow> \<exists>h'. feed update h ps = Some h' \<and> denotes h' (msg @ concat ps)"
proof (induction ps arbitrary: h msg)
  case (Cons p ps)
  from denotes_update [OF Cons.prems, of p] obtain h1 where h1: "update h p = Some h1" "denotes h1 (msg @ p)"
    by blast
  from Cons.IH [OF h1(2)] h1(1) show ?case by simp
qed simp

lemma feed_digest: "\<exists>h'. feed update init ps = Some h' \<and> finalize h' = spec (concat ps)"
  using denotes_feed [OF denotes_init, of ps] finalize_spec by fastforce

lemma update_digest: "\<exists>h'. update init x = Some h' \<and> finalize h' = spec x"
  using denotes_update [OF denotes_init, of x] finalize_spec by fastforce

end

interpretation sha256: stream_hash Sha256Hasher_init Update Finalize hasher_for Sha256_spec
  by unfold_locales (auto intro: hasher_for_init Update_for Finalize_spec)

section \<open>Hexadecimal digests\<close>

lemma length_hex_digits: "length hex_digits = 16"
  by (simp add: hex_digits_def)

lemma unat_high_nibble: "unat (drop_bit 4 b) = unat b div 16" for b :: u8
  by (simp add: drop_bit_eq_div unat_div)

lemma unat_low_nibble: "unat (b AND 0x0f) = unat b mod 16" for b :: u8
proof -
  have "b AND 0x0f = take_bit 4 b"
    by (simp add: take_bit_eq_mask mask_eq_exp_minus_1)
  then show ?thesis by (simp add: take_bit_eq_mod unat_mod)
qed

lemma unat_div_16: "unat (b :: u8) div 16 < 16"
  using unat_byte_less [of b] by linarith

lemma hex_digit_in: "n < 16 \<Longrightarrow> hex_digits ! n \<in> set hex_digits"
  by (simp add: length_hex_digits)

lemma hex_digits_class: "c \<in> set hex_digits \<Longrightarrow> is_xdigit c \<and> \<not> is_upper c"
  by (auto simp: hex_digits_def char_class_defs)

lemma length_ToHex [simp]: "length (ToHex bs) = 2 * length bs"
  by (induction bs) (auto simp: ToHex_def)

lemma ToHex_digits: "set (ToHex bs) \<subseteq> set hex_digits"
  unfolding ToHex_def by (auto simp: hex_digit_in unat_high_nibble unat_low_nibble unat_div_16)

lemma hex_digits_inj: "i < 16 \<Longrightarrow> j < 16 \<Longrightarrow> hex_digits ! i = hex_digits ! j \<Longrightarrow> i = j"
proof -
  have "distinct hex_digits" by (simp add: hex_digits_def)
  then show "i < 16 \<Longrightarrow> j < 16 \<Longrightarrow> hex_digits ! i = hex_digits ! j \<Longrightarrow> i = j"
    by (simp add: nth_eq_iff_index_eq length_hex_digits)
qed

lemma byte_nibbles: "(b :: u8) = c \<longleftrightarrow> unat (drop_bit 4 b) = unat (drop_bit 4 c) \<and> unat (b AND 0x0f) = unat (c AND 0x0f)"
proof
  assume *: "unat (drop_bit 4 b) = unat (drop_bit 4 c) \<and> unat (b AND 0x0f) = unat (c AND 0x0f)"
  then have "unat b div 16 = unat c div 16" "unat b mod 16 = unat c mod 16"
    by (simp_all add: unat_high_nibble unat_low_nibble)
  then have "unat b = unat c" by (metis div_mod_decomp)
  then show "b = c" by (simp only: word_unat_eq_iff)
qed simp

lemma ToHex_inject: "ToHex xs = ToHex ys \<longleftrightarrow> xs = ys"
proof
  assume "ToHex xs = ToHex ys"
  then show "xs = ys"
  proof (induction xs arbitrary: ys)
    case Nil
    then have "length (ToHex ys) = 0" by (simp add: ToHex_def)
    then show ?case by simp
  next
    case (Cons x xs)
    then have "length (ToHex ys) \<noteq> 0" by (metis length_ToHex length_0_conv list.distinct(1) mult_eq_0_iff zero_neq_numeral)
    then obtain y ys' where ys: "ys = y # ys'" by (cases ys) auto
    with Cons.prems have "hex_digits ! unat (drop_bit 4 x) = hex_digits ! unat (drop_bit 4 y)"
      "hex_digits ! unat (x AND 0x0f) = hex_digits ! unat (y AND 0x0f)" "ToHex xs = ToHex ys'"
      by (simp_all add: ToHex_def)
    then have "x = y"
      by (auto simp: byte_nibbles unat_high_nibble unat_low_nibble unat_div_16 intro: hex_digits_inj)
    with Cons.IH \<open>ToHex xs = ToHex ys'\<close> ys show ?case by simp
  qed
qed simp

lemma length_Sha256_spec: "length (Sha256_spec msg) = 32"
proof -
  have t: "length (Sha256Transform st b) = 8" for st b
    by (simp add: Sha256Transform_def Let_def split: prod.split)
  have "pieces 64 (md_pad msg) \<noteq> []"
    by (subst pieces.simps) (simp add: md_pad_def)
  then have "length (foldl Sha256Transform Sha256_IV (pieces 64 (md_pad msg))) = 8"
    by (cases "pieces 64 (md_pad msg)" rule: rev_cases) (auto simp: t)
  then show ?thesis
    by (simp add: Sha256_spec_def length_concat be32_bytes_def o_def sum_list_triv)
qed

lemma Sha256_eq: "Sha256 msg = Some (Sha256_spec msg)"
  using sha256.update_digest [of msg] by (auto simp: Sha256_def)

section \<open>Properties\<close>

text \<open>C4. \<open>Sha256\<close> always returns, and its result is the compression function folded over the
  64-byte blocks of the padded message, whatever the message's length.\<close>

theorem Sha256_correct: "Sha256 msg = Some (Sha256_spec msg)"
  by (rule Sha256_eq)

text \<open>Hashing a file in the pieces the stream reads return gives the same digest as hashing its
  whole content at once, and the two failures of the stream are reported as errors.\<close>

theorem Sha256FileHex_streaming:
  "Sha256FileHex (Contents c) = map_option Inr (Sha256Hex c) \<and> Sha256FileHex (Contents c) \<noteq> None \<and>
   Sha256FileHex NotOpen = Some (Inl CannotOpen) \<and> Sha256FileHex (ReadFails c) = Some (Inl CannotRead)"
proof -
  obtain h where "feed Update Sha256Hasher_init (pieces 65536 c) = Some h" "Finalize h = Sha256_spec c"
    using sha256.feed_digest [of "pieces 65536 c"] by (auto simp: concat_pieces)
  then show ?thesis by (simp add: Sha256FileHex_def Sha256Hex_def Sha256_eq)
qed

text \<open>A hexadecimal digest has 64 characters, all of them lower-case hexadecimal digits, and
  equal hexadecimal digests mean equal digests.\<close>

theorem Sha256Hex_format:
  "\<exists>s. Sha256Hex msg = Some s \<and> length s = 64 \<and> list_all (\<lambda>c. is_xdigit c \<and> \<not> is_upper c) s \<and>
     (Sha256Hex msg = Sha256Hex msg' \<longleftrightarrow> Sha256 msg = Sha256 msg')"
  using ToHex_digits [of "Sha256_spec msg"]
  by (auto simp: Sha256Hex_def Sha256_eq length_Sha256_spec ToHex_inject list_all_iff dest: hex_digits_class)

end
