(* ===== verification/Lode_WsCodec.thy ===== *)
theory Lode_WsCodec
  imports Lode_Sha256
begin

text \<open>
  The byte-level code of the websocket module: SHA-1 (\<open>modules/websocket/src/sha1.hpp\<close>), Base64
  (\<open>base64.hpp\<close>), the mask generator, the frame encoder, the close payload and the accept key
  (\<open>WsHelpers.cpp\<close>), and the frame header parser at the top of \<open>WsClient::ParseFrames\<close>.
  A \<open>std::vector<char>\<close> is a list of bytes. Lengths of frames are 64-bit words where the code
  computes with \<open>uint64_t\<close> and \<open>size_t\<close>, so that sums wrap as they do there; an iterator range whose
  end lies before its start is undefined behaviour and is a value of the result type.
\<close>

section \<open>SHA-1\<close>

definition rol :: "u32 \<Rightarrow> nat \<Rightarrow> u32" where
  "rol value bits = push_bit bits value OR drop_bit (32 - bits) value"

definition Sha1_IV :: "u32 list" where
  "Sha1_IV = [0x67452301, 0xEFCDAB89, 0x98BADCFE, 0x10325476, 0xC3D2E1F0]"

definition Sha1_paddedLen :: "nat \<Rightarrow> nat" where
  "Sha1_paddedLen len = ((len + 8) div 64 + 1) * 64"

definition Sha1_padded :: "bytes \<Rightarrow> bytes" where
  "Sha1_padded data =
     (let len = length data;
          paddedLen = Sha1_paddedLen len;
          padded = replicate paddedLen 0;
          padded = (if len > 0 then overwrite 0 data padded else padded);
          padded = padded[len := 0x80];
          bitLen = (of_nat len :: u64) * 8
      in foldl (\<lambda>p i. p[paddedLen - 1 - i := ucast (drop_bit (8 * i) bitLen AND 0xFF)]) padded [0..<8])"

definition Sha1_extend :: "u32 list \<Rightarrow> u32 list" where
  "Sha1_extend w =
     (let i = length w
      in w @ [rol (w ! (i - 3) XOR w ! (i - 8) XOR w ! (i - 14) XOR w ! (i - 16)) 1])"

definition Sha1_round :: "u32 list \<Rightarrow> (u32 \<times> u32 \<times> u32 \<times> u32 \<times> u32) \<Rightarrow> nat \<Rightarrow> (u32 \<times> u32 \<times> u32 \<times> u32 \<times> u32)" where
  "Sha1_round w r i =
     (case r of (a, b, c, d, e) \<Rightarrow>
      let (f, k) =
        (if i < 20 then ((b AND c) OR (NOT b AND d), 0x5A827999)
         else if i < 40 then (b XOR c XOR d, 0x6ED9EBA1)
         else if i < 60 then ((b AND c) OR (b AND d) OR (c AND d), 0x8F1BBCDC)
         else (b XOR c XOR d, 0xCA62C1D6));
          temp = rol a 5 + f + e + k + w ! i
      in (temp, a, rol b 30, c, d))"

definition Sha1_block :: "u32 list \<Rightarrow> bytes \<Rightarrow> u32 list" where
  "Sha1_block h blk =
     (let w = iterate 64 Sha1_extend (block_words blk);
          (a, b, c, d, e) = foldl (Sha1_round w) (h ! 0, h ! 1, h ! 2, h ! 3, h ! 4) [0..<80]
      in [h ! 0 + a, h ! 1 + b, h ! 2 + c, h ! 3 + d, h ! 4 + e])"

definition Sha1 :: "bytes \<Rightarrow> bytes" where
  "Sha1 data =
     (let padded = Sha1_padded data;
          h = foldl (\<lambda>h k. Sha1_block h (take 64 (drop (k * 64) padded))) Sha1_IV
                [0..<length padded div 64]
      in concat (map be32_bytes h))"

section \<open>Base64\<close>

definition kTable :: string where
  "kTable = ''ABCDEFGHIJKLMNOPQRSTUVWXYZabcdefghijklmnopqrstuvwxyz0123456789+/''"

definition sextet :: "u32 \<Rightarrow> nat \<Rightarrow> char" where
  "sextet n k = kTable ! unat (drop_bit k n AND 0x3F)"

definition triple :: "u8 \<Rightarrow> u8 \<Rightarrow> u8 \<Rightarrow> u32" where
  "triple a b c = push_bit 16 (ucast a) OR push_bit 8 (ucast b) OR ucast c"

fun Base64Encode :: "bytes \<Rightarrow> string" where
  "Base64Encode (a # b # c # rest) =
     (let n = triple a b c in sextet n 18 # sextet n 12 # sextet n 6 # sextet n 0 # Base64Encode rest)"
| "Base64Encode [a, b] =
     (let n = push_bit 16 (ucast a) OR push_bit 8 (ucast b) in [sextet n 18, sextet n 12, sextet n 6, CHR ''=''])"
| "Base64Encode [a] = (let n = push_bit 16 (ucast a) in [sextet n 18, sextet n 12, CHR ''='', CHR ''=''])"
| "Base64Encode [] = []"

definition kWebSocketGuid :: string where
  "kWebSocketGuid = ''258EAFA5-E914-47DA-95CA-C5AB0DC85B11''"

definition ComputeAcceptKey :: "string \<Rightarrow> string" where
  "ComputeAcceptKey clientKey = Base64Encode (Sha1 (bytes_of (clientKey @ kWebSocketGuid)))"

section \<open>The mask generator\<close>

definition WsRng_Seed :: "u64 \<Rightarrow> u32" where
  "WsRng_Seed seed =
     (let state = ucast (seed XOR drop_bit 32 seed) in if state = 0 then 0x811c9dc5 else state)"

definition WsRng_Next :: "u32 \<Rightarrow> u32" where
  "WsRng_Next state =
     (let s1 = state XOR push_bit 13 state;
          s2 = s1 XOR drop_bit 17 s1
      in s2 XOR push_bit 5 s2)"

fun WsRng_Fill :: "u32 \<Rightarrow> nat \<Rightarrow> bytes \<times> u32" where
  "WsRng_Fill state 0 = ([], state)"
| "WsRng_Fill state (Suc n) =
     (let state' = WsRng_Next state; (bs, s) = WsRng_Fill state' n in (ucast (state' AND 0xFF) # bs, s))"

section \<open>Frames\<close>

definition kOpcodeContinuation :: u8 where "kOpcodeContinuation = 0x0"
definition kOpcodeText :: u8 where "kOpcodeText = 0x1"
definition kOpcodeBinary :: u8 where "kOpcodeBinary = 0x2"
definition kOpcodeClose :: u8 where "kOpcodeClose = 0x8"
definition kOpcodePing :: u8 where "kOpcodePing = 0x9"
definition kOpcodePong :: u8 where "kOpcodePong = 0xA"

lemmas opcode_defs = kOpcodeContinuation_def kOpcodeText_def kOpcodeBinary_def kOpcodeClose_def
  kOpcodePing_def kOpcodePong_def

definition keyByte :: "u32 \<Rightarrow> nat \<Rightarrow> u8" where
  "keyByte maskKey i = ucast (drop_bit (8 * (i mod 4)) maskKey AND 0xFF)"

definition mask_payload :: "u32 \<Rightarrow> bytes \<Rightarrow> bytes" where
  "mask_payload maskKey payload = map (\<lambda>(i, b). b XOR keyByte maskKey i) (enumerate 0 payload)"

text \<open>The length field and the mask field with the payload, the two variable parts of a frame.\<close>

definition EncodeFrame_length :: "bool \<Rightarrow> nat \<Rightarrow> bytes" where
  "EncodeFrame_length masked len =
     (let len64 = (of_nat len :: u64);
          b1 = (if masked then 0x80 else 0 :: u8)
      in if len < 126 then [b1 OR ucast len64]
         else if len \<le> 0xFFFF
         then [b1 OR 126, ucast (drop_bit 8 len64 AND 0xFF), ucast (len64 AND 0xFF)]
         else (b1 OR 127) # map (\<lambda>i. ucast (drop_bit (8 * i) len64 AND 0xFF)) [7, 6, 5, 4, 3, 2, 1, 0])"

definition EncodeFrame_body :: "bool \<Rightarrow> u32 \<Rightarrow> bytes \<Rightarrow> bytes" where
  "EncodeFrame_body masked maskKey payload =
     (if masked
      then [ucast (drop_bit 0 maskKey AND 0xFF), ucast (drop_bit 8 maskKey AND 0xFF),
            ucast (drop_bit 16 maskKey AND 0xFF), ucast (drop_bit 24 maskKey AND 0xFF)] @
           mask_payload maskKey payload
      else payload)"

definition EncodeFrame :: "u8 \<Rightarrow> bytes \<Rightarrow> bool \<Rightarrow> bool \<Rightarrow> u32 \<Rightarrow> bytes" where
  "EncodeFrame opcode payload fin masked maskKey =
     [(if fin then 0x80 else 0) OR (opcode AND 0x0F)] @ EncodeFrame_length masked (length payload) @
     EncodeFrame_body masked maskKey payload"

definition MakeClosePayload :: "u16 \<Rightarrow> bytes \<Rightarrow> bytes" where
  "MakeClosePayload code reason =
     [ucast (drop_bit 8 code AND 0xFF), ucast (code AND 0xFF)] @ take 123 reason"

text \<open>What \<open>ParseFrames\<close> finds at the front of the receive buffer: not enough bytes yet, reserved
  bits, an iterator range that ends before it starts, or a frame (payload still masked) and the
  bytes after it.\<close>

datatype frame_result =
    NeedMore
  | ReservedBits
  | BadRange
  | Frame (f_fin: bool) (f_opcode: u8) (f_masked: bool) (f_key: u32) (f_payload: bytes) (f_rest: bytes)

definition ReadFrame_length :: "bytes \<Rightarrow> u64 \<Rightarrow> (u64 \<times> nat) option" where
  "ReadFrame_length buf payloadLen =
     (if payloadLen = 126 then
        (if length buf < 4 then None
         else Some (push_bit 8 (ucast (buf ! 2)) OR ucast (buf ! 3), 4))
      else if payloadLen = 127 then
        (if length buf < 10 then None
         else Some (foldl (\<lambda>n i. push_bit 8 n OR ucast (buf ! (2 + i))) 0 [0..<8], 10))
      else Some (payloadLen, 2))"

definition ReadFrame_mask :: "bytes \<Rightarrow> bool \<Rightarrow> nat \<Rightarrow> (u32 \<times> nat) option" where
  "ReadFrame_mask buf masked headerLen =
     (if masked then
        (if length buf < headerLen + 4 then None
         else Some (push_bit 0 (ucast (buf ! headerLen)) OR push_bit 8 (ucast (buf ! (headerLen + 1)))
                    OR push_bit 16 (ucast (buf ! (headerLen + 2))) OR push_bit 24 (ucast (buf ! (headerLen + 3))),
                    headerLen + 4))
      else Some (0, headerLen))"

definition ReadFrame :: "bytes \<Rightarrow> frame_result" where
  "ReadFrame buf =
     (if length buf < 2 then NeedMore
      else let b0 = buf ! 0; b1 = buf ! 1;
               fin = (b0 AND 0x80 \<noteq> 0); rsv = b0 AND 0x70; opcode = b0 AND 0x0F;
               masked = (b1 AND 0x80 \<noteq> 0)
      in if rsv \<noteq> 0 then ReservedBits
         else case ReadFrame_length buf (ucast (b1 AND 0x7F)) of None \<Rightarrow> NeedMore
         | Some (payloadLen, headerLen) \<Rightarrow>
         (case ReadFrame_mask buf masked headerLen of None \<Rightarrow> NeedMore
          | Some (maskKey, headerLen') \<Rightarrow>
            let total = (of_nat headerLen' :: size_t) + payloadLen
            in if (of_nat (length buf) :: size_t) < total then NeedMore
               else if unat total < headerLen' then BadRange
               else Frame fin opcode masked maskKey
                      (take (unat total - headerLen') (drop headerLen' buf)) (drop (unat total) buf)))"

section \<open>SHA-1 against its specification\<close>

definition Sha1_spec :: "bytes \<Rightarrow> bytes" where
  "Sha1_spec msg = concat (map be32_bytes (foldl Sha1_block Sha1_IV (pieces 64 (md_pad msg))))"

lemma pieces_by_index:
  "length xs = 64 * m \<Longrightarrow> pieces 64 xs = map (\<lambda>k. take 64 (drop (k * 64) xs)) [0..<m]"
proof (induction m arbitrary: xs)
  case (Suc m)
  have "pieces 64 xs = take 64 xs # pieces 64 (drop 64 xs)"
    using Suc.prems by (subst pieces.simps) auto
  also have "pieces 64 (drop 64 xs) = map (\<lambda>k. take 64 (drop (k * 64) (drop 64 xs))) [0..<m]"
    using Suc.prems by (intro Suc.IH) simp
  also have "take 64 xs # \<dots> = map (\<lambda>k. take 64 (drop (k * 64) xs)) (0 # map Suc [0..<m])"
    by (simp add: o_def add.commute)
  finally show ?case by (simp add: upt_conv_Cons map_Suc_upt del: upt_Suc)
qed simp

lemma Sha1_paddedLen_eq:
  "Sha1_paddedLen n = n + 9 + (119 - n mod 64) mod 64"
proof -
  define q r where "q = n div 64" and "r = n mod 64"
  have n: "n = 64 * q + r" and r: "r < 64" by (simp_all add: q_def r_def)
  show ?thesis
  proof (cases "r \<le> 55")
    case True
    then have "(n + 8) div 64 = q" by (simp add: n)
    then have "Sha1_paddedLen n = 64 * q + 64" by (simp add: Sha1_paddedLen_def)
    moreover have "(119 - r) mod 64 = 55 - r" using True by (rule pad_zeros_short)
    ultimately show ?thesis using True r by (simp add: n)
  next
    case False
    then have "(n + 8) div 64 = q + 1" using r by (simp add: n)
    then have "Sha1_paddedLen n = 64 * q + 128" by (simp add: Sha1_paddedLen_def)
    moreover have "(119 - r) mod 64 = 119 - r" using False by simp
    ultimately show ?thesis using False r by (simp add: n)
  qed
qed

lemma store_last8:
  "foldl (\<lambda>p i. p[length ys + 8 - 1 - i := f i]) (ys @ replicate 8 z) [0..<8] =
     ys @ map f [7, 6, 5, 4, 3, 2, 1, 0]"
proof -
  have "[0..<8] = [0, 1, 2, 3, 4, 5, 6, 7::nat]" by (simp add: upt_rec)
  then show ?thesis by (simp add: numeral_eq_Suc list_update_append)
qed

lemma Sha1_padded_eq: "Sha1_padded data = md_pad data"
proof -
  let ?n = "length data" and ?z = "(119 - length data mod 64) mod 64"
  let ?ys = "data @ 0x80 # replicate ?z 0"
  have P: "Sha1_paddedLen ?n = length ?ys + 8" by (simp add: Sha1_paddedLen_eq)
  have "replicate (Sha1_paddedLen ?n) (0::u8) = replicate ?n 0 @ 0 # replicate ?z 0 @ replicate 8 0"
    by (simp add: Sha1_paddedLen_eq flip: replicate_add replicate_Suc)
  then have "(if ?n > 0 then overwrite 0 data (replicate (Sha1_paddedLen ?n) 0)
              else replicate (Sha1_paddedLen ?n) 0)[?n := 0x80] = ?ys @ replicate 8 0"
    by (auto simp: overwrite_def list_update_append)
  then show ?thesis
    by (simp only: Sha1_padded_def Let_def P store_last8)
      (simp add: md_pad_def be64_bytes_def mult.commute)
qed

lemma Sha1_eq: "Sha1 msg = Sha1_spec msg"
proof -
  have "length (md_pad msg) = Sha1_paddedLen (length msg)"
    by (simp add: md_pad_def Sha1_paddedLen_eq)
  then have l: "length (md_pad msg) = 64 * (length (md_pad msg) div 64)"
    by (simp add: Sha1_paddedLen_def)
  show ?thesis
    by (simp add: Sha1_def Sha1_spec_def Sha1_padded_eq Let_def pieces_by_index [OF l] foldl_map)
qed

section \<open>Base64 can be decoded\<close>

text \<open>A reference decoder of RFC 4648, used only to state what the encoder keeps.\<close>

definition sextet_value :: "char \<Rightarrow> nat option" where
  "sextet_value c = find_idx (\<lambda>d. d = c) kTable"

definition b64_hi :: "nat \<Rightarrow> nat \<Rightarrow> u8" where "b64_hi x y = of_nat (x * 4 + y div 16)"
definition b64_mid :: "nat \<Rightarrow> nat \<Rightarrow> u8" where "b64_mid y z = of_nat (y mod 16 * 16 + z div 4)"
definition b64_lo :: "nat \<Rightarrow> nat \<Rightarrow> u8" where "b64_lo z u = of_nat (z mod 4 * 64 + u)"

fun Base64Decode :: "string \<Rightarrow> bytes option" where
  "Base64Decode [] = Some []"
| "Base64Decode (a # b # c # d # rest) =
     (case (sextet_value a, sextet_value b, sextet_value c, sextet_value d) of
        (Some x, Some y, Some z, Some u) \<Rightarrow>
          map_option (\<lambda>bs. b64_hi x y # b64_mid y z # b64_lo z u # bs)
            (Base64Decode rest)
      | (Some x, Some y, Some z, None) \<Rightarrow>
          if d = CHR ''='' \<and> rest = [] then Some [b64_hi x y, b64_mid y z] else None
      | (Some x, Some y, None, None) \<Rightarrow>
          if c = CHR ''='' \<and> d = CHR ''='' \<and> rest = [] then Some [b64_hi x y] else None
      | _ \<Rightarrow> None)"
| "Base64Decode _ = None"

lemma distinct_kTable: "distinct kTable"
  by code_simp

lemma sextet_value_kTable: "i < 64 \<Longrightarrow> sextet_value (kTable ! i) = Some i"
  unfolding sextet_value_def by (rule find_idx_distinct [OF distinct_kTable]) (simp add: kTable_def)

lemma sextet_value_pad: "sextet_value (CHR ''='') = None"
  by (simp add: sextet_value_def kTable_def)

lemma unat_sextet_index: "unat (drop_bit k n AND 0x3F) = unat n div 2 ^ k mod 64" for n :: u32
proof -
  have "drop_bit k n AND 0x3F = take_bit 6 (drop_bit k n)"
    by (simp add: take_bit_eq_mask mask_eq_exp_minus_1)
  then show ?thesis
    by (simp add: unsigned_take_bit_eq unat_drop_bit_eq take_bit_eq_mod [where 'a = nat] drop_bit_eq_div [where 'a = nat])
qed

lemma sextet_value_sextet: "sextet_value (sextet n k) = Some (unat n div 2 ^ k mod 64)"
  by (simp add: sextet_def sextet_value_kTable unat_sextet_index)

lemma unat_push_byte: "k \<le> 16 \<Longrightarrow> unat (push_bit k (ucast (a::u8)) :: u32) = unat a * 2 ^ k"
proof -
  assume k: "k \<le> 16"
  have "unat a * 2 ^ k \<le> 255 * 2 ^ k" by simp
  also have "\<dots> \<le> 255 * 2 ^ 16" using k by (intro mult_left_mono power_increasing) auto
  finally have "unat a * 2 ^ k < 2 ^ 32" by simp
  moreover have "unat a < 2 ^ 32" by (rule less_le_trans [OF unat_byte_less]) simp
  then have "unat (ucast a :: u32) = unat a"
    by (simp add: unsigned_ucast_eq take_bit_nat_eq_self)
  ultimately show ?thesis
    by (simp add: unsigned_push_bit_eq push_bit_eq_mult [where 'a = nat] take_bit_nat_eq_self)
qed

lemma unat_plus_small: "unat x + unat y < 2 ^ LENGTH('a) \<Longrightarrow> unat (x + y :: 'a::len word) = unat x + unat y"
  by (simp add: unat_word_ariths)

lemma unat_ucast_u32 [simp]: "unat (ucast (a::u8) :: u32) = unat a"
  using unat_push_byte [of 0 a] by simp

lemma unat_pair: "unat (push_bit 8 (ucast (b::u8)) OR ucast (c::u8) :: u32) = 256 * unat b + unat c"
proof -
  have le: "256 * unat b + unat c \<le> 256 * 255 + 255" by (intro add_mono mult_left_mono) auto
  have "push_bit 8 (ucast b) OR ucast c = push_bit 8 (ucast b) + (ucast c :: u32)"
    by (rule push_or_add) simp
  moreover have "unat (push_bit 8 (ucast b) + (ucast c :: u32)) = unat (push_bit 8 (ucast b) :: u32) + unat c"
    using le by (subst unat_plus_small) (auto simp: unat_push_byte)
  ultimately show ?thesis by (simp add: unat_push_byte)
qed

lemma unat_triple: "unat (triple a b c) = 65536 * unat a + 256 * unat b + unat c"
proof -
  let ?p = "push_bit 8 (ucast b) OR ucast c :: u32"
  have le: "256 * unat b + unat c \<le> 65535"
    using unat_byte_le [of b] unat_byte_le [of c] by linarith
  have sum: "unat a * 65536 + (256 * unat b + unat c) < 4294967296"
    using le unat_byte_le [of a] by linarith
  have "triple a b c = push_bit 16 (ucast a) + ?p"
    unfolding triple_def using le by (intro push_or_add) (simp add: unat_pair)
  moreover have "unat (push_bit 16 (ucast a) + ?p) = unat (push_bit 16 (ucast a) :: u32) + unat ?p"
    using sum by (intro unat_plus_small) (simp add: unat_push_byte unat_pair)
  ultimately show ?thesis by (simp add: unat_push_byte unat_pair)
qed

lemma sextet_digits:
  assumes "n = 262144 * w + 4096 * x + 64 * y + z" "w < 64" "x < 64" "y < 64" "z < (64::nat)"
  shows "n div 2 ^ 18 mod 64 = w" "n div 2 ^ 12 mod 64 = x" "n div 2 ^ 6 mod 64 = y" "n div 2 ^ 0 mod 64 = z"
proof -
  have "n div 262144 = w" by (rule div_nat_eqI) (use assms in auto)
  then show "n div 2 ^ 18 mod 64 = w" using assms by simp
  have "n div 4096 = 64 * w + x" by (rule div_nat_eqI) (use assms in auto)
  then show "n div 2 ^ 12 mod 64 = x" using assms by simp
  have "n div 64 = 64 * (64 * w + x) + y" by (rule div_nat_eqI) (use assms in auto)
  then have "n div 64 mod 64 = y" using assms by (simp only: mod_mult_self4 mod_less)
  then show "n div 2 ^ 6 mod 64 = y" by simp
  have "n = 64 * (64 * (64 * w + x) + y) + z" using assms by simp
  then have "n mod 64 = z" using assms(5) by (simp only: mod_mult_self4 mod_less)
  then show "n div 2 ^ 0 mod 64 = z" by simp
qed

lemma div_mod_bounds: "(x::nat) < 256 \<Longrightarrow> 0 < k \<Longrightarrow> x = k * (x div k) + x mod k \<and> x mod k < k \<and> k * (x div k) < 256"
  using mult_div_mod_eq [of k x] by (auto intro: le_less_trans [OF times_div_less_eq_dividend])

lemma byte_sextets:
  fixes a b c :: nat
  assumes "a < 256" "b < 256" "c < 256" "n = 65536 * a + 256 * b + c"
  shows "n div 2 ^ 18 mod 64 = a div 4 \<and> n div 2 ^ 12 mod 64 = a mod 4 * 16 + b div 16 \<and>
    n div 2 ^ 6 mod 64 = b mod 16 * 4 + c div 64 \<and> n div 2 ^ 0 mod 64 = c mod 64"
proof -
  define a1 a0 b1 b0 c1 c0 where defs: "a1 = a div 4" "a0 = a mod 4" "b1 = b div 16" "b0 = b mod 16"
    "c1 = c div 64" "c0 = c mod 64"
  have a: "a = 4 * a1 + a0" "a0 < 4" "4 * a1 < 256"
    using div_mod_bounds [OF assms(1), of 4] by (simp_all add: defs)
  have b: "b = 16 * b1 + b0" "b0 < 16" "16 * b1 < 256"
    using div_mod_bounds [OF assms(2), of 16] by (simp_all add: defs)
  have c: "c = 64 * c1 + c0" "c0 < 64" "64 * c1 < 256"
    using div_mod_bounds [OF assms(3), of 64] by (simp_all add: defs)
  have n: "n = 262144 * a1 + 4096 * (a0 * 16 + b1) + 64 * (b0 * 4 + c1) + c0"
    unfolding assms(4) a(1) b(1) c(1) by simp
  have small: "a1 < 64" "a0 * 16 + b1 < 64" "b0 * 4 + c1 < 64" "c0 < 64"
    using a b c by linarith+
  show ?thesis unfolding defs [symmetric] using sextet_digits [OF n small] by blast
qed

lemmas unat_byte_sextets = byte_sextets [OF unat_byte_less unat_byte_less unat_byte_less refl]

lemma Base64_bytes:
  "b64_hi (unat a div 4) (unat a mod 4 * 16 + unat b div 16) = a"
  "b64_mid (unat a mod 4 * 16 + unat b div 16) (unat b mod 16 * 4 + unat c div 64) = b"
  "b64_lo (unat b mod 16 * 4 + unat c div 64) (unat c mod 64) = c" for a b c :: u8
proof -
  have q: "unat b div 16 < 16" "unat c div 64 < 4"
    using unat_byte_less [of b] unat_byte_less [of c] by linarith+
  have "unat a div 4 * 4 + (unat a mod 4 * 16 + unat b div 16) div 16 = unat a" using q by simp
  then show "b64_hi (unat a div 4) (unat a mod 4 * 16 + unat b div 16) = a"
    by (simp only: b64_hi_def) simp
  have "(unat a mod 4 * 16 + unat b div 16) mod 16 * 16 + (unat b mod 16 * 4 + unat c div 64) div 4 = unat b"
    using q by simp
  then show "b64_mid (unat a mod 4 * 16 + unat b div 16) (unat b mod 16 * 4 + unat c div 64) = b"
    by (simp only: b64_mid_def) simp
  have "(unat b mod 16 * 4 + unat c div 64) mod 4 * 64 + unat c mod 64 = unat c" using q by simp
  then show "b64_lo (unat b mod 16 * 4 + unat c div 64) (unat c mod 64) = c"
    by (simp only: b64_lo_def) simp
qed

lemma sextets_of_triple:
  "sextet_value (sextet (triple a b c) 18) = Some (unat a div 4)"
  "sextet_value (sextet (triple a b c) 12) = Some (unat a mod 4 * 16 + unat b div 16)"
  "sextet_value (sextet (triple a b c) 6) = Some (unat b mod 16 * 4 + unat c div 64)"
  "sextet_value (sextet (triple a b c) 0) = Some (unat c mod 64)"
  unfolding sextet_value_sextet unat_triple using unat_byte_sextets [of a b c] by blast+

lemma triple_short:
  "push_bit 16 (ucast a) OR push_bit 8 (ucast b) = triple a b 0" "push_bit 16 (ucast a) = triple a 0 0"
  by (simp_all add: triple_def)

lemma Base64Decode_Encode: "Base64Decode (Base64Encode bs) = Some bs"
proof (induction bs rule: Base64Encode.induct)
  case (1 a b c rest)
  then show ?case by (simp add: Let_def sextets_of_triple Base64_bytes)
next
  case (2 a b)
  show ?case using Base64_bytes(1) [of a b] Base64_bytes(2) [of a b 0]
    by (simp add: Let_def triple_short(1) sextets_of_triple sextet_value_pad)
next
  case (3 a)
  show ?case using Base64_bytes(1) [of a 0]
    by (simp add: Let_def triple_short(2) sextets_of_triple sextet_value_pad)
qed simp

lemma length_Base64Encode: "length (Base64Encode bs) = (length bs + 2) div 3 * 4"
proof (induction bs rule: Base64Encode.induct)
  case (1 a b c rest)
  have "(length (a # b # c # rest) + 2) div 3 = (length rest + 2 + 3) div 3" by simp
  also have "\<dots> = (length rest + 2) div 3 + 1" by (simp only: div_add_self2)
  finally show ?case using 1 by (simp add: Let_def)
qed (auto simp: Let_def)

section \<open>Masking\<close>

lemma length_mask [simp]: "length (mask_payload k p) = length p"
  by (simp add: mask_payload_def)

lemma nth_mask: "i < length p \<Longrightarrow> mask_payload k p ! i = p ! i XOR keyByte k i"
  by (simp add: mask_payload_def nth_enumerate_eq)

lemma mask_mask: "mask_payload k (mask_payload k p) = p"
  by (rule nth_equalityI) (simp_all add: nth_mask xor.assoc)

section \<open>Reading back an encoded frame\<close>

lemma first_byte:
  fixes op :: u8 and fin :: bool
  defines "b0 \<equiv> (if fin then 0x80 else 0) OR (op AND 0x0F)"
  shows "(b0 AND 0x80 \<noteq> 0) = fin" "b0 AND 0x70 = 0" "b0 AND 0x0F = op AND 0x0F"
  unfolding b0_def by (simp_all add: bit.conj_disj_distrib2 and.assoc)

lemma and_7F: "unat n < 128 \<Longrightarrow> n AND 0x7F = n \<and> n AND 0x80 = 0" for n :: u8
proof -
  assume n: "unat n < 128"
  have "n AND 0x7F = take_bit 7 n" by (simp add: take_bit_eq_mask mask_eq_exp_minus_1)
  with n have *: "n AND 0x7F = n" by (simp add: take_bit_small)
  then have "n AND 0x80 = (n AND 0x7F) AND 0x80" by simp
  also have "\<dots> = 0" by (simp add: and.assoc)
  finally show ?thesis using * by simp
qed

lemma second_byte:
  fixes n :: u8 and masked :: bool
  defines "b1 \<equiv> (if masked then 0x80 else 0) OR n"
  assumes "unat n < 128"
  shows "(b1 AND 0x80 \<noteq> 0) = masked" "b1 AND 0x7F = n"
  unfolding b1_def using and_7F [OF assms(2)] by (simp_all add: bit.conj_disj_distrib2)

lemma unat_ucast_u64 [simp]: "unat (ucast (a::u8) :: u64) = unat a"
proof -
  have "unat a < 2 ^ 64" by (rule less_le_trans [OF unat_byte_less]) simp
  then show ?thesis by (simp add: unsigned_ucast_eq take_bit_nat_eq_self)
qed

lemma push8_or: "push_bit 8 n OR ucast (b::u8) = n * 256 + (ucast b :: u64)"
  by (subst push_or_add) (simp_all add: push_bit_eq_mult)

lemma foldl_push8:
  "foldl (\<lambda>n b. push_bit 8 n OR ucast b) acc bs = acc * 256 ^ length bs + (of_nat (le_nat (rev bs)) :: u64)"
proof (induction bs arbitrary: acc)
  case (Cons b bs)
  have "foldl (\<lambda>n b. push_bit 8 n OR ucast b) acc (b # bs) =
      (push_bit 8 acc OR ucast b) * 256 ^ length bs + of_nat (le_nat (rev bs))"
    by (simp only: foldl_Cons Cons.IH)
  also have "\<dots> = acc * 256 ^ length (b # bs) + of_nat (le_nat (rev (b # bs)))"
    by (simp add: push8_or le_nat_append algebra_simps)
  finally show ?case .
qed simp

lemma le_bytes_map: "le_bytes n v = map (\<lambda>i. of_nat (v div 256 ^ i mod 256)) [0..<n]"
proof (induction n arbitrary: v)
  case (Suc n)
  have "map (\<lambda>i. of_nat (v div 256 div 256 ^ i mod 256) :: u8) [0..<n] =
      map (\<lambda>i. of_nat (v div 256 ^ i mod 256)) (map Suc [0..<n])"
    by (simp add: o_def div_mult2_eq)
  then show ?case by (simp add: Suc.IH upt_conv_Cons map_Suc_upt del: upt_Suc)
qed simp

lemma byte_at_of_nat: "(ucast (drop_bit (8 * i) len AND 0xFF) :: u8) = of_nat (unat len div 256 ^ i mod 256)"
  for len :: "'a::len word"
  by (rule word_unat_eq_iff [THEN iffD2]) (simp add: unat_byte_at unat_of_nat power_mult)

lemma be_digits8:
  "map (\<lambda>i. ucast (drop_bit (8 * i) len AND 0xFF)) [7, 6, 5, 4, 3, 2, 1, 0] = rev (le_bytes 8 (unat len))" for len :: u64
proof -
  have "rev [0..<8] = [7, 6, 5, 4, 3, 2, 1, 0::nat]" by (simp add: upt_rec)
  then show ?thesis by (simp only: byte_at_of_nat le_bytes_map rev_map)
qed

lemma unat_of_nat_u64: "n < 2 ^ 64 \<Longrightarrow> unat (of_nat n :: u64) = n"
  by (simp add: unat_of_nat)

lemma of_nat_u64_eq: "m < 2 ^ 64 \<Longrightarrow> n < 2 ^ 64 \<Longrightarrow> (of_nat m :: u64) = of_nat n \<longleftrightarrow> m = n"
  by (metis unat_of_nat_u64)

lemma length_field_short:
  assumes "len < 126"
  shows "EncodeFrame_length masked len = [(if masked then 0x80 else 0) OR of_nat len]"
    and "unat (of_nat len :: u8) = len"
proof -
  show u: "unat (of_nat len :: u8) = len" using assms by (simp add: unat_of_nat)
  have "(ucast (of_nat len :: u64) :: u8) = of_nat len"
    by (rule word_unat_eq_iff [THEN iffD2])
      (use assms in \<open>simp add: unsigned_ucast_eq unat_of_nat take_bit_nat_eq_self\<close>)
  with assms show "EncodeFrame_length masked len = [(if masked then 0x80 else 0) OR of_nat len]"
    by (simp add: EncodeFrame_length_def Let_def)
qed

lemma length_field_medium:
  "EncodeFrame_length masked len = ((if masked then 0x80 else 0) OR 126) # rev (le_bytes 2 len)"
  if "126 \<le> len" "len \<le> 0xFFFF"
proof -
  have "unat (of_nat len :: u64) = len" using that by (simp add: unat_of_nat)
  then have "(ucast (drop_bit (8 * i) (of_nat len :: u64) AND 0xFF) :: u8) = of_nat (len div 256 ^ i mod 256)" for i
    by (simp only: byte_at_of_nat)
  from this [of 1] this [of 0] that show ?thesis
    by (simp add: EncodeFrame_length_def Let_def le_bytes_map numeral_2_eq_2)
qed

lemma length_field_long:
  assumes "0xFFFF < len" "len < 2 ^ 64"
  shows "EncodeFrame_length masked len = ((if masked then 0x80 else 0) OR 127) # rev (le_bytes 8 len)"
  using assms be_digits8 [of "of_nat len"] by (simp add: EncodeFrame_length_def Let_def unat_of_nat)

lemma read_length_field:
  assumes "len < 2 ^ 64"
  shows "\<exists>b1 more. EncodeFrame_length masked len = b1 # more \<and> (b1 AND 0x80 \<noteq> 0) = masked \<and>
    length more \<le> 8 \<and>
    ReadFrame_length (b0 # b1 # more @ rest) (ucast (b1 AND 0x7F)) = Some (of_nat len, 2 + length more)"
proof -
  consider "len < 126" | "126 \<le> len" "len \<le> 0xFFFF" | "0xFFFF < len" by linarith
  then show ?thesis
  proof cases
    case 1
    then have "unat (of_nat len :: u8) < 128" by (simp add: length_field_short)
    from second_byte [OF this, of masked] 1 show ?thesis
      by (intro exI [of _ "(if masked then 0x80 else 0) OR of_nat len"] exI [of _ "[]"] conjI)
        (auto simp: length_field_short ReadFrame_length_def word_unat_eq_iff unat_of_nat)
  next
    case 2
    let ?bs = "le_bytes 2 len"
    obtain lo hi where bs: "?bs = [lo, hi]" by (simp add: numeral_2_eq_2)
    have "push_bit 8 (ucast hi) OR ucast lo = (of_nat (le_nat ?bs) :: u64)"
      using foldl_push8 [of 0 "[hi, lo]"] by (simp add: bs)
    also have "le_nat ?bs = len" using 2 by simp
    finally show ?thesis
      using second_byte [of 126 masked] 2
      by (intro exI [of _ "(if masked then 0x80 else 0) OR 126"] exI [of _ "[hi, lo]"] conjI)
        (simp_all add: length_field_medium bs ReadFrame_length_def)
  next
    case 3
    let ?bs = "rev (le_bytes 8 len)"
    have l: "length ?bs = 8" by simp
    have "foldl (\<lambda>n i. push_bit 8 n OR ucast ((b0 # b1 # ?bs @ rest) ! (2 + i))) (0::u64) [0..<8] =
        foldl (\<lambda>n b. push_bit 8 n OR ucast b) 0 (map (\<lambda>i. ?bs ! i) [0..<length ?bs])" for b1
      unfolding foldl_map l by (rule foldl_cong) (simp_all add: nth_append)
    also have "\<dots> = of_nat len"
      using 3 assms unfolding map_nth foldl_push8 by simp
    finally have "foldl (\<lambda>n i. push_bit 8 n OR ucast ((b0 # b1 # ?bs @ rest) ! (2 + i))) (0::u64) [0..<8] = of_nat len" for b1 .
    then show ?thesis
      using second_byte [of 127 masked] 3 assms
      by (intro exI [of _ "(if masked then 0x80 else 0) OR 127"] exI [of _ ?bs] conjI)
        (simp_all add: length_field_long ReadFrame_length_def)
  qed
qed

lemma key_bytes:
  "push_bit 0 (ucast (ucast (drop_bit 0 key AND 0xFF) :: u8)) OR push_bit 8 (ucast (ucast (drop_bit 8 key AND 0xFF) :: u8))
   OR push_bit 16 (ucast (ucast (drop_bit 16 key AND 0xFF) :: u8)) OR push_bit 24 (ucast (ucast (drop_bit 24 key AND 0xFF) :: u8))
   = (key :: u32)" (is "?l = key")
proof (rule bit_word_eqI)
  fix n assume n: "n < LENGTH(32)"
  then consider "n < 8" | "8 \<le> n" "n < 16" | "16 \<le> n" "n < 24" | "24 \<le> n" "n < 32" by fastforce
  then show "bit ?l n = bit key n"
    by cases (auto simp: and_FF bit_simps)
qed

lemma read_mask_field:
  assumes "hl = length pre"
  shows "ReadFrame_mask (pre @ EncodeFrame_body masked key p @ rest) masked hl =
    Some (if masked then key else 0, if masked then hl + 4 else hl)"
  using assms key_bytes [of key]
  by (simp add: ReadFrame_mask_def EncodeFrame_body_def nth_append numeral_2_eq_2 numeral_3_eq_3)

lemma ReadFrame_EncodeFrame:
  assumes small: "length p + length rest + 14 < 2 ^ 64"
  shows "ReadFrame (EncodeFrame op p fin masked key @ rest) =
    Frame fin (op AND 0x0F) masked (if masked then key else 0)
      (if masked then mask_payload key p else p) rest"
proof -
  let ?b0 = "(if fin then 0x80 else 0) OR (op AND 0x0F)" and ?body = "EncodeFrame_body masked key p"
  from small have len: "length p < 2 ^ 64" by simp
  obtain b1 more where f: "EncodeFrame_length masked (length p) = b1 # more"
    and m: "(b1 AND 0x80 \<noteq> 0) = masked" and more: "length more \<le> 8"
    and rl: "ReadFrame_length (?b0 # b1 # more @ ?body @ rest) (ucast (b1 AND 0x7F)) = Some (of_nat (length p), 2 + length more)"
    using read_length_field [OF len, of masked ?b0 "?body @ rest"] by blast
  let ?buf = "?b0 # b1 # more @ ?body @ rest" and ?hl = "if masked then 2 + length more + 4 else 2 + length more"
  have rm: "ReadFrame_mask ?buf masked (2 + length more) = Some (if masked then key else 0, ?hl)"
    using read_mask_field [of "2 + length more" "?b0 # b1 # more" masked key p rest] by simp
  have buf: "EncodeFrame op p fin masked key @ rest = ?buf"
    by (simp add: EncodeFrame_def f)
  have lb: "length ?buf = ?hl + length p + length rest"
    by (simp add: EncodeFrame_body_def)
  have tot: "unat ((of_nat ?hl :: size_t) + of_nat (length p)) = ?hl + length p"
    using small more by (simp add: unat_of_nat_u64 flip: of_nat_add)
  have ub: "unat (of_nat (?hl + length p + length rest) :: size_t) = ?hl + length p + length rest"
    using small more by (intro unat_of_nat_u64) simp
  have enough: "\<not> (of_nat (length ?buf) :: size_t) < of_nat ?hl + of_nat (length p)"
    by (simp only: lb word_less_nat_alt tot ub not_less le_add1)
  let ?data = "if masked then mask_payload key p else p"
  obtain pre where pre: "?buf = pre @ ?data @ rest" "length pre = ?hl"
  proof
    show "?buf = (?b0 # b1 # more @ take 4 (if masked then ?body else [])) @ ?data @ rest"
      by (simp add: EncodeFrame_body_def)
    show "length (?b0 # b1 # more @ take 4 (if masked then ?body else [])) = ?hl"
      by (simp add: EncodeFrame_body_def)
  qed
  have data: "take (length p) (drop ?hl ?buf) = ?data" and rest: "drop (?hl + length p) ?buf = rest"
    unfolding pre(1) pre(2) [symmetric] by simp_all
  have "ReadFrame ?buf = Frame fin (op AND 0x0F) masked (if masked then key else 0)
      (take (length p) (drop ?hl ?buf)) (drop (?hl + length p) ?buf)"
    using first_byte [of fin op] m rl rm enough tot
    by (simp add: ReadFrame_def Let_def del: drop_append take_append split del: if_split)
  then show ?thesis by (simp only: buf data rest)
qed

section \<open>The mask generator never stops\<close>

lemma push_bit_fixed: "0 < k \<Longrightarrow> (x :: 'a::len word) = push_bit k x \<Longrightarrow> x = 0"
proof (rule bit_word_eqI)
  fix n
  assume k: "0 < k" and x: "x = push_bit k x"
  have "\<not> bit x n"
  proof (induction n rule: less_induct)
    case (less n)
    have "bit x n = (k \<le> n \<and> n < LENGTH('a) \<and> bit x (n - k))"
      by (subst x) (auto simp: bit_push_bit_iff)
    with less k show ?case by auto
  qed
  then show "bit x n = bit 0 n" by simp
qed

lemma drop_bit_fixed: "0 < k \<Longrightarrow> (x :: 'a::len word) = drop_bit k x \<Longrightarrow> x = 0"
proof -
  assume k: "0 < k" and x: "x = drop_bit k x"
  from x have "unat x = unat x div 2 ^ k"
    by (metis unat_drop_bit_eq drop_bit_eq_div)
  moreover have "unat x div 2 ^ k < unat x" if "0 < unat x"
    using that k one_less_power [of "2::nat" k] by (intro div_less_dividend) auto
  ultimately have "unat x = 0" by (cases "unat x") auto
  then show "x = 0" by (simp add: unat_eq_zero)
qed

lemma xor_eq_zero: "x XOR y = 0 \<longleftrightarrow> x = (y :: 'a::len word)"
  by (metis xor.assoc xor_self_eq xor.left_neutral xor.right_neutral)

lemma WsRng_Next_nonzero: "s \<noteq> 0 \<Longrightarrow> WsRng_Next s \<noteq> 0"
proof -
  assume s: "s \<noteq> 0"
  let ?s1 = "s XOR push_bit 13 s"
  let ?s2 = "?s1 XOR drop_bit 17 ?s1"
  have "?s1 \<noteq> 0" using s push_bit_fixed [of 13 s] by (auto simp: xor_eq_zero)
  then have "?s2 \<noteq> 0" using drop_bit_fixed [of 17 ?s1] by (auto simp: xor_eq_zero)
  then have "?s2 XOR push_bit 5 ?s2 \<noteq> 0" using push_bit_fixed [of 5 ?s2] by (auto simp: xor_eq_zero)
  then show ?thesis by (simp add: WsRng_Next_def Let_def)
qed

section \<open>When the frame parser's length sum wraps\<close>

lemma ReadFrame_length_bounds:
  "ReadFrame_length buf n0 = Some (n, h) \<Longrightarrow> 2 \<le> length buf \<Longrightarrow> 2 \<le> h \<and> h \<le> length buf"
  by (auto simp: ReadFrame_length_def split: if_splits)

lemma ReadFrame_mask_bounds:
  "ReadFrame_mask buf m h = Some (k, h') \<Longrightarrow> h \<le> length buf \<Longrightarrow> h \<le> h' \<and> h' \<le> length buf"
  by (auto simp: ReadFrame_mask_def split: if_splits)

lemma ReadFrame_length_append:
  "ReadFrame_length buf n0 = Some x \<Longrightarrow> ReadFrame_length (buf @ ys) n0 = Some x"
proof -
  have "foldl (\<lambda>n i. push_bit 8 n OR ucast ((buf @ ys) ! (2 + i))) 0 [0..<8] =
      (foldl (\<lambda>n i. push_bit 8 n OR ucast (buf ! (2 + i))) 0 [0..<8] :: u64)" if "10 \<le> length buf"
    using that by (intro foldl_cong) (auto simp: nth_append)
  then show "ReadFrame_length buf n0 = Some x \<Longrightarrow> ReadFrame_length (buf @ ys) n0 = Some x"
    by (simp add: ReadFrame_length_def nth_append split: if_splits)
qed

lemma ReadFrame_mask_append:
  "ReadFrame_mask buf m h = Some x \<Longrightarrow> ReadFrame_mask (buf @ ys) m h = Some x"
  by (simp add: ReadFrame_mask_def nth_append split: if_splits)

text \<open>A complete frame: its header fields, and where it ends.\<close>

lemma ReadFrame_FrameD:
  assumes "ReadFrame buf = Frame fin opcode masked key raw rest"
  obtains n h h' total where
    "2 \<le> length buf" "buf ! 0 AND 0x70 = 0" "ReadFrame_length buf (ucast (buf ! 1 AND 0x7F)) = Some (n, h)"
    "ReadFrame_mask buf masked h = Some (key, h')" "total = (of_nat h' :: size_t) + n"
    "\<not> (of_nat (length buf) :: size_t) < total" "h' \<le> unat total" "2 \<le> h'"
    "fin = (buf ! 0 AND 0x80 \<noteq> 0)" "opcode = buf ! 0 AND 0x0F" "masked = (buf ! 1 AND 0x80 \<noteq> 0)"
    "raw = take (unat total - h') (drop h' buf)" "rest = drop (unat total) buf"
proof -
  have two: "2 \<le> length buf" and rsv: "buf ! 0 AND 0x70 = 0"
    using assms by (auto simp: ReadFrame_def Let_def split: if_splits)
  from assms two rsv obtain n h where len: "ReadFrame_length buf (ucast (buf ! 1 AND 0x7F)) = Some (n, h)"
    by (cases "ReadFrame_length buf (ucast (buf ! 1 AND 0x7F))") (auto simp: ReadFrame_def)
  from assms two rsv len obtain k h' where mask: "ReadFrame_mask buf (buf ! 1 AND 0x80 \<noteq> 0) h = Some (k, h')"
    by (cases "ReadFrame_mask buf (buf ! 1 AND 0x80 \<noteq> 0) h") (auto simp: ReadFrame_def)
  have "2 \<le> h'"
    using ReadFrame_length_bounds [OF len two] ReadFrame_mask_bounds [OF mask] by linarith
  moreover have "\<not> (of_nat (length buf) :: size_t) < of_nat h' + n \<and> h' \<le> unat (of_nat h' + n) \<and>
      Frame fin opcode masked key raw rest = Frame (buf ! 0 AND 0x80 \<noteq> 0) (buf ! 0 AND 0x0F) (buf ! 1 AND 0x80 \<noteq> 0) k
        (take (unat (of_nat h' + n) - h') (drop h' buf)) (drop (unat (of_nat h' + n)) buf)"
    using assms two rsv len mask by (simp add: ReadFrame_def not_le Let_def split: if_splits)
  ultimately show ?thesis using two rsv len mask that by simp
qed

lemma ReadFrame_shrinks: "ReadFrame buf = Frame fin opcode masked key raw rest \<Longrightarrow> length rest < length buf"
  by (erule ReadFrame_FrameD) simp

text \<open>More input does not change a frame that is complete.\<close>

lemma ReadFrame_append:
  assumes "ReadFrame buf = Frame fin opcode masked key raw rest" "length (buf @ ys) < 2 ^ 64"
  shows "ReadFrame (buf @ ys) = Frame fin opcode masked key raw (rest @ ys)"
proof -
  from assms(1) obtain n h h' total where f:
    "2 \<le> length buf" "buf ! 0 AND 0x70 = 0" "ReadFrame_length buf (ucast (buf ! 1 AND 0x7F)) = Some (n, h)"
    "ReadFrame_mask buf masked h = Some (key, h')" "total = (of_nat h' :: size_t) + n"
    "\<not> (of_nat (length buf) :: size_t) < total" "h' \<le> unat total" "2 \<le> h'"
    "fin = (buf ! 0 AND 0x80 \<noteq> 0)" "opcode = buf ! 0 AND 0x0F" "masked = (buf ! 1 AND 0x80 \<noteq> 0)"
    "raw = take (unat total - h') (drop h' buf)" "rest = drop (unat total) buf"
    by (rule ReadFrame_FrameD)
  have le: "unat total \<le> length buf"
  proof -
    have "unat total \<le> unat (of_nat (length buf) :: size_t)" using f(6) by (simp add: not_less word_le_nat_alt)
    also have "\<dots> = length buf" using assms(2) by (intro unat_of_nat_u64) simp
    finally show ?thesis .
  qed
  have "\<not> (of_nat (length (buf @ ys)) :: size_t) < total"
    using le unat_of_nat_u64 [OF assms(2)] by (simp add: word_less_nat_alt not_less)
  moreover have nth: "(buf @ ys) ! 0 = buf ! 0" "(buf @ ys) ! 1 = buf ! 1" using f(1) by (auto simp: nth_append)
  moreover note ReadFrame_length_append [OF f(3), of ys] ReadFrame_mask_append [OF f(4), of ys]
  moreover have "take (unat total - h') (drop h' (buf @ ys)) = raw" "drop (unat total) (buf @ ys) = rest @ ys"
    using le f by simp_all
  ultimately show ?thesis using f by (simp add: ReadFrame_def Let_def)
qed

definition announced :: "bytes \<Rightarrow> u64" where
  "announced buf = foldl (\<lambda>n i. push_bit 8 n OR ucast (buf ! (2 + i))) 0 [0..<8]"

lemma unat_plus_wrap: "unat (of_nat h + (n :: u64)) < h \<Longrightarrow> h \<le> 14 \<Longrightarrow> 2 ^ 64 - 14 \<le> unat n"
proof (rule ccontr)
  assume *: "unat (of_nat h + n) < h" "h \<le> 14" "\<not> 2 ^ 64 - 14 \<le> unat n"
  then have "unat (of_nat h + n) = h + unat n"
    by (subst unat_plus_small) (auto simp: unat_of_nat)
  with * show False by simp
qed

lemma ReadFrame_length_cases:
  assumes "ReadFrame_length buf n = Some (len, hl)" "unat n < 128"
  shows "hl = 2 \<and> unat len < 128 \<or> hl = 4 \<and> unat len < 65536 \<or> hl = 10 \<and> n = 127 \<and> len = announced buf"
proof -
  have "unat (push_bit 8 (ucast (a::u8)) OR ucast (b::u8) :: u64) < 65536" for a b
  proof -
    have "push_bit 8 (ucast a) OR ucast b = (of_nat (le_nat [b, a]) :: u64)"
      using foldl_push8 [of 0 "[a, b]"] by simp
    moreover have "le_nat [b, a] < 256 ^ length [b, a]" by (rule le_nat_less)
    ultimately show ?thesis by (simp only: unat_of_nat) (simp add: mod_less)
  qed
  with assms show ?thesis
    by (auto simp: ReadFrame_length_def announced_def split: if_splits)
qed

section \<open>Properties\<close>

text \<open>The accept key of the handshake: \<open>Sha1\<close> is SHA-1's compression folded over the blocks of
  the padded message, whatever its length.\<close>

theorem Sha1_correct: "Sha1 msg = Sha1_spec msg"
  by (rule Sha1_eq)

text \<open>Base64 loses nothing: decoding what \<open>Base64Encode\<close> wrote gives the bytes back, and the
  text has four characters for every started group of three bytes.\<close>

theorem Base64_roundtrip:
  "Base64Decode (Base64Encode bs) = Some bs \<and> length (Base64Encode bs) = (length bs + 2) div 3 * 4"
  by (simp add: Base64Decode_Encode length_Base64Encode)

text \<open>C17. Frame round trip: what \<open>EncodeFrame\<close> writes, at the front of any receive buffer, is read
  back by the frame parser with the same flags, the four-bit opcode and (after unmasking) the same
  payload, and exactly the bytes behind the frame remain. The three length encodings and both mask
  modes are covered.\<close>

theorem frame_roundtrip:
  assumes "length payload + length rest + 14 < 2 ^ 64"
  shows "\<exists>data. ReadFrame (EncodeFrame opcode payload fin masked key @ rest) =
      Frame fin (opcode AND 0x0F) masked (if masked then key else 0) data rest \<and>
    (if masked then mask_payload key data else data) = payload"
  using ReadFrame_EncodeFrame [OF assms] by (auto simp: mask_mask)

theorem frame_roundtrip_witness:
  "\<exists>data. ReadFrame (EncodeFrame 2 [1, 2, 3] True True 0xdeadbeef @ [9]) =
      Frame True (2 AND 0x0F) True 0xdeadbeef data [9] \<and> mask_payload 0xdeadbeef data = [1, 2, 3]"
  using frame_roundtrip [of "[1, 2, 3]" "[9]" 2 True True "0xdeadbeef"] by simp

text \<open>The size check of the frame parser compares the buffer with the 64-bit sum of the header
  length and the announced length. That sum wraps for announced lengths of at least \<open>2^64 - 14\<close>, and
  only then: a masked frame header announcing \<open>2^64 - 1\<close> bytes passes the check with no payload byte
  received, and the payload range ends before it starts.\<close>

theorem frame_length_wraps:
  "ReadFrame ([0x82, 0xFF] @ replicate 8 0xFF @ replicate 4 0) = BadRange \<and>
   (ReadFrame buf = BadRange \<longrightarrow> 2 ^ 64 - 14 \<le> unat (announced buf))"
proof
  show "ReadFrame ([0x82, 0xFF] @ replicate 8 0xFF @ replicate 4 0) = BadRange"
    by code_simp
next
  show "ReadFrame buf = BadRange \<longrightarrow> 2 ^ 64 - 14 \<le> unat (announced buf)"
  proof
    assume bad: "ReadFrame buf = BadRange"
    let ?n = "ucast (buf ! 1 AND 0x7F) :: u64"
    obtain len hl where len: "ReadFrame_length buf ?n = Some (len, hl)"
      using bad by (auto simp: ReadFrame_def Let_def split: if_splits option.splits)
    obtain key hl' where key: "ReadFrame_mask buf (buf ! 1 AND 0x80 \<noteq> 0) hl = Some (key, hl')"
      using bad len by (auto simp: ReadFrame_def Let_def split: if_splits option.splits)
    have wrap: "unat (of_nat hl' + len) < hl'"
      using bad len key by (auto simp: ReadFrame_def Let_def split: if_splits)
    have hl': "hl' \<le> hl + 4" using key by (auto simp: ReadFrame_mask_def split: if_splits)
    have "unat (buf ! 1 AND 0x7F) < 128"
      using word_and_le1 [of "buf ! 1" "0x7F"] by (simp add: word_le_nat_alt)
    then have n: "unat ?n < 128" by simp
    have cases: "hl = 2 \<and> unat len < 128 \<or> hl = 4 \<and> unat len < 65536 \<or> hl = 10 \<and> ?n = 127 \<and> len = announced buf"
      using ReadFrame_length_cases [OF len n] .
    then have "hl' \<le> 14" using hl' by auto
    from unat_plus_wrap [OF wrap this] cases show "2 ^ 64 - 14 \<le> unat (announced buf)" by auto
  qed
qed

theorem frame_length_wraps_witness:
  "2 ^ 64 - 14 \<le> unat (announced ([0x82, 0xFF] @ replicate 8 0xFF @ replicate 4 0))"
  using frame_length_wraps [of "[0x82, 0xFF] @ replicate 8 0xFF @ replicate 4 0"] by simp

text \<open>A close payload never exceeds the 125 bytes a control frame may carry, and starts with the
  big-endian close code.\<close>

theorem close_payload_bounds:
  "2 \<le> length (MakeClosePayload code reason) \<and> length (MakeClosePayload code reason) \<le> 125 \<and>
   256 * unat (MakeClosePayload code reason ! 0) + unat (MakeClosePayload code reason ! 1) = unat code \<and>
   (length reason \<le> 123 \<longrightarrow> drop 2 (MakeClosePayload code reason) = reason)"
proof -
  have "unat code < 65536" using unat_less_pow [of code] by simp
  then have "unat code div 256 mod 256 = unat code div 256" by (intro mod_less) (simp add: less_mult_imp_div_less)
  then have "256 * (unat code div 256 mod 256) + unat code mod 256 = unat code" by simp
  then show ?thesis
    using unat_byte_at [where k = 8 and n = code] unat_byte_at [where k = 0 and n = code] by (simp add: MakeClosePayload_def)
qed

theorem close_payload_bounds_witness:
  "drop 2 (MakeClosePayload 1000 [98, 121, 101]) = [98, 121, 101]"
  using close_payload_bounds [of 1000 "[98, 121, 101]"] by simp

text \<open>The xorshift generator of mask keys never reaches the fixed point zero: no seed gives a
  zero state and no step leads from a non-zero state to zero.\<close>

theorem WsRng_never_zero: "WsRng_Seed seed \<noteq> 0 \<and> (s \<noteq> 0 \<longrightarrow> WsRng_Next s \<noteq> 0)"
  by (simp add: WsRng_Seed_def Let_def WsRng_Next_nonzero)

theorem WsRng_never_zero_witness: "WsRng_Next (WsRng_Seed 0) \<noteq> 0"
  using WsRng_never_zero [of 0 "WsRng_Seed 0"] by simp

end
