(* ===== verification/Lode_Value.thy ===== *)
theory Lode_Value
  imports Lode_Prelude
begin

text \<open>
  Luau values as native code sees them, and the conversions of \<open>include/Lode/Numeric.hpp\<close>. A C++
  \<open>double\<close> is NaN, an infinity (the flag is its sign) or a finite number, kept as the rational it
  denotes; the rounded IEEE product is an argument of the one conversion that multiplies. Errors are
  the messages the code raises.
\<close>

section \<open>Values\<close>

datatype double = NaN | Infinity bool | Finite rat

text \<open>A table is its string-keyed part in the order \<open>lua_next\<close> visits it; \<open>LOther\<close> is any further type.\<close>

datatype lvalue =
    LNil
  | LBool bool
  | LNumber double
  | LString string
  | LBuffer bytes
  | LTable "(string \<times> lvalue) list"
  | LOther

definition table_get :: "(string \<times> lvalue) list \<Rightarrow> string \<Rightarrow> lvalue" where
  "table_get t k = (case map_of t k of Some v \<Rightarrow> v | None \<Rightarrow> LNil)"

definition arg :: "lvalue list \<Rightarrow> nat \<Rightarrow> lvalue" where
  "arg args i = (if i < length args then args ! i else LNil)"

definition is_integral :: "rat \<Rightarrow> bool" where
  "is_integral r \<longleftrightarrow> of_int \<lfloor>r\<rfloor> = r"

section \<open>Conversions\<close>

text \<open>\<open>static_cast<double>(max)\<close> of the unsigned 64-bit types rounds to \<open>2 ^ 64\<close>.\<close>

definition max_u64_double :: rat where
  "max_u64_double = 18446744073709551616"

definition ToSize :: "double \<Rightarrow> string \<Rightarrow> string + nat" where
  "ToSize value name =
     (case value of
        Finite r \<Rightarrow>
          if r < 0 \<or> \<not> is_integral r \<or> max_u64_double \<le> r
          then Inl (name @ '' must be a finite non-negative integer'')
          else Inr (nat \<lfloor>r\<rfloor>)
      | _ \<Rightarrow> Inl (name @ '' must be a finite non-negative integer''))"

definition ToMilliseconds :: "(rat \<Rightarrow> rat \<Rightarrow> double) \<Rightarrow> double \<Rightarrow> rat \<Rightarrow> string \<Rightarrow> string + nat" where
  "ToMilliseconds mult value multiplier name =
     (case value of
        Finite r \<Rightarrow>
          if r < 0 then Inl (name @ '' must be a finite non-negative number'')
          else (case mult r multiplier of
                  Finite ms \<Rightarrow> if max_u64_double \<le> ms then Inl (name @ '' is out of range'') else Inr (nat \<lfloor>ms\<rfloor>)
                | _ \<Rightarrow> Inl (name @ '' is out of range''))
      | _ \<Rightarrow> Inl (name @ '' must be a finite non-negative number''))"

definition ToInt64 :: "double \<Rightarrow> string \<Rightarrow> string + int" where
  "ToInt64 value name =
     (case value of
        Finite r \<Rightarrow>
          if \<not> is_integral r \<or> r < -9223372036854775808 \<or> 9223372036854775808 \<le> r
          then Inl (name @ '' must be a finite integer in the 64-bit signed range'')
          else Inr \<lfloor>r\<rfloor>
      | _ \<Rightarrow> Inl (name @ '' must be a finite integer in the 64-bit signed range''))"

section \<open>Lemmas and properties\<close>

lemma nat_floor_less: "r < of_nat n \<Longrightarrow> 0 \<le> r \<Longrightarrow> nat \<lfloor>r :: rat\<rfloor> < n"
  by (simp add: nat_less_iff floor_less_iff)

lemma of_nat_nat_floor: "0 \<le> r \<Longrightarrow> is_integral r \<Longrightarrow> of_nat (nat \<lfloor>r\<rfloor>) = r"
  by (simp add: is_integral_def)

lemma ToMilliseconds_range:
  assumes "ToMilliseconds mult value m name = Inr n"
  shows "n < 2 ^ 64"
proof -
  from assms obtain ms :: rat where "\<not> max_u64_double \<le> ms" "n = nat \<lfloor>ms\<rfloor>"
    by (auto simp: ToMilliseconds_def split: double.splits if_splits)
  moreover have "max_u64_double = of_nat (2 ^ 64)" by (simp add: max_u64_double_def)
  ultimately show ?thesis using nat_floor_less [of ms "2 ^ 64"] by (cases "0 \<le> ms") simp_all
qed

text \<open>The numeric conversions accept exactly the representable values: a number converts to a size
  exactly when it is the number of some natural below \<open>2 ^ 64\<close>, and to a signed 64-bit integer exactly
  when it is one, and then the result is that number, so the casts of the code never overflow.\<close>

theorem numeric_conversions_exact:
  "(ToSize v name = Inr n \<longleftrightarrow> v = Finite (of_nat n) \<and> n < 2 ^ 64) \<and>
   (ToInt64 v name = Inr i \<longleftrightarrow> v = Finite (of_int i) \<and> - (2 ^ 63) \<le> i \<and> i < 2 ^ 63)"
proof
  have lt: "(of_nat n :: rat) < max_u64_double \<longleftrightarrow> n < 2 ^ 64"
    using of_nat_less_iff [where 'a = rat, of n "2 ^ 64"] by (simp add: max_u64_double_def)
  show "ToSize v name = Inr n \<longleftrightarrow> v = Finite (of_nat n) \<and> n < 2 ^ 64"
  proof
    assume "ToSize v name = Inr n"
    then obtain r where v: "v = Finite r" "0 \<le> r" "is_integral r" "r < max_u64_double" "n = nat \<lfloor>r\<rfloor>"
      by (auto simp: ToSize_def not_le not_less split: double.splits if_splits)
    then have "of_nat n = r" using of_nat_nat_floor by simp
    then show "v = Finite (of_nat n) \<and> n < 2 ^ 64" using v lt by auto
  next
    assume "v = Finite (of_nat n) \<and> n < 2 ^ 64"
    then show "ToSize v name = Inr n" using lt by (simp add: ToSize_def is_integral_def not_le)
  qed
  have lo: "(of_int i :: rat) < -9223372036854775808 \<longleftrightarrow> i < - (2 ^ 63)"
    using of_int_less_iff [where 'a = rat, of i "- (2 ^ 63)"] by simp
  have hi: "(9223372036854775808 :: rat) \<le> of_int i \<longleftrightarrow> 2 ^ 63 \<le> i"
    using of_int_le_iff [where 'a = rat, of "2 ^ 63" i] by simp
  show "ToInt64 v name = Inr i \<longleftrightarrow> v = Finite (of_int i) \<and> - (2 ^ 63) \<le> i \<and> i < 2 ^ 63"
  proof
    assume "ToInt64 v name = Inr i"
    then obtain r where v: "v = Finite r" "is_integral r" "\<not> r < -9223372036854775808"
      "\<not> 9223372036854775808 \<le> r" "i = \<lfloor>r\<rfloor>"
      by (auto simp: ToInt64_def split: double.splits if_splits)
    then have "of_int i = r" by (simp add: is_integral_def)
    then show "v = Finite (of_int i) \<and> - (2 ^ 63) \<le> i \<and> i < 2 ^ 63" using v lo hi by auto
  next
    assume "v = Finite (of_int i) \<and> - (2 ^ 63) \<le> i \<and> i < 2 ^ 63"
    then show "ToInt64 v name = Inr i" using lo hi by (simp add: ToInt64_def is_integral_def)
  qed
qed

end
