(* ===== verification/Lode_Text.thy ===== *)
theory Lode_Text
  imports Lode_Prelude
begin

text \<open>
  Text of line-based protocols, shared by the websocket and http modules: cutting and trimming, header
  lines, searches from a position, and the number parsers of the C++ library (\<open>std::from_chars\<close>,
  \<open>std::stoull\<close>, \<open>std::stoul\<close>) with their ranges.
\<close>

section \<open>Cutting and trimming\<close>

definition cut_at :: "string \<Rightarrow> nat option \<Rightarrow> string \<times> string" where
  "cut_at s pos = (case pos of None \<Rightarrow> (s, []) | Some i \<Rightarrow> (take i s, drop i s))"

abbreviation CR :: char where "CR \<equiv> CHR 0x0D"
abbreviation LF :: char where "LF \<equiv> CHR 0x0A"
abbreviation CRLF :: string where "CRLF \<equiv> [CR, LF]"

definition is_blank :: "char \<Rightarrow> bool" where
  "is_blank c \<longleftrightarrow> c = CHR '' '' \<or> c = CHR 0x09"

definition trim_blanks :: "string \<Rightarrow> string" where
  "trim_blanks v =
     (case (find_idx (\<lambda>c. \<not> is_blank c) v, rfind_idx (\<lambda>c. \<not> is_blank c) v) of
        (Some i, Some j) \<Rightarrow> take (j - i + 1) (drop i v)
      | _ \<Rightarrow> [])"

definition field_line :: "string \<times> string \<Rightarrow> string" where
  "field_line kv = fst kv @ '': '' @ snd kv @ CRLF"

definition plain_field :: "string \<times> string \<Rightarrow> bool" where
  "plain_field kv \<longleftrightarrow> CR \<notin> set (fst kv) \<and> CR \<notin> set (snd kv) \<and> CHR '':'' \<notin> set (fst kv)"

definition trimmed :: "string \<Rightarrow> bool" where
  "trimmed v \<longleftrightarrow> v = [] \<or> (\<not> is_blank (hd v) \<and> \<not> is_blank (last v))"

section \<open>Searching\<close>

text \<open>\<open>find\<close> from a position.\<close>

definition find_from :: "'a list \<Rightarrow> 'a list \<Rightarrow> nat \<Rightarrow> nat option" where
  "find_from p s pos = (if length s < pos then None else map_option ((+) pos) (find_sub p (drop pos s)))"

section \<open>Numbers\<close>

definition hex_digit :: "char \<Rightarrow> nat" where
  "hex_digit c = (if is_digit c then ascii c - 48 else if is_upper c then ascii c - 55 else ascii c - 87)"

definition base_digit :: "nat \<Rightarrow> char \<Rightarrow> bool" where
  "base_digit base c \<longleftrightarrow> (if base = 16 then is_xdigit c else is_digit c)"

definition base_value :: "nat \<Rightarrow> string \<Rightarrow> nat" where
  "base_value base s = foldl (\<lambda>n c. base * n + hex_digit c) 0 s"

text \<open>\<open>std::from_chars\<close> for a signed type with the given number of bits: the value and what was not consumed, or
  \<^const>\<open>None\<close> for no digits and for a value out of range.\<close>

definition from_chars :: "nat \<Rightarrow> nat \<Rightarrow> string \<Rightarrow> (int \<times> string) option" where
  "from_chars bits base s =
     (let neg = (s \<noteq> [] \<and> hd s = CHR ''-''); s1 = (if neg then tl s else s);
          ds = takeWhile (base_digit base) s1; rest = dropWhile (base_digit base) s1;
          v = (if neg then - int (base_value base ds) else int (base_value base ds))
      in if ds = [] then None else if v < - (2 ^ (bits - 1)) \<or> 2 ^ (bits - 1) \<le> v then None else Some (v, rest))"

text \<open>\<open>std::stoull\<close> and \<open>std::stoul\<close> on 64 bits: white space, a sign, in base 16 a prefix, then digits; a minus
  sign negates modulo \<open>2 ^ 64\<close>. \<^const>\<open>None\<close> is an exception.\<close>

definition stoull :: "nat \<Rightarrow> string \<Rightarrow> nat option" where
  "stoull base s =
     (let s1 = dropWhile is_space s;
          neg = (s1 \<noteq> [] \<and> hd s1 = CHR ''-'');
          s2 = (if s1 \<noteq> [] \<and> (hd s1 = CHR ''-'' \<or> hd s1 = CHR ''+'') then tl s1 else s1);
          s3 = (if base = 16 \<and> 2 < length s2 \<and> s2 ! 0 = CHR ''0'' \<and> (s2 ! 1 = CHR ''x'' \<or> s2 ! 1 = CHR ''X'') \<and> is_xdigit (s2 ! 2)
                then drop 2 s2 else s2);
          ds = takeWhile (base_digit base) s3; v = base_value base ds
      in if ds = [] \<or> 2 ^ 64 \<le> v then None else Some (if neg then (2 ^ 64 - v) mod 2 ^ 64 else v))"

text \<open>\<open>%zx\<close>.\<close>

definition hex_char :: "nat \<Rightarrow> char" where
  "hex_char d = (if d < 10 then char_of (48 + d) else char_of (87 + d))"

fun hex_string :: "nat \<Rightarrow> string" where
  "hex_string n = (if n < 16 then [hex_char n] else hex_string (n div 16) @ [hex_char (n mod 16)])"

declare hex_string.simps [simp del]

section \<open>Lemmas\<close>

lemma cut_at_find:
  assumes "cut_at s (find_idx P s) = (a, b)"
  shows "s = a @ b \<and> (\<forall>c \<in> set a. \<not> P c) \<and> (b = [] \<or> P (hd b))"
proof (cases "find_idx P s")
  case (Some i)
  from find_idx_SomeD [OF Some] Some assms show ?thesis by (auto simp: cut_at_def hd_drop_conv_nth)
next
  case None
  with assms show ?thesis by (auto simp: cut_at_def simp flip: find_idx_None)
qed

lemma find_idx_at: "\<forall>x \<in> set xs. \<not> P x \<Longrightarrow> ys \<noteq> [] \<Longrightarrow> P (hd ys) \<Longrightarrow> find_idx P (xs @ ys) = Some (length xs)"
  using find_idx_first [of xs P "hd ys" "tl ys"] by simp

lemma nat_string_no: "\<not> is_digit c \<Longrightarrow> c \<notin> set (nat_string n)"
  using nat_string_digits [of n] by (auto simp: list_all_iff)

lemma find_sub_line: "CR \<notin> set line \<Longrightarrow> find_sub CRLF (line @ CRLF @ rest) = Some (length line)"
  by (induction line) (auto simp: prefix_def)

lemma trim_blanks_trimmed: "trimmed v \<Longrightarrow> trim_blanks v = v"
proof (cases v)
  case (Cons c cs)
  assume t: "trimmed v"
  with Cons have first: "find_idx (\<lambda>c. \<not> is_blank c) v = Some 0"
    by (simp add: trimmed_def)
  from Cons have "v \<noteq> []" by simp
  with t have "rev v \<noteq> []" "\<not> is_blank (hd (rev v))"
    by (simp_all add: trimmed_def hd_rev)
  then have "find_idx (\<lambda>c. \<not> is_blank c) (rev v) = Some 0"
    by (cases "rev v") simp_all
  then have "rfind_idx (\<lambda>c. \<not> is_blank c) v = Some (length v - 1)"
    by (simp add: rfind_idx_def)
  with first Cons show ?thesis by (simp add: trim_blanks_def)
qed (simp add: trim_blanks_def)

lemma trim_blanks_blank: "is_blank c \<Longrightarrow> trim_blanks (c # v) = trim_blanks v"
proof (cases "\<forall>x \<in> set v. is_blank x")
  case True
  moreover assume "is_blank c"
  ultimately show ?thesis by (simp add: trim_blanks_def find_idx_absent)
next
  case False
  then obtain i j where "find_idx (\<lambda>c. \<not> is_blank c) v = Some i" "rfind_idx (\<lambda>c. \<not> is_blank c) v = Some j"
    by (metis find_idx_None rfind_idx_None option.exhaust)
  moreover assume "is_blank c"
  ultimately show ?thesis by (simp add: trim_blanks_def rfind_idx_Cons)
qed

text \<open>\<^const>\<open>find_sub\<close> is the first occurrence, so that more input never moves it.\<close>

lemma find_sub_Some_iff: "find_sub p xs = Some i \<longleftrightarrow> i \<le> length xs \<and> prefix p (drop i xs) \<and> (\<forall>j < i. \<not> prefix p (drop j xs))"
proof (induction xs arbitrary: i)
  case (Cons x xs)
  show ?case
  proof (cases i)
    case (Suc k)
    then show ?thesis using Cons.IH [of k] by (auto simp: less_Suc_eq_0_disj)
  qed simp
qed (auto split: if_splits)

lemma find_sub_None_iff: "find_sub p xs = None \<longleftrightarrow> (\<forall>j \<le> length xs. \<not> prefix p (drop j xs))"
proof
  assume none: "find_sub p xs = None"
  show "\<forall>j \<le> length xs. \<not> prefix p (drop j xs)"
  proof (rule ccontr)
    assume "\<not> ?thesis"
    then obtain j where j: "j \<le> length xs" "prefix p (drop j xs)" by blast
    define m where "m = (LEAST j. prefix p (drop j xs))"
    have "prefix p (drop m xs)" "\<forall>k < m. \<not> prefix p (drop k xs)" "m \<le> j"
      using j(2) not_less_Least by (auto simp: m_def intro: LeastI Least_le)
    then have "find_sub p xs = Some m" using j(1) by (simp add: find_sub_Some_iff)
    with none show False by simp
  qed
next
  assume "\<forall>j \<le> length xs. \<not> prefix p (drop j xs)"
  then show "find_sub p xs = None" by (cases "find_sub p xs") (auto simp: find_sub_Some_iff)
qed

lemma prefix_iff_take: "prefix p zs \<longleftrightarrow> take (length p) zs = p"
  by (metis append_eq_conv_conj prefix_def)

lemma prefix_drop_append: "j + length p \<le> length xs \<Longrightarrow> prefix p (drop j (xs @ ys)) = prefix p (drop j xs)"
  by (simp add: prefix_iff_take)

lemma find_sub_inside: "find_sub p (xs @ p @ ys) \<noteq> None"
  by (auto simp: find_sub_None_iff intro!: exI [of _ "length xs"])

lemma find_sub_more: "find_sub p xs = Some i \<Longrightarrow> find_sub p (xs @ ys) = Some i"
proof -
  assume some: "find_sub p xs = Some i"
  have "prefix p (drop j (xs @ ys)) = prefix p (drop j xs)" if "j \<le> i" for j
    using that find_sub_length [OF some] by (intro prefix_drop_append) simp
  then show ?thesis using some unfolding find_sub_Some_iff by auto
qed

lemma find_sub_less:
  assumes "find_sub p (xs @ ys) = Some i"
  shows "find_sub p xs = (if i + length p \<le> length xs then Some i else None)"
proof (cases "find_sub p xs")
  case None
  then show ?thesis using assms prefix_drop_append [of i p xs ys] by (auto simp: find_sub_Some_iff find_sub_None_iff)
next
  case (Some j)
  with assms find_sub_more [OF Some, of ys] find_sub_length [OF Some] show ?thesis by simp
qed

lemma find_sub_char: "find_sub [c] xs = find_idx (\<lambda>x. x = c) xs"
  by (induction xs) auto

lemma find_sub_absent: "c \<in> set p \<Longrightarrow> c \<notin> set xs \<Longrightarrow> find_sub p xs = None"
proof (cases "find_sub p xs")
  case (Some i)
  assume "c \<in> set p" "c \<notin> set xs"
  with find_sub_SomeD [OF Some] show ?thesis by (metis in_set_dropD in_set_takeD)
qed

lemma find_from_append: "find_from p (xs @ ys) (length xs) = map_option ((+) (length xs)) (find_sub p ys)"
  by (simp add: find_from_def)

text \<open>Numbers that were printed are read back.\<close>

lemma base_digit_10: "base_digit 10 = is_digit"
  by (auto simp: base_digit_def)

lemma base_digit_16: "base_digit 16 = is_xdigit"
  by (auto simp: base_digit_def)

lemma hex_digit_digit: "is_digit c \<Longrightarrow> hex_digit c = digit_val c"
  by (simp add: hex_digit_def digit_val_def)

lemma base_value_10: "list_all is_digit s \<Longrightarrow> base_value 10 s = digits_value s"
  unfolding base_value_def digits_value_def
  by (induction s rule: rev_induct) (simp_all add: hex_digit_digit)

lemma nat_string_head: "hd (nat_string n) \<noteq> CHR ''-''" "hd (nat_string n) \<noteq> CHR ''+''" "\<not> is_space (hd (nat_string n))"
proof -
  have "is_digit (hd (nat_string n))" using nat_string_digits [of n] hd_in_set [OF nat_string_nonempty, of n] by (simp add: list_all_iff)
  then show "hd (nat_string n) \<noteq> CHR ''-''" "hd (nat_string n) \<noteq> CHR ''+''" "\<not> is_space (hd (nat_string n))"
    by (auto simp: is_digit_def is_space_def)
qed

lemma takeWhile_digits: "list_all P xs \<Longrightarrow> ys = [] \<or> \<not> P (hd ys) \<Longrightarrow> takeWhile P (xs @ ys) = xs \<and> dropWhile P (xs @ ys) = ys"
  by (cases ys) (auto simp: list_all_iff)

lemma from_chars_nat_string:
  assumes "n < 2 ^ (bits - 1)" "rest = [] \<or> \<not> is_digit (hd rest)"
  shows "from_chars bits 10 (nat_string n @ rest) = Some (int n, rest)"
proof -
  have "takeWhile is_digit (nat_string n @ rest) = nat_string n" "dropWhile is_digit (nat_string n @ rest) = rest"
    using takeWhile_digits [OF nat_string_digits assms(2)] by simp_all
  moreover have "\<not> int n < - (2 ^ (bits - 1))" by (simp add: not_less order_trans [OF _ of_nat_0_le_iff])
  ultimately show ?thesis using assms(1)
    by (simp add: from_chars_def base_digit_10 nat_string_head(1) base_value_10 nat_string_digits Let_def)
qed

lemma stoull_nat_string:
  assumes "n < 2 ^ 64"
  shows "stoull 10 (nat_string n) = Some n"
proof -
  have digits: "takeWhile is_digit (nat_string n) = nat_string n" using nat_string_digits [of n] by (simp add: list_all_iff)
  have start: "dropWhile is_space (nat_string n) = nat_string n" by (simp add: dropWhile_eq_self_iff nat_string_head(3))
  show ?thesis using assms
    by (simp add: stoull_def digits start base_digit_10 base_value_10 nat_string_digits nat_string_head Let_def)
qed

end
