(* ===== verification/Lode_WsHandshake.thy ===== *)
theory Lode_WsHandshake
  imports Lode_WsCodec Lode_Value Lode_Text
begin

text \<open>
  The text level of the websocket module: port and close-code validation, \<open>ParseWebSocketUrl\<close>,
  \<open>ParseHeaderBlock\<close> and \<open>HeaderListContains\<close> of \<open>WsHelpers.cpp\<close>, the handshake request the client
  sends in \<open>WsClient::OnTcpConnected\<close> and the decisions of \<open>DoServerHandshake\<close> and
  \<open>DoClientHandshake\<close>. A parser
  that advances a position in the input is a recursion on the remaining input.
\<close>

section \<open>Numbers\<close>

definition IsValidPort :: "double \<Rightarrow> bool \<Rightarrow> bool" where
  "IsValidPort value allowZero =
     (case value of
        Finite r \<Rightarrow>
          if \<not> is_integral r then False
          else if allowZero \<and> r = 0 then True
          else 1 \<le> r \<and> r \<le> 65535
      | _ \<Rightarrow> False)"

definition IsValidCloseCode :: "double \<Rightarrow> bool" where
  "IsValidCloseCode value =
     (case value of
        Finite r \<Rightarrow>
          if \<not> is_integral r then False
          else if r = 1000 then True
          else 3000 \<le> r \<and> r \<le> 4999
      | _ \<Rightarrow> False)"

text \<open>\<open>std::stoi\<close> on a non-empty run of digits: \<^const>\<open>None\<close> is the \<open>out_of_range\<close> exception.\<close>

definition stoi_digits :: "string \<Rightarrow> nat option" where
  "stoi_digits s = (let n = digits_value s in if int n \<le> 2147483647 then Some n else None)"

section \<open>URLs\<close>

record ParsedWsUrl =
  url_valid :: bool
  url_error :: string
  url_host :: string
  url_connectHost :: string
  url_port :: nat
  url_path :: string
  url_isSecure :: bool

definition ParsedWsUrl_invalid :: ParsedWsUrl where
  "ParsedWsUrl_invalid =
     \<lparr>url_valid = False, url_error = ''invalid-url'', url_host = [], url_connectHost = [], url_port = 0, url_path = [], url_isSecure = False\<rparr>"

definition ws_path :: "string \<Rightarrow> string" where
  "ws_path sfx =
     (let path0 = (if sfx = [] then ''/'' else sfx);
          path1 = (if path0 = [] \<or> hd path0 = CHR ''?'' \<or> hd path0 = CHR ''#'' then CHR ''/'' # path0 else path0);
          path2 = fst (cut_at path1 (find_idx (\<lambda>c. c = CHR ''#'') path1))
      in if path2 = [] then ''/'' else path2)"

text \<open>The digits after the colon of the authority; \<^const>\<open>None\<close> is a refused URL.\<close>

definition ws_port :: "string \<Rightarrow> nat option" where
  "ws_port pstr =
     (if pstr = [] then None
      else if \<not> list_all is_digit pstr then None
      else case stoi_digits pstr of None \<Rightarrow> None
           | Some p \<Rightarrow> if \<not> IsValidPort (Finite (of_nat p)) False then None else Some p)"

definition ws_host_port :: "string \<Rightarrow> nat \<Rightarrow> (string \<times> nat) option" where
  "ws_host_port hostPort defaultPort =
     (if hostPort = [] then None
      else if hd hostPort = CHR ''['' then
        (case find_idx (\<lambda>c. c = CHR '']'') hostPort of None \<Rightarrow> None
         | Some rbracket \<Rightarrow>
           let h = take (rbracket + 1) hostPort in
           if rbracket + 1 < length hostPort then
             (if hostPort ! (rbracket + 1) \<noteq> CHR '':'' then None
              else map_option (Pair h) (ws_port (drop (rbracket + 2) hostPort)))
           else Some (h, defaultPort))
      else
        (case find_idx (\<lambda>c. c = CHR '':'') hostPort of None \<Rightarrow> Some (hostPort, defaultPort)
         | Some colon \<Rightarrow> map_option (Pair (take colon hostPort)) (ws_port (drop (colon + 1) hostPort))))"

definition ParseWebSocketUrl :: "string \<Rightarrow> ParsedWsUrl" where
  "ParseWebSocketUrl raw =
     (let lowerRaw = map to_lower raw in
      if raw = [] then ParsedWsUrl_invalid
      else if take 6 lowerRaw \<noteq> ''wss://'' \<and> take 5 lowerRaw \<noteq> ''ws://'' then ParsedWsUrl_invalid
      else
        let secure = (take 6 lowerRaw = ''wss://'');
            s = drop (if secure then 6 else 5) raw;
            (hostPort, sfx) = cut_at s (find_idx (\<lambda>c. c = CHR ''/'' \<or> c = CHR ''?'' \<or> c = CHR ''#'') s)
        in if s = [] then ParsedWsUrl_invalid
           else case ws_host_port hostPort (if secure then 443 else 80) of None \<Rightarrow> ParsedWsUrl_invalid
           | Some (h, p) \<Rightarrow>
             if h = [] then ParsedWsUrl_invalid
             else \<lparr>url_valid = True, url_error = [], url_host = h,
                   url_connectHost = (if hd h = CHR ''['' \<and> last h = CHR '']'' then take (length h - 2) (drop 1 h) else h),
                   url_port = p, url_path = ws_path sfx, url_isSecure = secure\<rparr>)"

section \<open>Header blocks\<close>

record ParsedHeaders =
  statusLine :: string
  header_fields :: "(string \<times> string) list"

function parse_fields :: "string \<Rightarrow> (string \<times> string) list option" where
  "parse_fields rest =
     (if rest = [] then Some []
      else case find_sub CRLF rest of None \<Rightarrow> None
      | Some nl \<Rightarrow>
        let line = take nl rest in
        if line = [] then Some []
        else case find_idx (\<lambda>c. c = CHR '':'') line of None \<Rightarrow> None
        | Some colon \<Rightarrow>
          map_option (\<lambda>fs. (take colon line, trim_blanks (drop (colon + 1) line)) # fs)
            (parse_fields (drop (nl + 2) rest)))"
  by pat_completeness auto
termination
  by (relation "measure length") auto

declare parse_fields.simps [simp del]

definition ParseHeaderBlock :: "string \<Rightarrow> ParsedHeaders option" where
  "ParseHeaderBlock block =
     (case find_sub CRLF block of None \<Rightarrow> None
      | Some pos \<Rightarrow>
        map_option (\<lambda>fs. \<lparr>statusLine = take pos block, header_fields = fs\<rparr>) (parse_fields (drop (pos + 2) block)))"

definition EqualsIgnoreCase :: "string \<Rightarrow> string \<Rightarrow> bool" where
  "EqualsIgnoreCase a b =
     (if length a \<noteq> length b then False
      else list_all (\<lambda>i. to_lower (a ! i) = to_lower (b ! i)) [0..<length a])"

definition Find :: "ParsedHeaders \<Rightarrow> string \<Rightarrow> string option" where
  "Find h name = map_option snd (find (\<lambda>kv. EqualsIgnoreCase (fst kv) name) (header_fields h))"

function list_contains :: "string \<Rightarrow> string \<Rightarrow> bool" where
  "list_contains rest token =
     (let comma = find_idx (\<lambda>c. c = CHR '','') rest;
          piece = fst (cut_at rest comma);
          trimmed = trim_blanks piece
      in if find_idx (\<lambda>c. \<not> is_blank c) piece \<noteq> None \<and> EqualsIgnoreCase trimmed token then True
         else case comma of None \<Rightarrow> False | Some i \<Rightarrow> list_contains (drop (i + 1) rest) token)"
  by pat_completeness auto
termination
proof (relation "measure (\<lambda>(r, t). length r)")
  fix rest token :: string and comma i
  assume "comma = find_idx (\<lambda>c. c = CHR '','') rest" "comma = Some i"
  then have "i < length rest" by (metis find_idx_SomeD)
  then show "((drop (i + 1) rest, token), (rest, token)) \<in> measure (\<lambda>(r, t). length r)" by simp
qed simp

declare list_contains.simps [simp del]

definition HeaderListContains :: "string option \<Rightarrow> string \<Rightarrow> bool" where
  "HeaderListContains value token = (case value of None \<Rightarrow> False | Some v \<Rightarrow> list_contains v token)"

section \<open>The opening handshake\<close>

definition default_port :: "ParsedWsUrl \<Rightarrow> nat" where
  "default_port u = (if url_isSecure u then 443 else 80)"

definition HandshakeRequest :: "ParsedWsUrl \<Rightarrow> string \<Rightarrow> (string \<times> string) list \<Rightarrow> string" where
  "HandshakeRequest u sentKey requestHeaders =
     (let hostHeader = url_host u @ (if url_port u \<noteq> default_port u then '':'' @ nat_string (url_port u) else [])
      in ''GET '' @ url_path u @ '' HTTP/1.1'' @ CRLF @
         ''Host: '' @ hostHeader @ CRLF @
         ''Upgrade: websocket'' @ CRLF @
         ''Connection: Upgrade'' @ CRLF @
         ''Sec-WebSocket-Key: '' @ sentKey @ CRLF @
         ''Sec-WebSocket-Version: 13'' @ CRLF @
         concat (map (\<lambda>kv. fst kv @ '': '' @ snd kv @ CRLF) requestHeaders) @ CRLF)"

datatype server_answer = MalformedRequest | BadRequest string | Switching string

definition BadRequest_text :: string where
  "BadRequest_text = ''HTTP/1.1 400 Bad Request'' @ CRLF @ ''Connection: close'' @ CRLF @ CRLF"

definition Switching_text :: "string \<Rightarrow> string" where
  "Switching_text accept =
     ''HTTP/1.1 101 Switching Protocols'' @ CRLF @ ''Upgrade: websocket'' @ CRLF @
     ''Connection: Upgrade'' @ CRLF @ ''Sec-WebSocket-Accept: '' @ accept @ CRLF @ CRLF"

definition ServerHandshake :: "string \<Rightarrow> server_answer" where
  "ServerHandshake headerBlock =
     (case ParseHeaderBlock headerBlock of None \<Rightarrow> MalformedRequest
      | Some headers \<Rightarrow>
        if take 4 (statusLine headers) \<noteq> ''GET '' \<or> find_sub '' HTTP/1.1'' (statusLine headers) = None
        then BadRequest BadRequest_text
        else case (Find headers ''Upgrade'', Find headers ''Sec-WebSocket-Key'', Find headers ''Sec-WebSocket-Version'') of
          (Some upgrade, Some key, Some version) \<Rightarrow>
            if \<not> EqualsIgnoreCase upgrade ''websocket'' \<or>
               \<not> HeaderListContains (Find headers ''Connection'') ''Upgrade'' \<or> version \<noteq> ''13''
            then BadRequest BadRequest_text
            else Switching (Switching_text (ComputeAcceptKey key))
        | _ \<Rightarrow> BadRequest BadRequest_text)"

datatype client_result = ConnectFailed string | Connected

definition ClientHandshake :: "string \<Rightarrow> string \<Rightarrow> client_result" where
  "ClientHandshake sentKey headerBlock =
     (case ParseHeaderBlock headerBlock of None \<Rightarrow> ConnectFailed ''malformed handshake''
      | Some headers \<Rightarrow>
        if find_sub '' 101 '' (statusLine headers) = None
        then ConnectFailed ''websocket handshake rejected (expected 101)''
        else case (Find headers ''Upgrade'', Find headers ''Sec-WebSocket-Accept'') of
          (Some upgrade, Some accept) \<Rightarrow>
            if \<not> EqualsIgnoreCase upgrade ''websocket'' \<or>
               \<not> HeaderListContains (Find headers ''Connection'') ''Upgrade'' \<or> accept \<noteq> ComputeAcceptKey sentKey
            then ConnectFailed ''websocket handshake rejected (bad accept key)''
            else Connected
        | _ \<Rightarrow> ConnectFailed ''websocket handshake rejected (bad accept key)'')"

section \<open>Lemmas on URLs\<close>

lemma IsValidPort_nat: "IsValidPort (Finite (of_nat p)) False \<longleftrightarrow> 1 \<le> p \<and> p \<le> 65535"
proof -
  have "is_integral (of_nat p)" by (simp add: is_integral_def)
  moreover have "(1::rat) \<le> of_nat p \<longleftrightarrow> 1 \<le> p" by auto
  moreover have "of_nat p \<le> (65535::rat) \<longleftrightarrow> p \<le> 65535"
    using of_nat_le_iff [where 'a = rat, of p 65535] by simp
  ultimately show ?thesis by (simp add: IsValidPort_def)
qed

lemma ws_port_range: "ws_port s = Some p \<Longrightarrow> 1 \<le> p \<and> p \<le> 65535"
  by (auto simp: ws_port_def IsValidPort_nat split: if_splits option.splits)

lemma ws_port_nat_string: "1 \<le> p \<Longrightarrow> p \<le> 65535 \<Longrightarrow> ws_port (nat_string p) = Some p"
  by (simp add: ws_port_def nat_string_digits stoi_digits_def IsValidPort_nat del: One_nat_def)

lemma ws_host_port_range:
  "ws_host_port hp d = Some (h, p) \<Longrightarrow> 1 \<le> d \<Longrightarrow> d \<le> 65535 \<Longrightarrow> 1 \<le> p \<and> p \<le> 65535 \<and> set h \<subseteq> set hp"
  by (auto simp: ws_host_port_def Let_def split: if_splits option.splits
      dest: ws_port_range set_take_subset [THEN subsetD])

lemma ws_path_shape: "ws_path s \<noteq> [] \<and> CHR ''#'' \<notin> set (ws_path s)"
  by (auto simp: ws_path_def cut_at_def Let_def find_idx_None split: option.splits dest: find_idx_SomeD)

lemma ws_path_slash: "s = [] \<or> hd s \<in> {CHR ''/'', CHR ''?'', CHR ''#''} \<Longrightarrow> hd (ws_path s) = CHR ''/''"
  by (cases s) (auto simp: ws_path_def cut_at_def Let_def split: option.splits)

lemma ws_path_id: "s \<noteq> [] \<Longrightarrow> hd s = CHR ''/'' \<Longrightarrow> CHR ''#'' \<notin> set s \<Longrightarrow> ws_path s = s"
proof -
  assume s: "s \<noteq> []" "hd s = CHR ''/''" "CHR ''#'' \<notin> set s"
  then have "find_idx (\<lambda>c. c = CHR ''#'') s = None" by (intro find_idx_absent) auto
  then show ?thesis using s by (simp only: ws_path_def cut_at_def Let_def) simp
qed

lemma ws_host_port_render:
  assumes "h \<noteq> []" "CHR '':'' \<notin> set h" "hd h \<noteq> CHR ''[''" "1 \<le> p" "p \<le> 65535"
  shows "ws_host_port (h @ CHR '':'' # nat_string p) d = Some (h, p)"
proof -
  have "find_idx (\<lambda>c. c = CHR '':'') (h @ CHR '':'' # nat_string p) = Some (length h)"
    using assms by (intro find_idx_first) auto
  then show ?thesis
    using assms by (simp add: ws_host_port_def ws_port_nat_string)
qed

section \<open>Lemmas on header blocks\<close>

lemma parse_fields_line:
  assumes "CR \<notin> set line" "line \<noteq> []" "find_idx (\<lambda>c. c = CHR '':'') line = Some k"
  shows "parse_fields (line @ CRLF @ rest) =
    map_option ((#) (take k line, trim_blanks (drop (k + 1) line))) (parse_fields rest)"
  unfolding parse_fields.simps [of "line @ CRLF @ rest"] find_sub_line [OF assms(1)] using assms by simp

lemma parse_fields_step:
  assumes "plain_field kv"
  shows "parse_fields (field_line kv @ rest) = map_option ((#) (fst kv, trim_blanks (snd kv))) (parse_fields rest)"
proof -
  have "find_idx (\<lambda>c. c = CHR '':'') (fst kv @ '': '' @ snd kv) = Some (length (fst kv))"
    using assms by (auto simp: plain_field_def intro!: find_idx_first)
  moreover have "CR \<notin> set (fst kv @ '': '' @ snd kv)" using assms by (simp add: plain_field_def)
  ultimately have "parse_fields ((fst kv @ '': '' @ snd kv) @ CRLF @ rest) =
      map_option ((#) (fst kv, trim_blanks (CHR '' '' # snd kv))) (parse_fields rest)"
    using parse_fields_line [of "fst kv @ '': '' @ snd kv" "length (fst kv)" rest] by simp
  then show ?thesis by (simp add: field_line_def trim_blanks_blank is_blank_def)
qed

lemma parse_fields_end: "parse_fields (CR # LF # rest) = Some []"
  by (simp add: parse_fields.simps [of "CR # LF # rest"])

lemma parse_fields_render:
  "list_all plain_field kvs \<Longrightarrow>
   parse_fields (concat (map field_line kvs) @ CRLF @ rest) = Some (map (\<lambda>kv. (fst kv, trim_blanks (snd kv))) kvs)"
proof (induction kvs)
  case Nil
  then show ?case using parse_fields_end [of rest] by simp
next
  case (Cons kv kvs)
  then show ?case
    using parse_fields_step [of kv "concat (map field_line kvs) @ CRLF @ rest"] by simp
qed

lemma ParseHeaderBlock_render:
  assumes "CR \<notin> set status" "list_all plain_field kvs"
  shows "ParseHeaderBlock (status @ CRLF @ concat (map field_line kvs) @ CRLF @ rest) =
    Some \<lparr>statusLine = status, header_fields = map (\<lambda>kv. (fst kv, trim_blanks (snd kv))) kvs\<rparr>"
  unfolding ParseHeaderBlock_def find_sub_line [OF assms(1)] using parse_fields_render [OF assms(2)] by simp

section \<open>Lemmas on comma-separated lists\<close>

text \<open>The pieces between the commas of a header value, by structural recursion.\<close>

fun comma_pieces :: "string \<Rightarrow> string list" where
  "comma_pieces [] = [[]]"
| "comma_pieces (c # cs) =
     (if c = CHR '','' then [] # comma_pieces cs
      else case comma_pieces cs of p # ps \<Rightarrow> (c # p) # ps | [] \<Rightarrow> [[c]])"

lemma comma_pieces_plain: "CHR '','' \<notin> set s \<Longrightarrow> comma_pieces s = [s]"
  by (induction s) auto

lemma comma_pieces_split: "CHR '','' \<notin> set p \<Longrightarrow> comma_pieces (p @ CHR '','' # s) = p # comma_pieces s"
  by (induction p) auto

definition token_matches :: "string \<Rightarrow> string \<Rightarrow> bool" where
  "token_matches token piece \<longleftrightarrow> (\<exists>c \<in> set piece. \<not> is_blank c) \<and> EqualsIgnoreCase (trim_blanks piece) token"

lemma list_contains_spec: "list_contains s token \<longleftrightarrow> (\<exists>p \<in> set (comma_pieces s). token_matches token p)"
proof (induction s token rule: list_contains.induct)
  case (1 s token)
  show ?case
  proof (cases "find_idx (\<lambda>c. c = CHR '','') s")
    case None
    then have "comma_pieces s = [s]" by (intro comma_pieces_plain) (auto simp: find_idx_None)
    then show ?thesis
      by (simp add: list_contains.simps [of s] None cut_at_def Let_def token_matches_def find_idx_None)
  next
    case (Some i)
    let ?p = "take i s" and ?s = "drop (i + 1) s"
    from find_idx_SomeD [OF Some] have i: "i < length s" "s ! i = CHR '',''" "CHR '','' \<notin> set ?p" by auto
    then have "s = ?p @ CHR '','' # ?s" using id_take_nth_drop [of i s] by simp
    then have pieces: "comma_pieces s = ?p # comma_pieces ?s" using comma_pieces_split [OF i(3), of ?s] by simp
    have unfold: "list_contains s token \<longleftrightarrow> token_matches token ?p \<or> list_contains ?s token"
      by (simp add: list_contains.simps [of s] Some cut_at_def Let_def token_matches_def find_idx_None)
    show ?thesis
    proof (cases "token_matches token ?p")
      case False
      then have "list_contains ?s token \<longleftrightarrow> (\<exists>p \<in> set (comma_pieces ?s). token_matches token p)"
        using Some by (intro 1 [OF refl refl refl]) (auto simp: cut_at_def token_matches_def find_idx_None)
      then show ?thesis using unfold pieces by simp
    qed (use unfold pieces in simp)
  qed
qed

lemma EqualsIgnoreCase_iff: "EqualsIgnoreCase a b \<longleftrightarrow> map to_lower a = map to_lower b"
  unfolding list_eq_iff_nth_eq [of "map to_lower a"] EqualsIgnoreCase_def by (auto simp: list_all_iff)

section \<open>Lemmas on the handshake\<close>

definition request_fields :: "ParsedWsUrl \<Rightarrow> string \<Rightarrow> (string \<times> string) list \<Rightarrow> (string \<times> string) list" where
  "request_fields u sentKey extra =
     [(''Host'', url_host u @ (if url_port u \<noteq> default_port u then '':'' @ nat_string (url_port u) else [])),
      (''Upgrade'', ''websocket''), (''Connection'', ''Upgrade''), (''Sec-WebSocket-Key'', sentKey),
      (''Sec-WebSocket-Version'', ''13'')] @ extra"

lemma HandshakeRequest_fields:
  "HandshakeRequest u sentKey extra =
     (''GET '' @ url_path u @ '' HTTP/1.1'') @ CRLF @ concat (map field_line (request_fields u sentKey extra)) @ CRLF"
  by (simp add: HandshakeRequest_def request_fields_def field_line_def [abs_def])

definition response_fields :: "string \<Rightarrow> (string \<times> string) list" where
  "response_fields accept = [(''Upgrade'', ''websocket''), (''Connection'', ''Upgrade''), (''Sec-WebSocket-Accept'', accept)]"

lemma Switching_text_fields:
  "Switching_text accept =
     ''HTTP/1.1 101 Switching Protocols'' @ CRLF @ concat (map field_line (response_fields accept)) @ CRLF"
  by (simp add: Switching_text_def response_fields_def field_line_def)

lemma find_sub_append: "\<exists>i. find_sub q (p @ q @ r) = Some i"
proof (induction p)
  case Nil
  have "prefix q (q @ r)" by simp
  then show ?case by (cases "q @ r") (auto simp del: prefixI)
qed auto

lemma Base64_char: "c \<in> set (Base64Encode bs) \<Longrightarrow> c \<in> set kTable \<or> c = CHR ''=''"
proof -
  have tbl: "sextet n k \<in> set kTable" for n k
    unfolding sextet_def by (rule nth_mem) (simp add: kTable_def unat_sextet_index)
  show "c \<in> set (Base64Encode bs) \<Longrightarrow> c \<in> set kTable \<or> c = CHR ''=''"
    by (induction bs rule: Base64Encode.induct) (auto simp: Let_def tbl)
qed

lemma Base64_plain: "CR \<notin> set (Base64Encode bs) \<and> trimmed (Base64Encode bs)"
proof -
  have "list_all (\<lambda>c. c \<noteq> CR \<and> \<not> is_blank c) (CHR ''='' # kTable)" by code_simp
  then have "c \<in> set kTable \<or> c = CHR ''='' \<Longrightarrow> c \<noteq> CR \<and> \<not> is_blank c" for c
    unfolding list_all_iff list.set by blast
  then have plain: "c \<noteq> CR \<and> \<not> is_blank c" if "c \<in> set (Base64Encode bs)" for c
    using Base64_char [OF that] by simp
  show ?thesis
  proof (cases "Base64Encode bs = []")
    case False
    then show ?thesis using plain [OF hd_in_set] plain [OF last_in_set] plain [of CR] by (auto simp: trimmed_def)
  qed (simp add: trimmed_def)
qed

text \<open>The names the handshake looks up, compared with those it writes.\<close>

lemma name_compare:
  "EqualsIgnoreCase ''Host'' ''Upgrade'' = False"
  "EqualsIgnoreCase ''Upgrade'' ''Upgrade'' = True"
  "EqualsIgnoreCase ''Host'' ''Connection'' = False"
  "EqualsIgnoreCase ''Upgrade'' ''Connection'' = False"
  "EqualsIgnoreCase ''Connection'' ''Connection'' = True"
  "EqualsIgnoreCase ''Host'' ''Sec-WebSocket-Key'' = False"
  "EqualsIgnoreCase ''Upgrade'' ''Sec-WebSocket-Key'' = False"
  "EqualsIgnoreCase ''Connection'' ''Sec-WebSocket-Key'' = False"
  "EqualsIgnoreCase ''Sec-WebSocket-Key'' ''Sec-WebSocket-Key'' = True"
  "EqualsIgnoreCase ''Host'' ''Sec-WebSocket-Version'' = False"
  "EqualsIgnoreCase ''Upgrade'' ''Sec-WebSocket-Version'' = False"
  "EqualsIgnoreCase ''Connection'' ''Sec-WebSocket-Version'' = False"
  "EqualsIgnoreCase ''Sec-WebSocket-Key'' ''Sec-WebSocket-Version'' = False"
  "EqualsIgnoreCase ''Sec-WebSocket-Version'' ''Sec-WebSocket-Version'' = True"
  "EqualsIgnoreCase ''Upgrade'' ''Sec-WebSocket-Accept'' = False"
  "EqualsIgnoreCase ''Connection'' ''Sec-WebSocket-Accept'' = False"
  "EqualsIgnoreCase ''Sec-WebSocket-Accept'' ''Sec-WebSocket-Accept'' = True"
  "EqualsIgnoreCase ''websocket'' ''websocket'' = True"
  by (simp_all add: EqualsIgnoreCase_def)

lemma trim_words: "trim_blanks ''websocket'' = ''websocket''" "trim_blanks ''Upgrade'' = ''Upgrade''"
  "trim_blanks ''13'' = ''13''"
  by (simp_all add: trim_blanks_trimmed trimmed_def is_blank_def)

lemma list_contains_Upgrade: "list_contains ''Upgrade'' ''Upgrade''"
  by (simp add: list_contains_spec token_matches_def trim_words name_compare is_blank_def)

definition plain_request :: "ParsedWsUrl \<Rightarrow> (string \<times> string) list \<Rightarrow> bool" where
  "plain_request u extra \<longleftrightarrow> CR \<notin> set (url_path u) \<and> CR \<notin> set (url_host u) \<and> list_all plain_field extra"

lemma plain_request_fields:
  assumes "plain_request u extra" "CR \<notin> set key"
  shows "list_all plain_field (request_fields u key extra)"
proof -
  have "CR \<notin> set (nat_string n)" for n by (rule nat_string_no) (simp add: is_digit_def)
  then show ?thesis using assms by (auto simp: plain_request_def request_fields_def plain_field_def)
qed

lemma ServerHandshake_request:
  assumes "plain_request u extra" "CR \<notin> set key" "trimmed key"
  shows "ServerHandshake (HandshakeRequest u key extra) = Switching (Switching_text (ComputeAcceptKey key))"
proof -
  have "CR \<notin> set (''GET '' @ url_path u @ '' HTTP/1.1'')" using assms by (simp add: plain_request_def)
  from ParseHeaderBlock_render [OF this plain_request_fields [OF assms(1,2)], where rest = "[]"]
  have parse: "ParseHeaderBlock (HandshakeRequest u key extra) =
      Some \<lparr>statusLine = ''GET '' @ url_path u @ '' HTTP/1.1'',
        header_fields = map (\<lambda>kv. (fst kv, trim_blanks (snd kv))) (request_fields u key extra)\<rparr>"
    unfolding HandshakeRequest_fields by simp
  obtain i where "find_sub '' HTTP/1.1'' (''GET '' @ url_path u @ '' HTTP/1.1'') = Some i"
    using find_sub_append [of "'' HTTP/1.1''" "''GET '' @ url_path u" "[]"] by auto
  then show ?thesis
    unfolding ServerHandshake_def parse using assms(3)
    by (simp add: Find_def request_fields_def name_compare trim_words trim_blanks_trimmed
        HeaderListContains_def list_contains_Upgrade del: find_sub.simps)
qed

lemma ClientHandshake_response:
  "ClientHandshake key (Switching_text (ComputeAcceptKey key)) = Connected"
proof -
  have acc: "CR \<notin> set (ComputeAcceptKey key)" "trimmed (ComputeAcceptKey key)"
    by (simp_all add: ComputeAcceptKey_def Base64_plain)
  let ?st = "''HTTP/1.1 101 Switching Protocols''"
  have st: "CR \<notin> set ?st" by simp
  have fs: "list_all plain_field (response_fields (ComputeAcceptKey key))"
    using acc by (simp add: response_fields_def plain_field_def)
  have parse: "ParseHeaderBlock (Switching_text (ComputeAcceptKey key)) =
      Some \<lparr>statusLine = ?st,
        header_fields = map (\<lambda>kv. (fst kv, trim_blanks (snd kv))) (response_fields (ComputeAcceptKey key))\<rparr>"
    using ParseHeaderBlock_render [OF st fs, where rest = "[]"] unfolding Switching_text_fields by simp
  have "find_sub '' 101 '' ?st \<noteq> None"
    using find_sub_append [of "'' 101 ''" "''HTTP/1.1''" "''Switching Protocols''"] by auto
  then show ?thesis
    unfolding ClientHandshake_def parse using acc(2)
    by (simp add: Find_def response_fields_def name_compare trim_words trim_blanks_trimmed
        HeaderListContains_def list_contains_Upgrade)
qed

section \<open>Properties\<close>

text \<open>C31. A URL that \<open>ParseWebSocketUrl\<close> accepts has a non-empty host without \<open>/\<close>, \<open>?\<close> and \<open>#\<close>, a port
  between 1 and 65535, and a request path that starts with \<open>/\<close> and carries no fragment; a URL it
  refuses has the error \<open>invalid-url\<close>. No input makes it index outside a string.\<close>

theorem ParseWebSocketUrl_wf:
  "if url_valid (ParseWebSocketUrl raw)
   then url_host (ParseWebSocketUrl raw) \<noteq> [] \<and>
        set (url_host (ParseWebSocketUrl raw)) \<inter> {CHR ''/'', CHR ''?'', CHR ''#''} = {} \<and>
        1 \<le> url_port (ParseWebSocketUrl raw) \<and> url_port (ParseWebSocketUrl raw) \<le> 65535 \<and>
        hd (url_path (ParseWebSocketUrl raw)) = CHR ''/'' \<and> url_path (ParseWebSocketUrl raw) \<noteq> [] \<and>
        CHR ''#'' \<notin> set (url_path (ParseWebSocketUrl raw))
   else ParseWebSocketUrl raw = ParsedWsUrl_invalid"
proof -
  define P where "P = (\<lambda>c. c = CHR ''/'' \<or> c = CHR ''?'' \<or> c = CHR ''#'')"
  define secure where "secure = (take 6 (map to_lower raw) = ''wss://'')"
  define s where "s = drop (if secure then 6 else 5) raw"
  obtain a b where ab: "cut_at s (find_idx P s) = (a, b)" by fastforce
  note cut = cut_at_find [OF ab]
  show ?thesis
  proof (cases "ParseWebSocketUrl raw = ParsedWsUrl_invalid")
    case False
    then obtain h p where hp: "ws_host_port a (if secure then 443 else 80) = Some (h, p)" "h \<noteq> []"
      and u: "ParseWebSocketUrl raw = \<lparr>url_valid = True, url_error = [], url_host = h,
        url_connectHost = (if hd h = CHR ''['' \<and> last h = CHR '']'' then take (length h - 2) (drop 1 h) else h),
        url_port = p, url_path = ws_path b, url_isSecure = secure\<rparr>"
      using ab by (fastforce simp: ParseWebSocketUrl_def Let_def s_def P_def secure_def split: if_splits option.splits prod.splits)
    from ws_host_port_range [OF hp(1)] have "1 \<le> p \<and> p \<le> 65535 \<and> set h \<subseteq> set a"
      by (simp split: if_splits)
    moreover have "hd (ws_path b) = CHR ''/''" using cut by (intro ws_path_slash) (auto simp: P_def)
    ultimately show ?thesis using u hp(2) cut ws_path_shape [of b] by (auto simp: P_def)
  qed (simp add: ParsedWsUrl_invalid_def)
qed

text \<open>A URL written as scheme, host, port and path is read back as these parts.\<close>

theorem ParseWebSocketUrl_roundtrip:
  assumes "h \<noteq> []" "set h \<inter> {CHR ''/'', CHR ''?'', CHR ''#'', CHR '':''} = {}" "hd h \<noteq> CHR ''[''"
    and "1 \<le> p" "p \<le> 65535" "path \<noteq> []" "hd path = CHR ''/''" "CHR ''#'' \<notin> set path"
  shows "ParseWebSocketUrl ((if secure then ''wss://'' else ''ws://'') @ h @ CHR '':'' # nat_string p @ path) =
    \<lparr>url_valid = True, url_error = [], url_host = h, url_connectHost = h, url_port = p, url_path = path,
     url_isSecure = secure\<rparr>"
proof -
  let ?hp = "h @ CHR '':'' # nat_string p" and ?P = "\<lambda>c. c = CHR ''/'' \<or> c = CHR ''?'' \<or> c = CHR ''#''"
  have "c \<in> set (nat_string p) \<Longrightarrow> \<not> ?P c" for c
    using nat_string_no [of "CHR ''/''" p] nat_string_no [of "CHR ''?''" p] nat_string_no [of "CHR ''#''" p]
    by (auto simp: is_digit_def)
  then have "\<forall>c \<in> set ?hp. \<not> ?P c" using assms(2) by auto
  then have cut: "find_idx ?P (?hp @ path) = Some (length ?hp)" using assms by (intro find_idx_at) auto
  have hp: "ws_host_port ?hp d = Some (h, p)" for d using assms by (intro ws_host_port_render) auto
  have lower: "map to_lower ''wss://'' = ''wss://''" "map to_lower ''ws://'' = ''ws://''"
    by (simp_all add: to_lower_def is_upper_def)
  show ?thesis
  proof (cases secure)
    case True
    then show ?thesis
      using cut hp assms lower
      by (simp add: ParseWebSocketUrl_def Let_def cut_at_def ws_path_id to_lower_def is_upper_def)
  next
    case False
    then show ?thesis
      using cut hp assms lower
      by (simp add: ParseWebSocketUrl_def Let_def cut_at_def ws_path_id to_lower_def is_upper_def)
  qed
qed

theorem ParseWebSocketUrl_roundtrip_witness:
  "ParseWebSocketUrl (''wss://'' @ ''ex.org'' @ CHR '':'' # nat_string 8443 @ ''/chat'') =
    \<lparr>url_valid = True, url_error = [], url_host = ''ex.org'', url_connectHost = ''ex.org'', url_port = 8443,
     url_path = ''/chat'', url_isSecure = True\<rparr>"
  using ParseWebSocketUrl_roundtrip [of "''ex.org''" 8443 "''/chat''" True] by simp

text \<open>\<open>ParseHeaderBlock\<close> reads back a header block: the first line, and every field in order with
  its value trimmed of blanks, whatever follows the empty line.\<close>

theorem header_block_roundtrip:
  assumes "CR \<notin> set status" "list_all plain_field kvs"
  shows "ParseHeaderBlock (status @ CRLF @ concat (map field_line kvs) @ CRLF @ rest) =
    Some \<lparr>statusLine = status, header_fields = map (\<lambda>kv. (fst kv, trim_blanks (snd kv))) kvs\<rparr>"
  by (rule ParseHeaderBlock_render [OF assms])

theorem header_block_roundtrip_witness:
  "ParseHeaderBlock (''X'' @ CRLF @ concat (map field_line [(''A'', '' b '')]) @ CRLF @ ''rest'') =
    Some \<lparr>statusLine = ''X'', header_fields = map (\<lambda>kv. (fst kv, trim_blanks (snd kv))) [(''A'', '' b '')]\<rparr>"
  by (rule header_block_roundtrip) (simp_all add: plain_field_def)

text \<open>\<open>HeaderListContains\<close> holds exactly when the header is present and one of its comma-separated
  pieces, trimmed of blanks, is non-empty and equals the token up to the case of letters.\<close>

theorem HeaderListContains_spec:
  "HeaderListContains value token \<longleftrightarrow>
   (case value of None \<Rightarrow> False
    | Some v \<Rightarrow> \<exists>p \<in> set (comma_pieces v). (\<exists>c \<in> set p. \<not> is_blank c) \<and>
        map to_lower (trim_blanks p) = map to_lower token)"
  by (simp add: HeaderListContains_def list_contains_spec token_matches_def EqualsIgnoreCase_iff split: option.split)



end
