(* ===== verification/Lode_WsClient.thy ===== *)
theory Lode_WsClient
  imports Lode_WsHandshake
begin

text \<open>
  The connection object of the websocket module, \<open>WsClient.cpp\<close>, as a state machine. The fields of
  the class are a record; every method is a state transformer that appends what it does to the world
  (bytes handed to the TCP client, signals fired, coroutines resumed, timer calls) to a trace. The
  code outside the class is an environment record: the Luau code a signal or a resumed coroutine runs
  before control returns (it may call the methods of the same object), what the TCP client makes of a
  write and of a connection attempt, whether \<open>uv_timer_init\<close> succeeds, and the rounded IEEE product.
  The build without the Windows TLS context is modelled. The TCP client that \<open>CloseHandles\<close> closes may
  call back at once; by then \<open>closing\<close> is set and \<open>connectPending\<close> cleared, so the callbacks of the
  class do nothing.
\<close>

section \<open>State\<close>

datatype WsState = Connecting | Open | Closing | Closed

datatype TimerMode = TM_None | TM_Connect | TM_Close

datatype ws_effect =
    SendNative bytes
  | FireConnected
  | FireMessage bytes
  | FireDisconnected nat bytes
  | FireErrorOccurred string
  | FireClientConnected
  | ResumeOk
  | ResumeError string
  | UvTimerStart nat
  | UvTimerStop
  | UvTimerClose
  | UvTimerClosed
  | ConnectNative string nat nat
  | TcpRequestClose
  | RemoveClient

record WsClient =
  serverSide :: bool
  ws_state :: WsState
  opened :: bool
  ws_closing :: bool
  ws_closed :: bool
  disconnectedFired :: bool
  connectPending :: bool
  connectResumed :: bool
  closeCount :: int
  hasTcp :: bool
  timerInited :: bool
  timerClosed :: bool
  timerMode :: TimerMode
  connectCo :: bool
  parsedUrl :: ParsedWsUrl
  connectTimeoutMs :: nat
  requestHeaders :: "(string \<times> string) list"
  remoteAddr :: "string \<times> nat"
  localAddr :: "string \<times> nat"
  recvBuf :: bytes
  handshakeComplete :: bool
  sentKey :: string
  wrappedUserdata :: bool
  fragmentOpcode :: u8
  fragmentInProgress :: bool
  fragmentBuf :: bytes
  closeSent :: bool
  closeReceived :: bool
  closeCode :: nat
  closeReason :: bytes
  hasCloseInfo :: bool
  selfGuard :: bool
  shuttingDown :: bool
  rng :: u32
  crashed :: bool
  ws_trace :: "ws_effect list"

text \<open>A new object: \<open>WebSocket.Create\<close> for a client, \<open>WsServer::OnTcpClient\<close> for the server side,
  where the TCP connection is already attached.\<close>

definition WsClient_new :: "bool \<Rightarrow> u32 \<Rightarrow> WsClient" where
  "WsClient_new srv seed =
     \<lparr>serverSide = srv, ws_state = Connecting, opened = False, ws_closing = False, ws_closed = False,
      disconnectedFired = False, connectPending = False, connectResumed = False, closeCount = 0,
      hasTcp = srv, timerInited = False, timerClosed = False, timerMode = TM_None, connectCo = False,
      parsedUrl = ParsedWsUrl_invalid\<lparr>url_error := []\<rparr>, connectTimeoutMs = 0, requestHeaders = [],
      remoteAddr = ([], 0), localAddr = ([], 0), recvBuf = [], handshakeComplete = False, sentKey = [],
      wrappedUserdata = srv, fragmentOpcode = 0, fragmentInProgress = False, fragmentBuf = [],
      closeSent = False, closeReceived = False, closeCode = 0, closeReason = [], hasCloseInfo = False,
      selfGuard = True, shuttingDown = False, rng = seed, crashed = False, ws_trace = []\<rparr>"

datatype write_result = Accepted | Dropped | WriteFailed string

datatype connect_result = ConnStarted | ConnRefused string | ConnFailedNow string

record ws_env =
  luau :: "ws_effect \<Rightarrow> WsClient \<Rightarrow> WsClient"
  write_status :: "WsClient \<Rightarrow> bytes \<Rightarrow> write_result"
  connect_status :: "WsClient \<Rightarrow> connect_result"
  timer_init_ok :: "WsClient \<Rightarrow> bool"
  double_mult :: "rat \<Rightarrow> rat \<Rightarrow> double"

definition kCloseNormal :: nat where "kCloseNormal = 1000"
definition kCloseProtocolError :: nat where "kCloseProtocolError = 1002"
definition kCloseAbnormal :: nat where "kCloseAbnormal = 1006"

definition emit :: "ws_effect \<Rightarrow> WsClient \<Rightarrow> WsClient" where
  "emit e c = c\<lparr>ws_trace := ws_trace c @ [e]\<rparr>"

text \<open>An effect during which Luau code runs.\<close>

definition run_luau :: "ws_env \<Rightarrow> ws_effect \<Rightarrow> WsClient \<Rightarrow> WsClient" where
  "run_luau env e c = luau env e (emit e c)"

section \<open>Signals, timer and shutdown\<close>

definition FireError :: "ws_env \<Rightarrow> string \<Rightarrow> WsClient \<Rightarrow> WsClient" where
  "FireError env message c =
     (if shuttingDown c \<or> ws_closed c \<or> ws_closing c then c else run_luau env (FireErrorOccurred message) c)"

definition UpdateAddresses :: "(string \<times> nat) \<Rightarrow> (string \<times> nat) \<Rightarrow> WsClient \<Rightarrow> WsClient" where
  "UpdateAddresses local remote c = (if hasTcp c then c\<lparr>localAddr := local, remoteAddr := remote\<rparr> else c)"

definition NotifyConnectOk :: "ws_env \<Rightarrow> WsClient \<Rightarrow> WsClient" where
  "NotifyConnectOk env c = (if \<not> connectCo c then c else (run_luau env ResumeOk c)\<lparr>connectCo := False\<rparr>)"

definition NotifyConnectError :: "ws_env \<Rightarrow> string \<Rightarrow> WsClient \<Rightarrow> WsClient" where
  "NotifyConnectError env message c =
     (if \<not> connectCo c then c else (run_luau env (ResumeError message) c)\<lparr>connectCo := False\<rparr>)"

definition StartTimer :: "ws_env \<Rightarrow> nat \<Rightarrow> TimerMode \<Rightarrow> WsClient \<Rightarrow> WsClient" where
  "StartTimer env ms mode c =
     (if timerClosed c \<or> ws_closing c then c
      else if \<not> timerInited c \<and> \<not> timer_init_ok env c then c
      else emit (UvTimerStart ms) (c\<lparr>timerInited := True, timerMode := mode\<rparr>))"

definition StopTimer :: "WsClient \<Rightarrow> WsClient" where
  "StopTimer c = (if timerInited c \<and> \<not> timerClosed c then emit UvTimerStop c else c)"

definition FinishClosed :: "ws_env \<Rightarrow> WsClient \<Rightarrow> WsClient" where
  "FinishClosed env c =
     (if ws_closed c then c
      else
        let c1 = c\<lparr>ws_closed := True, ws_state := Closed\<rparr>;
            c2 = (if opened c1 \<and> \<not> disconnectedFired c1 \<and> \<not> shuttingDown c1 then
                    (let c' = c1\<lparr>disconnectedFired := True\<rparr> in
                     if hasCloseInfo c' then run_luau env (FireDisconnected (closeCode c') (closeReason c')) c'
                     else run_luau env (FireDisconnected kCloseAbnormal []) c')
                  else c1)
        in (emit RemoveClient c2)\<lparr>selfGuard := False\<rparr>)"

definition CheckClosed :: "ws_env \<Rightarrow> WsClient \<Rightarrow> WsClient" where
  "CheckClosed env c = (if \<not> ws_closing c \<or> closeCount c \<noteq> 0 then c else FinishClosed env c)"

definition CloseHandles :: "ws_env \<Rightarrow> WsClient \<Rightarrow> WsClient" where
  "CloseHandles env c =
     (if ws_closed c then c
      else
        let c1 = StopTimer (c\<lparr>connectPending := False\<rparr>);
            c2 = (if timerInited c1 \<and> \<not> timerClosed c1
                  then emit UvTimerClose (c1\<lparr>timerClosed := True, closeCount := closeCount c1 + 1\<rparr>) else c1);
            c3 = (if hasTcp c2 then emit TcpRequestClose (c2\<lparr>hasTcp := False\<rparr>) else c2)
        in CheckClosed env c3)"

definition OnHandleClosed :: "ws_env \<Rightarrow> WsClient \<Rightarrow> WsClient" where
  "OnHandleClosed env c = CheckClosed env (emit UvTimerClosed (c\<lparr>closeCount := closeCount c - 1\<rparr>))"

definition FailConnect :: "ws_env \<Rightarrow> string \<Rightarrow> WsClient \<Rightarrow> WsClient" where
  "FailConnect env message c =
     (if ws_closing c then c
      else
        let c1 = c\<lparr>ws_closing := True\<rparr>;
            c2 = (if connectPending c1 \<and> \<not> connectResumed c1 \<and> connectCo c1
                  then NotifyConnectError env message (c1\<lparr>connectResumed := True\<rparr>) else c1)
        in CloseHandles env (c2\<lparr>connectPending := False\<rparr>))"

definition RequestClose :: "ws_env \<Rightarrow> WsClient \<Rightarrow> WsClient" where
  "RequestClose env c =
     (if ws_closing c then c
      else
        let c1 = c\<lparr>ws_closing := True\<rparr>;
            c2 = (if connectPending c1 \<and> \<not> connectResumed c1 \<and> connectCo c1
                  then NotifyConnectError env ''websocket Connect: connection closed'' (c1\<lparr>connectResumed := True\<rparr>)
                  else c1)
        in CloseHandles env (c2\<lparr>connectPending := False\<rparr>))"

definition OnTimer :: "ws_env \<Rightarrow> WsClient \<Rightarrow> WsClient" where
  "OnTimer env c =
     (if ws_closing c \<or> ws_closed c then c
      else if timerMode c = TM_Connect then FailConnect env ''websocket Connect: connection timed out'' c
      else if timerMode c = TM_Close then RequestClose env c
      else c)"

section \<open>Writing\<close>

definition OnTcpError :: "ws_env \<Rightarrow> string \<Rightarrow> WsClient \<Rightarrow> WsClient" where
  "OnTcpError env err c =
     (if connectPending c then FailConnect env (''websocket Connect: '' @ err) c
      else RequestClose env (if \<not> ws_closed c \<and> \<not> ws_closing c then FireError env err c else c))"

definition SendRaw :: "ws_env \<Rightarrow> bytes \<Rightarrow> WsClient \<Rightarrow> WsClient" where
  "SendRaw env data c =
     (if \<not> hasTcp c \<or> data = [] then c
      else case write_status env c data of
             Accepted \<Rightarrow> emit (SendNative data) c
           | Dropped \<Rightarrow> c
           | WriteFailed err \<Rightarrow> OnTcpError env (''write: '' @ err) c)"

definition SendFrame :: "ws_env \<Rightarrow> u8 \<Rightarrow> bytes \<Rightarrow> WsClient \<Rightarrow> WsClient" where
  "SendFrame env opcode payload c =
     (let maskKey = (if serverSide c then 0 else WsRng_Next (rng c));
          c1 = (if serverSide c then c else c\<lparr>rng := maskKey\<rparr>)
      in SendRaw env (EncodeFrame opcode payload True (\<not> serverSide c) maskKey) c1)"

section \<open>Callbacks of the TCP client\<close>

definition OnTcpConnected :: "ws_env \<Rightarrow> (string \<times> nat) \<Rightarrow> (string \<times> nat) \<Rightarrow> WsClient \<Rightarrow> WsClient" where
  "OnTcpConnected env local remote c =
     (if ws_closing c \<or> ws_closed c then c
      else
        let c1 = UpdateAddresses local remote c in
        if serverSide c1 then c1
        else
          let (nonce, r) = WsRng_Fill (rng c1) 16;
              key = Base64Encode nonce;
              c2 = c1\<lparr>rng := r, sentKey := key\<rparr>
          in SendRaw env (bytes_of (HandshakeRequest (parsedUrl c2) key (requestHeaders c2))) c2)"

definition OnTcpDisconnected :: "ws_env \<Rightarrow> WsClient \<Rightarrow> WsClient" where
  "OnTcpDisconnected env c =
     (if handshakeComplete c \<and> \<not> ws_closing c \<and> \<not> ws_closed c then
        RequestClose env (if \<not> hasCloseInfo c
          then c\<lparr>hasCloseInfo := True, closeCode := kCloseAbnormal, closeReason := []\<rparr> else c)
      else RequestClose env c)"

definition DoServerHandshake :: "ws_env \<Rightarrow> string \<Rightarrow> WsClient \<Rightarrow> WsClient" where
  "DoServerHandshake env headerBlock c =
     (case ServerHandshake headerBlock of
        MalformedRequest \<Rightarrow>
          RequestClose env (if \<not> ws_closed c \<and> \<not> ws_closing c then FireError env ''malformed handshake'' c else c)
      | BadRequest resp \<Rightarrow>
          (let c1 = SendRaw env (bytes_of resp) c in
           RequestClose env (if \<not> ws_closed c1 \<and> \<not> ws_closing c1
             then FireError env ''invalid websocket handshake request'' c1 else c1))
      | Switching response \<Rightarrow>
          (let c1 = SendRaw env (bytes_of response) c;
               c2 = (StopTimer (c1\<lparr>handshakeComplete := True\<rparr>))\<lparr>opened := True, ws_state := Open\<rparr>
           in if \<not> shuttingDown c2 \<and> wrappedUserdata c2 then run_luau env FireClientConnected c2 else c2))"

definition DoClientHandshake :: "ws_env \<Rightarrow> string \<Rightarrow> WsClient \<Rightarrow> WsClient" where
  "DoClientHandshake env headerBlock c =
     (case ClientHandshake (sentKey c) headerBlock of
        ConnectFailed message \<Rightarrow> FailConnect env message c
      | Connected \<Rightarrow>
          (let c1 = (StopTimer (c\<lparr>handshakeComplete := True\<rparr>))\<lparr>opened := True, ws_state := Open\<rparr>;
               c2 = (if \<not> shuttingDown c1 then run_luau env FireConnected c1 else c1)
           in if \<not> connectResumed c2 \<and> connectCo c2 then NotifyConnectOk env (c2\<lparr>connectResumed := True\<rparr>) else c2))"

section \<open>Frames\<close>

datatype 'a loop = Continue 'a | Return 'a

definition protocol_error :: "ws_env \<Rightarrow> string \<Rightarrow> WsClient \<Rightarrow> WsClient" where
  "protocol_error env what c =
     (let c1 = FireError env (''websocket: protocol error: '' @ what) c;
          c2 = (if closeSent c1 then c1
                else SendFrame env kOpcodeClose (MakeClosePayload (of_nat kCloseProtocolError) []) (c1\<lparr>closeSent := True\<rparr>))
      in RequestClose env c2)"

definition close_frame :: "ws_env \<Rightarrow> bytes \<Rightarrow> WsClient \<Rightarrow> WsClient" where
  "close_frame env payload c =
     (let c1 = c\<lparr>hasCloseInfo := True, closeCode := kCloseAbnormal\<rparr>;
          c2 = (if 2 \<le> length payload then
                  (let c' = c1\<lparr>closeCode := unat (payload ! 0) * 256 + unat (payload ! 1)\<rparr> in
                   if 2 < length payload then c'\<lparr>closeReason := drop 2 payload\<rparr> else c')
                else c1);
          c3 = c2\<lparr>closeReceived := True\<rparr>;
          c4 = (if closeSent c3 then c3
                else SendFrame env kOpcodeClose
                       (MakeClosePayload (of_nat (if closeCode c3 = kCloseAbnormal then kCloseNormal else closeCode c3)) [])
                       (c3\<lparr>closeSent := True\<rparr>));
          c5 = (if ws_state c4 = Open then c4\<lparr>ws_state := Closing\<rparr> else c4)
      in RequestClose env c5)"

definition control_frame :: "ws_env \<Rightarrow> bool \<Rightarrow> u8 \<Rightarrow> bytes \<Rightarrow> WsClient \<Rightarrow> WsClient loop" where
  "control_frame env fin opcode payload c =
     (if \<not> fin \<or> 125 < length payload then Return (protocol_error env ''invalid control frame'' c)
      else if opcode = kOpcodePing then Continue (SendFrame env kOpcodePong payload c)
      else if opcode = kOpcodePong then Continue c
      else Return (close_frame env payload c))"

definition deliver :: "ws_env \<Rightarrow> bytes \<Rightarrow> WsClient \<Rightarrow> WsClient" where
  "deliver env message c = (if \<not> shuttingDown c then run_luau env (FireMessage message) c else c)"

definition continuation_frame :: "ws_env \<Rightarrow> bool \<Rightarrow> bytes \<Rightarrow> WsClient \<Rightarrow> WsClient loop" where
  "continuation_frame env fin payload c =
     (if \<not> fragmentInProgress c then Return (protocol_error env ''unexpected continuation frame'' c)
      else
        let c1 = c\<lparr>fragmentBuf := fragmentBuf c @ payload\<rparr> in
        if fin
        then Continue (deliver env (fragmentBuf c1) (c1\<lparr>fragmentBuf := [], fragmentInProgress := False, fragmentOpcode := 0\<rparr>))
        else Continue c1)"

definition data_frame :: "ws_env \<Rightarrow> bool \<Rightarrow> u8 \<Rightarrow> bytes \<Rightarrow> WsClient \<Rightarrow> WsClient loop" where
  "data_frame env fin opcode payload c =
     (if opcode \<noteq> kOpcodeText \<and> opcode \<noteq> kOpcodeBinary then Return (protocol_error env ''unknown opcode'' c)
      else if fragmentInProgress c then Return (protocol_error env ''new data frame while fragmented'' c)
      else if \<not> fin
      then Continue (c\<lparr>fragmentOpcode := opcode, fragmentInProgress := True, fragmentBuf := payload\<rparr>)
      else Continue (deliver env payload c))"

text \<open>One iteration of the loop of \<open>ParseFrames\<close>. An iterator range that ends before it starts makes
  the constructor of the payload vector throw, which nothing on the way to the event loop catches.\<close>

definition frame_step :: "ws_env \<Rightarrow> WsClient \<Rightarrow> WsClient loop" where
  "frame_step env c =
     (case ReadFrame (recvBuf c) of
        NeedMore \<Rightarrow> Return c
      | ReservedBits \<Rightarrow> Return (protocol_error env ''reserved bits set'' c)
      | BadRange \<Rightarrow> Return (c\<lparr>crashed := True\<rparr>)
      | Frame fin opcode masked maskKey raw rest \<Rightarrow>
          (let c1 = c\<lparr>recvBuf := rest\<rparr> in
           if masked \<and> \<not> serverSide c1 then Return (protocol_error env ''server frame was masked'' c1)
           else if \<not> masked \<and> serverSide c1 then Return (protocol_error env ''client frame was not masked'' c1)
           else
             let payload = (if masked then mask_payload maskKey raw else raw) in
             if opcode = kOpcodePing \<or> opcode = kOpcodePong \<or> opcode = kOpcodeClose
             then control_frame env fin opcode payload c1
             else if opcode = kOpcodeContinuation then continuation_frame env fin payload c1
             else data_frame env fin opcode payload c1))"

partial_function (option) ParseFrames :: "ws_env \<Rightarrow> WsClient \<Rightarrow> WsClient option" where
  "ParseFrames env c = (case frame_step env c of Return c' \<Rightarrow> Some c' | Continue c' \<Rightarrow> ParseFrames env c')"

definition kTerminator :: string where
  "kTerminator = CRLF @ CRLF"

definition ProcessData :: "ws_env \<Rightarrow> WsClient \<Rightarrow> WsClient option" where
  "ProcessData env c =
     (if \<not> handshakeComplete c then
        (case find_sub (bytes_of kTerminator) (recvBuf c) of None \<Rightarrow> Some c
         | Some i \<Rightarrow>
           let headerLen = i + length kTerminator;
               headerBlock = string_of (take headerLen (recvBuf c));
               c1 = c\<lparr>recvBuf := drop headerLen (recvBuf c)\<rparr>;
               c2 = (if serverSide c1 then DoServerHandshake env headerBlock c1 else DoClientHandshake env headerBlock c1)
           in if ws_closed c2 \<or> ws_closing c2 then Some c2 else ParseFrames env c2)
      else ParseFrames env c)"

definition OnTcpMessage :: "ws_env \<Rightarrow> bytes \<Rightarrow> WsClient \<Rightarrow> WsClient option" where
  "OnTcpMessage env data c =
     (if ws_closing c \<or> ws_closed c then Some c else ProcessData env (c\<lparr>recvBuf := recvBuf c @ data\<rparr>))"

section \<open>Methods called from Luau\<close>

datatype lua_result = Raised string | Returned | Yielded

fun collect_headers :: "(string \<times> lvalue) list \<Rightarrow> string list \<Rightarrow> (string \<times> string) list \<Rightarrow> bool \<times> (string \<times> string) list" where
  "collect_headers t [] acc = (True, acc)"
| "collect_headers t (key # keys) acc =
     (case table_get t key of LString v \<Rightarrow> collect_headers t keys (acc @ [(key, v)]) | _ \<Rightarrow> (False, acc))"

definition connect_timeout :: "ws_env \<Rightarrow> lvalue \<Rightarrow> string + nat" where
  "connect_timeout env opts =
     (case opts of
        LTable t \<Rightarrow>
          (case table_get t ''timeout'' of
             LNil \<Rightarrow> Inr 0
           | LNumber d \<Rightarrow> ToMilliseconds (double_mult env) d 1000 ''timeout''
           | _ \<Rightarrow> Inl ''websocket Connect: timeout must be a number or nil'')
      | LNil \<Rightarrow> Inr 0
      | _ \<Rightarrow> Inl ''websocket Connect: opts must be a table or nil'')"

definition connect_headers :: "lvalue \<Rightarrow> WsClient \<Rightarrow> string option \<times> WsClient" where
  "connect_headers opts c =
     (case opts of
        LTable t \<Rightarrow>
          (case table_get t ''headers'' of
             LNil \<Rightarrow> (None, c)
           | LTable h \<Rightarrow>
               (let (ok, hs) = collect_headers h (map fst h) (requestHeaders c) in
                (if ok then None else Some ''websocket Connect: opts.headers values must be strings'',
                 c\<lparr>requestHeaders := hs\<rparr>))
           | _ \<Rightarrow> (Some ''websocket Connect: opts.headers must be a table or nil'', c))
      | _ \<Rightarrow> (None, c))"

definition connect_begin :: "ws_env \<Rightarrow> ParsedWsUrl \<Rightarrow> nat \<Rightarrow> WsClient \<Rightarrow> lua_result \<times> WsClient" where
  "connect_begin env parsed timeoutMs c =
     (let c1 = c\<lparr>parsedUrl := parsed, connectTimeoutMs := timeoutMs, connectPending := True, connectCo := True\<rparr>;
          c2 = (if 0 < connectTimeoutMs c1 then StartTimer env (connectTimeoutMs c1) TM_Connect c1 else c1);
          c3 = emit (ConnectNative (url_connectHost parsed) (url_port parsed) timeoutMs) (c2\<lparr>hasTcp := True\<rparr>)
      in case connect_status env c3 of
           ConnStarted \<Rightarrow> (Yielded, c3)
         | ConnFailedNow err \<Rightarrow> (Yielded, OnTcpError env err c3)
         | ConnRefused err \<Rightarrow> (Raised (''websocket Connect: '' @ err), c3\<lparr>connectPending := False, connectCo := False\<rparr>))"

definition MethodConnect :: "ws_env \<Rightarrow> lvalue list \<Rightarrow> WsClient \<Rightarrow> lua_result \<times> WsClient" where
  "MethodConnect env args c =
     (if opened c \<or> ws_state c = Closing \<or> ws_state c = Closed
      then (Raised ''websocket Connect: already connected or closed'', c)
      else if connectPending c then (Raised ''websocket Connect: a connection attempt is already in progress'', c)
      else if ws_closing c \<or> ws_closed c then (Raised ''websocket Connect: socket is closed'', c)
      else case arg args 1 of
        LString url \<Rightarrow>
          if url = [] then (Raised ''websocket Connect: url must not be empty'', c)
          else
            let parsed = ParseWebSocketUrl url in
            if \<not> url_valid parsed then (Raised (''websocket Connect: invalid-url: '' @ url_error parsed), c)
            else if url_isSecure parsed then (Raised ''websocket Connect: tls: WSS is not supported on this platform'', c)
            else (case connect_timeout env (arg args 2) of
                    Inl msg \<Rightarrow> (Raised msg, c)
                  | Inr timeoutMs \<Rightarrow>
                    (case connect_headers (arg args 2) c of
                       (Some msg, c1) \<Rightarrow> (Raised msg, c1)
                     | (None, c1) \<Rightarrow> connect_begin env parsed timeoutMs c1))
      | _ \<Rightarrow> (Raised ''websocket Connect: url must be a string'', c))"

definition MethodSend :: "ws_env \<Rightarrow> lvalue list \<Rightarrow> WsClient \<Rightarrow> lua_result \<times> WsClient" where
  "MethodSend env args c =
     (if ws_closed c \<or> ws_closing c then (Raised ''websocket Send: socket is closed'', c)
      else if ws_state c \<noteq> Open then (Raised ''websocket Send: not connected'', c)
      else case arg args 1 of
        LString text \<Rightarrow> (Returned, SendFrame env kOpcodeText (bytes_of text) c)
      | LBuffer data \<Rightarrow> (Returned, SendFrame env kOpcodeBinary data c)
      | _ \<Rightarrow> (Raised ''websocket Send: data must be a string or buffer'', c))"

definition MethodPing :: "ws_env \<Rightarrow> lvalue list \<Rightarrow> WsClient \<Rightarrow> lua_result \<times> WsClient" where
  "MethodPing env args c =
     (if ws_closed c \<or> ws_closing c then (Raised ''websocket Ping: socket is closed'', c)
      else if ws_state c \<noteq> Open then (Raised ''websocket Ping: not connected'', c)
      else
        let data = (case arg args 1 of LNil \<Rightarrow> Some [] | LString text \<Rightarrow> Some (bytes_of text) | LBuffer d \<Rightarrow> Some d | _ \<Rightarrow> None)
        in case data of
             None \<Rightarrow> (Raised ''websocket Ping: data must be a string or buffer or nil'', c)
           | Some d \<Rightarrow>
               if 125 < length d then (Raised ''websocket Ping: payload must be at most 125 bytes'', c)
               else (Returned, SendFrame env kOpcodePing d c))"

definition close_code :: "lvalue \<Rightarrow> string + u16" where
  "close_code v =
     (case v of
        LNil \<Rightarrow> Inr (of_nat kCloseNormal)
      | LNumber d \<Rightarrow>
          if \<not> IsValidCloseCode d then Inl ''websocket Close: invalid close code''
          else Inr (case d of Finite r \<Rightarrow> of_int \<lfloor>r\<rfloor> | _ \<Rightarrow> 0)
      | _ \<Rightarrow> Inl ''websocket Close: code must be a number or nil'')"

definition close_reason :: "lvalue \<Rightarrow> string + bytes" where
  "close_reason v =
     (case v of
        LNil \<Rightarrow> Inr []
      | LString s \<Rightarrow> if 123 < length s then Inl ''websocket Close: reason must be at most 123 bytes'' else Inr (bytes_of s)
      | _ \<Rightarrow> Inl ''websocket Close: reason must be a string or nil'')"

definition MethodClose :: "ws_env \<Rightarrow> lvalue list \<Rightarrow> WsClient \<Rightarrow> lua_result \<times> WsClient" where
  "MethodClose env args c =
     (if ws_closed c \<or> ws_closing c \<or> ws_state c = Closed
      then (Raised ''websocket Close: socket is already closing or closed'', c)
      else case close_code (arg args 1) of
        Inl msg \<Rightarrow> (Raised msg, c)
      | Inr cd \<Rightarrow>
        (case close_reason (arg args 2) of
           Inl msg \<Rightarrow> (Raised msg, c)
         | Inr reason \<Rightarrow>
           if ws_state c = Open then
             (let c1 = SendFrame env kOpcodeClose (MakeClosePayload cd reason) (c\<lparr>closeSent := True\<rparr>)
              in (Returned, StartTimer env 5000 TM_Close (c1\<lparr>ws_state := Closing\<rparr>)))
           else if ws_state c = Connecting then (Returned, RequestClose env c)
           else (Returned, c)))"

definition MethodLocalAddress :: "WsClient \<Rightarrow> string + string \<times> nat" where
  "MethodLocalAddress c =
     (if ws_state c = Connecting \<or> ws_closed c then Inl ''websocket LocalAddress: not connected'' else Inr (localAddr c))"

definition MethodRemoteAddress :: "WsClient \<Rightarrow> string + string \<times> nat" where
  "MethodRemoteAddress c =
     (if ws_state c = Connecting \<or> ws_closed c then Inl ''websocket RemoteAddress: not connected'' else Inr (remoteAddr c))"

text \<open>The entries of the method table of \<open>BuildClientMethods\<close> that change the object.\<close>

datatype api_call = CallConnect "lvalue list" | CallSend "lvalue list" | CallPing "lvalue list" | CallClose "lvalue list" | CallDestroy

definition ClientMethods :: "ws_env \<Rightarrow> api_call \<Rightarrow> WsClient \<Rightarrow> lua_result \<times> WsClient" where
  "ClientMethods env call c =
     (case call of
        CallConnect args \<Rightarrow>
          if shuttingDown c then (Raised ''websocket Connect: runtime is shutting down'', c) else MethodConnect env args c
      | CallSend args \<Rightarrow> MethodSend env args c
      | CallPing args \<Rightarrow> MethodPing env args c
      | CallClose args \<Rightarrow> MethodClose env args c
      | CallDestroy \<Rightarrow> (Returned, RequestClose env c))"

definition IsConnected :: "WsClient \<Rightarrow> bool" where
  "IsConnected c \<longleftrightarrow> ws_state c = Open \<and> \<not> ws_closed c"

text \<open>\<open>WebSocketManager::Shutdown\<close>, as one client sees it.\<close>

definition Shutdown :: "ws_env \<Rightarrow> WsClient \<Rightarrow> WsClient" where
  "Shutdown env c = (if shuttingDown c then c else RequestClose env (c\<lparr>shuttingDown := True\<rparr>))"

section \<open>Invariant\<close>

definition effects :: "(ws_effect \<Rightarrow> bool) \<Rightarrow> WsClient \<Rightarrow> nat" where
  "effects P c = length (filter P (ws_trace c))"

definition is_disconnect :: "ws_effect \<Rightarrow> bool" where
  "is_disconnect e \<longleftrightarrow> (case e of FireDisconnected _ _ \<Rightarrow> True | _ \<Rightarrow> False)"

definition is_resume :: "ws_effect \<Rightarrow> bool" where
  "is_resume e \<longleftrightarrow> (case e of ResumeOk \<Rightarrow> True | ResumeError _ \<Rightarrow> True | _ \<Rightarrow> False)"

text \<open>A Close frame on the wire: the first byte is \<open>FIN\<close> with opcode 8.\<close>

definition is_close_frame :: "ws_effect \<Rightarrow> bool" where
  "is_close_frame e \<longleftrightarrow> (case e of SendNative (b # _) \<Rightarrow> b = 0x88 | _ \<Rightarrow> False)"

definition messages :: "WsClient \<Rightarrow> bytes list" where
  "messages c = concat (map (\<lambda>e. case e of FireMessage m \<Rightarrow> [m] | _ \<Rightarrow> []) (ws_trace c))"

definition uv_inv :: "WsClient \<Rightarrow> bool" where
  "uv_inv c \<longleftrightarrow>
     (ws_closed c \<longrightarrow> ws_closing c \<and> \<not> hasTcp c \<and> closeCount c = 0 \<and> (timerInited c \<longrightarrow> timerClosed c)) \<and>
     effects (\<lambda>e. e = UvTimerClose) c = of_bool (timerClosed c) \<and>
     closeCount c + int (effects (\<lambda>e. e = UvTimerClosed) c) = of_bool (timerClosed c) \<and>
     0 \<le> closeCount c \<and> (timerClosed c \<longrightarrow> timerInited c \<and> ws_closing c \<and> \<not> hasTcp c)"

definition disconnect_inv :: "WsClient \<Rightarrow> bool" where
  "disconnect_inv c \<longleftrightarrow>
     effects is_disconnect c = of_bool (disconnectedFired c) \<and> (disconnectedFired c \<longrightarrow> ws_closed c \<and> opened c)"

definition resume_inv :: "WsClient \<Rightarrow> bool" where
  "resume_inv c \<longleftrightarrow> effects is_resume c = of_bool (connectResumed c)"

definition close_inv :: "WsClient \<Rightarrow> bool" where
  "close_inv c \<longleftrightarrow>
     effects is_close_frame c \<le> 1 \<and>
     (effects is_close_frame c \<noteq> 0 \<longrightarrow> closeSent c \<and> handshakeComplete c \<and> (ws_state c \<noteq> Open \<or> ws_closing c)) \<and>
     (ws_state c = Open \<longrightarrow> handshakeComplete c)"

definition ws_inv :: "WsClient \<Rightarrow> bool" where
  "ws_inv c \<longleftrightarrow> uv_inv c \<and> disconnect_inv c \<and> resume_inv c \<and> close_inv c"

text \<open>What code that runs inside a callback (the methods, and so every Luau handler) leaves alone.\<close>

definition api_rel :: "WsClient \<Rightarrow> WsClient \<Rightarrow> bool" where
  "api_rel c c' \<longleftrightarrow>
     serverSide c' = serverSide c \<and> handshakeComplete c' = handshakeComplete c \<and> opened c' = opened c \<and>
     recvBuf c' = recvBuf c \<and> fragmentInProgress c' = fragmentInProgress c \<and> fragmentOpcode c' = fragmentOpcode c \<and>
     fragmentBuf c' = fragmentBuf c \<and> shuttingDown c' = shuttingDown c \<and> crashed c' = crashed c \<and>
     messages c' = messages c \<and> (ws_closing c \<longrightarrow> ws_closing c') \<and> (ws_closed c \<longrightarrow> ws_closed c') \<and>
     (closeSent c \<longrightarrow> closeSent c') \<and> (connectResumed c \<longrightarrow> connectResumed c')"

definition ws_ok :: "WsClient \<Rightarrow> WsClient \<Rightarrow> bool" where
  "ws_ok c c' \<longleftrightarrow> ws_inv c' \<and> api_rel c c'"

lemmas effect_kinds = is_disconnect_def is_resume_def is_close_frame_def

lemma effects_emit [simp]: "effects P (emit e c) = effects P c + of_bool (P e)"
  by (simp add: effects_def emit_def)

lemma messages_emit [simp]: "messages (emit e c) = messages c @ (case e of FireMessage m \<Rightarrow> [m] | _ \<Rightarrow> [])"
  by (simp add: messages_def emit_def)

lemma emit_simps [simp]:
  "serverSide (emit e c) = serverSide c" "ws_state (emit e c) = ws_state c" "opened (emit e c) = opened c"
  "ws_closing (emit e c) = ws_closing c" "ws_closed (emit e c) = ws_closed c"
  "disconnectedFired (emit e c) = disconnectedFired c" "connectPending (emit e c) = connectPending c"
  "connectResumed (emit e c) = connectResumed c" "closeCount (emit e c) = closeCount c" "hasTcp (emit e c) = hasTcp c"
  "timerInited (emit e c) = timerInited c" "timerClosed (emit e c) = timerClosed c" "timerMode (emit e c) = timerMode c"
  "connectCo (emit e c) = connectCo c" "requestHeaders (emit e c) = requestHeaders c" "recvBuf (emit e c) = recvBuf c"
  "handshakeComplete (emit e c) = handshakeComplete c" "sentKey (emit e c) = sentKey c"
  "wrappedUserdata (emit e c) = wrappedUserdata c" "fragmentOpcode (emit e c) = fragmentOpcode c"
  "fragmentInProgress (emit e c) = fragmentInProgress c" "fragmentBuf (emit e c) = fragmentBuf c"
  "closeSent (emit e c) = closeSent c" "hasCloseInfo (emit e c) = hasCloseInfo c" "shuttingDown (emit e c) = shuttingDown c"
  "rng (emit e c) = rng c" "crashed (emit e c) = crashed c" "ws_trace (emit e c) = ws_trace c @ [e]"
  by (simp_all add: emit_def)

text \<open>Counts and messages depend on the trace alone.\<close>

lemma effects_update [simp]:
  "effects P (c\<lparr>ws_state := x0\<rparr>) = effects P c"
  "effects P (c\<lparr>opened := x1\<rparr>) = effects P c"
  "effects P (c\<lparr>ws_closing := x2\<rparr>) = effects P c"
  "effects P (c\<lparr>ws_closed := x3\<rparr>) = effects P c"
  "effects P (c\<lparr>disconnectedFired := x4\<rparr>) = effects P c"
  "effects P (c\<lparr>connectPending := x5\<rparr>) = effects P c"
  "effects P (c\<lparr>connectResumed := x6\<rparr>) = effects P c"
  "effects P (c\<lparr>closeCount := x7\<rparr>) = effects P c"
  "effects P (c\<lparr>hasTcp := x8\<rparr>) = effects P c"
  "effects P (c\<lparr>timerInited := x9\<rparr>) = effects P c"
  "effects P (c\<lparr>timerClosed := x10\<rparr>) = effects P c"
  "effects P (c\<lparr>timerMode := x11\<rparr>) = effects P c"
  "effects P (c\<lparr>connectCo := x12\<rparr>) = effects P c"
  "effects P (c\<lparr>parsedUrl := x13\<rparr>) = effects P c"
  "effects P (c\<lparr>connectTimeoutMs := x14\<rparr>) = effects P c"
  "effects P (c\<lparr>requestHeaders := x15\<rparr>) = effects P c"
  "effects P (c\<lparr>remoteAddr := x16\<rparr>) = effects P c"
  "effects P (c\<lparr>localAddr := x17\<rparr>) = effects P c"
  "effects P (c\<lparr>recvBuf := x18\<rparr>) = effects P c"
  "effects P (c\<lparr>handshakeComplete := x19\<rparr>) = effects P c"
  "effects P (c\<lparr>sentKey := x20\<rparr>) = effects P c"
  "effects P (c\<lparr>fragmentOpcode := x21\<rparr>) = effects P c"
  "effects P (c\<lparr>fragmentInProgress := x22\<rparr>) = effects P c"
  "effects P (c\<lparr>fragmentBuf := x23\<rparr>) = effects P c"
  "effects P (c\<lparr>closeSent := x24\<rparr>) = effects P c"
  "effects P (c\<lparr>closeReceived := x25\<rparr>) = effects P c"
  "effects P (c\<lparr>closeCode := x26\<rparr>) = effects P c"
  "effects P (c\<lparr>closeReason := x27\<rparr>) = effects P c"
  "effects P (c\<lparr>hasCloseInfo := x28\<rparr>) = effects P c"
  "effects P (c\<lparr>selfGuard := x29\<rparr>) = effects P c"
  "effects P (c\<lparr>shuttingDown := x30\<rparr>) = effects P c"
  "effects P (c\<lparr>rng := x31\<rparr>) = effects P c"
  "effects P (c\<lparr>crashed := x32\<rparr>) = effects P c"
  by (simp_all add: effects_def)

lemma messages_update [simp]:
  "messages (c\<lparr>ws_state := x0\<rparr>) = messages c"
  "messages (c\<lparr>opened := x1\<rparr>) = messages c"
  "messages (c\<lparr>ws_closing := x2\<rparr>) = messages c"
  "messages (c\<lparr>ws_closed := x3\<rparr>) = messages c"
  "messages (c\<lparr>disconnectedFired := x4\<rparr>) = messages c"
  "messages (c\<lparr>connectPending := x5\<rparr>) = messages c"
  "messages (c\<lparr>connectResumed := x6\<rparr>) = messages c"
  "messages (c\<lparr>closeCount := x7\<rparr>) = messages c"
  "messages (c\<lparr>hasTcp := x8\<rparr>) = messages c"
  "messages (c\<lparr>timerInited := x9\<rparr>) = messages c"
  "messages (c\<lparr>timerClosed := x10\<rparr>) = messages c"
  "messages (c\<lparr>timerMode := x11\<rparr>) = messages c"
  "messages (c\<lparr>connectCo := x12\<rparr>) = messages c"
  "messages (c\<lparr>parsedUrl := x13\<rparr>) = messages c"
  "messages (c\<lparr>connectTimeoutMs := x14\<rparr>) = messages c"
  "messages (c\<lparr>requestHeaders := x15\<rparr>) = messages c"
  "messages (c\<lparr>remoteAddr := x16\<rparr>) = messages c"
  "messages (c\<lparr>localAddr := x17\<rparr>) = messages c"
  "messages (c\<lparr>recvBuf := x18\<rparr>) = messages c"
  "messages (c\<lparr>handshakeComplete := x19\<rparr>) = messages c"
  "messages (c\<lparr>sentKey := x20\<rparr>) = messages c"
  "messages (c\<lparr>fragmentOpcode := x21\<rparr>) = messages c"
  "messages (c\<lparr>fragmentInProgress := x22\<rparr>) = messages c"
  "messages (c\<lparr>fragmentBuf := x23\<rparr>) = messages c"
  "messages (c\<lparr>closeSent := x24\<rparr>) = messages c"
  "messages (c\<lparr>closeReceived := x25\<rparr>) = messages c"
  "messages (c\<lparr>closeCode := x26\<rparr>) = messages c"
  "messages (c\<lparr>closeReason := x27\<rparr>) = messages c"
  "messages (c\<lparr>hasCloseInfo := x28\<rparr>) = messages c"
  "messages (c\<lparr>selfGuard := x29\<rparr>) = messages c"
  "messages (c\<lparr>shuttingDown := x30\<rparr>) = messages c"
  "messages (c\<lparr>rng := x31\<rparr>) = messages c"
  "messages (c\<lparr>crashed := x32\<rparr>) = messages c"
  by (simp_all add: messages_def)

lemma ws_ok_trans: "ws_ok a b \<Longrightarrow> ws_ok b c \<Longrightarrow> ws_ok a c"
  by (auto simp: ws_ok_def api_rel_def)

lemma api_rel_refl [simp]: "api_rel c c"
  by (simp add: api_rel_def)

lemma api_rel_trans: "api_rel a b \<Longrightarrow> api_rel b c \<Longrightarrow> api_rel a c"
  by (auto simp: api_rel_def)

lemmas ws_inv_parts = uv_inv_def disconnect_inv_def resume_inv_def close_inv_def

lemma ws_inv_new: "ws_inv (WsClient_new srv seed)"
  by (simp add: ws_inv_def ws_inv_parts WsClient_new_def effects_def)

text \<open>Effects and fields the invariant and the relation do not look at.\<close>

definition quiet :: "ws_effect \<Rightarrow> bool" where
  "quiet e \<longleftrightarrow> \<not> is_disconnect e \<and> \<not> is_resume e \<and> \<not> is_close_frame e \<and> e \<noteq> UvTimerClose \<and> e \<noteq> UvTimerClosed"

lemma ws_inv_emit [simp]: "quiet e \<Longrightarrow> ws_inv (emit e c) = ws_inv c"
  by (simp add: ws_inv_def ws_inv_parts quiet_def)

lemma quiet_effects [simp]:
  "quiet FireConnected" "quiet (FireMessage m)" "quiet (FireErrorOccurred s)" "quiet FireClientConnected"
  "quiet (UvTimerStart n)" "quiet UvTimerStop" "quiet (ConnectNative h p n)" "quiet TcpRequestClose" "quiet RemoveClient"
  by (simp_all add: quiet_def effect_kinds)

lemma ws_inv_update [simp]:
  "ws_inv (c\<lparr>connectPending := x1\<rparr>) = ws_inv c" "ws_inv (c\<lparr>timerMode := x2\<rparr>) = ws_inv c"
  "ws_inv (c\<lparr>connectCo := x3\<rparr>) = ws_inv c" "ws_inv (c\<lparr>parsedUrl := x4\<rparr>) = ws_inv c"
  "ws_inv (c\<lparr>connectTimeoutMs := x5\<rparr>) = ws_inv c" "ws_inv (c\<lparr>requestHeaders := x6\<rparr>) = ws_inv c"
  "ws_inv (c\<lparr>remoteAddr := x7\<rparr>) = ws_inv c" "ws_inv (c\<lparr>localAddr := x8\<rparr>) = ws_inv c"
  "ws_inv (c\<lparr>recvBuf := x9\<rparr>) = ws_inv c" "ws_inv (c\<lparr>sentKey := x10\<rparr>) = ws_inv c"
  "ws_inv (c\<lparr>fragmentOpcode := x11\<rparr>) = ws_inv c" "ws_inv (c\<lparr>fragmentInProgress := x12\<rparr>) = ws_inv c"
  "ws_inv (c\<lparr>fragmentBuf := x13\<rparr>) = ws_inv c" "ws_inv (c\<lparr>closeReceived := x14\<rparr>) = ws_inv c"
  "ws_inv (c\<lparr>closeCode := x15\<rparr>) = ws_inv c" "ws_inv (c\<lparr>closeReason := x16\<rparr>) = ws_inv c"
  "ws_inv (c\<lparr>hasCloseInfo := x17\<rparr>) = ws_inv c" "ws_inv (c\<lparr>selfGuard := x18\<rparr>) = ws_inv c"
  "ws_inv (c\<lparr>shuttingDown := x19\<rparr>) = ws_inv c" "ws_inv (c\<lparr>rng := x20\<rparr>) = ws_inv c"
  "ws_inv (c\<lparr>crashed := x21\<rparr>) = ws_inv c"
  by (simp_all add: ws_inv_def ws_inv_parts)

lemma ws_inv_closing: "ws_inv c \<Longrightarrow> ws_inv (c\<lparr>ws_closing := True\<rparr>)"
  by (auto simp: ws_inv_def ws_inv_parts)

lemma ws_inv_closeSent: "ws_inv c \<Longrightarrow> ws_inv (c\<lparr>closeSent := True\<rparr>)"
  by (auto simp: ws_inv_def ws_inv_parts)

lemma ws_inv_Closing: "ws_inv c \<Longrightarrow> ws_inv (c\<lparr>ws_state := Closing\<rparr>)"
  by (auto simp: ws_inv_def ws_inv_parts)

lemma ws_inv_Closed: "ws_inv c \<Longrightarrow> ws_inv (c\<lparr>ws_state := Closed\<rparr>)"
  by (auto simp: ws_inv_def ws_inv_parts)

lemma ws_inv_no_tcp: "ws_inv c \<Longrightarrow> ws_inv (c\<lparr>hasTcp := False\<rparr>)"
  by (auto simp: ws_inv_def ws_inv_parts)

lemma api_rel_emit [simp]: "\<forall>m. e \<noteq> FireMessage m \<Longrightarrow> api_rel c (emit e d) = api_rel c d"
  by (cases e) (auto simp: api_rel_def)

lemma api_rel_update [simp]:
  "api_rel c (d\<lparr>connectPending := x1\<rparr>) = api_rel c d" "api_rel c (d\<lparr>timerMode := x2\<rparr>) = api_rel c d"
  "api_rel c (d\<lparr>connectCo := x3\<rparr>) = api_rel c d" "api_rel c (d\<lparr>parsedUrl := x4\<rparr>) = api_rel c d"
  "api_rel c (d\<lparr>connectTimeoutMs := x5\<rparr>) = api_rel c d" "api_rel c (d\<lparr>requestHeaders := x6\<rparr>) = api_rel c d"
  "api_rel c (d\<lparr>remoteAddr := x7\<rparr>) = api_rel c d" "api_rel c (d\<lparr>localAddr := x8\<rparr>) = api_rel c d"
  "api_rel c (d\<lparr>timerInited := x9\<rparr>) = api_rel c d" "api_rel c (d\<lparr>timerClosed := x10\<rparr>) = api_rel c d"
  "api_rel c (d\<lparr>closeCount := x11\<rparr>) = api_rel c d" "api_rel c (d\<lparr>hasTcp := x12\<rparr>) = api_rel c d"
  "api_rel c (d\<lparr>ws_state := x13\<rparr>) = api_rel c d" "api_rel c (d\<lparr>closeReceived := x14\<rparr>) = api_rel c d"
  "api_rel c (d\<lparr>closeCode := x15\<rparr>) = api_rel c d" "api_rel c (d\<lparr>closeReason := x16\<rparr>) = api_rel c d"
  "api_rel c (d\<lparr>hasCloseInfo := x17\<rparr>) = api_rel c d" "api_rel c (d\<lparr>selfGuard := x18\<rparr>) = api_rel c d"
  "api_rel c (d\<lparr>disconnectedFired := x19\<rparr>) = api_rel c d" "api_rel c (d\<lparr>rng := x20\<rparr>) = api_rel c d"
  "api_rel c (d\<lparr>sentKey := x21\<rparr>) = api_rel c d"
  by (simp_all add: api_rel_def)

lemma api_rel_set:
  "api_rel c d \<Longrightarrow> api_rel c (d\<lparr>ws_closing := True\<rparr>)" "api_rel c d \<Longrightarrow> api_rel c (d\<lparr>ws_closed := True\<rparr>)"
  "api_rel c d \<Longrightarrow> api_rel c (d\<lparr>closeSent := True\<rparr>)" "api_rel c d \<Longrightarrow> api_rel c (d\<lparr>connectResumed := True\<rparr>)"
  by (simp_all add: api_rel_def)

section \<open>Events of the loop\<close>

datatype ws_event =
    EvConnected "string \<times> nat" "string \<times> nat"
  | EvTcpError string
  | EvTcpMessage bytes
  | EvTcpDisconnected
  | EvTimer
  | EvHandleClosed
  | EvCall api_call
  | EvShutdown

definition ws_handle :: "ws_env \<Rightarrow> ws_event \<Rightarrow> WsClient \<Rightarrow> WsClient option" where
  "ws_handle env ev c =
     (case ev of
        EvConnected local remote \<Rightarrow> Some (OnTcpConnected env local remote c)
      | EvTcpError err \<Rightarrow> Some (OnTcpError env err c)
      | EvTcpMessage data \<Rightarrow> OnTcpMessage env data c
      | EvTcpDisconnected \<Rightarrow> Some (OnTcpDisconnected env c)
      | EvTimer \<Rightarrow> Some (OnTimer env c)
      | EvHandleClosed \<Rightarrow> Some (OnHandleClosed env c)
      | EvCall call \<Rightarrow> Some (snd (ClientMethods env call c))
      | EvShutdown \<Rightarrow> Some (Shutdown env c))"

text \<open>libuv runs the close callback of a handle once per \<open>uv_close\<close>, and the callback of a timer only
  while the timer is open; every other event may come at any time.\<close>

definition ws_enabled :: "ws_event \<Rightarrow> WsClient \<Rightarrow> bool" where
  "ws_enabled ev c =
     (case ev of
        EvHandleClosed \<Rightarrow> effects (\<lambda>e. e = UvTimerClosed) c < effects (\<lambda>e. e = UvTimerClose) c
      | EvTimer \<Rightarrow> timerInited c \<and> \<not> timerClosed c
      | _ \<Rightarrow> True)"

inductive ws_reach :: "ws_env \<Rightarrow> WsClient \<Rightarrow> bool" for env where
  new: "ws_reach env (WsClient_new srv seed)"
| step: "ws_reach env c \<Longrightarrow> ws_enabled ev c \<Longrightarrow> ws_handle env ev c = Some c' \<Longrightarrow> ws_reach env c'"

lemma ServerHandshake_texts:
  "ServerHandshake b = BadRequest r \<Longrightarrow> r = BadRequest_text"
  "ServerHandshake b = Switching r \<Longrightarrow> \<exists>a. r = Switching_text a"
  by (auto simp: ServerHandshake_def Let_def split: option.splits if_splits prod.splits)

lemma quiet_texts [simp]:
  "quiet (SendNative (bytes_of BadRequest_text))" "quiet (SendNative (bytes_of (Switching_text a)))"
  "quiet (SendNative (bytes_of (HandshakeRequest u k hs)))"
  by (simp_all add: quiet_def effect_kinds BadRequest_text_def Switching_text_def HandshakeRequest_def bytes_of_def byte_of_def Let_def)

section \<open>Every operation keeps the invariant\<close>

text \<open>The interface between the class and the Luau code it calls: whatever a handler does through the
  methods of the object, it keeps the invariant and leaves the receiving side alone.\<close>

locale luau_code =
  fixes env :: ws_env
  assumes luau_inv: "ws_inv c \<Longrightarrow> ws_inv (luau env e c)"
    and luau_rel: "ws_inv c \<Longrightarrow> api_rel c (luau env e c)"
begin

lemma run_ok: "ws_inv (emit e c) \<Longrightarrow> \<forall>m. e \<noteq> FireMessage m \<Longrightarrow> ws_ok c (run_luau env e c)"
  using luau_rel [of "emit e c" e] luau_inv [of "emit e c" e]
  by (auto simp: ws_ok_def run_luau_def intro: api_rel_trans [of c "emit e c"])

lemma FireError_ok: "ws_inv c \<Longrightarrow> ws_ok c (FireError env m c)"
  by (simp add: FireError_def ws_ok_def [of c c] run_ok)

lemma Notify_ok:
  assumes "ws_inv c" "\<not> connectResumed c"
  shows "ws_ok c (NotifyConnectError env m (c\<lparr>connectResumed := True\<rparr>)) \<or> \<not> connectCo c"
    and "ws_ok c (NotifyConnectOk env (c\<lparr>connectResumed := True\<rparr>)) \<or> \<not> connectCo c"
proof -
  let ?c = "c\<lparr>connectResumed := True\<rparr>"
  have "ws_inv (emit (ResumeError m) ?c)" "ws_inv (emit ResumeOk ?c)"
    using assms by (auto simp: ws_inv_def ws_inv_parts effect_kinds)
  then have "ws_ok ?c (run_luau env (ResumeError m) ?c)" "ws_ok ?c (run_luau env ResumeOk ?c)"
    by (simp_all add: run_ok)
  moreover have "api_rel c ?c" by (simp add: api_rel_set)
  ultimately show "ws_ok c (NotifyConnectError env m ?c) \<or> \<not> connectCo c" "ws_ok c (NotifyConnectOk env ?c) \<or> \<not> connectCo c"
    by (auto simp: NotifyConnectError_def NotifyConnectOk_def ws_ok_def intro: api_rel_trans)
qed

lemma FinishClosed_ok:
  assumes "ws_inv c" "ws_closing c" "closeCount c = 0" "\<not> hasTcp c" "timerInited c \<longrightarrow> timerClosed c"
  shows "ws_ok c (FinishClosed env c) \<and> ws_closed (FinishClosed env c)"
proof (cases "ws_closed c")
  case False
  let ?c1 = "c\<lparr>ws_closed := True, ws_state := Closed\<rparr>"
  let ?c2 = "?c1\<lparr>disconnectedFired := True\<rparr>"
  have rel: "api_rel c ?c1" "api_rel c ?c2" by (simp_all add: api_rel_set)
  have c1: "ws_ok c ?c1"
    using assms rel by (auto simp: ws_ok_def ws_inv_def ws_inv_parts)
  have c2: "ws_ok c (run_luau env (FireDisconnected k r) ?c2) \<and> ws_closed (run_luau env (FireDisconnected k r) ?c2)"
    if "opened c" "\<not> disconnectedFired c" for k r
  proof -
    have "ws_inv (emit (FireDisconnected k r) ?c2)"
      using assms that by (auto simp: ws_inv_def ws_inv_parts effect_kinds)
    then have "ws_ok ?c2 (run_luau env (FireDisconnected k r) ?c2)" by (simp add: run_ok)
    then show ?thesis using rel by (auto simp: ws_ok_def api_rel_def)
  qed
  have "ws_ok c d \<and> ws_closed d \<Longrightarrow> ws_ok c ((emit RemoveClient d)\<lparr>selfGuard := False\<rparr>)" for d
    by (simp add: ws_ok_def)
  then show ?thesis using False c1 c2 by (simp add: FinishClosed_def Let_def)
qed (use assms in \<open>simp add: FinishClosed_def ws_ok_def\<close>)

lemma CloseHandles_ok:
  assumes "ws_inv c" "ws_closing c"
  shows "ws_ok c (CloseHandles env c) \<and> (ws_closed (CloseHandles env c) \<or> closeCount (CloseHandles env c) = 1)"
proof (cases "ws_closed c")
  case False
  let ?timer = "timerInited c \<and> \<not> timerClosed c"
  define c1 where "c1 = StopTimer (c\<lparr>connectPending := False\<rparr>)"
  define c2 where "c2 = (if timerInited c1 \<and> \<not> timerClosed c1
    then emit UvTimerClose (c1\<lparr>timerClosed := True, closeCount := closeCount c1 + 1\<rparr>) else c1)"
  define c3 where "c3 = (if hasTcp c2 then emit TcpRequestClose (c2\<lparr>hasTcp := False\<rparr>) else c2)"
  have eq: "CloseHandles env c = CheckClosed env c3"
    using False by (simp add: CloseHandles_def c1_def c2_def c3_def Let_def)
  have rel: "api_rel c c3" by (simp add: c1_def c2_def c3_def StopTimer_def)
  have inv: "ws_inv c3" "ws_closing c3" "\<not> hasTcp c3" "timerInited c3 \<longrightarrow> timerClosed c3" "closeCount c3 = 0 \<or> closeCount c3 = 1"
    using assms False by (auto simp: c1_def c2_def c3_def StopTimer_def ws_inv_def ws_inv_parts effect_kinds)
  show ?thesis
  proof (cases "closeCount c3 = 0")
    case True
    with FinishClosed_ok [OF inv(1,2) _ inv(3,4)] have "ws_ok c3 (FinishClosed env c3) \<and> ws_closed (FinishClosed env c3)"
      by blast
    with True inv rel eq show ?thesis by (auto simp: CheckClosed_def ws_ok_def intro: api_rel_trans)
  next
    case False
    with inv rel eq show ?thesis by (simp add: CheckClosed_def ws_ok_def)
  qed
qed (use assms in \<open>simp add: CloseHandles_def ws_ok_def\<close>)

lemma OnHandleClosed_ok:
  assumes "ws_inv c" "0 < closeCount c"
  shows "ws_ok c (OnHandleClosed env c) \<and> ws_closed (OnHandleClosed env c)"
proof -
  define d where "d = emit UvTimerClosed (c\<lparr>closeCount := closeCount c - 1\<rparr>)"
  have d: "ws_inv d" "ws_closing d" "closeCount d = 0" "\<not> hasTcp d" "timerInited d \<longrightarrow> timerClosed d" and rel: "api_rel c d"
    using assms by (auto simp: d_def ws_inv_def ws_inv_parts effect_kinds of_bool_def split: if_splits)
  have eq: "OnHandleClosed env c = FinishClosed env d"
    using d by (simp add: OnHandleClosed_def CheckClosed_def d_def [symmetric])
  from FinishClosed_ok [OF d] rel show ?thesis
    unfolding eq ws_ok_def by (blast intro: api_rel_trans)
qed

lemma FailConnect_ok:
  assumes "ws_inv (c\<lparr>ws_closing := True\<rparr>)" "\<not> ws_closing c"
  shows "ws_ok c (FailConnect env m c) \<and> ws_closing (FailConnect env m c) \<and>
    (ws_closed (FailConnect env m c) \<or> closeCount (FailConnect env m c) = 1)"
proof -
  define c1 where "c1 = c\<lparr>ws_closing := True\<rparr>"
  define c2 where "c2 = (if connectPending c1 \<and> \<not> connectResumed c1 \<and> connectCo c1
    then NotifyConnectError env m (c1\<lparr>connectResumed := True\<rparr>) else c1)"
  have inv1: "ws_inv c1" "ws_closing c1" and rel1: "api_rel c c1"
    using assms by (simp_all add: c1_def api_rel_set)
  have c2: "ws_ok c1 c2"
    using Notify_ok(1) [of c1 m] inv1 by (auto simp: c2_def ws_ok_def)
  then have "ws_inv (c2\<lparr>connectPending := False\<rparr>)" "ws_closing (c2\<lparr>connectPending := False\<rparr>)"
    using inv1 by (auto simp: ws_ok_def api_rel_def)
  note close = CloseHandles_ok [OF this]
  have eq: "FailConnect env m c = CloseHandles env (c2\<lparr>connectPending := False\<rparr>)"
    using assms by (simp add: FailConnect_def c2_def c1_def Let_def)
  have "api_rel c (c2\<lparr>connectPending := False\<rparr>)"
    using c2 rel1 by (auto simp: ws_ok_def intro: api_rel_trans)
  with close have "ws_ok c (CloseHandles env (c2\<lparr>connectPending := False\<rparr>))"
    unfolding ws_ok_def by (blast intro: api_rel_trans)
  moreover have "ws_closing (CloseHandles env (c2\<lparr>connectPending := False\<rparr>))"
    using close c2 inv1 by (auto simp: ws_ok_def api_rel_def)
  ultimately show ?thesis using close unfolding eq by blast
qed

lemma RequestClose_eq: "RequestClose env c = FailConnect env ''websocket Connect: connection closed'' c"
  by (simp add: RequestClose_def FailConnect_def)

lemma FailConnect_inv: "ws_inv c \<Longrightarrow> ws_ok c (FailConnect env m c)"
  using FailConnect_ok [OF ws_inv_closing] by (cases "ws_closing c") (auto simp: FailConnect_def ws_ok_def)

lemma RequestClose_inv: "ws_inv c \<Longrightarrow> ws_ok c (RequestClose env c)"
  unfolding RequestClose_eq by (rule FailConnect_inv)

lemma RequestClose_weak:
  assumes "ws_inv (c\<lparr>ws_closing := True\<rparr>)" "ws_closing c \<longrightarrow> ws_inv c"
  shows "ws_ok c (RequestClose env c)"
  using FailConnect_ok [OF assms(1)] FailConnect_inv assms(2) unfolding RequestClose_eq by (cases "ws_closing c") auto

lemma OnTcpError_ok:
  assumes "ws_inv c"
  shows "ws_ok c (OnTcpError env m c)"
  using assms FailConnect_inv [OF assms] RequestClose_inv [OF assms]
    ws_ok_trans [OF FireError_ok [OF assms] RequestClose_inv] FireError_ok [OF assms]
  by (auto simp: OnTcpError_def ws_ok_def)

lemma OnTimer_ok: "ws_inv c \<Longrightarrow> ws_ok c (OnTimer env c)"
  using FailConnect_inv [of c] RequestClose_inv [of c] by (simp add: OnTimer_def ws_ok_def)

lemma StartTimer_ok: "ws_inv c \<Longrightarrow> ws_ok c (StartTimer env n mode c)"
  by (auto simp: StartTimer_def ws_ok_def) (auto simp: ws_inv_def ws_inv_parts)

lemma StopTimer_ok: "ws_inv c \<Longrightarrow> ws_ok c (StopTimer c)"
  by (auto simp: StopTimer_def ws_ok_def)

text \<open>A write that is accepted only appends to the trace; any other keeps the invariant.\<close>

lemma SendRaw_cases:
  assumes "ws_inv c"
  shows "SendRaw env data c = emit (SendNative data) c \<and> data \<noteq> [] \<and> hasTcp c \<or> ws_ok c (SendRaw env data c)"
  using assms OnTcpError_ok [OF assms] by (auto simp: SendRaw_def ws_ok_def split: write_result.split)

lemma SendRaw_ok:
  assumes "ws_inv c" "quiet (SendNative data)"
  shows "ws_ok c (SendRaw env data c)"
  using SendRaw_cases [OF assms(1), of data] assms by (auto simp: ws_ok_def)

lemma SendFrame_ok:
  assumes "ws_inv c" "opcode \<in> {kOpcodeText, kOpcodeBinary, kOpcodePing, kOpcodePong}"
  shows "ws_ok c (SendFrame env opcode payload c)"
proof -
  have q: "quiet (SendNative (EncodeFrame opcode payload True m k))" for m k
    using assms(2) by (auto simp: quiet_def effect_kinds EncodeFrame_def opcode_defs)
  have "ws_inv (c\<lparr>rng := r\<rparr>)" for r using assms by simp
  from SendRaw_ok [OF this q] SendRaw_ok [OF assms(1) q] show ?thesis
    by (auto simp: SendFrame_def Let_def ws_ok_def api_rel_def)
qed

lemma SendFrame_close:
  fixes payload :: bytes
  assumes "ws_inv c" "effects is_close_frame c = 0" "closeSent c" "handshakeComplete c"
  defines "c' \<equiv> SendFrame env kOpcodeClose payload c"
  shows "api_rel c c' \<and> ws_inv (c'\<lparr>ws_closing := True\<rparr>) \<and> ws_inv (c'\<lparr>ws_state := Closing\<rparr>) \<and> (ws_closing c' \<longrightarrow> ws_inv c')"
proof -
  define k where "k = (if serverSide c then 0 else WsRng_Next (rng c))"
  define d where "d = (if serverSide c then c else c\<lparr>rng := k\<rparr>)"
  define data where "data = EncodeFrame kOpcodeClose payload True (\<not> serverSide c) k"
  have c': "c' = SendRaw env data d" by (simp add: c'_def SendFrame_def d_def k_def data_def Let_def)
  have d: "ws_inv d" "effects is_close_frame d = 0" "closeSent d" "handshakeComplete d" "api_rel c d"
    using assms by (simp_all add: d_def)
  have frame: "is_close_frame (SendNative data)" by (simp add: data_def effect_kinds EncodeFrame_def opcode_defs)
  from SendRaw_cases [OF d(1), of data] show ?thesis
  proof
    assume "SendRaw env data d = emit (SendNative data) d \<and> data \<noteq> [] \<and> hasTcp d"
    then have c': "c' = emit (SendNative data) d" by (simp add: c')
    show ?thesis
      unfolding c' using d frame by (auto simp: ws_inv_def ws_inv_parts effect_kinds)
  next
    assume "ws_ok d (SendRaw env data d)"
    then show ?thesis
      using d(5) by (auto simp: c' ws_ok_def intro: api_rel_trans ws_inv_closing ws_inv_Closing)
  qed
qed

lemma unsent: "ws_inv c \<Longrightarrow> \<not> closeSent c \<Longrightarrow> effects is_close_frame c = 0"
  by (auto simp: ws_inv_def ws_inv_parts)

lemma protocol_error_ok:
  assumes "ws_inv c" "handshakeComplete c"
  shows "ws_ok c (protocol_error env m c)"
proof -
  define c1 where "c1 = FireError env (''websocket: protocol error: '' @ m) c"
  have c1: "ws_ok c c1" unfolding c1_def by (rule FireError_ok [OF assms(1)])
  then have h: "handshakeComplete c1" "ws_inv c1" using assms by (auto simp: ws_ok_def api_rel_def)
  have eq: "protocol_error env m c = RequestClose env (if closeSent c1 then c1
      else SendFrame env kOpcodeClose (MakeClosePayload (of_nat kCloseProtocolError) []) (c1\<lparr>closeSent := True\<rparr>))"
    unfolding protocol_error_def c1_def Let_def ..
  show ?thesis
  proof (cases "closeSent c1")
    case True
    then show ?thesis
      unfolding eq using ws_ok_trans [OF c1 RequestClose_inv [OF h(2)]] by simp
  next
    case False
    define c2 where "c2 = SendFrame env kOpcodeClose (MakeClosePayload (of_nat kCloseProtocolError) []) (c1\<lparr>closeSent := True\<rparr>)"
    have "api_rel (c1\<lparr>closeSent := True\<rparr>) c2 \<and> ws_inv (c2\<lparr>ws_closing := True\<rparr>) \<and> (ws_closing c2 \<longrightarrow> ws_inv c2)"
      using SendFrame_close [of "c1\<lparr>closeSent := True\<rparr>"] unsent [OF h(2) False] h by (simp add: c2_def ws_inv_closeSent)
    then have "ws_ok c2 (RequestClose env c2)" and rel: "api_rel (c1\<lparr>closeSent := True\<rparr>) c2"
      by (auto intro: RequestClose_weak)
    moreover have "api_rel c (c1\<lparr>closeSent := True\<rparr>)" using c1 by (simp add: ws_ok_def api_rel_set)
    ultimately have "ws_ok c (RequestClose env c2)" by (auto simp: ws_ok_def intro: api_rel_trans)
    then show ?thesis unfolding eq using False by (simp add: c2_def)
  qed
qed

lemma close_frame_ok:
  assumes "ws_inv c" "handshakeComplete c"
  shows "ws_ok c (close_frame env payload c)"
proof -
  define c3 where "c3 =
    (let c1 = c\<lparr>hasCloseInfo := True, closeCode := kCloseAbnormal\<rparr>;
         c2 = (if 2 \<le> length payload then
                  (let c' = c1\<lparr>closeCode := unat (payload ! 0) * 256 + unat (payload ! 1)\<rparr> in
                   if 2 < length payload then c'\<lparr>closeReason := drop 2 payload\<rparr> else c')
                else c1)
     in c2\<lparr>closeReceived := True\<rparr>)"
  have c3: "ws_inv c3" "api_rel c c3" "handshakeComplete c3"
    using assms by (simp_all add: c3_def Let_def)
  define c4 where "c4 = (if closeSent c3 then c3
    else SendFrame env kOpcodeClose
      (MakeClosePayload (of_nat (if closeCode c3 = kCloseAbnormal then kCloseNormal else closeCode c3)) []) (c3\<lparr>closeSent := True\<rparr>))"
  define c5 where "c5 = (if ws_state c4 = Open then c4\<lparr>ws_state := Closing\<rparr> else c4)"
  have eq: "close_frame env payload c = RequestClose env c5"
    unfolding close_frame_def c5_def c4_def c3_def Let_def ..
  have c4: "api_rel c c4 \<and> ws_inv (c4\<lparr>ws_closing := True\<rparr>) \<and> ws_inv (c4\<lparr>ws_state := Closing\<rparr>) \<and> (ws_closing c4 \<longrightarrow> ws_inv c4)"
  proof (cases "closeSent c3")
    case True
    then show ?thesis using c3 by (simp add: c4_def ws_inv_closing ws_inv_Closing)
  next
    case False
    then have "api_rel (c3\<lparr>closeSent := True\<rparr>) c4 \<and> ws_inv (c4\<lparr>ws_closing := True\<rparr>) \<and> ws_inv (c4\<lparr>ws_state := Closing\<rparr>) \<and> (ws_closing c4 \<longrightarrow> ws_inv c4)"
      using SendFrame_close [of "c3\<lparr>closeSent := True\<rparr>"] unsent [OF c3(1) False] c3 by (simp add: c4_def ws_inv_closeSent)
    moreover have "api_rel c (c3\<lparr>closeSent := True\<rparr>)" using c3 by (simp add: api_rel_set)
    ultimately show ?thesis by (blast intro: api_rel_trans)
  qed
  have "ws_inv (c5\<lparr>ws_closing := True\<rparr>)" "ws_closing c5 \<longrightarrow> ws_inv c5" "api_rel c c5"
    using c4 by (auto simp: c5_def ws_inv_closing dest: ws_inv_closing)
  then show ?thesis unfolding eq using RequestClose_weak [of c5] by (auto simp: ws_ok_def intro: api_rel_trans)
qed

lemma deliver_ok:
  assumes "ws_inv c"
  shows "ws_inv (deliver env m c)" "api_rel (c\<lparr>ws_trace := ws_trace (deliver env m c)\<rparr>) (deliver env m c)"
    "messages (deliver env m c) = messages c @ (if shuttingDown c then [] else [m])"
  using luau_inv [of "emit (FireMessage m) c" "FireMessage m"] luau_rel [of "emit (FireMessage m) c" "FireMessage m"] assms
  by (auto simp: deliver_def run_luau_def api_rel_def messages_def)

text \<open>Every iteration keeps the invariant; one that goes on has consumed input.\<close>

lemma frame_step_ok:
  assumes "ws_inv c" "handshakeComplete c"
  shows "case frame_step env c of Return c' \<Rightarrow> ws_inv c'
    | Continue c' \<Rightarrow> ws_inv c' \<and> handshakeComplete c' \<and> length (recvBuf c') < length (recvBuf c)"
proof (cases "ReadFrame (recvBuf c)")
  case (Frame fin opcode masked maskKey raw rest)
  define d where "d = c\<lparr>recvBuf := rest\<rparr>"
  have d: "ws_inv d" "handshakeComplete d" "length (recvBuf d) < length (recvBuf c)"
    using assms ReadFrame_shrinks [OF Frame] by (simp_all add: d_def)
  have pe: "ws_inv (protocol_error env m d)" for m using protocol_error_ok [OF d(1,2)] by (simp add: ws_ok_def)
  have cf: "ws_inv (close_frame env p d)" for p using close_frame_ok [OF d(1,2)] by (simp add: ws_ok_def)
  have pong: "ws_inv (SendFrame env kOpcodePong p d) \<and> handshakeComplete (SendFrame env kOpcodePong p d) \<and>
      length (recvBuf (SendFrame env kOpcodePong p d)) < length (recvBuf c)" for p
    using SendFrame_ok [OF d(1), of kOpcodePong] d by (auto simp: ws_ok_def api_rel_def)
  have dl: "ws_inv (deliver env m e) \<and> handshakeComplete (deliver env m e) \<and> length (recvBuf (deliver env m e)) < length (recvBuf c)"
    if "ws_inv e" "handshakeComplete e" "recvBuf e = recvBuf d" for m e
    using deliver_ok [OF that(1), of m] that d by (auto simp: api_rel_def)
  show ?thesis
    unfolding frame_step_def Frame frame_result.case d_def [symmetric] Let_def
    using d pe cf pong dl
    by (auto simp: control_frame_def continuation_frame_def data_frame_def Let_def)
qed (use assms protocol_error_ok [OF assms] in \<open>auto simp: frame_step_def ws_ok_def\<close>)

lemma ParseFrames_ok:
  "ws_inv c \<Longrightarrow> handshakeComplete c \<Longrightarrow> \<exists>c'. ParseFrames env c = Some c' \<and> ws_inv c'"
proof (induction "length (recvBuf c)" arbitrary: c rule: less_induct)
  case less
  show ?case
  proof (cases "frame_step env c")
    case (Return c')
    then show ?thesis using frame_step_ok [OF less.prems] by (simp add: ParseFrames.simps [of env c])
  next
    case (Continue c')
    then have "ws_inv c'" "handshakeComplete c'" "length (recvBuf c') < length (recvBuf c)"
      using frame_step_ok [OF less.prems] by auto
    from less.hyps [OF this(3) this(1,2)] Continue show ?thesis by (simp add: ParseFrames.simps [of env c])
  qed
qed

lemma run_inv: "ws_inv c \<Longrightarrow> quiet e \<Longrightarrow> ws_inv (run_luau env e c)"
  by (simp add: run_luau_def luau_inv)

lemma ws_inv_open:
  assumes "ws_inv c" "effects is_close_frame c = 0"
  shows "ws_inv ((StopTimer (c\<lparr>handshakeComplete := True\<rparr>))\<lparr>opened := True, ws_state := Open\<rparr>)"
proof -
  have "effects P (StopTimer d) = effects P d + of_bool (timerInited d \<and> \<not> timerClosed d \<and> P UvTimerStop)" for P d
    by (simp add: StopTimer_def)
  moreover have "timerInited (StopTimer d) = timerInited d" "timerClosed (StopTimer d) = timerClosed d"
    "ws_closed (StopTimer d) = ws_closed d" "ws_closing (StopTimer d) = ws_closing d" "hasTcp (StopTimer d) = hasTcp d"
    "closeCount (StopTimer d) = closeCount d" "disconnectedFired (StopTimer d) = disconnectedFired d"
    "connectResumed (StopTimer d) = connectResumed d" "handshakeComplete (StopTimer d) = handshakeComplete d" for d
    by (simp_all add: StopTimer_def)
  ultimately show ?thesis using assms by (simp add: ws_inv_def ws_inv_parts effect_kinds)
qed

lemma no_close_frame: "ws_inv c \<Longrightarrow> \<not> handshakeComplete c \<Longrightarrow> effects is_close_frame c = 0"
  by (auto simp: ws_inv_def ws_inv_parts)

lemma DoServerHandshake_inv:
  assumes "ws_inv c" "\<not> handshakeComplete c"
  shows "ws_inv (DoServerHandshake env b c)"
proof (cases "ServerHandshake b")
  case MalformedRequest
  then show ?thesis
    using assms FireError_ok [OF assms(1)] RequestClose_inv by (auto simp: DoServerHandshake_def ws_ok_def)
next
  case (BadRequest resp)
  define c1 where "c1 = SendRaw env (bytes_of resp) c"
  have "ws_inv c1" using SendRaw_ok [OF assms(1)] ServerHandshake_texts(1) [OF BadRequest] by (simp add: c1_def ws_ok_def)
  then show ?thesis
    using FireError_ok [of c1] RequestClose_inv BadRequest by (auto simp: DoServerHandshake_def ws_ok_def c1_def [symmetric] Let_def)
next
  case (Switching resp)
  define c1 where "c1 = SendRaw env (bytes_of resp) c"
  have "ws_ok c c1" using SendRaw_ok [OF assms(1)] ServerHandshake_texts(2) [OF Switching] by (auto simp: c1_def)
  then have "ws_inv c1" "\<not> handshakeComplete c1" using assms by (auto simp: ws_ok_def api_rel_def)
  then have "ws_inv ((StopTimer (c1\<lparr>handshakeComplete := True\<rparr>))\<lparr>opened := True, ws_state := Open\<rparr>)"
    by (intro ws_inv_open no_close_frame)
  then show ?thesis by (simp add: DoServerHandshake_def Switching c1_def [symmetric] Let_def run_inv)
qed

lemma DoClientHandshake_inv:
  assumes "ws_inv c" "\<not> handshakeComplete c"
  shows "ws_inv (DoClientHandshake env b c)"
proof (cases "ClientHandshake (sentKey c) b")
  case (ConnectFailed m)
  then show ?thesis using FailConnect_inv [OF assms(1)] by (simp add: DoClientHandshake_def ws_ok_def)
next
  case Connected
  define c1 where "c1 = (StopTimer (c\<lparr>handshakeComplete := True\<rparr>))\<lparr>opened := True, ws_state := Open\<rparr>"
  define c2 where "c2 = (if \<not> shuttingDown c1 then run_luau env FireConnected c1 else c1)"
  have "ws_inv c1" unfolding c1_def by (intro ws_inv_open no_close_frame assms)
  then have "ws_inv c2" by (simp add: c2_def run_inv)
  then have "ws_inv (if \<not> connectResumed c2 \<and> connectCo c2 then NotifyConnectOk env (c2\<lparr>connectResumed := True\<rparr>) else c2)"
    using Notify_ok(2) [of c2] by (auto simp: ws_ok_def)
  then show ?thesis unfolding DoClientHandshake_def Connected client_result.case Let_def c1_def [symmetric] c2_def [symmetric] .
qed

lemma RequestClose_closing: "ws_inv c \<Longrightarrow> ws_closing (RequestClose env c) \<and> ws_closing (FailConnect env m c)"
  using FailConnect_ok [OF ws_inv_closing] unfolding RequestClose_eq by (cases "ws_closing c") (auto simp: FailConnect_def)

lemma handshake_complete:
  assumes "ws_inv c" "\<not> handshakeComplete c" "c' = DoServerHandshake env b c \<or> c' = DoClientHandshake env b c" "\<not> ws_closing c'"
  shows "handshakeComplete c'"
proof -
  have srv: "handshakeComplete (DoServerHandshake env b c) \<or> ws_closing (DoServerHandshake env b c)"
  proof (cases "ServerHandshake b")
    case MalformedRequest
    have "ws_inv (if \<not> ws_closed c \<and> \<not> ws_closing c then FireError env m c else c)" for m
      using FireError_ok [OF assms(1)] assms(1) by (simp add: ws_ok_def)
    then show ?thesis using RequestClose_closing by (simp add: DoServerHandshake_def MalformedRequest)
  next
    case (BadRequest resp)
    have c1: "ws_inv (SendRaw env (bytes_of resp) c)"
      using SendRaw_ok [OF assms(1)] ServerHandshake_texts(1) [OF BadRequest] by (simp add: ws_ok_def)
    then have "ws_inv (if \<not> ws_closed (SendRaw env (bytes_of resp) c) \<and> \<not> ws_closing (SendRaw env (bytes_of resp) c)
        then FireError env m (SendRaw env (bytes_of resp) c) else SendRaw env (bytes_of resp) c)" for m
      using FireError_ok [OF c1] by (simp add: ws_ok_def)
    then show ?thesis using RequestClose_closing by (simp add: DoServerHandshake_def BadRequest Let_def)
  next
    case (Switching resp)
    define c1 where "c1 = SendRaw env (bytes_of resp) c"
    define c2 where "c2 = (StopTimer (c1\<lparr>handshakeComplete := True\<rparr>))\<lparr>opened := True, ws_state := Open\<rparr>"
    have "ws_ok c c1" using SendRaw_ok [OF assms(1)] ServerHandshake_texts(2) [OF Switching] by (auto simp: c1_def)
    then have "ws_inv c2" unfolding c2_def using assms by (intro ws_inv_open no_close_frame) (auto simp: ws_ok_def api_rel_def)
    moreover have "handshakeComplete c2" by (simp add: c2_def StopTimer_def)
    ultimately have "handshakeComplete (run_luau env FireClientConnected c2)" "handshakeComplete c2"
      using run_ok [of FireClientConnected c2] by (auto simp: ws_ok_def api_rel_def)
    then show ?thesis by (simp add: DoServerHandshake_def Switching c1_def [symmetric] c2_def [symmetric] Let_def)
  qed
  have "handshakeComplete (DoClientHandshake env b c) \<or> ws_closing (DoClientHandshake env b c)"
  proof (cases "ClientHandshake (sentKey c) b")
    case (ConnectFailed m)
    then show ?thesis using RequestClose_closing [OF assms(1)] by (simp add: DoClientHandshake_def)
  next
    case Connected
    define c1 where "c1 = (StopTimer (c\<lparr>handshakeComplete := True\<rparr>))\<lparr>opened := True, ws_state := Open\<rparr>"
    define c2 where "c2 = (if \<not> shuttingDown c1 then run_luau env FireConnected c1 else c1)"
    have "ws_inv c1" unfolding c1_def by (intro ws_inv_open no_close_frame assms)
    then have "ws_ok c1 c2" by (simp add: c2_def run_ok ws_ok_def [of c1 c1])
    then have "handshakeComplete c2" "ws_inv c2" by (auto simp: ws_ok_def api_rel_def c1_def StopTimer_def)
    then have "handshakeComplete (if \<not> connectResumed c2 \<and> connectCo c2 then NotifyConnectOk env (c2\<lparr>connectResumed := True\<rparr>) else c2)"
      using Notify_ok(2) [of c2] by (auto simp: ws_ok_def api_rel_def)
    then show ?thesis
      unfolding DoClientHandshake_def Connected client_result.case Let_def c1_def [symmetric] c2_def [symmetric] ..
  qed
  with srv assms show ?thesis by blast
qed

lemma OnTcpMessage_ok:
  assumes "ws_inv c"
  shows "\<exists>c'. OnTcpMessage env data c = Some c' \<and> ws_inv c'"
proof -
  define d where "d = c\<lparr>recvBuf := recvBuf c @ data\<rparr>"
  have d: "ws_inv d" using assms by (simp add: d_def)
  have "\<exists>c'. ProcessData env d = Some c' \<and> ws_inv c'"
  proof (cases "handshakeComplete d")
    case True
    then show ?thesis using ParseFrames_ok [OF d] by (simp add: ProcessData_def)
  next
    case False
    show ?thesis
    proof (cases "find_sub (bytes_of kTerminator) (recvBuf d)")
      case None
      then show ?thesis using d False by (simp add: ProcessData_def)
    next
      case (Some i)
      define hb where "hb = string_of (take (i + length kTerminator) (recvBuf d))"
      define c1 where "c1 = d\<lparr>recvBuf := drop (i + length kTerminator) (recvBuf d)\<rparr>"
      define c2 where "c2 = (if serverSide c1 then DoServerHandshake env hb c1 else DoClientHandshake env hb c1)"
      have c1: "ws_inv c1" "\<not> handshakeComplete c1" using d False by (simp_all add: c1_def)
      then have c2: "ws_inv c2" by (simp add: c2_def DoServerHandshake_inv DoClientHandshake_inv)
      have eq: "ProcessData env d = (if ws_closed c2 \<or> ws_closing c2 then Some c2 else ParseFrames env c2)"
        using False Some by (simp add: ProcessData_def Let_def c2_def c1_def hb_def)
      show ?thesis
      proof (cases "ws_closed c2 \<or> ws_closing c2")
        case False
        then have "handshakeComplete c2" using handshake_complete [OF c1, of c2 hb] by (auto simp: c2_def)
        then show ?thesis using ParseFrames_ok [OF c2] False by (simp add: eq)
      qed (use c2 eq in simp)
    qed
  qed
  then show ?thesis using assms by (simp add: OnTcpMessage_def d_def)
qed

lemma OnTcpConnected_ok:
  assumes "ws_inv c"
  shows "ws_ok c (OnTcpConnected env l r c)"
proof -
  define c1 where "c1 = UpdateAddresses l r c"
  define c2 where "c2 = c1\<lparr>rng := snd (WsRng_Fill (rng c1) 16), sentKey := Base64Encode (fst (WsRng_Fill (rng c1) 16))\<rparr>"
  have c1: "ws_ok c c1" using assms by (simp add: c1_def UpdateAddresses_def ws_ok_def)
  then have c2: "ws_ok c c2" by (simp add: c2_def ws_ok_def)
  have "ws_ok c2 (SendRaw env (bytes_of (HandshakeRequest u k h)) c2)" for u k h
    using c2 by (intro SendRaw_ok) (simp_all add: ws_ok_def)
  then have "ws_ok c (SendRaw env (bytes_of (HandshakeRequest u k h)) c2)" for u k h using c2 ws_ok_trans by blast
  then show ?thesis
    using c1 assms by (auto simp: OnTcpConnected_def c1_def [symmetric] c2_def Let_def ws_ok_def split: prod.splits)
qed

lemma OnTcpDisconnected_ok: "ws_inv c \<Longrightarrow> ws_ok c (OnTcpDisconnected env c)"
proof -
  assume c: "ws_inv c"
  let ?d = "c\<lparr>hasCloseInfo := True, closeCode := kCloseAbnormal, closeReason := []\<rparr>"
  have "ws_ok c ?d" using c by (simp add: ws_ok_def)
  moreover have "ws_ok ?d (RequestClose env ?d)" using c by (intro RequestClose_inv) simp
  ultimately show ?thesis using RequestClose_inv [OF c] ws_ok_trans by (auto simp: OnTcpDisconnected_def)
qed

lemma connect_begin_ok:
  assumes "ws_inv c" "\<not> ws_closing c"
  shows "ws_ok c (snd (connect_begin env u n c))"
proof -
  define c1 where "c1 = c\<lparr>parsedUrl := u, connectTimeoutMs := n, connectPending := True, connectCo := True\<rparr>"
  define c2 where "c2 = (if 0 < connectTimeoutMs c1 then StartTimer env (connectTimeoutMs c1) TM_Connect c1 else c1)"
  define c3 where "c3 = emit (ConnectNative (url_connectHost u) (url_port u) n) (c2\<lparr>hasTcp := True\<rparr>)"
  have c1: "ws_ok c c1" "\<not> ws_closing c1" using assms by (simp_all add: c1_def ws_ok_def)
  have "ws_ok c1 c2" using c1 StartTimer_ok by (simp add: c2_def ws_ok_def)
  with c1 have c2: "ws_ok c c2" by (blast intro: ws_ok_trans)
  have "\<not> ws_closing c2" using c1 by (auto simp: c2_def StartTimer_def)
  with c2 have "ws_inv (c2\<lparr>hasTcp := True\<rparr>)" by (auto simp: ws_ok_def ws_inv_def ws_inv_parts)
  with c2 have c3: "ws_ok c c3" by (simp add: c3_def ws_ok_def)
  with OnTcpError_ok [of c3] have "ws_ok c (OnTcpError env m c3)" for m by (blast intro: ws_ok_trans dest: ws_ok_def [THEN iffD1])
  moreover have "ws_ok c (c3\<lparr>connectPending := False, connectCo := False\<rparr>)" using c3 by (simp add: ws_ok_def)
  ultimately show ?thesis
    using c3 unfolding connect_begin_def Let_def c1_def [symmetric] c2_def [symmetric] c3_def [symmetric]
    by (auto split: connect_result.split)
qed

lemma connect_headers_ok: "ws_inv c \<Longrightarrow> ws_ok c (snd (connect_headers opts c)) \<and> ws_closing (snd (connect_headers opts c)) = ws_closing c"
  by (auto simp: connect_headers_def ws_ok_def split: lvalue.split prod.split)

lemma MethodConnect_ok:
  assumes "ws_inv c"
  shows "ws_ok c (snd (MethodConnect env args c))"
proof (cases "ws_closing c")
  case False
  obtain e c1 where h: "connect_headers (arg args 2) c = (e, c1)" by fastforce
  then have c1: "ws_ok c c1" "\<not> ws_closing c1" using connect_headers_ok [OF assms, of "arg args 2"] False by auto
  then have "ws_ok c1 (snd (connect_begin env u n c1))" for u n by (intro connect_begin_ok) (simp_all add: ws_ok_def)
  then have "ws_ok c (snd (connect_begin env u n c1))" for u n using c1 ws_ok_trans by blast
  moreover have "ws_ok c c" using assms by (simp add: ws_ok_def)
  ultimately show ?thesis
    using c1 by (auto simp: MethodConnect_def h Let_def split: lvalue.split sum.split option.split)
qed (use assms in \<open>simp add: MethodConnect_def ws_ok_def\<close>)

lemma MethodClose_ok:
  assumes "ws_inv c"
  shows "ws_ok c (snd (MethodClose env args c))"
proof -
  have self: "ws_ok c c" using assms by (simp add: ws_ok_def)
  have "ws_ok c (StartTimer env n t ((SendFrame env kOpcodeClose p (c\<lparr>closeSent := True\<rparr>))\<lparr>ws_state := Closing\<rparr>))"
    if "ws_state c = Open" "\<not> ws_closing c" for n t p
  proof -
    define d where "d = (SendFrame env kOpcodeClose p (c\<lparr>closeSent := True\<rparr>))\<lparr>ws_state := Closing\<rparr>"
    have pre: "effects is_close_frame c = 0" "handshakeComplete c"
      using assms that by (auto simp: ws_inv_def ws_inv_parts)
    have "api_rel (c\<lparr>closeSent := True\<rparr>) d \<and> ws_inv d"
      using SendFrame_close [of "c\<lparr>closeSent := True\<rparr>" p] assms pre by (simp add: d_def ws_inv_closeSent)
    moreover have "api_rel c (c\<lparr>closeSent := True\<rparr>)" by (simp add: api_rel_set)
    ultimately have "ws_ok c d" by (auto simp: ws_ok_def intro: api_rel_trans)
    moreover from this have "ws_ok d (StartTimer env n t d)" by (intro StartTimer_ok) (simp add: ws_ok_def)
    ultimately show ?thesis unfolding d_def by (blast intro: ws_ok_trans)
  qed
  then show ?thesis
    using self RequestClose_inv [OF assms] by (auto simp: MethodClose_def Let_def split: sum.split)
qed

lemma ClientMethods_ok:
  assumes "ws_inv c"
  shows "ws_ok c (snd (ClientMethods env call c))"
proof -
  have self: "ws_ok c c" using assms by (simp add: ws_ok_def)
  have frames: "ws_ok c (SendFrame env kOpcodeText p c)" "ws_ok c (SendFrame env kOpcodeBinary p c)"
    "ws_ok c (SendFrame env kOpcodePing p c)" for p
    by (simp_all add: SendFrame_ok assms)
  show ?thesis
    using self frames MethodConnect_ok [OF assms] MethodClose_ok [OF assms] RequestClose_inv [OF assms]
    by (auto simp: ClientMethods_def MethodSend_def MethodPing_def Let_def split: api_call.split lvalue.split option.split)
qed

lemma Shutdown_inv: "ws_inv c \<Longrightarrow> ws_inv (Shutdown env c)"
  using RequestClose_inv [of "c\<lparr>shuttingDown := True\<rparr>"] by (simp add: Shutdown_def ws_ok_def)

lemma ws_handle_ok:
  assumes "ws_inv c" "ws_enabled ev c"
  shows "\<exists>c'. ws_handle env ev c = Some c' \<and> ws_inv c'"
proof (cases ev)
  case EvHandleClosed
  then have "0 < closeCount c" using assms by (cases "timerClosed c") (auto simp: ws_enabled_def ws_inv_def uv_inv_def)
  then show ?thesis using OnHandleClosed_ok [OF assms(1)] EvHandleClosed by (simp add: ws_handle_def ws_ok_def)
qed (use assms OnTcpMessage_ok OnTcpConnected_ok OnTcpError_ok OnTcpDisconnected_ok OnTimer_ok ClientMethods_ok Shutdown_inv
     in \<open>auto simp: ws_handle_def ws_ok_def\<close>)

lemma ws_reach_inv: "ws_reach env c \<Longrightarrow> ws_inv c"
proof (induction rule: ws_reach.induct)
  case (step c ev c')
  then show ?case using ws_handle_ok [of c ev] by auto
qed (rule ws_inv_new)

end

section \<open>Luau handlers\<close>

text \<open>Luau code reaches the object only through its methods. \<open>scripted n script base\<close> is the
  environment in which an effect runs the calls that \<open>script\<close> gives for it, and handlers that run
  inside these calls nest to depth \<open>n\<close>; writes, connections and timers are those of \<open>base\<close>.\<close>

primrec scripted :: "nat \<Rightarrow> (ws_effect \<Rightarrow> WsClient \<Rightarrow> api_call list) \<Rightarrow> ws_env \<Rightarrow> ws_env" where
  "scripted 0 script base = base\<lparr>luau := \<lambda>e c. c\<rparr>"
| "scripted (Suc n) script base =
     base\<lparr>luau := \<lambda>e c. fold (\<lambda>call d. snd (ClientMethods (scripted n script base) call d)) (script e c) c\<rparr>"

lemma luau_code_scripted: "luau_code (scripted n script base)"
proof (induction n)
  case 0
  show ?case by unfold_locales simp_all
next
  case (Suc n)
  have "ws_inv c \<Longrightarrow> ws_ok c (fold (\<lambda>call d. snd (ClientMethods (scripted n script base) call d)) calls c)" for calls c
  proof (induction calls arbitrary: c)
    case (Cons call calls)
    from luau_code.ClientMethods_ok [OF Suc Cons.prems]
    have ok: "ws_ok c (snd (ClientMethods (scripted n script base) call c))" .
    then have "ws_inv (snd (ClientMethods (scripted n script base) call c))" by (simp add: ws_ok_def)
    from ws_ok_trans [OF ok Cons.IH [OF this]] show ?case by simp
  qed (simp add: ws_ok_def)
  then show ?case by unfold_locales (auto simp: ws_ok_def)
qed

interpretation handlers: luau_code "scripted n script base" for n script base
  by (rule luau_code_scripted)

end
