(* ===== verification/Lode_WsStream.thy ===== *)
theory Lode_WsStream
  imports Lode_WsClient
begin

text \<open>
  What a peer of the websocket module gets to see: a sequence of frames, written with
  \<open>EncodeFrame\<close> and delivered by TCP in pieces cut anywhere, becomes the sequence of messages an
  abstract reassembly of the frames gives. The pieces may cut headers and payloads, frames may be
  fragmented, and pings and pongs may come between the fragments.
\<close>

section \<open>Frames and their reassembly\<close>

text \<open>A frame as the sender means it: mask key, \<open>FIN\<close> bit, opcode and payload.\<close>

type_synonym frame = "u32 \<times> bool \<times> u8 \<times> bytes"

definition encode :: "bool \<Rightarrow> frame \<Rightarrow> bytes" where
  "encode masked f = (case f of (key, fin, opcode, payload) \<Rightarrow> EncodeFrame opcode payload fin masked key)"

definition wire :: "bool \<Rightarrow> frame list \<Rightarrow> bytes" where
  "wire masked fs = concat (map (encode masked) fs)"

text \<open>The messages of a sequence of frames and the message in progress at its end, starting with the
  message in progress \<open>st\<close>; \<^const>\<open>None\<close> where the sequence breaks the protocol or closes.\<close>

fun reassemble :: "bytes option \<Rightarrow> frame list \<Rightarrow> (bytes list \<times> bytes option) option" where
  "reassemble st [] = Some ([], st)"
| "reassemble st ((key, fin, opcode, p) # fs) =
     (if opcode = kOpcodePing \<or> opcode = kOpcodePong then
        (if fin \<and> length p \<le> 125 then reassemble st fs else None)
      else if opcode = kOpcodeContinuation then
        (case st of None \<Rightarrow> None
         | Some b \<Rightarrow> if fin then map_option (map_prod ((#) (b @ p)) id) (reassemble None fs)
                     else reassemble (Some (b @ p)) fs)
      else if opcode = kOpcodeText \<or> opcode = kOpcodeBinary then
        (case st of Some b \<Rightarrow> None
         | None \<Rightarrow> if fin then map_option (map_prod ((#) p) id) (reassemble None fs) else reassemble (Some p) fs)
      else None)"

definition frag :: "WsClient \<Rightarrow> bytes option" where
  "frag c = (if fragmentInProgress c then Some (fragmentBuf c) else None)"

text \<open>Feeding the pieces one after the other to the TCP callback.\<close>

fun feed_chunks :: "ws_env \<Rightarrow> bytes list \<Rightarrow> WsClient \<Rightarrow> WsClient option" where
  "feed_chunks env [] c = Some c"
| "feed_chunks env (ch # chs) c = (case OnTcpMessage env ch c of None \<Rightarrow> None | Some c' \<Rightarrow> feed_chunks env chs c')"

section \<open>A connection that stays open\<close>

text \<open>Handlers that do not close the object, and writes the TCP client does not refuse.\<close>

definition calm :: "ws_env \<Rightarrow> bool" where
  "calm env \<longleftrightarrow> (\<forall>e c. ws_inv c \<longrightarrow> ws_closing (luau env e c) \<longrightarrow> ws_closing c) \<and>
     (\<forall>c d m. write_status env c d \<noteq> WriteFailed m)"

definition receiving :: "WsClient \<Rightarrow> bool" where
  "receiving c \<longleftrightarrow> ws_inv c \<and> handshakeComplete c \<and> \<not> ws_closing c \<and> \<not> ws_closed c \<and> \<not> shuttingDown c"

lemma ReadFrame_stuck_append:
  assumes "ReadFrame buf = ReservedBits \<or> ReadFrame buf = BadRange" "length (buf @ ys) < 2 ^ 64"
  shows "\<forall>fin op m k raw rest. ReadFrame (buf @ ys) \<noteq> Frame fin op m k raw rest"
proof (intro allI notI)
  fix fin op m k raw rest
  assume "ReadFrame (buf @ ys) = Frame fin op m k raw rest"
  then obtain n h h' total where f:
    "2 \<le> length (buf @ ys)" "(buf @ ys) ! 0 AND 0x70 = 0" "ReadFrame_length (buf @ ys) (ucast ((buf @ ys) ! 1 AND 0x7F)) = Some (n, h)"
    "ReadFrame_mask (buf @ ys) m h = Some (k, h')" "total = (of_nat h' :: size_t) + n"
    "h' \<le> unat total" "m = ((buf @ ys) ! 1 AND 0x80 \<noteq> 0)"
    by (rule ReadFrame_FrameD)
  have two: "2 \<le> length buf" using assms(1) by (auto simp: ReadFrame_def split: if_splits)
  then have nth: "(buf @ ys) ! 0 = buf ! 0" "(buf @ ys) ! 1 = buf ! 1" by (auto simp: nth_append)
  with f have bad: "ReadFrame buf = BadRange" using assms(1) two by (auto simp: ReadFrame_def Let_def split: option.splits prod.splits if_splits)
  then obtain n' l where len: "ReadFrame_length buf (ucast (buf ! 1 AND 0x7F)) = Some (n', l)"
    using two f(2) nth by (cases "ReadFrame_length buf (ucast (buf ! 1 AND 0x7F))") (auto simp: ReadFrame_def)
  with ReadFrame_length_append [OF len, of ys] f(3) nth have eq: "n' = n" "l = h" by simp_all
  from bad two f(2) nth len obtain k' l' where mask: "ReadFrame_mask buf (buf ! 1 AND 0x80 \<noteq> 0) l = Some (k', l')"
    by (cases "ReadFrame_mask buf (buf ! 1 AND 0x80 \<noteq> 0) l") (auto simp: ReadFrame_def)
  with ReadFrame_mask_append [OF mask, of ys] f(4,7) nth eq have "k' = k" "l' = h'" by simp_all
  with bad two f nth len mask eq show False
    by (auto simp: ReadFrame_def Let_def split: if_splits)
qed

context luau_code
begin

lemma calm_deliver:
  assumes "calm env" "receiving c"
  shows "receiving (deliver env m c) \<and> recvBuf (deliver env m c) = recvBuf c \<and> frag (deliver env m c) = frag c \<and>
    serverSide (deliver env m c) = serverSide c \<and> messages (deliver env m c) = messages c @ [m]"
proof -
  have inv: "ws_inv c" using assms by (simp add: receiving_def)
  have "ws_inv (emit (FireMessage m) c)" using inv by simp
  with assms(1) have "ws_closing (luau env (FireMessage m) (emit (FireMessage m) c)) \<longrightarrow> ws_closing (emit (FireMessage m) c)"
    unfolding calm_def by blast
  then have "\<not> ws_closing (deliver env m c)" using assms(2) by (simp add: deliver_def run_luau_def receiving_def)
  then show ?thesis
    using deliver_ok [OF inv, of m] assms(2) by (auto simp: receiving_def api_rel_def frag_def ws_inv_def uv_inv_def)
qed

lemma calm_pong:
  assumes "calm env" "receiving c"
  shows "receiving (SendFrame env kOpcodePong p c) \<and> recvBuf (SendFrame env kOpcodePong p c) = recvBuf c \<and>
    frag (SendFrame env kOpcodePong p c) = frag c \<and> serverSide (SendFrame env kOpcodePong p c) = serverSide c \<and>
    messages (SendFrame env kOpcodePong p c) = messages c"
proof -
  have inv: "ws_inv c" using assms by (simp add: receiving_def)
  have "\<not> ws_closing (SendFrame env kOpcodePong p c)"
    using assms by (auto simp: SendFrame_def SendRaw_def calm_def receiving_def Let_def split: write_result.split)
  then show ?thesis
    using SendFrame_ok [OF inv, of kOpcodePong p] assms(2)
    by (auto simp: receiving_def ws_ok_def api_rel_def frag_def ws_inv_def uv_inv_def)
qed

text \<open>One frame at the front of the buffer, given by what \<open>ReadFrame\<close> finds.\<close>

lemma frame_step_frame:
  assumes calm: "calm env" and rcv: "receiving c"
    and read: "ReadFrame (recvBuf c) = Frame fin opcode (serverSide c) key raw rest"
    and spec: "reassemble (frag c) ((k, fin, opcode, if serverSide c then mask_payload key raw else raw) # fs) = Some (msgs, st)"
  shows "\<exists>c' m1 m2. frame_step env c = Continue c' \<and> receiving c' \<and> recvBuf c' = rest \<and> serverSide c' = serverSide c \<and>
    reassemble (frag c') fs = Some (m2, st) \<and> messages c' = messages c @ m1 \<and> msgs = m1 @ m2"
proof -
  define p where "p = (if serverSide c then mask_payload key raw else raw)"
  define d where "d = c\<lparr>recvBuf := rest\<rparr>"
  have d: "receiving d" "recvBuf d = rest" "serverSide d = serverSide c" "messages d = messages c" "frag d = frag c"
    "fragmentInProgress d = fragmentInProgress c"
    using rcv by (simp_all add: d_def receiving_def frag_def)
  note spec = spec [folded p_def]
  have step: "frame_step env c =
     (if opcode = kOpcodePing \<or> opcode = kOpcodePong \<or> opcode = kOpcodeClose then control_frame env fin opcode p d
      else if opcode = kOpcodeContinuation then continuation_frame env fin p d
      else data_frame env fin opcode p d)"
    unfolding frame_step_def read frame_result.case Let_def d_def [symmetric] p_def using d(3) by simp
  consider (ping) "opcode = kOpcodePing" "fin" "length p \<le> 125"
    | (pong) "opcode = kOpcodePong" "fin" "length p \<le> 125"
    | (cont) b where "opcode = kOpcodeContinuation" "frag c = Some b"
    | (data) "opcode = kOpcodeText \<or> opcode = kOpcodeBinary" "frag c = None"
    using spec by (auto split: if_splits option.splits)
  then show ?thesis
  proof cases
    case ping
    then have "frame_step env c = Continue (SendFrame env kOpcodePong p d)"
      by (simp add: step control_frame_def)
    moreover have "reassemble (frag c) fs = Some (msgs, st)" using spec ping by simp
    ultimately show ?thesis using calm_pong [OF calm d(1), of p] d by auto
  next
    case pong
    then have "frame_step env c = Continue d" by (simp add: step control_frame_def opcode_defs)
    moreover have "reassemble (frag c) fs = Some (msgs, st)" using spec pong by (simp add: opcode_defs)
    ultimately show ?thesis using d by auto
  next
    case cont
    define e where "e = d\<lparr>fragmentBuf := [], fragmentInProgress := False, fragmentOpcode := 0\<rparr>"
    have e: "receiving e" "recvBuf e = rest" "serverSide e = serverSide c" "messages e = messages c" "frag e = None"
      using d by (simp_all add: e_def receiving_def frag_def)
    have prog: "fragmentInProgress d" "fragmentBuf d = b" using cont(2) d by (auto simp: frag_def d_def split: if_splits)
    show ?thesis
    proof (cases fin)
      case True
      then have "frame_step env c = Continue (deliver env (b @ p) e)"
        using cont prog by (simp add: step continuation_frame_def e_def opcode_defs)
      moreover obtain ms where "reassemble None fs = Some (ms, st)" "msgs = (b @ p) # ms"
        using spec cont True by (auto simp: opcode_defs)
      ultimately show ?thesis using calm_deliver [OF calm e(1), of "b @ p"] e by auto
    next
      case False
      then have "frame_step env c = Continue (d\<lparr>fragmentBuf := b @ p\<rparr>)"
        using cont prog by (simp add: step continuation_frame_def opcode_defs)
      moreover have "reassemble (Some (b @ p)) fs = Some (msgs, st)" using spec cont False by (simp add: opcode_defs)
      moreover have "frag (d\<lparr>fragmentBuf := b @ p\<rparr>) = Some (b @ p)" using prog by (simp add: frag_def)
      ultimately show ?thesis using d by (auto simp: receiving_def)
    qed
  next
    case data
    then have idle: "\<not> fragmentInProgress d" using d by (auto simp: frag_def split: if_splits)
    show ?thesis
    proof (cases fin)
      case True
      then have "frame_step env c = Continue (deliver env p d)"
        using data idle by (auto simp: step data_frame_def opcode_defs)
      moreover obtain ms where "reassemble None fs = Some (ms, st)" "msgs = p # ms"
        using spec data True by (auto simp: opcode_defs)
      ultimately show ?thesis using calm_deliver [OF calm d(1), of p] d data by auto
    next
      case False
      define e where "e = d\<lparr>fragmentOpcode := opcode, fragmentInProgress := True, fragmentBuf := p\<rparr>"
      have "frame_step env c = Continue e"
        using data idle False by (auto simp: step data_frame_def opcode_defs e_def)
      moreover have "reassemble (Some p) fs = Some (msgs, st)" using spec data False by (auto simp: opcode_defs)
      moreover have "frag e = Some p" "receiving e" "recvBuf e = rest" "messages e = messages c" "serverSide e = serverSide c"
        using d by (simp_all add: e_def frag_def receiving_def)
      ultimately show ?thesis by auto
    qed
  qed
qed

lemma reassemble_opcode:
  "reassemble st ((k, fin, opcode, p) # fs) = Some x \<Longrightarrow> opcode AND 0x0F = opcode"
  by (auto simp: opcode_defs split: if_splits)

text \<open>The buffer is the front of the encoded frames: the parser consumes complete frames in order and
  stops inside the next one.\<close>

lemma ParseFrames_prefix:
  assumes "calm env" "receiving c" "recvBuf c @ rest = wire (serverSide c) fs"
    "length (wire (serverSide c) fs) + 14 < 2 ^ 64" "reassemble (frag c) fs = Some (msgs, st)"
  shows "\<exists>c' fs2 m1 m2. ParseFrames env c = Some c' \<and> receiving c' \<and> serverSide c' = serverSide c \<and>
    recvBuf c' @ rest = wire (serverSide c) fs2 \<and> length (wire (serverSide c) fs2) \<le> length (wire (serverSide c) fs) \<and>
    reassemble (frag c') fs2 = Some (m2, st) \<and> messages c' = messages c @ m1 \<and> msgs = m1 @ m2 \<and>
    ReadFrame (recvBuf c') = NeedMore"
  using assms
proof (induction fs arbitrary: c msgs)
  case Nil
  then have "recvBuf c = []" by (simp add: wire_def)
  then have "ReadFrame (recvBuf c) = NeedMore" by (simp add: ReadFrame_def)
  then have "ParseFrames env c = Some c" by (simp add: ParseFrames.simps [of env c] frame_step_def)
  then show ?case using Nil \<open>ReadFrame (recvBuf c) = NeedMore\<close> by (intro exI [of _ c] exI [of _ "[]"]) auto
next
  case (Cons f fs)
  obtain k fin opcode p where f: "f = (k, fin, opcode, p)" by (cases f) auto
  let ?m = "serverSide c"
  have w: "wire ?m (f # fs) = EncodeFrame opcode p fin ?m k @ wire ?m fs" by (simp add: wire_def encode_def f)
  have small: "length p + length (wire ?m fs) + 14 < 2 ^ 64"
    using Cons.prems(4) by (simp add: w EncodeFrame_def EncodeFrame_body_def split: if_splits)
  have op: "opcode AND 0x0F = opcode" using Cons.prems(5) unfolding f by (rule reassemble_opcode)
  have whole: "ReadFrame (recvBuf c @ rest) =
      Frame fin opcode ?m (if ?m then k else 0) (if ?m then mask_payload k p else p) (wire ?m fs)"
    using ReadFrame_EncodeFrame [OF small, of opcode fin ?m k] Cons.prems(3) w op by simp
  have len: "length (recvBuf c @ rest) < 2 ^ 64" using Cons.prems(3,4) by simp
  show ?case
  proof (cases "ReadFrame (recvBuf c)")
    case NeedMore
    then have "ParseFrames env c = Some c" by (simp add: ParseFrames.simps [of env c] frame_step_def)
    then show ?thesis using Cons.prems NeedMore by (intro exI [of _ c] exI [of _ "f # fs"] exI [of _ "[]"] exI [of _ msgs]) simp
  next
    case ReservedBits
    then show ?thesis using ReadFrame_stuck_append [of "recvBuf c" rest] len whole by blast
  next
    case BadRange
    then show ?thesis using ReadFrame_stuck_append [of "recvBuf c" rest] len whole by blast
  next
    case (Frame fin' op' m' key raw r)
    from ReadFrame_append [OF Frame len] whole have eqs: "fin' = fin" "op' = opcode" "m' = ?m" "key = (if ?m then k else 0)"
      "raw = (if ?m then mask_payload k p else p)" "r @ rest = wire ?m fs" by auto
    have "p = (if ?m then mask_payload key raw else raw)" using eqs by (simp add: mask_mask)
    with Cons.prems(5) have spec: "reassemble (frag c) ((k, fin, opcode, if ?m then mask_payload key raw else raw) # fs) = Some (msgs, st)"
      by (simp add: f)
    from frame_step_frame [OF Cons.prems(1,2) Frame [unfolded eqs(1-3)] spec] obtain c1 m1 m2 where c1:
      "frame_step env c = Continue c1" "receiving c1" "recvBuf c1 = r" "serverSide c1 = ?m"
      "reassemble (frag c1) fs = Some (m2, st)" "messages c1 = messages c @ m1" "msgs = m1 @ m2" by blast
    have "recvBuf c1 @ rest = wire (serverSide c1) fs" "length (wire (serverSide c1) fs) + 14 < 2 ^ 64"
      using c1 eqs small by simp_all
    from Cons.IH [OF Cons.prems(1) c1(2) this c1(5)] obtain c' fs2 n1 n2 where IH:
      "ParseFrames env c1 = Some c'" "receiving c'" "serverSide c' = ?m" "recvBuf c' @ rest = wire ?m fs2"
      "length (wire ?m fs2) \<le> length (wire ?m fs)"
      "reassemble (frag c') fs2 = Some (n2, st)" "messages c' = messages c1 @ n1" "m2 = n1 @ n2"
      "ReadFrame (recvBuf c') = NeedMore" unfolding c1(4) by blast
    have "ParseFrames env c = Some c'" using c1(1) IH(1) by (simp add: ParseFrames.simps [of env c])
    moreover have "length (wire ?m fs2) \<le> length (wire ?m (f # fs))" using IH(5) by (simp add: w)
    ultimately show ?thesis
      using IH c1 by (intro exI [of _ c'] exI [of _ fs2] exI [of _ "m1 @ n1"] exI [of _ n2]) simp
  qed
qed

lemma feed_chunks_frames:
  assumes "calm env" "receiving c" "recvBuf c @ concat chunks = wire (serverSide c) fs"
    "length (wire (serverSide c) fs) + 14 < 2 ^ 64" "reassemble (frag c) fs = Some (msgs, st)"
    "ReadFrame (recvBuf c) = NeedMore"
  shows "\<exists>c'. feed_chunks env chunks c = Some c' \<and> receiving c' \<and> recvBuf c' = [] \<and> frag c' = st \<and> messages c' = messages c @ msgs"
  using assms
proof (induction chunks arbitrary: c fs msgs)
  case Nil
  show ?case
  proof (cases fs)
    case (Cons f fs')
    obtain k fin opcode p where f: "f = (k, fin, opcode, p)" by (cases f) auto
    have "length p + length (wire (serverSide c) fs') + 14 < 2 ^ 64"
      using Nil.prems(4) by (simp add: Cons f wire_def encode_def EncodeFrame_def EncodeFrame_body_def split: if_splits)
    from ReadFrame_EncodeFrame [OF this, of opcode fin "serverSide c" k] Nil.prems(3,6) show ?thesis
      by (simp add: Cons f wire_def encode_def)
  qed (use Nil in \<open>simp add: wire_def\<close>)
next
  case (Cons ch chs)
  define d where "d = c\<lparr>recvBuf := recvBuf c @ ch\<rparr>"
  have frag: "frag (c\<lparr>recvBuf := x\<rparr>) = frag c" for x by (simp add: frag_def)
  have d: "receiving d" "recvBuf d @ concat chs = wire (serverSide d) fs" "serverSide d = serverSide c" "messages d = messages c"
    "length (wire (serverSide d) fs) + 14 < 2 ^ 64" "reassemble (frag d) fs = Some (msgs, st)"
    using Cons.prems frag by (simp_all add: d_def receiving_def)
  from ParseFrames_prefix [OF Cons.prems(1) d(1,2,5,6)] obtain c' fs2 m1 m2 where c':
    "ParseFrames env d = Some c'" "receiving c'" "serverSide c' = serverSide d" "recvBuf c' @ concat chs = wire (serverSide d) fs2"
    "length (wire (serverSide d) fs2) \<le> length (wire (serverSide d) fs)" "reassemble (frag c') fs2 = Some (m2, st)"
    "messages c' = messages d @ m1" "msgs = m1 @ m2" "ReadFrame (recvBuf c') = NeedMore" by blast
  have "recvBuf c' @ concat chs = wire (serverSide c') fs2" "length (wire (serverSide c') fs2) + 14 < 2 ^ 64"
    using c' d by simp_all
  from Cons.IH [OF Cons.prems(1) c'(2) this c'(6,9)] obtain c'' where
    "feed_chunks env chs c' = Some c''" "receiving c''" "recvBuf c'' = []" "frag c'' = st" "messages c'' = messages c' @ m2" by blast
  moreover have "OnTcpMessage env ch c = Some c'"
    using Cons.prems(2) d(1) c'(1) by (simp add: OnTcpMessage_def ProcessData_def d_def receiving_def)
  ultimately show ?case using c' d by simp
qed

end

section \<open>Properties\<close>

text \<open>C1. Messages survive any segmentation of the byte stream: on an open connection whose handlers do
  not close it and whose writes are accepted, the pieces of a stream of encoded frames, cut anywhere,
  make the object fire exactly the messages the abstract reassembly of the frames gives, in order, and
  leave no byte behind; fragmented messages are joined, pings and pongs between fragments do not
  disturb them. Both for a server (masked frames) and a client (unmasked ones), and whatever methods
  the handlers call.\<close>

theorem messages_any_segmentation:
  assumes "calm (scripted n script base)" "receiving c" "recvBuf c = []"
    and "concat chunks = wire (serverSide c) fs" "length (concat chunks) + 14 < 2 ^ 64"
    and "reassemble (frag c) fs = Some (msgs, st)"
  shows "\<exists>c'. feed_chunks (scripted n script base) chunks c = Some c' \<and> recvBuf c' = [] \<and> frag c' = st \<and>
    messages c' = messages c @ msgs"
  using handlers.feed_chunks_frames [OF assms(1,2), of chunks fs msgs st] assms by (auto simp: ReadFrame_def)

text \<open>A server-side object after the handshake, and an environment without handlers that accepts every write.\<close>

definition open_server :: WsClient where
  "open_server = (WsClient_new True 1)\<lparr>handshakeComplete := True, opened := True, ws_state := Open\<rparr>"

definition quiet_base :: ws_env where
  "quiet_base = \<lparr>luau = (\<lambda>e c. c), write_status = (\<lambda>c d. Accepted), connect_status = (\<lambda>c. ConnStarted),
     timer_init_ok = (\<lambda>c. True), double_mult = (\<lambda>x y. Finite (x * y))\<rparr>"

lemma open_server_receiving: "receiving open_server"
  by (simp add: receiving_def open_server_def WsClient_new_def ws_inv_def ws_inv_parts effects_def)

lemma quiet_base_calm: "calm (scripted n (\<lambda>e c. []) quiet_base)"
  by (cases n) (simp_all add: calm_def quiet_base_def)

theorem messages_any_segmentation_witness:
  "\<exists>c'. feed_chunks (scripted 0 (\<lambda>e c. []) quiet_base)
      [take 3 (wire True [(7, False, 1, [104]), (8, True, 9, []), (9, True, 0, [105])]),
       drop 3 (wire True [(7, False, 1, [104]), (8, True, 9, []), (9, True, 0, [105])])] open_server = Some c' \<and>
    recvBuf c' = [] \<and> frag c' = None \<and> messages c' = messages open_server @ [[104, 105]]"
proof (rule messages_any_segmentation [OF quiet_base_calm open_server_receiving])
  let ?fs = "[(7, False, 1, [104]), (8, True, 9, []), (9, True, 0, [105])]"
  have srv: "serverSide open_server" by (simp add: open_server_def WsClient_new_def)
  show "recvBuf open_server = []" by (simp add: open_server_def WsClient_new_def)
  show "concat [take 3 (wire True ?fs), drop 3 (wire True ?fs)] = wire (serverSide open_server) ?fs" by (simp add: srv)
  show "length (concat [take 3 (wire True ?fs), drop 3 (wire True ?fs)]) + 14 < 2 ^ 64"
    by (simp add: wire_def encode_def EncodeFrame_def EncodeFrame_length_def EncodeFrame_body_def)
  show "reassemble (frag open_server) ?fs = Some ([[104, 105]], None)"
    by (simp add: frag_def open_server_def WsClient_new_def opcode_defs)
qed

text \<open>C19. Whatever Luau handlers do through the methods, nested to any depth, and however writes, timers
  and connection attempts turn out: a websocket object fires \<open>Disconnected\<close> at most once and only once
  it is closed after having been open, resumes the coroutine waiting in \<open>Connect\<close> at most once, and
  writes at most one Close frame.\<close>

theorem ws_at_most_once:
  assumes "ws_reach (scripted n script base) c"
  shows "effects is_disconnect c \<le> 1 \<and> (effects is_disconnect c = 1 \<longrightarrow> ws_closed c \<and> opened c) \<and>
    effects is_resume c \<le> 1 \<and> effects is_close_frame c \<le> 1"
  using handlers.ws_reach_inv [OF assms] by (auto simp: ws_inv_def ws_inv_parts)

lemma reach_new_call:
  "ws_reach env (snd (ClientMethods env call (WsClient_new srv seed)))"
  by (rule ws_reach.step [OF ws_reach.new, where ev = "EvCall call"]) (simp_all add: ws_enabled_def ws_handle_def)

theorem ws_at_most_once_witness:
  "effects is_disconnect (snd (ClientMethods (scripted 0 (\<lambda>e c. []) quiet_base) CallDestroy (WsClient_new False 1))) \<le> 1"
  using ws_at_most_once [OF reach_new_call] by blast

text \<open>A closed websocket object holds nothing: its TCP client is released, its timer handle is closed,
  no close callback is outstanding; and at all times the pending close callbacks are exactly the
  \<open>uv_close\<close> calls without their callback yet, at most one.\<close>

theorem ws_closed_releases:
  assumes "ws_reach (scripted n script base) c"
  shows "(ws_closed c \<longrightarrow> ws_closing c \<and> \<not> hasTcp c \<and> (timerInited c \<longrightarrow> timerClosed c) \<and> closeCount c = 0) \<and>
    closeCount c = int (effects (\<lambda>e. e = UvTimerClose) c) - int (effects (\<lambda>e. e = UvTimerClosed) c) \<and>
    0 \<le> closeCount c \<and> closeCount c \<le> 1"
  using handlers.ws_reach_inv [OF assms] by (cases "timerClosed c") (auto simp: ws_inv_def uv_inv_def)

theorem ws_closed_releases_witness:
  "closeCount (snd (ClientMethods (scripted 0 (\<lambda>e c. []) quiet_base) CallDestroy (WsClient_new False 1))) \<le> 1"
  using ws_closed_releases [OF reach_new_call] by blast



section \<open>Where the object departs from its protocol\<close>

definition is_error :: "ws_effect \<Rightarrow> bool" where
  "is_error e \<longleftrightarrow> (case e of FireErrorOccurred _ \<Rightarrow> True | _ \<Rightarrow> False)"

lemma idle_luau [simp]: "run_luau (scripted 0 script base) e c = emit e c"
  by (simp add: run_luau_def)

lemma idle_FinishClosed:
  "effects is_error (FinishClosed (scripted 0 script base) c) = effects is_error c \<and>
   ws_closing (FinishClosed (scripted 0 script base) c) = ws_closing c"
  by (simp add: FinishClosed_def Let_def is_error_def del: scripted.simps)

lemma idle_CloseHandles:
  "effects is_error (CloseHandles (scripted 0 script base) c) = effects is_error c \<and>
   ws_closing (CloseHandles (scripted 0 script base) c) = ws_closing c"
  by (simp add: CloseHandles_def CheckClosed_def idle_FinishClosed StopTimer_def Let_def is_error_def del: scripted.simps)

lemma idle_FailConnect:
  "\<not> ws_closing c \<Longrightarrow> effects is_error (FailConnect (scripted 0 script base) m c) = effects is_error c \<and>
   ws_closing (FailConnect (scripted 0 script base) m c)"
  by (simp add: FailConnect_def NotifyConnectError_def idle_CloseHandles Let_def is_error_def del: scripted.simps)

text \<open>\<open>DoClientHandshake\<close> leaves \<open>connectPending\<close> set, so an error of the transport on a client whose
  connection is open takes the path of a failed connection attempt: the object closes and fires
  \<open>Disconnected\<close>, and \<open>ErrorOccurred\<close> never fires.\<close>

theorem open_client_error_unreported:
  assumes "connectPending c" "\<not> ws_closing c" "ClientHandshake (sentKey c) b = Connected"
    and "env = scripted 0 script base" "c1 = DoClientHandshake env b c"
  shows "ws_state c1 = Open \<and> connectPending c1 \<and> ws_closing (OnTcpError env err c1) \<and>
    effects is_error (OnTcpError env err c1) = effects is_error c"
proof -
  have eff: "effects is_error c1 = effects is_error c" "connectPending c1" "ws_state c1 = Open" "\<not> ws_closing c1"
    using assms by (simp_all add: DoClientHandshake_def NotifyConnectOk_def StopTimer_def Let_def is_error_def del: scripted.simps)
  with idle_FailConnect [OF eff(4)] show ?thesis unfolding assms(4) by (simp add: OnTcpError_def del: scripted.simps)
qed

theorem open_client_error_unreported_witness:
  "ws_closing (OnTcpError (scripted 0 (\<lambda>e c. []) quiet_base) ''read''
     (DoClientHandshake (scripted 0 (\<lambda>e c. []) quiet_base) (Switching_text (ComputeAcceptKey []))
        ((WsClient_new False 1)\<lparr>connectPending := True\<rparr>)))"
  using open_client_error_unreported [where c = "(WsClient_new False 1)\<lparr>connectPending := True\<rparr>"
      and b = "Switching_text (ComputeAcceptKey [])" and script = "\<lambda>e c. []" and base = quiet_base and err = "''read''", OF _ _ _ refl refl]
    ClientHandshake_response [of "[]"] by (simp add: WsClient_new_def)

text \<open>When the write of the server's handshake answer fails, the object is closed by the error and
  then opened again by the rest of \<open>DoServerHandshake\<close>: it is closed and in state \<open>Open\<close>, and
  \<open>ClientConnected\<close> is the last signal, with no \<open>Disconnected\<close> for it.\<close>

theorem failed_answer_reopens:
  assumes "ServerHandshake b = Switching resp" "write_status base c (bytes_of resp) = WriteFailed err"
    and "hasTcp c" "\<not> ws_closing c" "\<not> ws_closed c" "\<not> opened c" "\<not> connectPending c" "\<not> timerInited c"
      "closeCount c = 0" "\<not> shuttingDown c" "wrappedUserdata c" "effects is_disconnect c = 0"
    and "c' = DoServerHandshake (scripted 0 script base) b c"
  shows "ws_closed c' \<and> ws_state c' = Open \<and> last (ws_trace c') = FireClientConnected \<and> effects is_disconnect c' = 0"
proof -
  obtain a where "resp = Switching_text a" using ServerHandshake_texts(2) [OF assms(1)] by blast
  then have "bytes_of resp \<noteq> []" by (simp add: Switching_text_def bytes_of_def)
  then show ?thesis
    using assms by (simp add: DoServerHandshake_def SendRaw_def OnTcpError_def FireError_def RequestClose_def CloseHandles_def
        CheckClosed_def FinishClosed_def run_luau_def StopTimer_def Let_def is_disconnect_def)
qed

theorem failed_answer_reopens_witness:
  "ws_closed (DoServerHandshake (scripted 0 (\<lambda>e c. []) (quiet_base\<lparr>write_status := \<lambda>c d. WriteFailed ''EPIPE''\<rparr>))
     (HandshakeRequest (ParseWebSocketUrl ''ws://h/'') [] []) (WsClient_new True 1))"
proof -
  have "plain_request (ParseWebSocketUrl ''ws://h/'') []" by code_simp
  then have "ServerHandshake (HandshakeRequest (ParseWebSocketUrl ''ws://h/'') [] []) = Switching (Switching_text (ComputeAcceptKey []))"
    by (intro ServerHandshake_request) (simp_all add: trimmed_def)
  then show ?thesis
    using failed_answer_reopens [where c = "WsClient_new True 1" and base = "quiet_base\<lparr>write_status := \<lambda>c d. WriteFailed ''EPIPE''\<rparr>"
        and script = "\<lambda>e c. []" and err = "''EPIPE''", OF _ _ _ _ _ _ _ _ _ _ _ _ refl]
    by (simp add: WsClient_new_def effects_def)
qed

text \<open>A \<open>Connect\<close> call that is refused after it has read the header table keeps the headers it read: the
  next call sends them again, before its own.\<close>

theorem refused_connect_keeps_headers:
  assumes "connect_headers opts c = (Some msg, c1)"
  shows "\<exists>h t. opts = LTable t \<and> table_get t ''headers'' = h \<and>
    (case h of LTable hs \<Rightarrow> \<exists>kept. requestHeaders c1 = requestHeaders c @ kept \<and> length kept < length hs | _ \<Rightarrow> c1 = c)"
proof -
  have col: "collect_headers h keys acc = (ok, hs) \<Longrightarrow>
      \<exists>kept. hs = acc @ kept \<and> (if ok then length kept = length keys else length kept < length keys)" for h keys acc ok hs
    by (induction h keys acc rule: collect_headers.induct) (fastforce split: lvalue.splits)+
  from assms obtain t where t: "opts = LTable t" by (cases opts) (auto simp: connect_headers_def)
  show ?thesis
  proof (cases "table_get t ''headers''")
    case (LTable hs)
    obtain ok acc where c: "collect_headers hs (map fst hs) (requestHeaders c) = (ok, acc)" by fastforce
    with assms t LTable have "\<not> ok" "c1 = c\<lparr>requestHeaders := acc\<rparr>" by (auto simp: connect_headers_def split: if_splits)
    with col [OF c] t LTable show ?thesis by auto
  qed (use assms t in \<open>auto simp: connect_headers_def\<close>)
qed

theorem refused_connect_keeps_headers_witness:
  "connect_headers (LTable [(''headers'', LTable [(''A'', LString ''1''), (''B'', LNil)])]) (WsClient_new False 1) =
     (Some ''websocket Connect: opts.headers values must be strings'', (WsClient_new False 1)\<lparr>requestHeaders := [(''A'', ''1'')]\<rparr>)"
proof -
  let ?t = "[(''headers'', LTable [(''A'', LString ''1''), (''B'', LNil)])]"
  have eq: "connect_headers (LTable ?t) (WsClient_new False 1) =
     (Some ''websocket Connect: opts.headers values must be strings'', (WsClient_new False 1)\<lparr>requestHeaders := [(''A'', ''1'')]\<rparr>)"
    by (simp add: connect_headers_def table_get_def WsClient_new_def)
  from refused_connect_keeps_headers [OF eq] have "\<exists>h t. LTable ?t = LTable t \<and> table_get t ''headers'' = h" by blast
  with eq show ?thesis by simp
qed

end
