(* ===== verification/Lode_Manifest.thy ===== *)
theory Lode_Manifest
  imports Lode_Prelude
begin

text \<open>
  The package manifest of \<open>PackageManifest.cpp\<close>: the static parser of \<open>package.luau\<close>, the serializer
  that writes a document back, and the checks of the required fields. A position in the source is the
  input that is left; a \<open>json\<close> object keeps its members sorted by key, as \<open>nlohmann::json\<close> does. A
  failed read is \<^const>\<open>None\<close>; the errors of \<open>Parse\<close> are the messages of the code. The parser's dead
  code (\<open>ReadImplementation\<close>, \<open>SkipValue\<close>, \<open>SetError\<close>), which nothing calls, is left out, and so are
  floating-point numbers, which the parser never produces.
\<close>

section \<open>Documents\<close>

datatype json =
    JNull
  | JBool bool
  | JInt int
  | JString string
  | JArray "json list"
  | JObject "(string \<times> json) list"

fun obj_set :: "string \<Rightarrow> json \<Rightarrow> (string \<times> json) list \<Rightarrow> (string \<times> json) list" where
  "obj_set k v [] = [(k, v)]"
| "obj_set k v ((k', v') # kvs) =
     (if k < k' then (k, v) # (k', v') # kvs
      else if k = k' then (k, v) # kvs
      else (k', v') # obj_set k v kvs)"

definition obj_get :: "(string \<times> json) list \<Rightarrow> string \<Rightarrow> json option" where
  "obj_get kvs k = map_of kvs k"

section \<open>The static parser\<close>

definition Consume :: "char \<Rightarrow> string \<Rightarrow> string option" where
  "Consume expected rest = (case rest of [] \<Rightarrow> None | c # cs \<Rightarrow> if c = expected then Some cs else None)"

definition IsIdentifierStart :: "char \<Rightarrow> bool" where
  "IsIdentifierStart c \<longleftrightarrow> is_alpha c \<or> c = CHR ''_''"

definition IsIdentifierCharacter :: "char \<Rightarrow> bool" where
  "IsIdentifierCharacter c \<longleftrightarrow> is_alnum c \<or> c = CHR ''_''"

definition ConsumeKeyword :: "string \<Rightarrow> string \<Rightarrow> string option" where
  "ConsumeKeyword keyword rest =
     (if take (length keyword) rest \<noteq> keyword then None
      else let after = drop (length keyword) rest in
           if after \<noteq> [] \<and> IsIdentifierCharacter (hd after) then None else Some after)"

definition is_newline :: "char \<Rightarrow> bool" where
  "is_newline c \<longleftrightarrow> c = CHR 0x0D \<or> c = CHR 0x0A"

function SkipTrivia :: "string \<Rightarrow> string" where
  "SkipTrivia [] = []"
| "SkipTrivia (c # cs) =
     (if is_space c then SkipTrivia cs
      else if c \<noteq> CHR ''-'' \<or> cs = [] \<or> hd cs \<noteq> CHR ''-'' then c # cs
      else
        let r = tl cs in
        if take 2 r = ''[[''
        then (case find_sub '']]'' (drop 2 r) of None \<Rightarrow> [] | Some i \<Rightarrow> SkipTrivia (drop (i + 2) (drop 2 r)))
        else SkipTrivia (dropWhile (\<lambda>c. \<not> is_newline c) r))"
  by pat_completeness auto
termination
  by (relation "measure length") (auto intro: le_less_trans [OF length_dropWhile_le])

fun string_body :: "char \<Rightarrow> string \<Rightarrow> string \<Rightarrow> (string \<times> string) option" where
  "string_body quote acc [] = None"
| "string_body quote acc (c # cs) =
     (if c = quote then Some (acc, cs)
      else if c \<noteq> CHR 0x5C then string_body quote (acc @ [c]) cs
      else (case cs of
              [] \<Rightarrow> None
            | e # cs' \<Rightarrow>
                string_body quote
                  (acc @ [if e = CHR ''n'' then CHR 0x0A else if e = CHR ''r'' then CHR 0x0D
                          else if e = CHR ''t'' then CHR 0x09 else e]) cs'))"

definition ReadString :: "string \<Rightarrow> (string \<times> string) option" where
  "ReadString rest =
     (case rest of
        [] \<Rightarrow> None
      | quote # cs \<Rightarrow> if quote \<noteq> CHR 0x27 \<and> quote \<noteq> CHR 0x22 then None else string_body quote [] cs)"

definition ReadKey :: "string \<Rightarrow> (string \<times> string) option" where
  "ReadKey rest =
     (if rest \<noteq> [] \<and> IsIdentifierStart (hd rest)
      then Some (hd rest # takeWhile IsIdentifierCharacter (tl rest), dropWhile IsIdentifierCharacter (tl rest))
      else case Consume (CHR ''['') rest of None \<Rightarrow> None
      | Some r1 \<Rightarrow>
        (case ReadString (SkipTrivia r1) of None \<Rightarrow> None
         | Some (key, r2) \<Rightarrow> map_option (Pair key) (Consume (CHR '']'') (SkipTrivia r2))))"

definition ReadBoolean :: "string \<Rightarrow> (bool \<times> string) option" where
  "ReadBoolean rest =
     (case ConsumeKeyword ''true'' rest of
        Some r \<Rightarrow> Some (True, r)
      | None \<Rightarrow> map_option (Pair False) (ConsumeKeyword ''false'' rest))"

text \<open>\<open>std::stoll\<close> on a whole token: sign, digits, the range of \<open>long long\<close>.\<close>

definition stoll :: "string \<Rightarrow> int option" where
  "stoll token =
     (let neg = (token \<noteq> [] \<and> hd token = CHR ''-'');
          ds = (if token \<noteq> [] \<and> (hd token = CHR ''-'' \<or> hd token = CHR ''+'') then tl token else token);
          n = (if neg then - int (digits_value ds) else int (digits_value ds))
      in if ds = [] \<or> \<not> list_all is_digit ds then None
         else if -9223372036854775808 \<le> n \<and> n \<le> 9223372036854775807 then Some n else None)"

definition ends_token :: "char \<Rightarrow> bool" where
  "ends_token c \<longleftrightarrow> is_space c \<or> c = CHR '','' \<or> c = CHR '';'' \<or> c = CHR ''}''"

definition ReadScalar :: "string \<Rightarrow> (json \<times> string) option" where
  "ReadScalar rest =
     (case ReadBoolean rest of
        Some (b, r) \<Rightarrow> Some (JBool b, r)
      | None \<Rightarrow>
        (case ConsumeKeyword ''nil'' rest of
           Some r \<Rightarrow> Some (JNull, r)
         | None \<Rightarrow>
           let token = takeWhile (\<lambda>c. \<not> ends_token c) rest in
           if token = [] then None
           else map_option (\<lambda>i. (JInt i, dropWhile (\<lambda>c. \<not> ends_token c) rest)) (stoll token)))"

text \<open>The look-ahead of \<open>ReadTable\<close>: a key followed by \<open>=\<close>.\<close>

definition read_assign :: "string \<Rightarrow> (string \<times> string) option" where
  "read_assign rest =
     (case ReadKey rest of None \<Rightarrow> None
      | Some (key, r) \<Rightarrow> map_option (Pair key) (Consume (CHR ''='') (SkipTrivia r)))"

text \<open>After an entry: a separator is consumed, a closing brace is left for the loop.\<close>

definition read_separator :: "string \<Rightarrow> string option" where
  "read_separator rest =
     (let r = SkipTrivia rest in
      case Consume (CHR '','') r of
        Some r' \<Rightarrow> Some r'
      | None \<Rightarrow>
        (case Consume (CHR '';'') r of
           Some r' \<Rightarrow> Some r'
         | None \<Rightarrow> if r \<noteq> [] \<and> hd r = CHR ''}'' then Some r else None))"

lemma length_SkipTrivia: "length (SkipTrivia s) \<le> length s"
proof (induction s rule: SkipTrivia.induct)
  case (2 c cs)
  show ?case
  proof (cases "is_space c \<or> c \<noteq> CHR ''-'' \<or> cs = [] \<or> hd cs \<noteq> CHR ''-''")
    case True
    then show ?thesis using 2(1) by auto
  next
    case False
    let ?r = "tl cs"
    have r: "length ?r < length (c # cs)" using False by simp
    show ?thesis
    proof (cases "take 2 ?r = ''[[''")
      case True
      show ?thesis
      proof (cases "find_sub '']]'' (drop 2 ?r)")
        case None
        then show ?thesis using False True by simp
      next
        case (Some i)
        then have "length (SkipTrivia (drop (i + 2) (drop 2 ?r))) \<le> length (drop (i + 2) (drop 2 ?r))"
          using False True by (intro 2(2)) auto
        then show ?thesis using False True Some r by simp
      qed
    next
      case notlong: False
      have "length (SkipTrivia (dropWhile (\<lambda>c. \<not> is_newline c) ?r)) \<le> length (dropWhile (\<lambda>c. \<not> is_newline c) ?r)"
        using False notlong by (intro 2(3)) auto
      also have "\<dots> \<le> length ?r" by (rule length_dropWhile_le)
      finally show ?thesis using False notlong r by simp
    qed
  qed
qed simp

lemma Consume_length: "Consume c s = Some r \<Longrightarrow> length s = Suc (length r)"
  by (auto simp: Consume_def split: list.splits if_splits)

lemma string_body_length: "string_body q acc s = Some (v, r) \<Longrightarrow> length r < length s"
  by (induction q acc s rule: string_body.induct) (auto split: if_splits list.splits)

lemma ReadString_length: "ReadString s = Some (v, r) \<Longrightarrow> length r < length s"
  by (auto simp: ReadString_def split: list.splits if_splits dest: string_body_length)

lemma ReadKey_length: "ReadKey s = Some (k, r) \<Longrightarrow> length r < length s"
proof (cases "s \<noteq> [] \<and> IsIdentifierStart (hd s)")
  case True
  assume "ReadKey s = Some (k, r)"
  with True have "r = dropWhile IsIdentifierCharacter (tl s)" by (simp add: ReadKey_def)
  then have "length r \<le> length (tl s)" by (simp only: length_dropWhile_le)
  then show ?thesis using True by (cases s) auto
next
  case False
  assume "ReadKey s = Some (k, r)"
  with False obtain r1 r2 where "Consume (CHR ''['') s = Some r1" "ReadString (SkipTrivia r1) = Some (k, r2)"
    "Consume (CHR '']'') (SkipTrivia r2) = Some r"
    by (auto simp: ReadKey_def split: option.splits)
  then show ?thesis
    using Consume_length [of _ s] ReadString_length [of "SkipTrivia r1"] Consume_length [of _ "SkipTrivia r2"]
      length_SkipTrivia [of r1] length_SkipTrivia [of r2] by fastforce
qed

lemma read_assign_length: "read_assign s = Some (k, r) \<Longrightarrow> length r < length s"
proof -
  assume "read_assign s = Some (k, r)"
  then obtain r1 where "ReadKey s = Some (k, r1)" "Consume (CHR ''='') (SkipTrivia r1) = Some r"
    by (auto simp: read_assign_def split: option.splits)
  then show ?thesis using ReadKey_length [of s k r1] length_SkipTrivia [of r1] Consume_length [of _ "SkipTrivia r1" r] by simp
qed

lemma read_separator_length: "read_separator s = Some r \<Longrightarrow> length r \<le> length s"
  using length_SkipTrivia [of s] Consume_length [of _ "SkipTrivia s"]
  by (fastforce simp: read_separator_def Let_def split: option.splits if_splits)

text \<open>The three mutually recursive readers. An entry that consumed nothing would make the loop of
  \<open>ReadTable\<close> run forever; the comparison of lengths that keeps the recursion well-founded is never
  false (\<open>ReadValue_length\<close>, and the equations \<open>table_loop_eq\<close> without it).\<close>

function (sequential) ReadValue :: "string \<Rightarrow> (json \<times> string) option"
  and ReadTable :: "string \<Rightarrow> (json \<times> string) option"
  and table_loop :: "string \<Rightarrow> (string \<times> json) list \<Rightarrow> json list \<Rightarrow> bool \<Rightarrow> bool \<Rightarrow> (json \<times> string) option" where
  "ReadValue rest =
     (if rest \<noteq> [] \<and> (hd rest = CHR 0x27 \<or> hd rest = CHR 0x22)
      then map_option (map_prod JString id) (ReadString rest)
      else if rest \<noteq> [] \<and> hd rest = CHR ''{'' then ReadTable rest
      else ReadScalar rest)"
| "ReadTable rest =
     (case Consume (CHR ''{'') rest of None \<Rightarrow> None | Some r \<Rightarrow> table_loop r [] [] False False)"
| "table_loop rest object array hasKeyed hasArray =
     (let r1 = SkipTrivia rest in
      case Consume (CHR ''}'') r1 of
        Some r2 \<Rightarrow>
          if hasKeyed \<and> hasArray then None
          else Some (if \<not> hasArray \<or> hasKeyed then JObject object else JArray array, r2)
      | None \<Rightarrow>
        (case read_assign r1 of
           Some (key, r2) \<Rightarrow>
             (case ReadValue (SkipTrivia r2) of
                None \<Rightarrow> None
              | Some (entry, r3) \<Rightarrow>
                  if length r3 < length r1 then
                    (case read_separator r3 of
                       None \<Rightarrow> None
                     | Some r4 \<Rightarrow> table_loop r4 (obj_set key entry object) array True hasArray)
                  else None)
         | None \<Rightarrow>
             (case ReadValue r1 of
                None \<Rightarrow> None
              | Some (entry, r3) \<Rightarrow>
                  if length r3 < length r1 then
                    (case read_separator r3 of
                       None \<Rightarrow> None
                     | Some r4 \<Rightarrow> table_loop r4 object (array @ [entry]) hasKeyed True)
                  else None)))"
  by pat_completeness auto
termination
proof (relation "measure (\<lambda>x. case x of
    Inl rest \<Rightarrow> 3 * length rest + 1 | Inr (Inl rest) \<Rightarrow> 3 * length rest
  | Inr (Inr (rest, ob, ar, k, a)) \<Rightarrow> 3 * length rest + 2)", goal_cases)
  case 1
  show ?case by simp
next
  case (2 rest)
  then show ?case by simp
next
  case (3 rest r)
  then show ?case using Consume_length [of _ rest r] by simp
next
  case (4 rest object array hasKeyed hasArray r1)
  then show ?case using length_SkipTrivia [of rest] by simp
next
  case (5 rest object array hasKeyed hasArray r1 y entry r3 r4)
  then show ?case using read_separator_length [of r3 r4] length_SkipTrivia [of rest] by simp
next
  case (6 rest object array hasKeyed hasArray r1 x key r2)
  then have "read_assign r1 = Some (key, r2)" by simp
  then show ?case
    using read_assign_length [of r1 key r2] length_SkipTrivia [of r2] length_SkipTrivia [of rest] 6 by simp
next
  case (7 rest object array hasKeyed hasArray r1 x key r2 y entry r3 r4)
  then show ?case using read_separator_length [of r3 r4] length_SkipTrivia [of rest] by simp
qed

declare ReadValue.simps [simp del] ReadTable.simps [simp del] table_loop.simps [simp del]

section \<open>The manifest\<close>

record CompiledImplementation =
  artifact :: string
  layout :: string
  impl_required :: bool

record PackageManifest =
  pm_name :: string
  pm_version :: string
  hasImplementation :: bool
  pm_implementation :: CompiledImplementation

text \<open>The loop of \<open>Parse\<close> over the fields of the returned table.\<close>

function field_loop :: "string \<Rightarrow> (string \<times> json) list \<Rightarrow> string + ((string \<times> json) list \<times> string)" where
  "field_loop rest document =
     (let r1 = SkipTrivia rest in
      case Consume (CHR ''}'') r1 of
        Some r2 \<Rightarrow> Inr (document, r2)
      | None \<Rightarrow>
        (case ReadKey r1 of
           None \<Rightarrow> Inl ''manifest table contains an invalid key''
         | Some (key, r2) \<Rightarrow>
           (case Consume (CHR ''='') (SkipTrivia r2) of
              None \<Rightarrow> Inl ''manifest fields must use key = value syntax''
            | Some r3 \<Rightarrow>
              (case ReadValue (SkipTrivia r3) of
                 None \<Rightarrow> Inl (''manifest field '' @ [CHR 0x27] @ key @ [CHR 0x27] @ '' has an invalid value'')
               | Some (v, r4) \<Rightarrow>
                   if length r4 < length r1 then
                     (case read_separator r4 of
                        None \<Rightarrow> Inl ''manifest fields must be separated by commas''
                      | Some r5 \<Rightarrow> field_loop r5 (obj_set key v document))
                   else Inl []))))"
  by pat_completeness auto
termination
proof (relation "measure (\<lambda>(rest, d). length rest)", goal_cases)
  case (2 rest document r1 x key r2 r3 y v r4 r5)
  then show ?case using read_separator_length [of r4 r5] length_SkipTrivia [of rest] by simp
qed simp

declare field_loop.simps [simp del]

definition read_string_field :: "(string \<times> json) list \<Rightarrow> string \<Rightarrow> string + string" where
  "read_string_field document field =
     (case obj_get document field of
        Some (JString s) \<Rightarrow> Inr s
      | _ \<Rightarrow> Inl (''manifest field '' @ [CHR 0x27] @ field @ [CHR 0x27] @ '' must be a string''))"

definition impl_string :: "(string \<times> json) list \<Rightarrow> string \<Rightarrow> string + string" where
  "impl_string kvs field =
     (case obj_get kvs field of
        None \<Rightarrow> Inr []
      | Some (JString s) \<Rightarrow> Inr s
      | Some _ \<Rightarrow> Inl (''implementation field '' @ [CHR 0x27] @ field @ [CHR 0x27] @ '' must be a string''))"

definition read_implementation :: "string \<Rightarrow> json \<Rightarrow> string + CompiledImplementation" where
  "read_implementation name implementation =
     (case implementation of
        JObject kvs \<Rightarrow>
          (case impl_string kvs ''artifact'' of Inl e \<Rightarrow> Inl e
           | Inr a \<Rightarrow>
             (case impl_string kvs ''layout'' of Inl e \<Rightarrow> Inl e
              | Inr l \<Rightarrow>
                (case (case obj_get kvs ''required'' of None \<Rightarrow> Inr False | Some (JBool b) \<Rightarrow> Inr b
                       | Some _ \<Rightarrow> Inl (''implementation field '' @ [CHR 0x27] @ ''required'' @ [CHR 0x27] @ '' must be boolean'')) of
                   Inl e \<Rightarrow> Inl e
                 | Inr r \<Rightarrow> Inr \<lparr>artifact = (if a = [] then name else a), layout = l, impl_required = r\<rparr>)))
      | _ \<Rightarrow> Inl (''manifest field '' @ [CHR 0x27] @ ''implementation'' @ [CHR 0x27] @ '' must be a table''))"

definition check_document :: "(string \<times> json) list \<Rightarrow> string + PackageManifest" where
  "check_document document =
     (case read_string_field document ''name'' of Inl e \<Rightarrow> Inl e
      | Inr name \<Rightarrow>
        (case read_string_field document ''version'' of Inl e \<Rightarrow> Inl e
         | Inr version \<Rightarrow>
           if name = [] then Inl (''manifest field '' @ [CHR 0x27] @ ''name'' @ [CHR 0x27] @ '' is required'')
           else if version = [] then Inl (''manifest field '' @ [CHR 0x27] @ ''version'' @ [CHR 0x27] @ '' is required'')
           else
             let empty = \<lparr>artifact = [], layout = [], impl_required = False\<rparr> in
             (case obj_get document ''implementation'' of
                None \<Rightarrow> Inr \<lparr>pm_name = name, pm_version = version, hasImplementation = False, pm_implementation = empty\<rparr>
              | Some impl \<Rightarrow>
                  (case read_implementation name impl of Inl e \<Rightarrow> Inl e
                   | Inr i \<Rightarrow> Inr \<lparr>pm_name = name, pm_version = version, hasImplementation = True, pm_implementation = i\<rparr>))))"

definition Parse :: "string \<Rightarrow> string + (PackageManifest \<times> json)" where
  "Parse source =
     (case ConsumeKeyword ''return'' (SkipTrivia source) of
        None \<Rightarrow> Inl ''package.luau: manifest must start with return''
      | Some r1 \<Rightarrow>
        (case Consume (CHR ''{'') (SkipTrivia r1) of
           None \<Rightarrow> Inl ''package.luau: manifest must return a table''
         | Some r2 \<Rightarrow>
           (case field_loop r2 [] of
              Inl e \<Rightarrow> Inl (''package.luau: '' @ e)
            | Inr (document, r3) \<Rightarrow>
                if SkipTrivia r3 \<noteq> [] then Inl ''package.luau: unexpected content after manifest table''
                else (case check_document document of
                        Inl e \<Rightarrow> Inl (''package.luau: '' @ e)
                      | Inr m \<Rightarrow> Inr (m, JObject document)))))"

text \<open>The file is absent or has contents; \<open>path\<close> is its name as \<open>PathToUtf8\<close> gives it.\<close>

definition ReadPackageManifest :: "string \<Rightarrow> string option \<Rightarrow> string + (PackageManifest \<times> json)" where
  "ReadPackageManifest path file =
     (case file of
        None \<Rightarrow> Inl (''Cannot open package manifest: '' @ path)
      | Some source \<Rightarrow> (case Parse source of Inl e \<Rightarrow> Inl (e @ '' ('' @ path @ '')'') | Inr r \<Rightarrow> Inr r))"

section \<open>The serializer\<close>

definition escape_char :: "char \<Rightarrow> string" where
  "escape_char c =
     (if c = CHR 0x5C then [CHR 0x5C, CHR 0x5C] else if c = CHR 0x22 then [CHR 0x5C, CHR 0x22]
      else if c = CHR 0x0A then [CHR 0x5C, CHR ''n''] else if c = CHR 0x0D then [CHR 0x5C, CHR ''r'']
      else if c = CHR 0x09 then [CHR 0x5C, CHR ''t''] else [c])"

definition EscapeLuauString :: "string \<Rightarrow> string" where
  "EscapeLuauString s = CHR 0x22 # concat (map escape_char s) @ [CHR 0x22]"

definition int_string :: "int \<Rightarrow> string" where
  "int_string i = (if i < 0 then CHR ''-'' # nat_string (nat (- i)) else nat_string (nat i))"

fun separated :: "string list \<Rightarrow> string" where
  "separated [] = []"
| "separated [x] = x"
| "separated (x # y # ys) = x @ [CHR '','', CHR 0x0A] @ separated (y # ys)"

abbreviation spaces :: "nat \<Rightarrow> string" where
  "spaces n \<equiv> replicate n (CHR '' '')"

fun SerializeValue :: "json \<Rightarrow> nat \<Rightarrow> string" where
  "SerializeValue (JObject kvs) indent =
     [CHR ''{'', CHR 0x0A] @
     separated (map (\<lambda>kv. spaces (indent + 4) @ ''['' @ EscapeLuauString (fst kv) @ ''] = '' @ SerializeValue (snd kv) (indent + 4)) kvs) @
     [CHR 0x0A] @ spaces indent @ ''}''"
| "SerializeValue (JArray vs) indent =
     [CHR ''{'', CHR 0x0A] @ separated (map (\<lambda>v. spaces (indent + 4) @ SerializeValue v (indent + 4)) vs) @
     [CHR 0x0A] @ spaces indent @ ''}''"
| "SerializeValue (JString s) indent = EscapeLuauString s"
| "SerializeValue (JBool b) indent = (if b then ''true'' else ''false'')"
| "SerializeValue JNull indent = ''nil''"
| "SerializeValue (JInt i) indent = int_string i"

definition SerializePackageManifest :: "json \<Rightarrow> string" where
  "SerializePackageManifest document =
     (case document of JObject kvs \<Rightarrow> ''return '' @ SerializeValue document 0 @ [CHR 0x0A] | _ \<Rightarrow> [])"

section \<open>Progress of the readers\<close>

lemma ConsumeKeyword_length: "ConsumeKeyword kw s = Some r \<Longrightarrow> kw \<noteq> [] \<Longrightarrow> length r < length s"
proof -
  assume "ConsumeKeyword kw s = Some r" "kw \<noteq> []"
  then have "take (length kw) s = kw" "r = drop (length kw) s"
    by (auto simp: ConsumeKeyword_def Let_def split: if_splits)
  with \<open>kw \<noteq> []\<close> show "length r < length s" by (cases s) auto
qed

lemma ReadScalar_length:
  assumes "ReadScalar s = Some (v, r)"
  shows "length r < length s"
proof (cases "ReadBoolean s")
  case (Some br)
  then show ?thesis
    using assms ConsumeKeyword_length by (fastforce simp: ReadScalar_def ReadBoolean_def split: option.splits)
next
  case None
  show ?thesis
  proof (cases "ConsumeKeyword ''nil'' s")
    case (Some r')
    then show ?thesis using assms None ConsumeKeyword_length [OF Some] by (auto simp: ReadScalar_def)
  next
    case none: None
    let ?tok = "takeWhile (\<lambda>c. \<not> ends_token c) s" and ?rest = "dropWhile (\<lambda>c. \<not> ends_token c) s"
    have "?tok \<noteq> []" "r = ?rest"
      using assms None none by (auto simp: ReadScalar_def Let_def split: if_splits)
    moreover have "length s = length ?tok + length ?rest"
      using takeWhile_dropWhile_id [of "\<lambda>c. \<not> ends_token c" s] by (metis length_append)
    ultimately show ?thesis by simp
  qed
qed

lemma ReadValue_length:
  shows "ReadValue s = Some (v, r) \<Longrightarrow> length r < length s"
    and "ReadTable s = Some (v, r) \<Longrightarrow> length r < length s"
    and "table_loop s ob ar hk ha = Some (v, r) \<Longrightarrow> length r < length s"
proof (induction s and s and s ob ar hk ha arbitrary: v r and v r and v r rule: ReadValue_ReadTable_table_loop.induct)
  case (1 s)
  then show ?case
    by (auto simp: ReadValue.simps [of s] dest: ReadString_length ReadScalar_length split: if_splits)
next
  case (2 s)
  then show ?case using Consume_length by (fastforce simp: ReadTable.simps [of s] split: option.splits)
next
  case (3 s ob ar hk ha)
  let ?r1 = "SkipTrivia s"
  have le: "length ?r1 \<le> length s" by (rule length_SkipTrivia)
  have sep: "\<And>a b. read_separator a = Some b \<Longrightarrow> length a < length ?r1 \<Longrightarrow> length b < length ?r1"
    using read_separator_length le_less_trans by blast
  show ?case
  proof (cases "Consume (CHR ''}'') ?r1")
    case (Some r2)
    then show ?thesis using "3.prems" Consume_length [OF Some] le by (auto simp: table_loop.simps [of s] split: if_splits)
  next
    case none: None
    show ?thesis
    proof (cases "read_assign ?r1")
      case None
      from "3.prems" none None obtain e r3 r4 where
        "ReadValue ?r1 = Some (e, r3)" "length r3 < length ?r1" "read_separator r3 = Some r4"
        "table_loop r4 ob (ar @ [e]) hk True = Some (v, r)"
        by (auto simp: table_loop.simps [of s] Let_def split: option.splits prod.splits if_splits)
      then show ?thesis using "3.IH"(2) [OF refl none None _ refl] sep le by fastforce
    next
      case (Some kr)
      from "3.prems" none Some obtain k r2 e r3 r4 where kr: "kr = (k, r2)" and
        "ReadValue (SkipTrivia r2) = Some (e, r3)" "length r3 < length ?r1" "read_separator r3 = Some r4"
        "table_loop r4 (obj_set k e ob) ar True ha = Some (v, r)"
        by (auto simp: table_loop.simps [of s] Let_def split: option.splits prod.splits if_splits)
      then show ?thesis using "3.IH"(4) [OF refl none Some _ _ refl] sep le by fastforce
    qed
  qed
qed

text \<open>The equations of the loops as the code has them.\<close>

definition table_entry :: "string \<Rightarrow> (string option \<times> json \<times> string) option" where
  "table_entry r1 =
     (case read_assign r1 of
        Some (key, r2) \<Rightarrow> map_option (\<lambda>er. (Some key, fst er, snd er)) (ReadValue (SkipTrivia r2))
      | None \<Rightarrow> map_option (\<lambda>er. (None, fst er, snd er)) (ReadValue r1))"

lemma table_entry_length: "table_entry r1 = Some (k, e, r3) \<Longrightarrow> length r3 < length r1"
proof (cases "read_assign r1")
  case (Some kr)
  assume "table_entry r1 = Some (k, e, r3)"
  moreover obtain key r2 where "kr = (key, r2)" by fastforce
  ultimately have "ReadValue (SkipTrivia r2) = Some (e, r3)" "read_assign r1 = Some (key, r2)"
    using Some by (auto simp: table_entry_def)
  then show ?thesis using ReadValue_length(1) read_assign_length length_SkipTrivia [of r2] by fastforce
qed (auto simp: table_entry_def dest: ReadValue_length(1))

lemma table_loop_eq:
  "table_loop rest object array hasKeyed hasArray =
     (case Consume (CHR ''}'') (SkipTrivia rest) of
        Some r2 \<Rightarrow> if hasKeyed \<and> hasArray then None
                  else Some (if \<not> hasArray \<or> hasKeyed then JObject object else JArray array, r2)
      | None \<Rightarrow>
        (case table_entry (SkipTrivia rest) of
           None \<Rightarrow> None
         | Some (k, entry, r3) \<Rightarrow>
             (case read_separator r3 of
                None \<Rightarrow> None
              | Some r4 \<Rightarrow>
                  (case k of
                     Some key \<Rightarrow> table_loop r4 (obj_set key entry object) array True hasArray
                   | None \<Rightarrow> table_loop r4 object (array @ [entry]) hasKeyed True))))"
proof -
  let ?r = "SkipTrivia rest"
  have len: "table_entry ?r = Some (k, e, r3) \<Longrightarrow> length r3 < length ?r" for k e r3 by (rule table_entry_length)
  show ?thesis
    using len unfolding table_loop.simps [of rest] Let_def table_entry_def
    by (fastforce split: option.split prod.split)
qed

section \<open>Well-formed documents\<close>

text \<open>What \<open>nlohmann::json\<close> and the parser guarantee of a value: members sorted by distinct keys,
  integers in range, and no empty array (an empty table is read as an object).\<close>

fun json_ok :: "json \<Rightarrow> bool" where
  "json_ok (JInt i) \<longleftrightarrow> -9223372036854775808 \<le> i \<and> i \<le> 9223372036854775807"
| "json_ok (JArray vs) \<longleftrightarrow> vs \<noteq> [] \<and> list_all json_ok vs"
| "json_ok (JObject kvs) \<longleftrightarrow> sorted_wrt (<) (map fst kvs) \<and> list_all (\<lambda>kv. json_ok (snd kv)) kvs"
| "json_ok _ \<longleftrightarrow> True"

definition members_ok :: "(string \<times> json) list \<Rightarrow> bool" where
  "members_ok kvs \<longleftrightarrow> sorted_wrt (<) (map fst kvs) \<and> list_all (\<lambda>kv. json_ok (snd kv)) kvs"

lemma set_obj_set: "fst ` set (obj_set k v kvs) = insert k (fst ` set kvs)"
  by (induction k v kvs rule: obj_set.induct) auto

lemma obj_set_ok: "members_ok kvs \<Longrightarrow> json_ok v \<Longrightarrow> members_ok (obj_set k v kvs)"
proof (induction k v kvs rule: obj_set.induct)
  case (2 k v k' v' kvs)
  have "\<forall>x \<in> fst ` set (obj_set k v kvs). k' < x" if "k' < k" "\<forall>x \<in> fst ` set kvs. k' < x"
    using that by (simp add: set_obj_set)
  with 2 show ?case by (auto simp: members_ok_def)
qed (simp add: members_ok_def)

lemma obj_set_last: "\<forall>kv \<in> set kvs. fst kv < k \<Longrightarrow> obj_set k v kvs = kvs @ [(k, v)]"
  by (induction k v kvs rule: obj_set.induct) auto

lemma ReadScalar_ok: "ReadScalar s = Some (v, r) \<Longrightarrow> json_ok v"
  by (auto simp: ReadScalar_def stoll_def Let_def split: option.splits prod.splits if_splits)

lemma ReadValue_ok:
  shows "ReadValue s = Some (v, r) \<Longrightarrow> json_ok v"
    and "ReadTable s = Some (v, r) \<Longrightarrow> json_ok v"
    and "table_loop s ob ar hk ha = Some (v, r) \<Longrightarrow> members_ok ob \<Longrightarrow> list_all json_ok ar \<Longrightarrow> (ha \<longrightarrow> ar \<noteq> []) \<Longrightarrow> json_ok v"
proof (induction s and s and s ob ar hk ha arbitrary: v r and v r and v r rule: ReadValue_ReadTable_table_loop.induct)
  case (1 s)
  then show ?case by (auto simp: ReadValue.simps [of s] dest: ReadScalar_ok split: if_splits)
next
  case (2 s)
  then show ?case by (fastforce simp: ReadTable.simps [of s] members_ok_def split: option.splits)
next
  case (3 s ob ar hk ha)
  let ?r1 = "SkipTrivia s"
  show ?case
  proof (cases "Consume (CHR ''}'') ?r1")
    case (Some r2)
    then show ?thesis using "3.prems" by (auto simp: table_loop.simps [of s] members_ok_def split: if_splits)
  next
    case none: None
    show ?thesis
    proof (cases "read_assign ?r1")
      case None
      from "3.prems"(1) none None obtain e r3 r4 where
        *: "ReadValue ?r1 = Some (e, r3)" "length r3 < length ?r1" "read_separator r3 = Some r4"
        "table_loop r4 ob (ar @ [e]) hk True = Some (v, r)"
        by (auto simp: table_loop.simps [of s] Let_def split: option.splits prod.splits if_splits)
      have "json_ok e" using "3.IH"(1) [OF refl none None] * by simp
      then show ?thesis using "3.IH"(2) [OF refl none None *(1) refl *(2,3)] *(4) "3.prems" by simp
    next
      case (Some kr)
      from "3.prems"(1) none Some obtain k r2 e r3 r4 where kr: "kr = (k, r2)" and
        *: "ReadValue (SkipTrivia r2) = Some (e, r3)" "length r3 < length ?r1" "read_separator r3 = Some r4"
        "table_loop r4 (obj_set k e ob) ar True ha = Some (v, r)"
        by (auto simp: table_loop.simps [of s] Let_def split: option.splits prod.splits if_splits)
      have "json_ok e" using "3.IH"(3) [OF refl none Some] * kr by simp
      then show ?thesis using "3.IH"(4) [OF refl none Some kr [symmetric] *(1) refl *(2,3)] *(4) "3.prems" obj_set_ok by simp
    qed
  qed
qed

lemma field_loop_ok: "field_loop s d = Inr (d', r) \<Longrightarrow> members_ok d \<Longrightarrow> members_ok d'"
proof (induction s d rule: field_loop.induct)
  case (1 s d)
  let ?r1 = "SkipTrivia s"
  show ?case
  proof (cases "Consume (CHR ''}'') ?r1")
    case (Some r2)
    then show ?thesis using "1.prems" by (simp add: field_loop.simps [of s])
  next
    case None
    from "1.prems"(1) None obtain k r2 r3 v r4 r5 where *: "ReadKey ?r1 = Some (k, r2)" "Consume (CHR ''='') (SkipTrivia r2) = Some r3"
      "ReadValue (SkipTrivia r3) = Some (v, r4)" "length r4 < length ?r1" "read_separator r4 = Some r5"
      "field_loop r5 (obj_set k v d) = Inr (d', r)"
      by (auto simp: field_loop.simps [of s] Let_def split: option.splits prod.splits if_splits)
    have "members_ok (obj_set k v d)"
      by (rule obj_set_ok [OF "1.prems"(2) ReadValue_ok(1) [OF *(3)]])
    then show ?thesis by (rule "1.IH" [OF refl None *(1) refl *(2,3) refl *(4,5,6)])
  qed
qed

section \<open>Reading back what the serializer wrote\<close>

lemma SkipTrivia_space [simp]: "is_space c \<Longrightarrow> SkipTrivia (c # s) = SkipTrivia s"
  by simp

lemma SkipTrivia_spaces [simp]: "SkipTrivia (spaces n @ s) = SkipTrivia s"
  by (induction n) (simp_all add: is_space_def)

lemma SkipTrivia_LF [simp]: "SkipTrivia (CHR 0x0A # s) = SkipTrivia s"
  by (simp add: is_space_def)

lemma SkipTrivia_id: "\<not> is_space c \<Longrightarrow> c \<noteq> CHR ''-'' \<or> s = [] \<or> hd s \<noteq> CHR ''-'' \<Longrightarrow> SkipTrivia (c # s) = c # s"
  by auto

declare SkipTrivia.simps(2) [simp del]

lemma string_body_escape:
  "string_body (CHR 0x22) acc (concat (map escape_char s) @ CHR 0x22 # r) = Some (acc @ s, r)"
  by (induction s arbitrary: acc) (auto simp: escape_char_def)

lemma ReadString_escape: "ReadString (EscapeLuauString s @ r) = Some (s, r)"
  using string_body_escape [of "[]" s r] by (simp add: ReadString_def EscapeLuauString_def)

text \<open>What follows a value: a comma, or the line that closes the table.\<close>

definition after_value :: "string \<Rightarrow> bool" where
  "after_value t \<longleftrightarrow> (\<exists>u. t = CHR '','' # u) \<or> (\<exists>n u. t = CHR 0x0A # spaces n @ CHR ''}'' # u)"

lemma after_value_cases [consumes 1, case_names comma close]:
  assumes "after_value t"
  obtains u where "t = CHR '','' # u" | n u where "t = CHR 0x0A # spaces n @ CHR ''}'' # u"
  using assms by (auto simp: after_value_def)

lemma after_value_head: "after_value t \<Longrightarrow> \<exists>c u. t = c # u \<and> \<not> IsIdentifierCharacter c \<and> ends_token c"
proof -
  have sep: "\<not> IsIdentifierCharacter (CHR '','') \<and> ends_token (CHR '','')"
    "\<not> IsIdentifierCharacter (CHR 0x0A) \<and> ends_token (CHR 0x0A)"
    by (simp_all add: IsIdentifierCharacter_def char_class_defs ends_token_def)
  assume "after_value t"
  then show ?thesis by (cases t rule: after_value_cases) (use sep in auto)
qed

lemma SkipTrivia_brace [simp]: "SkipTrivia (CHR ''}'' # s) = CHR ''}'' # s"
  by (rule SkipTrivia_id) (simp_all add: is_space_def)

lemma SkipTrivia_comma [simp]: "SkipTrivia (CHR '','' # s) = CHR '','' # s"
  by (rule SkipTrivia_id) (simp_all add: is_space_def)

lemma after_value_no_assign: "after_value t \<Longrightarrow> Consume (CHR ''='') (SkipTrivia t) = None"
  by (cases t rule: after_value_cases) (simp_all add: Consume_def)

lemma ConsumeKeyword_after: "after_value t \<Longrightarrow> ConsumeKeyword kw (kw @ t) = Some t"
  using after_value_head [of t] by (auto simp: ConsumeKeyword_def)

lemma ConsumeKeyword_other: "s \<noteq> [] \<Longrightarrow> kw \<noteq> [] \<Longrightarrow> hd s \<noteq> hd kw \<Longrightarrow> ConsumeKeyword kw s = None"
  by (cases s; cases kw) (auto simp: ConsumeKeyword_def)

lemma first_char_digit: "\<exists>c ds. nat_string n = c # ds \<and> is_digit c"
  using nat_string_digits [of n] nat_string_nonempty [of n] by (cases "nat_string n") auto

lemma int_string_token:
  "\<exists>c ds. int_string i = c # ds \<and> (is_digit c \<or> c = CHR ''-'') \<and> (c = CHR ''-'' \<longrightarrow> ds \<noteq> [] \<and> is_digit (hd ds)) \<and>
    (\<forall>d \<in> set (c # ds). \<not> ends_token d)"
proof -
  have dig: "is_digit d \<Longrightarrow> \<not> ends_token d \<and> d \<noteq> CHR ''-''" for d
    by (auto simp: ends_token_def char_class_defs)
  have all: "\<forall>d \<in> set (nat_string n). is_digit d" for n using nat_string_digits [of n] by (simp add: list_all_iff)
  have minus: "\<not> ends_token (CHR ''-'')" by (simp add: ends_token_def char_class_defs)
  show ?thesis
  proof (cases "i < 0")
    case True
    obtain c ds where "nat_string (nat (- i)) = c # ds" "is_digit c" using first_char_digit by blast
    then show ?thesis using True minus all [of "nat (- i)"] dig by (auto simp: int_string_def)
  next
    case False
    obtain c ds where "nat_string (nat i) = c # ds" "is_digit c" using first_char_digit by blast
    then show ?thesis using False all [of "nat i"] dig by (auto simp: int_string_def)
  qed
qed

lemma stoll_int_string:
  assumes "-9223372036854775808 \<le> i" "i \<le> 9223372036854775807"
  shows "stoll (int_string i) = Some i"
proof (cases "i < 0")
  case True
  then show ?thesis using assms by (simp add: stoll_def int_string_def Let_def nat_string_digits)
next
  case False
  obtain c ds where c: "nat_string (nat i) = c # ds" "is_digit c" using first_char_digit by blast
  then have "c \<noteq> CHR ''-''" "c \<noteq> CHR ''+''" by (auto simp: is_digit_def)
  moreover have "digits_value (c # ds) = nat i" "list_all is_digit (c # ds)"
    using digits_value_nat_string [of "nat i"] nat_string_digits [of "nat i"] c by simp_all
  ultimately show ?thesis using False assms by (simp add: stoll_def int_string_def c Let_def)
qed

lemma takeWhile_token:
  "\<forall>d \<in> set tok. \<not> ends_token d \<Longrightarrow> after_value t \<Longrightarrow>
   takeWhile (\<lambda>c. \<not> ends_token c) (tok @ t) = tok \<and> dropWhile (\<lambda>c. \<not> ends_token c) (tok @ t) = t"
  using after_value_head [of t] by (auto simp: takeWhile_append2 dropWhile_append2)

lemma ReadScalar_int:
  assumes "json_ok (JInt i)" "after_value t"
  shows "ReadScalar (int_string i @ t) = Some (JInt i, t)"
proof -
  obtain c ds where c: "int_string i = c # ds" "is_digit c \<or> c = CHR ''-''" "\<forall>d \<in> set (int_string i). \<not> ends_token d"
    using int_string_token [of i] by metis
  then have "c \<noteq> CHR ''t''" "c \<noteq> CHR ''f''" "c \<noteq> CHR ''n''" by (auto simp: is_digit_def)
  then have "ReadBoolean (int_string i @ t) = None" "ConsumeKeyword ''nil'' (int_string i @ t) = None"
    by (simp_all add: ReadBoolean_def c ConsumeKeyword_other)
  then show ?thesis
    using takeWhile_token [OF c(3) assms(2)] assms(1) stoll_int_string [of i] c(1)
    by (simp add: ReadScalar_def Let_def)
qed

lemma ReadScalar_words:
  assumes "after_value t"
  shows "ReadScalar (''true'' @ t) = Some (JBool True, t)" "ReadScalar (''false'' @ t) = Some (JBool False, t)"
    "ReadScalar (''nil'' @ t) = Some (JNull, t)"
  using ConsumeKeyword_after [OF assms, of "''true''"] ConsumeKeyword_after [OF assms, of "''false''"]
    ConsumeKeyword_after [OF assms, of "''nil''"] ConsumeKeyword_other [of "''false'' @ t" "''true''"]
    ConsumeKeyword_other [of "''nil'' @ t" "''true''"] ConsumeKeyword_other [of "''nil'' @ t" "''false''"]
  by (simp_all add: ReadScalar_def ReadBoolean_def)

text \<open>How a serialized value starts: the readers tell it from a key, and no comment opens before it.\<close>

lemma Serialize_start:
  "\<exists>c s. SerializeValue v n = c # s \<and> \<not> is_space c \<and> (c \<noteq> CHR ''-'' \<or> s \<noteq> [] \<and> hd s \<noteq> CHR ''-'')"
proof (cases v)
  case (JInt i)
  obtain c ds where "int_string i = c # ds" "is_digit c \<or> c = CHR ''-''" "c = CHR ''-'' \<longrightarrow> ds \<noteq> [] \<and> is_digit (hd ds)"
    using int_string_token [of i] by metis
  then show ?thesis using JInt by (auto simp: char_class_defs)
next
  case (JBool b)
  then show ?thesis by (cases b) (auto simp: is_space_def)
qed (auto simp: EscapeLuauString_def is_space_def)

lemma SkipTrivia_Serialize [simp]: "SkipTrivia (SerializeValue v n @ t) = SerializeValue v n @ t"
  using Serialize_start [of v n] by (auto simp: SkipTrivia_id)

lemma ReadKey_none: "\<not> IsIdentifierStart c \<Longrightarrow> c \<noteq> CHR ''['' \<Longrightarrow> ReadKey (c # s) = None"
  by (simp add: ReadKey_def Consume_def)

lemma ReadKey_word:
  assumes "IsIdentifierStart c" "list_all IsIdentifierCharacter w" "after_value t"
  shows "ReadKey (c # w @ t) = Some (c # w, t)"
  using assms after_value_head [of t] by (auto simp: ReadKey_def list_all_iff takeWhile_append2 dropWhile_append2)

lemma read_assign_word:
  "IsIdentifierStart c \<Longrightarrow> list_all IsIdentifierCharacter w \<Longrightarrow> after_value t \<Longrightarrow> read_assign (c # w @ t) = None"
  by (simp add: read_assign_def ReadKey_word after_value_no_assign)

lemma read_assign_Serialize:
  assumes "after_value t"
  shows "read_assign (SerializeValue v n @ t) = None"
proof -
  have other: "\<not> IsIdentifierStart c \<Longrightarrow> c \<noteq> CHR ''['' \<Longrightarrow> read_assign (c # s) = None" for c s
    by (simp add: read_assign_def ReadKey_none)
  have words: "read_assign (''true'' @ t) = None" "read_assign (''false'' @ t) = None" "read_assign (''nil'' @ t) = None"
    using read_assign_word [OF _ _ assms, of "CHR ''t''" "''rue''"] read_assign_word [OF _ _ assms, of "CHR ''f''" "''alse''"]
      read_assign_word [OF _ _ assms, of "CHR ''n''" "''il''"]
    by (simp_all add: IsIdentifierStart_def IsIdentifierCharacter_def char_class_defs)
  show ?thesis
  proof (cases v)
    case (JInt i)
    obtain c ds where c: "int_string i = c # ds" "is_digit c \<or> c = CHR ''-''" using int_string_token [of i] by metis
    then have "\<not> IsIdentifierStart c" "c \<noteq> CHR ''[''" by (auto simp: IsIdentifierStart_def char_class_defs)
    then show ?thesis using JInt c other by simp
  next
    case (JBool b)
    then show ?thesis using words by (cases b) simp_all
  qed (use words other in \<open>simp_all add: EscapeLuauString_def IsIdentifierStart_def char_class_defs\<close>)
qed

definition key_text :: "string \<Rightarrow> string" where
  "key_text k = ''['' @ EscapeLuauString k @ ''] = ''"

lemma ReadKey_key_text: "ReadKey (key_text k @ s) = Some (k, '' = '' @ s)"
proof -
  have q: "SkipTrivia (EscapeLuauString k @ u) = EscapeLuauString k @ u" for u
    by (simp add: EscapeLuauString_def SkipTrivia_id is_space_def)
  have "SkipTrivia (CHR '']'' # u) = CHR '']'' # u" for u by (rule SkipTrivia_id) (simp_all add: is_space_def)
  then show ?thesis
    using ReadString_escape [of k "''] = '' @ s"] q [of "''] = '' @ s"]
    by (simp add: ReadKey_def key_text_def Consume_def IsIdentifierStart_def char_class_defs)
qed

lemma SkipTrivia_equals [simp]: "SkipTrivia (CHR ''='' # s) = CHR ''='' # s"
  by (rule SkipTrivia_id) (simp_all add: is_space_def)

lemma SkipTrivia_blank [simp]: "SkipTrivia (CHR '' '' # s) = SkipTrivia s"
  by (simp add: is_space_def)

lemma SkipTrivia_key_text [simp]: "SkipTrivia (key_text k @ s) = key_text k @ s"
  by (simp add: key_text_def SkipTrivia_id is_space_def)

lemma Consume_key_text [simp]: "Consume (CHR ''}'') (key_text k @ s) = None"
  by (simp add: key_text_def Consume_def)

lemma read_assign_key_text: "read_assign (key_text k @ s) = Some (k, CHR '' '' # s)"
  by (simp add: read_assign_def ReadKey_key_text Consume_def)

lemma read_separator_comma [simp]: "read_separator (CHR '','' # s) = Some s"
  by (simp add: read_separator_def Consume_def)

lemma read_separator_close [simp]: "read_separator (CHR 0x0A # spaces n @ CHR ''}'' # s) = Some (CHR ''}'' # s)"
  by (simp add: read_separator_def Consume_def)

lemma Consume_brace_Serialize [simp]: "Consume (CHR ''}'') (SerializeValue v n @ t) = None"
proof (cases v)
  case (JInt i)
  obtain c ds where "int_string i = c # ds" "is_digit c \<or> c = CHR ''-''" using int_string_token [of i] by metis
  moreover from this have "c \<noteq> CHR ''}''" by (auto simp: is_digit_def)
  ultimately show ?thesis using JInt by (simp add: Consume_def)
qed (auto simp: Consume_def EscapeLuauString_def)

text \<open>The lines of an array and of an object, from the end of the line before them.\<close>

definition array_lines :: "nat \<Rightarrow> json list \<Rightarrow> string \<Rightarrow> string" where
  "array_lines n vs t = CHR 0x0A # separated (map (\<lambda>v. spaces (n + 4) @ SerializeValue v (n + 4)) vs) @
     CHR 0x0A # spaces n @ CHR ''}'' # t"

definition object_lines :: "nat \<Rightarrow> (string \<times> json) list \<Rightarrow> string \<Rightarrow> string" where
  "object_lines n kvs t =
     CHR 0x0A # separated (map (\<lambda>kv. spaces (n + 4) @ key_text (fst kv) @ SerializeValue (snd kv) (n + 4)) kvs) @
     CHR 0x0A # spaces n @ CHR ''}'' # t"

definition reads_back :: "json \<Rightarrow> bool" where
  "reads_back v \<longleftrightarrow> (\<forall>n t. after_value t \<longrightarrow> ReadValue (SerializeValue v n @ t) = Some (v, t))"

lemma after_value_close [simp]: "after_value (CHR 0x0A # spaces n @ CHR ''}'' # t)"
  by (auto simp: after_value_def)

lemma after_value_comma [simp]: "after_value (CHR '','' # t)"
  by (auto simp: after_value_def)

lemma table_entry_value: "reads_back v \<Longrightarrow> after_value t \<Longrightarrow> table_entry (SerializeValue v n @ t) = Some (None, v, t)"
  by (simp add: table_entry_def read_assign_Serialize reads_back_def)

lemma table_entry_key: "reads_back v \<Longrightarrow> after_value t \<Longrightarrow> table_entry (key_text k @ SerializeValue v n @ t) = Some (Some k, v, t)"
  by (simp add: table_entry_def read_assign_key_text reads_back_def)

lemma table_loop_close: "\<not> (hk \<and> ha) \<Longrightarrow>
   table_loop (CHR ''}'' # t) ob ar hk ha = Some (if \<not> ha \<or> hk then JObject ob else JArray ar, t)"
  by (auto simp: table_loop_eq [of "CHR ''}'' # t"] Consume_def)

lemma table_loop_array:
  "vs \<noteq> [] \<Longrightarrow> \<forall>v \<in> set vs. reads_back v \<Longrightarrow> table_loop (array_lines n vs t) ob ar False ha = Some (JArray (ar @ vs), t)"
proof (induction vs arbitrary: ar ha rule: induct_list012)
  case (2 v)
  then show ?case
    by (simp add: array_lines_def table_loop_eq [of "CHR 0x0A # _"] table_entry_value table_loop_close)
next
  case (3 v w vs)
  have "array_lines n (v # w # vs) t =
      CHR 0x0A # spaces (n + 4) @ SerializeValue v (n + 4) @ CHR '','' # array_lines n (w # vs) t"
    by (simp add: array_lines_def)
  then show ?case
    using 3 by (simp add: table_loop_eq [of "CHR 0x0A # _"] table_entry_value)
qed simp

lemma table_loop_object:
  "\<forall>kv \<in> set kvs. reads_back (snd kv) \<Longrightarrow> sorted_wrt (<) (map fst (ob @ kvs)) \<Longrightarrow>
   table_loop (object_lines n kvs t) ob [] hk False = Some (JObject (ob @ kvs), t)"
proof (induction kvs arbitrary: ob hk rule: induct_list012)
  case 1
  then show ?case by (simp add: object_lines_def table_loop_eq [of "CHR 0x0A # _"] Consume_def)
next
  case (2 kv)
  have "obj_set (fst kv) (snd kv) ob = ob @ [kv]"
    using 2 by (subst obj_set_last) (auto simp: sorted_wrt_append)
  then show ?case
    using 2 by (simp add: object_lines_def table_loop_eq [of "CHR 0x0A # _"] table_entry_key table_loop_close)
next
  case (3 kv kw kvs)
  have "object_lines n (kv # kw # kvs) t =
      CHR 0x0A # spaces (n + 4) @ key_text (fst kv) @ SerializeValue (snd kv) (n + 4) @ CHR '','' # object_lines n (kw # kvs) t"
    by (simp add: object_lines_def)
  moreover have "obj_set (fst kv) (snd kv) ob = ob @ [kv]"
    using 3 by (subst obj_set_last) (auto simp: sorted_wrt_append)
  ultimately show ?case
    using 3 by (simp add: table_loop_eq [of "CHR 0x0A # _"] table_entry_key)
qed

lemma Serialize_tables:
  "SerializeValue (JArray vs) n @ t = CHR ''{'' # array_lines n vs t"
  "SerializeValue (JObject kvs) n @ t = CHR ''{'' # object_lines n kvs t"
  by (simp_all add: array_lines_def object_lines_def key_text_def)

lemma ReadValue_Serialize: "json_ok v \<Longrightarrow> reads_back v"
proof (induction v)
  case (JArray vs)
  then have "table_loop (array_lines n vs t) [] [] False False = Some (JArray vs, t)" for n t
    using table_loop_array [of vs n t "[]" "[]" False] by (auto simp: list_all_iff)
  then show ?case
    unfolding reads_back_def Serialize_tables by (simp add: ReadValue.simps ReadTable.simps Consume_def)
next
  case (JObject kvs)
  have "\<forall>kv \<in> set kvs. reads_back (snd kv)" using JObject by (auto simp: list_all_iff)
  then have "table_loop (object_lines n kvs t) [] [] False False = Some (JObject kvs, t)" for n t
    using table_loop_object [of kvs "[]" n t False] JObject by simp
  then show ?case
    unfolding reads_back_def Serialize_tables by (simp add: ReadValue.simps ReadTable.simps Consume_def)
next
  case (JString s)
  then show ?case
    using ReadString_escape [of s] by (simp add: reads_back_def ReadValue.simps EscapeLuauString_def)
next
  case (JInt i)
  obtain c ds where c: "int_string i = c # ds" "is_digit c \<or> c = CHR ''-''" using int_string_token [of i] by metis
  then have "c \<noteq> CHR 0x27" "c \<noteq> CHR 0x22" "c \<noteq> CHR ''{''" by (auto simp: is_digit_def)
  with c JInt ReadScalar_int [of i] show ?case by (simp add: reads_back_def ReadValue.simps)
next
  case (JBool b)
  then show ?case using ReadScalar_words by (cases b) (simp_all add: reads_back_def ReadValue.simps)
next
  case JNull
  then show ?case using ReadScalar_words by (simp add: reads_back_def ReadValue.simps)
qed

lemma field_loop_eq:
  "field_loop rest document =
     (case Consume (CHR ''}'') (SkipTrivia rest) of
        Some r2 \<Rightarrow> Inr (document, r2)
      | None \<Rightarrow>
        (case ReadKey (SkipTrivia rest) of
           None \<Rightarrow> Inl ''manifest table contains an invalid key''
         | Some (key, r2) \<Rightarrow>
           (case Consume (CHR ''='') (SkipTrivia r2) of
              None \<Rightarrow> Inl ''manifest fields must use key = value syntax''
            | Some r3 \<Rightarrow>
              (case ReadValue (SkipTrivia r3) of
                 None \<Rightarrow> Inl (''manifest field '' @ [CHR 0x27] @ key @ [CHR 0x27] @ '' has an invalid value'')
               | Some (v, r4) \<Rightarrow>
                     (case read_separator r4 of
                        None \<Rightarrow> Inl ''manifest fields must be separated by commas''
                      | Some r5 \<Rightarrow> field_loop r5 (obj_set key v document))))))"
proof -
  have "length r4 < length (SkipTrivia rest)"
    if "ReadKey (SkipTrivia rest) = Some (key, r2)" "Consume (CHR ''='') (SkipTrivia r2) = Some r3"
      "ReadValue (SkipTrivia r3) = Some (v, r4)" for key r2 r3 v r4
    using ReadKey_length [OF that(1)] Consume_length [OF that(2)] ReadValue_length(1) [OF that(3)]
      length_SkipTrivia [of r2] length_SkipTrivia [of r3] by linarith
  then show ?thesis unfolding field_loop.simps [of rest] Let_def by (auto split: option.split prod.split)
qed

lemma field_loop_close: "field_loop (CHR ''}'' # t) d = Inr (d, t)"
  by (simp add: field_loop_eq [of "CHR ''}'' # t"] Consume_def)

lemma field_loop_step:
  "reads_back v \<Longrightarrow> after_value t \<Longrightarrow> read_separator t = Some u \<Longrightarrow>
   field_loop (CHR 0x0A # spaces n @ key_text k @ SerializeValue v m @ t) d = field_loop u (obj_set k v d)"
  by (simp add: field_loop_eq [of "CHR 0x0A # _"] ReadKey_key_text Consume_def [of "CHR ''=''"] reads_back_def)

lemma field_loop_object:
  "\<forall>kv \<in> set kvs. reads_back (snd kv) \<Longrightarrow> sorted_wrt (<) (map fst (d @ kvs)) \<Longrightarrow>
   field_loop (object_lines n kvs t) d = Inr (d @ kvs, t)"
proof (induction kvs arbitrary: d rule: induct_list012)
  case 1
  then show ?case by (simp add: object_lines_def field_loop_eq [of "CHR 0x0A # _"] Consume_def)
next
  case (2 kv)
  have "obj_set (fst kv) (snd kv) d = d @ [kv]"
    using 2 by (subst obj_set_last) (auto simp: sorted_wrt_append)
  then show ?case using 2 by (simp add: object_lines_def field_loop_step field_loop_close)
next
  case (3 kv kw kvs)
  have "object_lines n (kv # kw # kvs) t =
      CHR 0x0A # spaces (n + 4) @ key_text (fst kv) @ SerializeValue (snd kv) (n + 4) @ CHR '','' # object_lines n (kw # kvs) t"
    by (simp add: object_lines_def)
  moreover have "obj_set (fst kv) (snd kv) d = d @ [kv]"
    using 3 by (subst obj_set_last) (auto simp: sorted_wrt_append)
  ultimately show ?case using 3 by (simp add: field_loop_step)
qed

lemma SkipTrivia_head: "\<not> is_space c \<Longrightarrow> c \<noteq> CHR ''-'' \<Longrightarrow> SkipTrivia (c # s) = c # s"
  by (simp add: SkipTrivia_id)

lemma Parse_Serialize:
  assumes "members_ok kvs"
  shows "Parse (SerializePackageManifest (JObject kvs)) =
    (case check_document kvs of Inl e \<Rightarrow> Inl (''package.luau: '' @ e) | Inr m \<Rightarrow> Inr (m, JObject kvs))"
proof -
  have written: "SerializePackageManifest (JObject kvs) = ''return'' @ CHR '' '' # CHR ''{'' # object_lines 0 kvs [CHR 0x0A]"
    using Serialize_tables(2) [of kvs 0 "[CHR 0x0A]"] by (simp add: SerializePackageManifest_def)
  have "ConsumeKeyword ''return'' (SkipTrivia (''return'' @ CHR '' '' # s)) = Some (CHR '' '' # s)" for s
    by (simp add: SkipTrivia_head is_space_def ConsumeKeyword_def IsIdentifierCharacter_def char_class_defs)
  moreover have "Consume (CHR ''{'') (SkipTrivia (CHR '' '' # CHR ''{'' # s)) = Some s" for s
    by (simp add: SkipTrivia_head is_space_def Consume_def)
  moreover have "field_loop (object_lines 0 kvs [CHR 0x0A]) [] = Inr (kvs, [CHR 0x0A])"
    using assms field_loop_object [of kvs "[]" 0 "[CHR 0x0A]"] ReadValue_Serialize
    by (auto simp: members_ok_def list_all_iff)
  ultimately show ?thesis by (simp add: Parse_def written split: sum.split)
qed

lemma Parse_ok:
  assumes "Parse source = Inr (m, d)"
  shows "\<exists>kvs. d = JObject kvs \<and> members_ok kvs \<and> check_document kvs = Inr m"
proof -
  from assms obtain r2 kvs r3 where "field_loop r2 [] = Inr (kvs, r3)" "check_document kvs = Inr m" "d = JObject kvs"
    by (auto simp: Parse_def split: option.splits sum.splits prod.splits if_splits)
  moreover from this have "members_ok kvs" using field_loop_ok [of r2 "[]" kvs r3] by (simp add: members_ok_def)
  ultimately show ?thesis by blast
qed

lemma demo_manifest:
  "Parse (''return { version = '' @ [CHR 0x27, CHR ''1'', CHR 0x27] @ '', name = '' @ [CHR 0x22, CHR ''a'', CHR 0x22] @ '' } -- end'') =
     Inr (\<lparr>pm_name = ''a'', pm_version = ''1'', hasImplementation = False,
           pm_implementation = \<lparr>artifact = [], layout = [], impl_required = False\<rparr>\<rparr>,
          JObject [(''name'', JString ''a''), (''version'', JString ''1'')])"
  by code_simp

section \<open>Properties\<close>

text \<open>C10. The serializer and the static parser agree: a manifest that was read from any source text and is
  written back is read again as the same document with the same fields, whatever the layout, the
  comments, the quoting and the order of the fields of the original text were.\<close>

theorem manifest_roundtrip:
  assumes "Parse source = Inr (m, d)"
  shows "Parse (SerializePackageManifest d) = Inr (m, d)"
  using Parse_ok [OF assms] Parse_Serialize by fastforce

theorem manifest_roundtrip_witness:
  "Parse (SerializePackageManifest (JObject [(''name'', JString ''a''), (''version'', JString ''1'')])) =
     Inr (\<lparr>pm_name = ''a'', pm_version = ''1'', hasImplementation = False,
           pm_implementation = \<lparr>artifact = [], layout = [], impl_required = False\<rparr>\<rparr>,
          JObject [(''name'', JString ''a''), (''version'', JString ''1'')])"
  by (rule manifest_roundtrip [OF demo_manifest])



text \<open>C33. The reader of values always advances: a value it returns left strictly less input than there
  was, so the loops over table entries and manifest fields terminate on every source text, and the value
  has sorted, distinct keys and integers in range.\<close>

theorem ReadValue_progress:
  assumes "ReadValue s = Some (v, r)"
  shows "length r < length s \<and> json_ok v"
  using ReadValue_length(1) [OF assms] ReadValue_ok(1) [OF assms] by simp

theorem ReadValue_progress_witness:
  "length ('', x'') < length ('' { 1, 2 }, x'') \<and> json_ok (JArray [JInt 1, JInt 2])"
proof -
  have "ReadValue ''{ 1, 2 }, x'' = Some (JArray [JInt 1, JInt 2], '', x'')" by code_simp
  from ReadValue_progress [OF this] show ?thesis by simp
qed

text \<open>A manifest that is accepted names a package: its name and version are the non-empty strings of the
  document, and a declared implementation has a non-empty artifact, the package name when none is given.\<close>

theorem manifest_fields:
  assumes "Parse source = Inr (m, d)"
  shows "\<exists>kvs. d = JObject kvs \<and> map_of kvs ''name'' = Some (JString (pm_name m)) \<and>
    map_of kvs ''version'' = Some (JString (pm_version m)) \<and> pm_name m \<noteq> [] \<and> pm_version m \<noteq> [] \<and>
    hasImplementation m = (map_of kvs ''implementation'' \<noteq> None) \<and>
    (hasImplementation m \<longrightarrow> artifact (pm_implementation m) \<noteq> [])"
proof -
  from Parse_ok [OF assms] obtain kvs where d: "d = JObject kvs" and c: "check_document kvs = Inr m" by blast
  have str: "read_string_field kvs f = Inr x \<longleftrightarrow> map_of kvs f = Some (JString x)" for f x
    by (auto simp: read_string_field_def obj_get_def split: option.split json.split)
  from c obtain name version where f: "map_of kvs ''name'' = Some (JString name)" "map_of kvs ''version'' = Some (JString version)"
    "name \<noteq> []" "version \<noteq> []"
    by (auto simp: check_document_def str [symmetric] split: sum.splits if_splits)
  then have nv: "read_string_field kvs ''name'' = Inr name" "read_string_field kvs ''version'' = Inr version"
    by (simp_all add: str)
  have impl: "read_implementation name i = Inr ci \<Longrightarrow> artifact ci \<noteq> []" for i ci
    using f(3) by (auto simp: read_implementation_def split: json.splits sum.splits option.splits if_splits)
  show ?thesis
  proof (cases "map_of kvs ''implementation''")
    case None
    then show ?thesis using c d f nv by (auto simp: check_document_def obj_get_def Let_def)
  next
    case (Some i)
    then show ?thesis using c d f nv impl by (auto simp: check_document_def obj_get_def Let_def split: sum.splits)
  qed
qed

theorem manifest_fields_witness:
  "\<exists>kvs. JObject [(''name'', JString ''a''), (''version'', JString ''1'')] = JObject kvs \<and> map_of kvs ''name'' = Some (JString ''a'')"
  using manifest_fields [OF demo_manifest] by auto

end
