(* ===== verification/Lode_Signal.thy ===== *)
theory Lode_Signal
  imports Lode_Value
begin

text \<open>
  The event emitter of native modules, \<open>Signal.cpp\<close>. A connection is an object of its own, which the
  registry, a running \<open>Fire\<close> and a pending timeout share, so the state has a heap of connection
  objects besides the registry; the registry is the ordered map from ids to objects, kept as the list
  of its ids. The calls to \<open>Task\<close> (spawn a callback now, defer the resumption of a waiting thread, set
  and clear a timeout) are appended to a trace. Callbacks run inside \<open>Fire\<close> and may use the signal
  again: the environment says what they do to it. Ids are natural numbers; the 64-bit counter of the
  code would have to hand out an id for every nanosecond of five centuries to wrap.
\<close>

section \<open>State\<close>

record Waiter =
  withTimeout :: bool
  timerId :: int
  w_resumed :: bool

record Connection =
  conn_callback :: nat
  conn_once :: bool
  conn_connected :: bool
  conn_waiter :: "Waiter option"

datatype sig_effect =
    Spawn nat "lvalue list"
  | Defer nat "lvalue list"
  | ResumeThread nat
  | SetTimeout int nat nat
  | ClearTimeout int

record Signal =
  destroyed :: bool
  nextId :: nat
  connections :: "nat list"
  heap :: "nat \<Rightarrow> Connection option"
  sig_trace :: "sig_effect list"

record sig_env =
  callback_code :: "sig_effect \<Rightarrow> Signal \<Rightarrow> Signal"
  new_timer :: "Signal \<Rightarrow> int"
  sig_mult :: "rat \<Rightarrow> rat \<Rightarrow> double"

definition Signal_new :: Signal where
  "Signal_new = \<lparr>destroyed = False, nextId = 1, connections = [], heap = (\<lambda>_. None), sig_trace = []\<rparr>"

definition note_effect :: "sig_effect list \<Rightarrow> Signal \<Rightarrow> Signal" where
  "note_effect es s = s\<lparr>sig_trace := sig_trace s @ es\<rparr>"

definition run_callback :: "sig_env \<Rightarrow> sig_effect \<Rightarrow> Signal \<Rightarrow> Signal" where
  "run_callback env e s = callback_code env e (note_effect [e] s)"

section \<open>Operations\<close>

text \<open>A callback is \<^const>\<open>Some\<close> Luau function, or \<^const>\<open>None\<close> for a value that is not a function.\<close>

definition AddConnection :: "nat option \<Rightarrow> bool \<Rightarrow> Signal \<Rightarrow> (string + nat) \<times> Signal" where
  "AddConnection cb once s =
     (if destroyed s then (Inl ''Signal is destroyed'', s)
      else case cb of
        None \<Rightarrow> (Inl ''Signal:Connect expects a function callback'', s)
      | Some f \<Rightarrow>
          (let cid = nextId s;
               conn = \<lparr>conn_callback = f, conn_once = once, conn_connected = True, conn_waiter = None\<rparr>
           in (Inr cid, s\<lparr>nextId := cid + 1, heap := (heap s)(cid \<mapsto> conn), connections := connections s @ [cid]\<rparr>)))"

definition Connect :: "nat option \<Rightarrow> Signal \<Rightarrow> (string + nat) \<times> Signal" where
  "Connect cb s = AddConnection cb False s"

definition Once :: "nat option \<Rightarrow> Signal \<Rightarrow> (string + nat) \<times> Signal" where
  "Once cb s = AddConnection cb True s"

definition clear_timer :: "Connection \<Rightarrow> sig_effect list" where
  "clear_timer conn =
     (case conn_waiter conn of
        Some w \<Rightarrow> if withTimeout w \<and> 0 \<le> timerId w then [ClearTimeout (timerId w)] else []
      | None \<Rightarrow> [])"

definition drop_connection :: "nat \<Rightarrow> Connection \<Rightarrow> Signal \<Rightarrow> Signal" where
  "drop_connection cid conn s =
     s\<lparr>heap := (heap s)(cid \<mapsto> conn\<lparr>conn_connected := False\<rparr>), connections := remove1 cid (connections s)\<rparr>"

definition Disconnect :: "nat \<Rightarrow> Signal \<Rightarrow> Signal" where
  "Disconnect cid s =
     (if cid \<notin> set (connections s) then s
      else case heap s cid of
        None \<Rightarrow> s
      | Some conn \<Rightarrow>
          if \<not> conn_connected conn then s
          else note_effect (clear_timer conn) (drop_connection cid conn s))"

definition Signal_IsConnected :: "nat \<Rightarrow> Signal \<Rightarrow> bool" where
  "Signal_IsConnected cid s \<longleftrightarrow>
     cid \<in> set (connections s) \<and> (case heap s cid of Some conn \<Rightarrow> conn_connected conn | None \<Rightarrow> False)"

definition ConnectionCount :: "Signal \<Rightarrow> nat" where
  "ConnectionCount s = length (connections s)"

definition clear_timers :: "Signal \<Rightarrow> sig_effect list" where
  "clear_timers s = concat (map (\<lambda>cid. case heap s cid of Some conn \<Rightarrow> clear_timer conn | None \<Rightarrow> []) (connections s))"

definition DisconnectAll :: "Signal \<Rightarrow> Signal" where
  "DisconnectAll s = (if destroyed s then s else (note_effect (clear_timers s) s)\<lparr>connections := []\<rparr>)"

definition Signal_Shutdown :: "Signal \<Rightarrow> Signal" where
  "Signal_Shutdown s =
     (if destroyed s then s else (note_effect (clear_timers s) (s\<lparr>destroyed := True\<rparr>))\<lparr>connections := []\<rparr>)"

text \<open>The body of the loop of \<open>Fire\<close> for one connection of the snapshot.\<close>

definition fire_connection :: "sig_env \<Rightarrow> lvalue list \<Rightarrow> nat \<Rightarrow> Signal \<Rightarrow> Signal" where
  "fire_connection env args cid s =
     (case heap s cid of
        None \<Rightarrow> s
      | Some conn \<Rightarrow>
          if \<not> conn_connected conn then s
          else (case conn_waiter conn of
             Some w \<Rightarrow>
               (let s1 = note_effect (clear_timer conn) (drop_connection cid conn s) in
                if \<not> w_resumed w
                then note_effect [Defer cid args]
                       (s1\<lparr>heap := (heap s1)(cid \<mapsto> conn\<lparr>conn_connected := False, conn_waiter := Some (w\<lparr>w_resumed := True\<rparr>)\<rparr>)\<rparr>)
                else s1)
           | None \<Rightarrow>
               run_callback env (Spawn cid args) (if conn_once conn then drop_connection cid conn s else s)))"

definition snapshot :: "Signal \<Rightarrow> nat list" where
  "snapshot s = filter (\<lambda>cid. case heap s cid of Some conn \<Rightarrow> conn_connected conn | None \<Rightarrow> False) (connections s)"

definition Fire :: "sig_env \<Rightarrow> lvalue list \<Rightarrow> Signal \<Rightarrow> Signal" where
  "Fire env args s = (if destroyed s then s else fold (fire_connection env args) (snapshot s) s)"

datatype wait_result = WaitRaised string | WaitYielded

definition Wait :: "sig_env \<Rightarrow> lvalue list \<Rightarrow> Signal \<Rightarrow> wait_result \<times> Signal" where
  "Wait env args s =
     (if destroyed s then (WaitRaised ''Signal is destroyed'', s)
      else
        let cid = nextId s;
            connect = (\<lambda>w. s\<lparr>nextId := cid + 1, connections := connections s @ [cid],
              heap := (heap s)(cid \<mapsto> \<lparr>conn_callback = 0, conn_once = True, conn_connected = True, conn_waiter = Some w\<rparr>)\<rparr>)
        in case arg args 0 of
             LNil \<Rightarrow> (WaitYielded, connect \<lparr>withTimeout = False, timerId = -1, w_resumed = False\<rparr>)
           | LNumber seconds \<Rightarrow>
               (case ToMilliseconds (sig_mult env) seconds 1000 ''Signal:Wait timeout'' of
                  Inl msg \<Rightarrow>
                    (WaitRaised msg,
                     (connect \<lparr>withTimeout = True, timerId = -1, w_resumed = False\<rparr>)\<lparr>connections := connections s\<rparr>)
                | Inr ms \<Rightarrow>
                    (let t = new_timer env s in
                     (WaitYielded,
                      note_effect [SetTimeout t ms cid] (connect \<lparr>withTimeout = True, timerId = t, w_resumed = False\<rparr>))))
           | _ \<Rightarrow> (WaitRaised ''Signal:Wait timeout must be a number or nil'', s))"

text \<open>The timeout closure that \<open>Wait\<close> hands to \<open>Task::SetTimeout\<close>, and the closure that resumes the thread.\<close>

definition TimeoutClosure :: "nat \<Rightarrow> Signal \<Rightarrow> Signal" where
  "TimeoutClosure cid s =
     (case heap s cid of
        Some conn \<Rightarrow>
          (case conn_waiter conn of
             Some w \<Rightarrow>
               if w_resumed w then s
               else note_effect [Defer cid []]
                      (Disconnect cid (s\<lparr>heap := (heap s)(cid \<mapsto> conn\<lparr>conn_waiter := Some (w\<lparr>w_resumed := True\<rparr>)\<rparr>)\<rparr>))
           | None \<Rightarrow> s)
      | None \<Rightarrow> s)"

definition ResumeClosure :: "sig_env \<Rightarrow> nat \<Rightarrow> Signal \<Rightarrow> Signal" where
  "ResumeClosure env cid s = run_callback env (ResumeThread cid) s"

section \<open>The view Luau gets\<close>

text \<open>The three functions of the frozen proxy table, whose first argument is the table itself, and the
  \<open>__index\<close> of a connection object. Function arguments are given as above.\<close>

definition PublicConnect :: "nat option list \<Rightarrow> Signal \<Rightarrow> (string + nat) \<times> Signal" where
  "PublicConnect args s =
     (if length args < 2 \<or> args ! 1 = None then (Inl ''signal:Connect expects a function callback'', s)
      else Connect (args ! 1) s)"

definition PublicOnce :: "nat option list \<Rightarrow> Signal \<Rightarrow> (string + nat) \<times> Signal" where
  "PublicOnce args s =
     (if length args < 2 \<or> args ! 1 = None then (Inl ''signal:Once expects a function callback'', s)
      else Once (args ! 1) s)"

definition PublicWait :: "sig_env \<Rightarrow> lvalue list \<Rightarrow> Signal \<Rightarrow> wait_result \<times> Signal" where
  "PublicWait env args s = Wait env (if 1 < length args then drop 1 args else []) s"

definition CreatePublic :: "Signal \<Rightarrow> string + string list" where
  "CreatePublic s = (if destroyed s then Inl ''Signal is destroyed'' else Inr [''Connect'', ''Once'', ''Wait''])"

datatype conn_field = FieldDisconnect nat | FieldValue lvalue

definition ConnectionIndex :: "nat \<Rightarrow> lvalue list \<Rightarrow> Signal \<Rightarrow> conn_field" where
  "ConnectionIndex cid args s =
     (let key = (case arg args 1 of LString k \<Rightarrow> k | _ \<Rightarrow> [])
      in if key = ''Disconnect'' then FieldDisconnect cid
         else if key = ''Connected'' then FieldValue (LBool (Signal_IsConnected cid s))
         else FieldValue LNil)"

section \<open>Steps\<close>

datatype sig_call =
    DoConnect "nat option"
  | DoOnce "nat option"
  | DoDisconnect nat
  | DoDisconnectAll
  | DoFire "lvalue list"
  | DoWait "lvalue list"
  | DoShutdown
  | DoPublicConnect "nat option list"
  | DoPublicOnce "nat option list"
  | DoPublicWait "lvalue list"

definition perform :: "sig_env \<Rightarrow> sig_call \<Rightarrow> Signal \<Rightarrow> Signal" where
  "perform env call s =
     (case call of
        DoConnect cb \<Rightarrow> snd (Connect cb s)
      | DoOnce cb \<Rightarrow> snd (Once cb s)
      | DoDisconnect cid \<Rightarrow> Disconnect cid s
      | DoDisconnectAll \<Rightarrow> DisconnectAll s
      | DoFire args \<Rightarrow> Fire env args s
      | DoWait args \<Rightarrow> snd (Wait env args s)
      | DoShutdown \<Rightarrow> Signal_Shutdown s
      | DoPublicConnect args \<Rightarrow> snd (PublicConnect args s)
      | DoPublicOnce args \<Rightarrow> snd (PublicOnce args s)
      | DoPublicWait args \<Rightarrow> snd (PublicWait env args s))"

text \<open>Callbacks that make the given calls, nested to depth \<open>n\<close>.\<close>

primrec nested :: "nat \<Rightarrow> (sig_effect \<Rightarrow> Signal \<Rightarrow> sig_call list) \<Rightarrow> sig_env \<Rightarrow> sig_env" where
  "nested 0 script base = base\<lparr>callback_code := \<lambda>e s. s\<rparr>"
| "nested (Suc n) script base = base\<lparr>callback_code := \<lambda>e s. fold (perform (nested n script base)) (script e s) s\<rparr>"

definition occurs :: "(sig_effect \<Rightarrow> bool) \<Rightarrow> Signal \<Rightarrow> nat" where
  "occurs P s = length (filter P (sig_trace s))"

definition is_spawn :: "nat \<Rightarrow> sig_effect \<Rightarrow> bool" where
  "is_spawn cid e \<longleftrightarrow> (case e of Spawn c _ \<Rightarrow> c = cid | _ \<Rightarrow> False)"

definition is_defer :: "nat \<Rightarrow> sig_effect \<Rightarrow> bool" where
  "is_defer cid e \<longleftrightarrow> (case e of Defer c _ \<Rightarrow> c = cid | _ \<Rightarrow> False)"

text \<open>Steps of the loop: a call of native or Luau code, a timeout that fires (at any time, even after it was
  cleared), a deferred resumption that runs.\<close>

inductive sig_reach :: "sig_env \<Rightarrow> Signal \<Rightarrow> bool" for env where
  create: "sig_reach env Signal_new"
| call: "sig_reach env s \<Longrightarrow> sig_reach env (perform env c s)"
| timeout: "sig_reach env s \<Longrightarrow> sig_reach env (TimeoutClosure cid s)"
| resume: "sig_reach env s \<Longrightarrow> 0 < occurs (is_defer cid) s \<Longrightarrow> sig_reach env (ResumeClosure env cid s)"

section \<open>Invariant\<close>

definition conn_inv :: "Signal \<Rightarrow> nat \<Rightarrow> Connection \<Rightarrow> bool" where
  "conn_inv s cid conn \<longleftrightarrow>
     (case conn_waiter conn of
        Some w \<Rightarrow> occurs (is_spawn cid) s = 0 \<and> occurs (is_defer cid) s = of_bool (w_resumed w)
      | None \<Rightarrow>
          occurs (is_defer cid) s = 0 \<and>
          (conn_once conn \<longrightarrow> occurs (is_spawn cid) s \<le> of_bool (\<not> conn_connected conn)))"

definition sig_inv :: "Signal \<Rightarrow> bool" where
  "sig_inv s \<longleftrightarrow>
     sorted_wrt (<) (connections s) \<and>
     (\<forall>cid \<in> set (connections s). \<exists>conn. heap s cid = Some conn \<and> conn_connected conn) \<and>
     (\<forall>cid. nextId s \<le> cid \<longrightarrow> heap s cid = None) \<and>
     (\<forall>cid. case heap s cid of
        None \<Rightarrow> occurs (is_spawn cid) s = 0 \<and> occurs (is_defer cid) s = 0
      | Some conn \<Rightarrow> conn_inv s cid conn)"

text \<open>How the state may change: objects stay, a connection never comes back, and one that is gone runs no more.\<close>

definition conn_rel :: "Signal \<Rightarrow> Signal \<Rightarrow> nat \<Rightarrow> Connection \<Rightarrow> bool" where
  "conn_rel s s' cid conn \<longleftrightarrow>
     (\<exists>conn'. heap s' cid = Some conn' \<and> conn_callback conn' = conn_callback conn \<and> conn_once conn' = conn_once conn \<and>
        (conn_waiter conn' = None) = (conn_waiter conn = None) \<and>
        (\<not> conn_connected conn \<longrightarrow> \<not> conn_connected conn' \<and> occurs (is_spawn cid) s' = occurs (is_spawn cid) s))"

definition sig_rel :: "Signal \<Rightarrow> Signal \<Rightarrow> bool" where
  "sig_rel s s' \<longleftrightarrow> nextId s \<le> nextId s' \<and> (\<forall>cid conn. heap s cid = Some conn \<longrightarrow> conn_rel s s' cid conn)"

definition sig_ok :: "Signal \<Rightarrow> Signal \<Rightarrow> bool" where
  "sig_ok s s' \<longleftrightarrow> sig_inv s' \<and> sig_rel s s'"

lemma occurs_note [simp]: "occurs P (note_effect es s) = occurs P s + length (filter P es)"
  by (simp add: occurs_def note_effect_def)

lemma note_simps [simp]:
  "heap (note_effect es s) = heap s" "connections (note_effect es s) = connections s"
  "nextId (note_effect es s) = nextId s" "destroyed (note_effect es s) = destroyed s"
  by (simp_all add: note_effect_def)

lemma occurs_update [simp]:
  "occurs P (s\<lparr>heap := h\<rparr>) = occurs P s" "occurs P (s\<lparr>connections := cs\<rparr>) = occurs P s"
  "occurs P (s\<lparr>nextId := n\<rparr>) = occurs P s" "occurs P (s\<lparr>destroyed := d\<rparr>) = occurs P s"
  by (simp_all add: occurs_def)

lemma drop_simps [simp]:
  "occurs P (drop_connection cid conn s) = occurs P s" "nextId (drop_connection cid conn s) = nextId s"
  "connections (drop_connection cid conn s) = remove1 cid (connections s)"
  "heap (drop_connection cid conn s) = (heap s)(cid \<mapsto> conn\<lparr>conn_connected := False\<rparr>)"
  by (simp_all add: drop_connection_def)

lemma clear_timer_quiet [simp]:
  "filter (is_spawn cid) (clear_timer conn) = []" "filter (is_defer cid) (clear_timer conn) = []"
  by (auto simp: clear_timer_def is_spawn_def is_defer_def split: option.split)

lemma clear_timers_quiet [simp]:
  "filter (is_spawn cid) (clear_timers s) = []" "filter (is_defer cid) (clear_timers s) = []"
  by (auto simp: clear_timers_def filter_concat filter_empty_conv split: option.splits dest: arg_cong [where f = set])
     (auto simp: clear_timer_def is_spawn_def is_defer_def split: option.splits if_splits)

lemma sig_rel_refl [simp]: "sig_rel s s"
  by (simp add: sig_rel_def conn_rel_def)

lemma sig_rel_trans:
  assumes "sig_rel a b" "sig_rel b c"
  shows "sig_rel a c"
  unfolding sig_rel_def
proof (intro conjI allI impI)
  show "nextId a \<le> nextId c" using assms by (simp add: sig_rel_def)
  fix cid conn
  assume "heap a cid = Some conn"
  with assms(1) have ab: "conn_rel a b cid conn" by (simp add: sig_rel_def)
  then obtain conn' where "heap b cid = Some conn'" by (auto simp: conn_rel_def)
  with assms(2) have "conn_rel b c cid conn'" by (simp add: sig_rel_def)
  with ab \<open>heap b cid = Some conn'\<close> show "conn_rel a c cid conn" by (auto simp: conn_rel_def)
qed

lemma sig_ok_trans: "sig_ok a b \<Longrightarrow> sig_ok b c \<Longrightarrow> sig_ok a c"
  by (auto simp: sig_ok_def intro: sig_rel_trans)

lemma sig_ok_refl: "sig_inv s \<Longrightarrow> sig_ok s s"
  by (simp add: sig_ok_def)

lemma sig_inv_new: "sig_inv Signal_new"
  by (simp add: sig_inv_def Signal_new_def occurs_def)

lemma sig_inv_object: "sig_inv s \<Longrightarrow> heap s cid = Some conn \<Longrightarrow> conn_inv s cid conn \<and> cid < nextId s"
  unfolding sig_inv_def by (metis leI option.simps(3) option.simps(5))

lemma sig_inv_fresh: "sig_inv s \<Longrightarrow> heap s (nextId s) = None \<and> occurs (is_spawn (nextId s)) s = 0 \<and> occurs (is_defer (nextId s)) s = 0"
  unfolding sig_inv_def by (metis order_refl option.simps(4))

lemma sig_inv_none: "sig_inv s \<Longrightarrow> heap s cid = None \<Longrightarrow> occurs (is_spawn cid) s = 0 \<and> occurs (is_defer cid) s = 0"
  unfolding sig_inv_def by (metis option.simps(4))

lemma sorted_remove1_lt: "sorted_wrt (<) (xs :: nat list) \<Longrightarrow> sorted_wrt (<) (remove1 x xs) \<and> x \<notin> set (remove1 x xs)"
  by (induction xs) auto

text \<open>Changing one object, and adding one.\<close>

lemma conn_inv_cong:
  "occurs (is_spawn cid) s' = occurs (is_spawn cid) s \<Longrightarrow> occurs (is_defer cid) s' = occurs (is_defer cid) s \<Longrightarrow>
   conn_inv s' cid conn = conn_inv s cid conn"
  unfolding conn_inv_def by (cases "conn_waiter conn") auto

lemma change_ok:
  assumes inv: "sig_inv s" and h: "heap s cid = Some conn" and h': "heap s' = (heap s)(cid \<mapsto> conn')" and n: "nextId s' = nextId s"
    and cs: "sorted_wrt (<) (connections s')" "set (connections s') \<subseteq> set (connections s)" "cid \<in> set (connections s') \<longrightarrow> conn_connected conn'"
    and occ: "\<And>c. c \<noteq> cid \<Longrightarrow> occurs (is_spawn c) s' = occurs (is_spawn c) s \<and> occurs (is_defer c) s' = occurs (is_defer c) s"
    and ci: "conn_inv s' cid conn'" and rel: "conn_rel s s' cid conn"
  shows "sig_ok s s'"
proof -
  have "sig_inv s'" unfolding sig_inv_def
  proof (intro conjI ballI allI impI)
    fix c
    assume "c \<in> set (connections s')"
    then show "\<exists>conn. heap s' c = Some conn \<and> conn_connected conn"
      using inv cs h' by (cases "c = cid") (auto simp: sig_inv_def)
  next
    fix c
    assume "nextId s' \<le> c"
    then show "heap s' c = None" using inv n h h' sig_inv_object [OF inv h] by (auto simp: sig_inv_def)
  next
    fix c
    show "case heap s' c of None \<Rightarrow> occurs (is_spawn c) s' = 0 \<and> occurs (is_defer c) s' = 0 | Some conn \<Rightarrow> conn_inv s' c conn"
    proof (cases "c = cid")
      case False
      then have "heap s' c = heap s c" using h' by simp
      then show ?thesis
        using occ [OF False] conn_inv_cong [of c s' s] sig_inv_none [OF inv, of c] sig_inv_object [OF inv, of c]
        by (cases "heap s c") simp_all
    qed (use h' ci in simp)
  qed (rule cs(1))
  moreover have "conn_rel s s' c k" if "heap s c = Some k" for c k
  proof (cases "c = cid")
    case False
    then show ?thesis using that h' occ [OF False] by (auto simp: conn_rel_def)
  qed (use that h rel in simp)
  ultimately show ?thesis using n by (simp add: sig_ok_def sig_rel_def)
qed

lemma add_ok:
  assumes inv: "sig_inv s" and h': "heap s' = (heap s)(nextId s \<mapsto> conn)" and n: "nextId s' = nextId s + 1"
    and cs: "connections s' = connections s @ [nextId s] \<or> connections s' = connections s"
    and occ: "\<And>c. occurs (is_spawn c) s' = occurs (is_spawn c) s \<and> occurs (is_defer c) s' = occurs (is_defer c) s"
    and c: "conn_connected conn" "\<And>w. conn_waiter conn = Some w \<Longrightarrow> \<not> w_resumed w"
  shows "sig_ok s s'"
proof -
  note fresh = sig_inv_fresh [OF inv]
  have below: "cid < nextId s" if "cid \<in> set (connections s)" for cid
    using that inv sig_inv_object [OF inv] by (auto simp: sig_inv_def)
  have "sig_inv s'" unfolding sig_inv_def
  proof (intro conjI ballI allI impI)
    show "sorted_wrt (<) (connections s')" using inv cs below by (auto simp: sig_inv_def sorted_wrt_append)
  next
    fix cid
    assume "cid \<in> set (connections s')"
    then show "\<exists>conn. heap s' cid = Some conn \<and> conn_connected conn"
      using inv cs h' c below by (auto simp: sig_inv_def)
  next
    fix cid
    assume "nextId s' \<le> cid"
    then show "heap s' cid = None" using inv n h' by (auto simp: sig_inv_def)
  next
    fix cid
    show "case heap s' cid of None \<Rightarrow> occurs (is_spawn cid) s' = 0 \<and> occurs (is_defer cid) s' = 0 | Some conn \<Rightarrow> conn_inv s' cid conn"
    proof (cases "cid = nextId s")
      case True
      then show ?thesis using h' occ fresh c by (auto simp: conn_inv_def split: option.split)
    next
      case False
      then show ?thesis
        using h' occ conn_inv_cong [of cid s' s] sig_inv_none [OF inv, of cid] sig_inv_object [OF inv, of cid]
        by (cases "heap s cid") simp_all
    qed
  qed
  moreover have "conn_rel s s' cid k" if "heap s cid = Some k" for cid k
    using that h' occ fresh by (auto simp: conn_rel_def)
  ultimately show ?thesis using n by (simp add: sig_ok_def sig_rel_def)
qed

lemma AddConnection_ok: "sig_inv s \<Longrightarrow> sig_ok s (snd (AddConnection cb once s))"
  by (cases cb) (auto simp: AddConnection_def Let_def sig_ok_refl intro: add_ok)

lemma Wait_ok: "sig_inv s \<Longrightarrow> sig_ok s (snd (Wait env args s))"
  by (auto simp: Wait_def Let_def sig_ok_refl is_spawn_def is_defer_def split: lvalue.split sum.split intro!: add_ok)

lemma drop_ok:
  assumes "sig_inv s" "heap s cid = Some conn" "conn_connected conn"
  shows "sig_ok s (note_effect (clear_timer conn) (drop_connection cid conn s))" "sig_ok s (drop_connection cid conn s)"
proof -
  have sorted: "sorted_wrt (<) (remove1 cid (connections s))" "cid \<notin> set (remove1 cid (connections s))"
    using sorted_remove1_lt assms(1) by (auto simp: sig_inv_def)
  have ci: "conn_inv s cid (conn\<lparr>conn_connected := False\<rparr>)"
    using sig_inv_object [OF assms(1,2)] assms(3) by (auto simp: conn_inv_def split: option.splits)
  show "sig_ok s (note_effect (clear_timer conn) (drop_connection cid conn s))"
    by (rule change_ok [OF assms(1,2)])
       (use sorted ci assms(3) set_remove1_subset [of cid "connections s"] in \<open>auto simp: conn_rel_def conn_inv_def split: option.splits\<close>)
  show "sig_ok s (drop_connection cid conn s)"
    by (rule change_ok [OF assms(1,2)])
       (use sorted ci assms(3) set_remove1_subset [of cid "connections s"] in \<open>auto simp: conn_rel_def conn_inv_def split: option.splits\<close>)
qed

lemma Disconnect_ok: "sig_inv s \<Longrightarrow> sig_ok s (Disconnect cid s)"
  by (auto simp: Disconnect_def sig_ok_refl split: option.split intro: drop_ok)

lemma forget_ok:
  assumes inv: "sig_inv s" and h: "heap s' = heap s" and n: "nextId s' = nextId s"
    and cs: "connections s' = [] \<or> connections s' = connections s"
    and occ: "\<And>c. occurs (is_spawn c) s' = occurs (is_spawn c) s \<and> occurs (is_defer c) s' = occurs (is_defer c) s"
  shows "sig_ok s s'"
proof -
  have "case heap s' c of None \<Rightarrow> occurs (is_spawn c) s' = 0 \<and> occurs (is_defer c) s' = 0 | Some conn \<Rightarrow> conn_inv s' c conn" for c
    using h occ [of c] conn_inv_cong [of c s' s] sig_inv_none [OF inv, of c] sig_inv_object [OF inv, of c]
    by (cases "heap s c") simp_all
  then have "sig_inv s'" using inv cs h n by (auto simp: sig_inv_def)
  then show ?thesis using h n occ by (auto simp: sig_ok_def sig_rel_def conn_rel_def)
qed

lemma DisconnectAll_ok: "sig_inv s \<Longrightarrow> sig_ok s (DisconnectAll s) \<and> sig_ok s (Signal_Shutdown s)"
  by (auto simp: DisconnectAll_def Signal_Shutdown_def sig_ok_refl intro!: forget_ok)

lemma TimeoutClosure_ok:
  assumes "sig_inv s"
  shows "sig_ok s (TimeoutClosure cid s)"
proof (cases "heap s cid")
  case (Some conn)
  show ?thesis
  proof (cases "conn_waiter conn")
    case w: (Some w)
    show ?thesis
    proof (cases "w_resumed w")
      case False
      let ?conn = "conn\<lparr>conn_waiter := Some (w\<lparr>w_resumed := True\<rparr>)\<rparr>"
      let ?s = "s\<lparr>heap := (heap s)(cid \<mapsto> ?conn)\<rparr>"
      let ?s' = "note_effect [Defer cid []] (Disconnect cid ?s)"
      define conn' where "conn' = (if cid \<in> set (connections s) \<and> conn_connected conn then ?conn\<lparr>conn_connected := False\<rparr> else ?conn)"
      have eq: "TimeoutClosure cid s = ?s'" by (simp add: TimeoutClosure_def Some w False)
      have ci: "occurs (is_spawn cid) s = 0" "occurs (is_defer cid) s = 0"
        using sig_inv_object [OF assms Some] w False by (auto simp: conn_inv_def)
      have h: "heap ?s' = (heap s)(cid \<mapsto> conn')" by (auto simp: Disconnect_def conn'_def)
      have cs: "connections ?s' = connections s \<or> connections ?s' = remove1 cid (connections s)"
        "cid \<in> set (connections ?s') \<Longrightarrow> conn_connected conn'"
        using sorted_remove1_lt assms by (auto simp: Disconnect_def conn'_def sig_inv_def Some split: if_splits)
      have occ: "occurs (is_spawn c) ?s' = occurs (is_spawn c) s \<and> occurs (is_defer c) ?s' = occurs (is_defer c) s + of_bool (c = cid)" for c
        by (auto simp: Disconnect_def is_spawn_def is_defer_def)
      show ?thesis unfolding eq
        by (rule change_ok [OF assms Some h])
           (use cs occ ci w sorted_remove1_lt [of "connections s"] assms set_remove1_subset [of cid "connections s"] in
             \<open>auto simp: conn'_def conn_inv_def conn_rel_def sig_inv_def Disconnect_def is_spawn_def is_defer_def split: if_splits\<close>)
    qed (use assms Some w in \<open>simp add: TimeoutClosure_def sig_ok_refl\<close>)
  qed (use assms Some in \<open>simp add: TimeoutClosure_def sig_ok_refl\<close>)
qed (use assms in \<open>simp add: TimeoutClosure_def sig_ok_refl\<close>)

section \<open>Callbacks\<close>

text \<open>The contract between \<open>Fire\<close> and the code it runs: callbacks go through the operations of the
  signal, so they keep the invariant and never revive a connection.\<close>

locale signal_callbacks =
  fixes env :: sig_env
  assumes callback_ok: "sig_inv s \<Longrightarrow> sig_ok s (callback_code env e s)"
begin

text \<open>An effect that is no spawn and no deferral of a connection leaves the counts alone.\<close>

lemma run_quiet:
  assumes "sig_inv s" "\<And>cid. \<not> is_spawn cid e \<and> \<not> is_defer cid e"
  shows "sig_ok s (run_callback env e s)"
proof -
  have "sig_ok s (note_effect [e] s)"
    by (rule forget_ok [OF assms(1)]) (use assms(2) in simp_all)
  moreover from this have "sig_ok (note_effect [e] s) (run_callback env e s)"
    unfolding run_callback_def by (intro callback_ok) (simp add: sig_ok_def)
  ultimately show ?thesis by (rule sig_ok_trans)
qed

lemma spawn_note_ok:
  assumes "sig_inv s" "heap s cid = Some conn" "conn_connected conn" "conn_waiter conn = None"
  shows "sig_ok s (note_effect [Spawn cid args] (if conn_once conn then drop_connection cid conn s else s))"
proof -
  let ?conn = "if conn_once conn then conn\<lparr>conn_connected := False\<rparr> else conn"
  have sorted: "sorted_wrt (<) (remove1 cid (connections s))" "cid \<notin> set (remove1 cid (connections s))"
    using sorted_remove1_lt assms(1) by (auto simp: sig_inv_def)
  have ci: "occurs (is_defer cid) s = 0" "conn_once conn \<Longrightarrow> occurs (is_spawn cid) s = 0"
    using sig_inv_object [OF assms(1,2)] assms(3,4) by (auto simp: conn_inv_def)
  show ?thesis
    by (rule change_ok [OF assms(1,2), where conn' = ?conn])
       (use assms sorted ci set_remove1_subset [of cid "connections s"] in
         \<open>auto simp: is_spawn_def is_defer_def conn_inv_def conn_rel_def sig_inv_def map_upd_triv\<close>)
qed

lemma fire_connection_ok:
  assumes "sig_inv s"
  shows "sig_ok s (fire_connection env args cid s)"
proof (cases "heap s cid")
  case (Some conn)
  show ?thesis
  proof (cases "conn_connected conn")
    case con: True
    show ?thesis
    proof (cases "conn_waiter conn")
      case None
      let ?d = "if conn_once conn then drop_connection cid conn s else s"
      have noted: "sig_ok s (note_effect [Spawn cid args] ?d)" by (rule spawn_note_ok [OF assms Some con None])
      moreover have "sig_ok (note_effect [Spawn cid args] ?d) (run_callback env (Spawn cid args) ?d)"
        unfolding run_callback_def using noted by (intro callback_ok) (simp add: sig_ok_def)
      ultimately have "sig_ok s (run_callback env (Spawn cid args) ?d)" by (rule sig_ok_trans)
      then show ?thesis by (simp add: fire_connection_def Some con None)
    next
      case (Some w)
      note w = Some and h = \<open>heap s cid = Some conn\<close>
      have sorted: "sorted_wrt (<) (remove1 cid (connections s))" "cid \<notin> set (remove1 cid (connections s))"
        using sorted_remove1_lt assms(1) by (auto simp: sig_inv_def)
      have ci: "occurs (is_spawn cid) s = 0" "occurs (is_defer cid) s = of_bool (w_resumed w)"
        using sig_inv_object [OF assms h] w by (auto simp: conn_inv_def)
      show ?thesis
      proof (cases "w_resumed w")
        case True
        then show ?thesis using drop_ok(1) [OF assms h con] by (simp add: fire_connection_def h con w)
      next
        case False
        let ?conn = "conn\<lparr>conn_connected := False, conn_waiter := Some (w\<lparr>w_resumed := True\<rparr>)\<rparr>"
        show ?thesis
          by (rule change_ok [OF assms h, where conn' = ?conn])
             (use sorted ci False w con set_remove1_subset [of cid "connections s"] in
               \<open>auto simp: fire_connection_def h Let_def is_spawn_def is_defer_def conn_inv_def conn_rel_def\<close>)
      qed
    qed
  qed (use assms Some in \<open>simp add: fire_connection_def sig_ok_refl\<close>)
qed (use assms in \<open>simp add: fire_connection_def sig_ok_refl\<close>)

lemma fold_fire_ok: "sig_inv s \<Longrightarrow> sig_ok s (fold (fire_connection env args) cids s)"
proof (induction cids arbitrary: s)
  case (Cons cid cids)
  have ok: "sig_ok s (fire_connection env args cid s)" by (rule fire_connection_ok [OF Cons.prems])
  then have "sig_inv (fire_connection env args cid s)" by (simp add: sig_ok_def)
  from sig_ok_trans [OF ok Cons.IH [OF this]] show ?case by simp
qed (simp add: sig_ok_refl)

lemma perform_ok: "sig_inv s \<Longrightarrow> sig_ok s (perform env call s)"
  using DisconnectAll_ok [of s]
  by (cases call) (simp_all add: perform_def PublicConnect_def PublicOnce_def PublicWait_def Connect_def Once_def Fire_def AddConnection_ok Disconnect_ok Wait_ok fold_fire_ok sig_ok_refl)

lemma performs_ok: "sig_inv s \<Longrightarrow> sig_ok s (fold (perform env) calls s)"
proof (induction calls arbitrary: s)
  case (Cons call calls)
  have ok: "sig_ok s (perform env call s)" by (rule perform_ok [OF Cons.prems])
  then have "sig_inv (perform env call s)" by (simp add: sig_ok_def)
  from sig_ok_trans [OF ok Cons.IH [OF this]] show ?case by simp
qed (simp add: sig_ok_refl)

lemma ResumeClosure_ok: "sig_inv s \<Longrightarrow> sig_ok s (ResumeClosure env cid s)"
  unfolding ResumeClosure_def by (rule run_quiet) (simp_all add: is_spawn_def is_defer_def)

lemma sig_reach_inv: "sig_reach env s \<Longrightarrow> sig_inv s"
proof (induction rule: sig_reach.induct)
  case create
  show ?case by (rule sig_inv_new)
next
  case (call s c)
  then show ?case using perform_ok by (auto simp: sig_ok_def)
next
  case (timeout s cid)
  then show ?case using TimeoutClosure_ok by (auto simp: sig_ok_def)
next
  case (resume s cid)
  then show ?case using ResumeClosure_ok by (auto simp: sig_ok_def)
qed

end

lemma signal_callbacks_nested: "signal_callbacks (nested n script base)"
proof (induction n)
  case 0
  show ?case by unfold_locales (simp add: sig_ok_refl)
next
  case (Suc n)
  from signal_callbacks.performs_ok [OF Suc] show ?case by unfold_locales simp
qed

interpretation listeners: signal_callbacks "nested n script base" for n script base
  by (rule signal_callbacks_nested)

section \<open>Properties\<close>

text \<open>What one connection of the registry makes \<open>Fire\<close> do when the callbacks leave the signal alone.\<close>

definition fire_effects :: "lvalue list \<Rightarrow> Signal \<Rightarrow> nat \<Rightarrow> sig_effect list" where
  "fire_effects args s cid =
     (case heap s cid of
        None \<Rightarrow> []
      | Some conn \<Rightarrow>
          (case conn_waiter conn of
             None \<Rightarrow> [Spawn cid args]
           | Some w \<Rightarrow> clear_timer conn @ (if w_resumed w then [] else [Defer cid args])))"

definition stays_connected :: "Signal \<Rightarrow> nat \<Rightarrow> bool" where
  "stays_connected s cid \<longleftrightarrow> (case heap s cid of None \<Rightarrow> False | Some conn \<Rightarrow> conn_waiter conn = None \<and> \<not> conn_once conn)"

lemma fire_connection_idle:
  assumes "callback_code env = (\<lambda>e s. s)" "heap s cid = Some conn" "conn_connected conn" "distinct (connections s)"
  shows "sig_trace (fire_connection env args cid s) = sig_trace s @ fire_effects args s cid"
    and "connections (fire_connection env args cid s) = filter (\<lambda>c. c = cid \<longrightarrow> stays_connected s cid) (connections s)"
    and "c \<noteq> cid \<Longrightarrow> heap (fire_connection env args cid s) c = heap s c"
  using assms
  by (auto simp: fire_connection_def fire_effects_def stays_connected_def run_callback_def Let_def note_effect_def drop_connection_def
      distinct_remove1_removeAll removeAll_filter_not_eq split: option.split intro!: filter_cong)

lemma fire_all_idle:
  assumes "callback_code env = (\<lambda>e s. s)" "distinct cids" "distinct (connections s)"
    "\<forall>cid \<in> set cids. \<exists>conn. heap s cid = Some conn \<and> conn_connected conn"
  shows "sig_trace (fold (fire_connection env args) cids s) = sig_trace s @ concat (map (fire_effects args s) cids) \<and>
    connections (fold (fire_connection env args) cids s) = filter (\<lambda>c. c \<in> set cids \<longrightarrow> stays_connected s c) (connections s)"
  using assms(2-)
proof (induction cids arbitrary: s)
  case (Cons cid cids)
  let ?s = "fire_connection env args cid s"
  from Cons.prems(3) obtain conn where conn: "heap s cid = Some conn" "conn_connected conn" by auto
  note step = fire_connection_idle [OF assms(1) conn Cons.prems(2)]
  have same: "heap ?s c = heap s c" if "c \<in> set cids" for c using step(3) [of c args] that Cons.prems(1) by (cases "c = cid") auto
  have IH: "sig_trace (fold (fire_connection env args) cids ?s) = sig_trace ?s @ concat (map (fire_effects args ?s) cids) \<and>
    connections (fold (fire_connection env args) cids ?s) = filter (\<lambda>c. c \<in> set cids \<longrightarrow> stays_connected ?s c) (connections ?s)"
    by (rule Cons.IH) (use Cons.prems same step(2) in auto)
  have eff: "map (fire_effects args ?s) cids = map (fire_effects args s) cids" using same by (auto simp: fire_effects_def)
  have stay: "c \<in> set cids \<Longrightarrow> stays_connected ?s c = stays_connected s c" for c using same by (simp add: stays_connected_def)
  have "connections (fold (fire_connection env args) (cid # cids) s) =
      filter (\<lambda>c. c \<in> set (cid # cids) \<longrightarrow> stays_connected s c) (connections s)"
    using IH stay Cons.prems(1) by (auto simp: step(2) intro!: filter_cong)
  then show ?case using IH eff by (simp add: step(1))
qed simp

text \<open>Surroundings for the instances below: callbacks that fire the signal again from inside a fire.\<close>

definition refiring :: sig_env where
  "refiring = nested 1 (\<lambda>e s. [DoFire []]) \<lparr>callback_code = (\<lambda>e s. s), new_timer = (\<lambda>s. 7), sig_mult = (\<lambda>a b. Finite (a * b))\<rparr>"

lemmas signal_run =
  perform_def Connect_def Once_def AddConnection_def Fire_def snapshot_def fire_connection_def run_callback_def Disconnect_def
  DisconnectAll_def drop_connection_def note_effect_def Signal_new_def Let_def occurs_def is_spawn_def is_defer_def clear_timer_def

text \<open>C14. In every reachable state, whatever the callbacks do to the signal while it fires (fire it again,
  connect, disconnect, wait, destroy it, nested to any depth): a one-shot connection has run its callback
  or resumed its waiting thread at most once, even when the fire races with its timeout.\<close>

theorem signal_once_at_most_once:
  assumes "sig_reach (nested n script base) s" "heap s cid = Some conn" "conn_once conn"
  shows "occurs (is_spawn cid) s + occurs (is_defer cid) s \<le> 1"
  using sig_inv_object [OF listeners.sig_reach_inv [OF assms(1)] assms(2)] assms(3)
  by (auto simp: conn_inv_def of_bool_def split: option.splits if_splits)

theorem signal_once_at_most_once_witness:
  "let s = perform refiring (DoFire []) (perform refiring (DoOnce (Some 0)) Signal_new)
   in occurs (is_spawn 1) s + occurs (is_defer 1) s \<le> 1"
proof -
  let ?s = "perform refiring (DoFire []) (perform refiring (DoOnce (Some 0)) Signal_new)"
  have "sig_reach refiring ?s" by (intro sig_reach.intros)
  moreover have "heap ?s 1 = Some \<lparr>conn_callback = 0, conn_once = True, conn_connected = False, conn_waiter = None\<rparr>"
    by (simp add: refiring_def signal_run)
  ultimately show ?thesis
    using signal_once_at_most_once [of 1 _ _ ?s 1] by (simp add: Let_def refiring_def del: One_nat_def nested.simps)
qed

text \<open>Disconnecting is final: after \<open>Disconnect\<close> no sequence of calls, with any callbacks, runs the
  callback of that connection again or makes it connected.\<close>

theorem signal_disconnect_final:
  assumes "sig_reach (nested n script base) s" "cid \<in> set (connections s)"
  shows "occurs (is_spawn cid) (fold (perform (nested n script base)) calls (Disconnect cid s)) = occurs (is_spawn cid) s \<and>
    \<not> Signal_IsConnected cid (fold (perform (nested n script base)) calls (Disconnect cid s))"
proof -
  let ?d = "Disconnect cid s"
  have inv: "sig_inv s" by (rule listeners.sig_reach_inv [OF assms(1)])
  then obtain conn where conn: "heap s cid = Some conn" "conn_connected conn" using assms(2) by (auto simp: sig_inv_def)
  have d: "heap ?d cid = Some (conn\<lparr>conn_connected := False\<rparr>)" "occurs (is_spawn cid) ?d = occurs (is_spawn cid) s"
    using conn assms(2) by (simp_all add: Disconnect_def)
  have "sig_inv ?d" using Disconnect_ok [OF inv] by (simp add: sig_ok_def)
  then have "sig_ok ?d (fold (perform (nested n script base)) calls ?d)" by (rule listeners.performs_ok)
  then have "conn_rel ?d (fold (perform (nested n script base)) calls ?d) cid (conn\<lparr>conn_connected := False\<rparr>)"
    using d by (simp add: sig_ok_def sig_rel_def)
  then show ?thesis using d by (auto simp: conn_rel_def Signal_IsConnected_def)
qed

theorem signal_disconnect_final_witness:
  "occurs (is_spawn 1) (fold (perform refiring) [DoFire []] (Disconnect 1 (perform refiring (DoConnect (Some 0)) Signal_new))) = 0"
proof -
  let ?s = "perform refiring (DoConnect (Some 0)) Signal_new"
  have "sig_reach refiring ?s" by (intro sig_reach.intros)
  moreover have "1 \<in> set (connections ?s)" "occurs (is_spawn 1) ?s = 0" by (simp_all add: signal_run)
  ultimately show ?thesis
    using signal_disconnect_final [of 1 _ _ ?s 1 "[DoFire []]"] by (simp add: refiring_def del: One_nat_def nested.simps)
qed



text \<open>\<open>DisconnectAll\<close> called by a callback does not stop the fire that runs it: it empties the registry but
  leaves the connection objects marked connected, so the later callbacks of the snapshot still run, although
  every connection counts as disconnected. (\<open>Disconnect\<close> of the same connection does prevent its callback.)\<close>

theorem disconnect_all_during_fire:
  assumes "sig_inv s" "\<not> destroyed s" "connections s = [a, b]" "stays_connected s a" "stays_connected s b"
    "callback_code env = (\<lambda>e s'. if e = Spawn a args then DisconnectAll s' else s')"
    "callback_code env' = (\<lambda>e s'. if e = Spawn a args then Disconnect b s' else s')"
  shows "occurs (is_spawn b) (Fire env args s) = occurs (is_spawn b) s + 1 \<and> connections (Fire env args s) = [] \<and>
    occurs (is_spawn b) (Fire env' args s) = occurs (is_spawn b) s"
proof -
  from assms(1,3,4,5) obtain ca cb where
    c: "heap s a = Some ca" "conn_connected ca" "conn_waiter ca = None" "\<not> conn_once ca"
      "heap s b = Some cb" "conn_connected cb" "conn_waiter cb = None" "\<not> conn_once cb" "a < b"
    by (auto simp: sig_inv_def stays_connected_def split: option.splits)
  then show ?thesis using assms(2,3,6,7)
    by (auto simp: Fire_def snapshot_def fire_connection_def run_callback_def DisconnectAll_def Disconnect_def is_spawn_def)
qed

theorem disconnect_all_during_fire_witness:
  "let s = perform refiring (DoConnect (Some 4)) (perform refiring (DoConnect (Some 5)) Signal_new);
       env = refiring\<lparr>callback_code := (\<lambda>e s'. if e = Spawn 1 [] then DisconnectAll s' else s')\<rparr>
   in occurs (is_spawn 2) (Fire env [] s) = 1"
proof -
  let ?s = "perform refiring (DoConnect (Some 4)) (perform refiring (DoConnect (Some 5)) Signal_new)"
  let ?env = "refiring\<lparr>callback_code := (\<lambda>e s'. if e = Spawn 1 [] then DisconnectAll s' else s')\<rparr>"
  let ?env' = "refiring\<lparr>callback_code := (\<lambda>e s'. if e = Spawn 1 [] then Disconnect 2 s' else s')\<rparr>"
  have "sig_reach refiring ?s" by (intro sig_reach.intros)
  then have "sig_inv ?s" unfolding refiring_def by (rule listeners.sig_reach_inv)
  moreover have "\<not> destroyed ?s" "connections ?s = [1, 2]" "stays_connected ?s 1" "stays_connected ?s 2" "occurs (is_spawn 2) ?s = 0"
    by (simp_all add: signal_run stays_connected_def)
  ultimately show ?thesis
    using disconnect_all_during_fire [of ?s 1 2 ?env "[]" ?env'] by (simp add: Let_def)
qed

end
