(* ===== verification/Lode_Task.thy ===== *)
theory Lode_Task
  imports Lode_Value
begin

text \<open>
  The task scheduler, \<open>Task.cpp\<close>: timers for \<open>task.wait\<close>, \<open>task.defer\<close>, \<open>task.delay\<close>, timeouts and
  intervals, on libuv. A timer is a heap object (\<open>TimerData\<close>) that embeds its libuv handle, is registered
  under its id, and is freed by the close callback of the handle; the state keeps the heap, with the
  libuv flags of the handle in the object, so that a use after the free is visible as \<open>undefined_use\<close>.
  Luau code that a timer runs is a field of the environment, together with the outcome of libuv calls.
  The registry is an association list; the code does not rely on the iteration order of its hash map. Timer
  ids are unbounded here; the code counts them in an \<open>int\<close>.
\<close>

section \<open>State\<close>

record TimerData =
  td_id :: int
  td_thread :: "nat option"
  td_callback :: nat
  td_recurring :: bool
  td_elapsed :: bool
  td_args :: "lvalue list"
  td_attached :: bool
  td_active :: bool
  td_closing :: bool

datatype task_effect =
    ResumeTask int bool nat "lvalue list"
  | RunCallback int bool nat "lvalue list"
  | SpawnNow nat "lvalue list"
  | EmitTaskError string
  | UvStop
  | TimerStart nat nat bool
  | TimerClose nat
  | TimerFree nat
  | RunHook nat

record TaskContext =
  nextTimerId :: int
  mainThread :: "nat option"
  mainThreadError :: string
  timers :: "(int \<times> nat) list"
  shutdownHooks :: "nat list"
  timer_heap :: "nat \<Rightarrow> TimerData option"
  next_ptr :: nat
  undefined_use :: bool
  task_trace :: "task_effect list"

datatype resume_result = Finished | LuaError string | CppException string | UnknownException

record task_env =
  task_code :: "task_effect \<Rightarrow> TaskContext \<Rightarrow> resume_result \<times> TaskContext"
  uv_timer_init_status :: "TaskContext \<Rightarrow> int"
  uv_timer_start_status :: "TaskContext \<Rightarrow> int"
  uv_error :: "int \<Rightarrow> string"
  elapsed_seconds :: "TaskContext \<Rightarrow> double"
  foreign_callback :: "TaskContext \<Rightarrow> bool"
  task_mult :: "rat \<Rightarrow> rat \<Rightarrow> double"

definition TaskContext_new :: TaskContext where
  "TaskContext_new = \<lparr>nextTimerId = 1, mainThread = None, mainThreadError = [], timers = [], shutdownHooks = [],
     timer_heap = (\<lambda>_. None), next_ptr = 0, undefined_use = False, task_trace = []\<rparr>"

definition did :: "task_effect \<Rightarrow> TaskContext \<Rightarrow> TaskContext" where
  "did e s = s\<lparr>task_trace := task_trace s @ [e]\<rparr>"

definition touch :: "nat \<Rightarrow> (TimerData \<Rightarrow> TaskContext \<Rightarrow> TaskContext) \<Rightarrow> TaskContext \<Rightarrow> TaskContext" where
  "touch ptr f s = (case timer_heap s ptr of None \<Rightarrow> s\<lparr>undefined_use := True\<rparr> | Some d \<Rightarrow> f d s)"

definition set_timer :: "nat \<Rightarrow> TimerData \<Rightarrow> TaskContext \<Rightarrow> TaskContext" where
  "set_timer ptr d s = s\<lparr>timer_heap := (timer_heap s)(ptr \<mapsto> d)\<rparr>"

section \<open>Timers\<close>

text \<open>\<open>uv_close\<close> also stops the timer. The close callback frees the object the handle points back to.\<close>

definition SafeDestroyTimer :: "nat \<Rightarrow> TaskContext \<Rightarrow> TaskContext" where
  "SafeDestroyTimer ptr =
     touch ptr (\<lambda>d s. if td_closing d then s
                      else did (TimerClose ptr) (set_timer ptr (d\<lparr>td_closing := True, td_active := False\<rparr>) s))"

definition CloseCallback :: "nat \<Rightarrow> TaskContext \<Rightarrow> TaskContext" where
  "CloseCallback ptr =
     touch ptr (\<lambda>d s. if td_attached d then did (TimerFree ptr) (s\<lparr>timer_heap := (timer_heap s)(ptr := None)\<rparr>) else s)"

definition erase_timer :: "int \<Rightarrow> TaskContext \<Rightarrow> TaskContext" where
  "erase_timer i s = s\<lparr>timers := filter (\<lambda>(j, _). j \<noteq> i) (timers s)\<rparr>"

definition uv_timer_stop :: "nat \<Rightarrow> TaskContext \<Rightarrow> TaskContext" where
  "uv_timer_stop ptr = touch ptr (\<lambda>d. set_timer ptr (d\<lparr>td_active := False\<rparr>))"

definition report_main :: "task_env \<Rightarrow> nat \<Rightarrow> resume_result \<Rightarrow> TaskContext \<Rightarrow> TaskContext" where
  "report_main env thread res s =
     (case res of
        Finished \<Rightarrow> s
      | LuaError e \<Rightarrow>
          if mainThread s = Some thread then did UvStop (s\<lparr>mainThreadError := e\<rparr>)
          else did (EmitTaskError (''Unhandled exception in task timer: '' @ e)) s
      | CppException e \<Rightarrow> did (EmitTaskError (''Unhandled C++ exception in task timer: '' @ e)) s
      | UnknownException \<Rightarrow> did (EmitTaskError ''Unhandled unknown C++ exception in task timer'') s)"

definition report_callback :: "bool \<Rightarrow> resume_result \<Rightarrow> TaskContext \<Rightarrow> TaskContext" where
  "report_callback recurring res s =
     (let kind = (if recurring then ''SetInterval'' else ''SetTimeout'') in
      case res of
        Finished \<Rightarrow> s
      | LuaError e \<Rightarrow> did (EmitTaskError (''Unhandled exception in '' @ kind @ '': '' @ e)) s
      | CppException e \<Rightarrow> did (EmitTaskError (''Unhandled C++ exception in '' @ kind @ '': '' @ e)) s
      | UnknownException \<Rightarrow> did (EmitTaskError (''Unhandled unknown C++ exception in '' @ kind)) s)"

definition run_code :: "task_env \<Rightarrow> task_effect \<Rightarrow> TaskContext \<Rightarrow> resume_result \<times> TaskContext" where
  "run_code env e s = task_code env e (did e s)"

definition run_timer :: "task_env \<Rightarrow> TimerData \<Rightarrow> TaskContext \<Rightarrow> TaskContext" where
  "run_timer env d s =
     (case td_thread d of
        Some thread \<Rightarrow>
          (let args = td_args d @ (if td_elapsed d then [LNumber (elapsed_seconds env s)] else []);
               (res, s1) = run_code env (ResumeTask (td_id d) (td_recurring d) thread args) s
           in report_main env thread res s1)
      | None \<Rightarrow>
          (let (res, s1) = run_code env (RunCallback (td_id d) (td_recurring d) (td_callback d) (td_args d)) s
           in report_callback (td_recurring d) res s1))"

text \<open>The end of \<open>OnTimerFired\<close> reads the object again after the Luau code has run.\<close>

definition OnTimerFired :: "task_env \<Rightarrow> nat \<Rightarrow> TaskContext \<Rightarrow> TaskContext" where
  "OnTimerFired env ptr =
     touch ptr (\<lambda>d s.
       if \<not> td_attached d then s
       else touch ptr (\<lambda>d1 s1.
              if td_recurring d1 then s1
              else SafeDestroyTimer ptr (erase_timer (td_id d1) (uv_timer_stop ptr s1)))
            (run_timer env d s))"

text \<open>libuv stops a timer that does not repeat before it calls back.\<close>

definition fire :: "task_env \<Rightarrow> nat \<Rightarrow> TaskContext \<Rightarrow> TaskContext" where
  "fire env ptr = touch ptr (\<lambda>d s. OnTimerFired env ptr (set_timer ptr (d\<lparr>td_active := td_recurring d\<rparr>) s))"

text \<open>\<open>StartTimer\<close> on a new object; \<^const>\<open>Inl\<close> is the error raised.\<close>

definition Task_StartTimer :: "task_env \<Rightarrow> string \<Rightarrow> nat \<Rightarrow> double \<Rightarrow> rat \<Rightarrow> string \<Rightarrow> bool \<Rightarrow> TaskContext \<Rightarrow> (string + unit) \<times> TaskContext" where
  "Task_StartTimer env label ptr duration scale durationLabel recurring s =
     (let r = uv_timer_init_status env s in
      if r \<noteq> 0
      then (Inl (''Lode::Task::'' @ label @ '': failed to initialize timer handle ('' @ uv_error env r @ '')''), SafeDestroyTimer ptr s)
      else
        case timer_heap s ptr of
          None \<Rightarrow> (Inl [], s\<lparr>undefined_use := True\<rparr>)
        | Some d \<Rightarrow>
            (let s1 = set_timer ptr (d\<lparr>td_attached := True\<rparr>) (s\<lparr>timers := timers s @ [(td_id d, ptr)]\<rparr>);
                 fail = (\<lambda>e. (Inl e, SafeDestroyTimer ptr (erase_timer (td_id d) s1)))
             in case ToMilliseconds (task_mult env) duration scale durationLabel of
                  Inl e \<Rightarrow> fail e
                | Inr ms \<Rightarrow>
                    (let timeout = (if ms = 0 then 1 else ms); st = uv_timer_start_status env s1
                     in if st \<noteq> 0 then fail (''Failed to start '' @ label @ '' timer: '' @ uv_error env st)
                        else (Inr (), did (TimerStart ptr timeout recurring)
                               (set_timer ptr (d\<lparr>td_attached := True, td_active := True\<rparr>) s1)))))"

text \<open>\<open>new TimerData\<close> with the next id.\<close>

definition alloc_timer :: "TimerData \<Rightarrow> TaskContext \<Rightarrow> nat \<times> int \<times> TaskContext" where
  "alloc_timer d s =
     (let i = nextTimerId s; ptr = next_ptr s
      in (ptr, i, set_timer ptr (d\<lparr>td_id := i, td_attached := False, td_active := False, td_closing := False\<rparr>)
                    (s\<lparr>nextTimerId := i + 1, next_ptr := ptr + 1\<rparr>)))"

definition blank :: TimerData where
  "blank = \<lparr>td_id = 0, td_thread = None, td_callback = 0, td_recurring = False, td_elapsed = False, td_args = [],
     td_attached = False, td_active = False, td_closing = False\<rparr>"

section \<open>Operations\<close>

definition Task_SetTimeout :: "task_env \<Rightarrow> nat \<Rightarrow> double \<Rightarrow> lvalue list \<Rightarrow> TaskContext \<Rightarrow> (string + int) \<times> TaskContext" where
  "Task_SetTimeout env callback delayMs args s =
     (let (ptr, i, s1) = alloc_timer (blank\<lparr>td_callback := callback, td_args := args\<rparr>) s;
          (r, s2) = Task_StartTimer env ''timeout'' ptr delayMs 1 ''timeout delay'' False s1
      in (case r of Inl e \<Rightarrow> Inl e | Inr _ \<Rightarrow> Inr i, s2))"

definition Task_SetInterval :: "task_env \<Rightarrow> nat \<Rightarrow> double \<Rightarrow> lvalue list \<Rightarrow> TaskContext \<Rightarrow> (string + int) \<times> TaskContext" where
  "Task_SetInterval env callback intervalMs args s =
     (let (ptr, i, s1) = alloc_timer (blank\<lparr>td_callback := callback, td_recurring := True, td_args := args\<rparr>) s;
          (r, s2) = Task_StartTimer env ''interval'' ptr intervalMs 1 ''interval duration'' True s1
      in (case r of Inl e \<Rightarrow> Inl e | Inr _ \<Rightarrow> Inr i, s2))"

definition ClearTimeout :: "int \<Rightarrow> TaskContext \<Rightarrow> TaskContext" where
  "ClearTimeout i s =
     (case map_of (timers s) i of
        None \<Rightarrow> s
      | Some ptr \<Rightarrow> SafeDestroyTimer ptr (erase_timer i (uv_timer_stop ptr s)))"

definition ClearInterval :: "int \<Rightarrow> TaskContext \<Rightarrow> TaskContext" where
  "ClearInterval i s = ClearTimeout i s"

definition Task_Wait :: "task_env \<Rightarrow> nat \<Rightarrow> double \<Rightarrow> TaskContext \<Rightarrow> (string + unit) \<times> TaskContext" where
  "Task_Wait env thread seconds s =
     (if foreign_callback env s then (Inl ''task.wait cannot be used from a synchronous foreign callback'', s)
      else
        let (ptr, i, s1) = alloc_timer (blank\<lparr>td_thread := Some thread, td_elapsed := True\<rparr>) s
        in Task_StartTimer env ''wait'' ptr seconds 1000 ''wait duration'' False s1)"

text \<open>\<open>Spawn\<close> does not catch C++ exceptions; they reach the caller.\<close>

definition Task_Spawn :: "task_env \<Rightarrow> nat \<Rightarrow> lvalue list \<Rightarrow> TaskContext \<Rightarrow> (string + unit) \<times> TaskContext" where
  "Task_Spawn env thread args s =
     (if foreign_callback env s then (Inl ''task.spawn cannot be used from a synchronous foreign callback'', s)
      else
        let (res, s1) = run_code env (SpawnNow thread args) s
        in case res of
             Finished \<Rightarrow> (Inr (), s1)
           | LuaError e \<Rightarrow> (Inr (), did (EmitTaskError (''Unhandled exception in Spawn task: '' @ e)) s1)
           | CppException e \<Rightarrow> (Inl e, s1)
           | UnknownException \<Rightarrow> (Inl [], s1))"

definition Task_Defer :: "task_env \<Rightarrow> nat \<Rightarrow> lvalue list \<Rightarrow> TaskContext \<Rightarrow> (string + unit) \<times> TaskContext" where
  "Task_Defer env thread args s =
     (if foreign_callback env s then (Inl ''task.defer cannot be used from a synchronous foreign callback'', s)
      else
        let (ptr, i, s1) = alloc_timer (blank\<lparr>td_thread := Some thread, td_args := args\<rparr>) s
        in Task_StartTimer env ''defer'' ptr (Finite 0) 1 ''defer delay'' False s1)"

definition Task_Delay :: "task_env \<Rightarrow> double \<Rightarrow> nat \<Rightarrow> lvalue list \<Rightarrow> TaskContext \<Rightarrow> (string + unit) \<times> TaskContext" where
  "Task_Delay env seconds thread args s =
     (if foreign_callback env s then (Inl ''task.delay cannot be used from a synchronous foreign callback'', s)
      else
        let (ptr, i, s1) = alloc_timer (blank\<lparr>td_thread := Some thread, td_args := args\<rparr>) s
        in Task_StartTimer env ''delay'' ptr seconds 1000 ''delay duration'' False s1)"

datatype cancel_target = CancelThread nat | CancelNumber double | CancelOther

definition Task_Cancel :: "cancel_target \<Rightarrow> TaskContext \<Rightarrow> TaskContext" where
  "Task_Cancel tgt s =
     (case tgt of
        CancelThread thread \<Rightarrow>
          (let ids = map fst (filter (\<lambda>(i, ptr). case timer_heap s ptr of Some d \<Rightarrow> td_thread d = Some thread | None \<Rightarrow> False) (timers s))
           in fold ClearTimeout ids s)
      | CancelNumber (Finite r) \<Rightarrow>
          if is_integral r \<and> - 2147483648 \<le> r \<and> r < 2147483648 then ClearTimeout \<lfloor>r\<rfloor> s else s
      | _ \<Rightarrow> s)"

definition RegisterShutdownHook :: "nat \<Rightarrow> TaskContext \<Rightarrow> TaskContext" where
  "RegisterShutdownHook h s = s\<lparr>shutdownHooks := shutdownHooks s @ [h]\<rparr>"

definition SetMainThread :: "nat \<Rightarrow> TaskContext \<Rightarrow> TaskContext" where
  "SetMainThread thread s = s\<lparr>mainThread := Some thread, mainThreadError := []\<rparr>"

definition GetMainThreadError :: "TaskContext \<Rightarrow> string \<times> TaskContext" where
  "GetMainThreadError s = (mainThreadError s, s\<lparr>mainThreadError := []\<rparr>)"

definition SetMainThreadError :: "string \<Rightarrow> TaskContext \<Rightarrow> TaskContext" where
  "SetMainThreadError message s = did UvStop (s\<lparr>mainThreadError := message\<rparr>)"

definition IsMainThread :: "nat \<Rightarrow> TaskContext \<Rightarrow> bool" where
  "IsMainThread thread s \<longleftrightarrow> mainThread s = Some thread"

text \<open>The loop turn at the end of a shutdown, as far as timers go: the close callbacks of all closing handles.\<close>

definition closing_timers :: "TaskContext \<Rightarrow> nat list" where
  "closing_timers s = filter (\<lambda>p. case timer_heap s p of Some d \<Rightarrow> td_closing d | None \<Rightarrow> False) [0..<next_ptr s]"

definition flush_closing :: "TaskContext \<Rightarrow> TaskContext" where
  "flush_closing s = fold CloseCallback (closing_timers s) s"

definition Task_Shutdown :: "task_env \<Rightarrow> TaskContext \<Rightarrow> TaskContext" where
  "Task_Shutdown env s =
     (let s1 = (fold (\<lambda>(_, ptr) s. SafeDestroyTimer ptr (uv_timer_stop ptr s)) (timers s) s)\<lparr>timers := [], shutdownHooks := []\<rparr>
      in flush_closing (fold (\<lambda>h s. snd (run_code env (RunHook h) s)) (shutdownHooks s) s1))"

section \<open>Steps\<close>

datatype task_call =
    KSetTimeout nat double "lvalue list"
  | KSetInterval nat double "lvalue list"
  | KClear int
  | KWait nat double
  | KSpawn nat "lvalue list"
  | KDefer nat "lvalue list"
  | KDelay double nat "lvalue list"
  | KCancel cancel_target
  | KHook nat
  | KMain nat
  | KMainError string

definition task_do :: "task_env \<Rightarrow> task_call \<Rightarrow> TaskContext \<Rightarrow> TaskContext" where
  "task_do env call s =
     (case call of
        KSetTimeout cb ms args \<Rightarrow> snd (Task_SetTimeout env cb ms args s)
      | KSetInterval cb ms args \<Rightarrow> snd (Task_SetInterval env cb ms args s)
      | KClear i \<Rightarrow> ClearTimeout i s
      | KWait thread seconds \<Rightarrow> snd (Task_Wait env thread seconds s)
      | KSpawn thread args \<Rightarrow> snd (Task_Spawn env thread args s)
      | KDefer thread args \<Rightarrow> snd (Task_Defer env thread args s)
      | KDelay seconds thread args \<Rightarrow> snd (Task_Delay env seconds thread args s)
      | KCancel tgt \<Rightarrow> Task_Cancel tgt s
      | KHook h \<Rightarrow> RegisterShutdownHook h s
      | KMain thread \<Rightarrow> SetMainThread thread s
      | KMainError message \<Rightarrow> SetMainThreadError message s)"

text \<open>A turn of the event loop: a call from native code, an active timer that is due, or a close callback.\<close>

inductive task_step :: "task_env \<Rightarrow> TaskContext \<Rightarrow> TaskContext \<Rightarrow> bool" for env where
  call: "task_step env s (task_do env call s)"
| fired: "timer_heap s ptr = Some d \<Longrightarrow> td_active d \<Longrightarrow> task_step env s (fire env ptr s)"
| closed: "timer_heap s ptr = Some d \<Longrightarrow> td_closing d \<Longrightarrow> task_step env s (CloseCallback ptr s)"

text \<open>Luau code that makes the given calls and then ends with the given result, nested to depth \<open>n\<close>.\<close>

primrec task_nested :: "nat \<Rightarrow> (task_effect \<Rightarrow> TaskContext \<Rightarrow> resume_result \<times> task_call list) \<Rightarrow> task_env \<Rightarrow> task_env" where
  "task_nested 0 script base = base\<lparr>task_code := \<lambda>e s. (fst (script e s), s)\<rparr>"
| "task_nested (Suc n) script base =
     base\<lparr>task_code := \<lambda>e s. (fst (script e s), fold (task_do (task_nested n script base)) (snd (script e s)) s)\<rparr>"

section \<open>Invariant\<close>

definition is_run :: "int \<Rightarrow> task_effect \<Rightarrow> bool" where
  "is_run i e \<longleftrightarrow> (case e of ResumeTask j _ _ _ \<Rightarrow> j = i | RunCallback j _ _ _ \<Rightarrow> j = i | _ \<Rightarrow> False)"

definition is_shot :: "int \<Rightarrow> task_effect \<Rightarrow> bool" where
  "is_shot i e \<longleftrightarrow> (case e of ResumeTask j r _ _ \<Rightarrow> j = i \<and> \<not> r | RunCallback j r _ _ \<Rightarrow> j = i \<and> \<not> r | _ \<Rightarrow> False)"

definition tally :: "(task_effect \<Rightarrow> bool) \<Rightarrow> TaskContext \<Rightarrow> nat" where
  "tally P s = length (filter P (task_trace s))"

text \<open>Registered timers are live, a timer that is not closing is registered, ids identify timers, and a timer that does not
  repeat and is still active has not run.\<close>

definition timer_ok :: "TaskContext \<Rightarrow> nat \<Rightarrow> TimerData \<Rightarrow> bool" where
  "timer_ok s p d \<longleftrightarrow>
     p < next_ptr s \<and> td_id d < nextTimerId s \<and>
     (td_active d \<longrightarrow> td_attached d \<and> \<not> td_closing d) \<and> (\<not> td_closing d \<longrightarrow> (td_id d, p) \<in> set (timers s)) \<and>
     (td_active d \<and> \<not> td_recurring d \<longrightarrow> tally (is_shot (td_id d)) s = 0)"

definition task_inv :: "TaskContext \<Rightarrow> bool" where
  "task_inv s \<longleftrightarrow>
     (\<forall>(i, p) \<in> set (timers s). \<exists>d. timer_heap s p = Some d \<and> td_id d = i \<and> td_attached d \<and> \<not> td_closing d) \<and>
     distinct (map fst (timers s)) \<and> (\<forall>p d. timer_heap s p = Some d \<longrightarrow> timer_ok s p d) \<and>
     (\<forall>p q d e. timer_heap s p = Some d \<longrightarrow> timer_heap s q = Some e \<longrightarrow> td_id d = td_id e \<longrightarrow> p = q) \<and>
     \<not> undefined_use s \<and> (\<forall>i. tally (is_shot i) s \<le> 1) \<and> (\<forall>i \<ge> nextTimerId s. tally (is_shot i) s = 0)"

text \<open>What code that runs inside a callback can do: it frees nothing, restarts nothing and runs no timer.\<close>

definition kept :: "TimerData \<Rightarrow> TimerData \<Rightarrow> bool" where
  "kept d d' \<longleftrightarrow> td_id d' = td_id d \<and> td_recurring d' = td_recurring d \<and> td_attached d' = td_attached d \<and>
     (td_active d' \<longrightarrow> td_active d) \<and> (td_closing d \<longrightarrow> td_closing d')"

definition task_rel :: "TaskContext \<Rightarrow> TaskContext \<Rightarrow> bool" where
  "task_rel s s' \<longleftrightarrow>
     nextTimerId s \<le> nextTimerId s' \<and> (\<forall>i. tally (is_run i) s' = tally (is_run i) s) \<and>
     (\<forall>p d. timer_heap s p = Some d \<longrightarrow>
        (\<exists>d'. timer_heap s' p = Some d' \<and> kept d d')) \<and>
     (\<forall>p d'. timer_heap s' p = Some d' \<longrightarrow> timer_heap s p = None \<longrightarrow> nextTimerId s \<le> td_id d')"

definition task_ok :: "TaskContext \<Rightarrow> TaskContext \<Rightarrow> bool" where
  "task_ok s s' \<longleftrightarrow> task_inv s' \<and> task_rel s s'"

lemma tally_did [simp]: "tally P (did e s) = tally P s + of_bool (P e)"
  by (simp add: tally_def did_def)

lemma tally_update [simp]:
  "tally P (s\<lparr>nextTimerId := i\<rparr>) = tally P s" "tally P (s\<lparr>mainThread := m\<rparr>) = tally P s"
  "tally P (s\<lparr>mainThreadError := e\<rparr>) = tally P s" "tally P (s\<lparr>timers := ts\<rparr>) = tally P s"
  "tally P (s\<lparr>shutdownHooks := h\<rparr>) = tally P s" "tally P (s\<lparr>timer_heap := hp\<rparr>) = tally P s"
  "tally P (s\<lparr>next_ptr := n\<rparr>) = tally P s" "tally P (s\<lparr>undefined_use := u\<rparr>) = tally P s"
  by (simp_all add: tally_def)

lemma did_fields [simp]:
  "nextTimerId (did e s) = nextTimerId s" "timers (did e s) = timers s" "timer_heap (did e s) = timer_heap s"
  "next_ptr (did e s) = next_ptr s" "undefined_use (did e s) = undefined_use s" "mainThread (did e s) = mainThread s"
  by (simp_all add: did_def)

lemma kept_refl: "kept d d"
  by (simp add: kept_def)

lemma kept_trans: "kept a b \<Longrightarrow> kept b c \<Longrightarrow> kept a c"
  by (simp add: kept_def)

lemma task_rel_refl: "task_rel s s"
  by (simp add: task_rel_def kept_refl)

lemma task_ok_refl: "task_inv s \<Longrightarrow> task_ok s s"
  by (simp add: task_ok_def task_rel_refl)

lemma task_rel_trans:
  assumes "task_rel a b" "task_rel b c"
  shows "task_rel a c"
  unfolding task_rel_def
proof (intro conjI allI impI)
  show "nextTimerId a \<le> nextTimerId c" using assms by (auto simp: task_rel_def)
  show "tally (is_run i) c = tally (is_run i) a" for i using assms by (simp add: task_rel_def)
next
  fix p d
  assume "timer_heap a p = Some d"
  with assms(1) obtain d1 where d1: "timer_heap b p = Some d1" "kept d d1" unfolding task_rel_def by blast
  from assms(2) d1(1) obtain d2 where "timer_heap c p = Some d2" "kept d1 d2" unfolding task_rel_def by blast
  with d1(2) kept_trans show "\<exists>d'. timer_heap c p = Some d' \<and> kept d d'" by blast
next
  fix p f
  assume f: "timer_heap c p = Some f" "timer_heap a p = None"
  show "nextTimerId a \<le> td_id f"
  proof (cases "timer_heap b p")
    case None
    with assms(2) f(1) have "nextTimerId b \<le> td_id f" unfolding task_rel_def by blast
    moreover have "nextTimerId a \<le> nextTimerId b" using assms(1) by (simp add: task_rel_def)
    ultimately show ?thesis by simp
  next
    case (Some e)
    with assms(2) obtain g where "timer_heap c p = Some g" "kept e g" unfolding task_rel_def by blast
    then have "td_id f = td_id e" using f(1) by (simp add: kept_def)
    then show ?thesis using assms(1) Some f(2) unfolding task_rel_def by simp
  qed
qed

lemma task_ok_trans: "task_ok a b \<Longrightarrow> task_ok b c \<Longrightarrow> task_ok a c"
  using task_rel_trans by (auto simp: task_ok_def)

section \<open>Elementary changes\<close>

lemma shot_run: "is_shot i e \<Longrightarrow> is_run i e"
  by (auto simp: is_shot_def is_run_def split: task_effect.splits)

lemma did_ok: "task_inv s \<Longrightarrow> (\<And>i. \<not> is_run i e) \<Longrightarrow> task_ok s (did e s)"
  using shot_run [of _ e] by (auto simp: task_ok_def task_rel_def kept_refl task_inv_def timer_ok_def)

lemma task_inv_update [simp]:
  "task_inv (s\<lparr>mainThread := m\<rparr>) = task_inv s" "task_inv (s\<lparr>mainThreadError := e\<rparr>) = task_inv s"
  "task_inv (s\<lparr>shutdownHooks := h\<rparr>) = task_inv s"
  by (simp_all add: task_inv_def timer_ok_def)

lemma task_rel_update [simp]:
  "task_rel s (s'\<lparr>mainThread := m\<rparr>) = task_rel s s'" "task_rel s (s'\<lparr>mainThreadError := e\<rparr>) = task_rel s s'"
  "task_rel s (s'\<lparr>shutdownHooks := h\<rparr>) = task_rel s s'"
  by (simp_all add: task_rel_def)

text \<open>Taking a timer out of service: stopped, unregistered, closing.\<close>

definition retired :: "nat \<Rightarrow> TimerData \<Rightarrow> TaskContext \<Rightarrow> TaskContext" where
  "retired ptr d s = s\<lparr>timer_heap := (timer_heap s)(ptr \<mapsto> d\<lparr>td_active := False, td_closing := True\<rparr>),
     timers := filter (\<lambda>(j, _). j \<noteq> td_id d) (timers s)\<rparr>"

lemma retire_eq:
  assumes "timer_heap s ptr = Some d"
  shows "SafeDestroyTimer ptr (erase_timer (td_id d) (uv_timer_stop ptr s)) =
    (if td_closing d then retired ptr d s else did (TimerClose ptr) (retired ptr d s))"
  using assms
  by (cases s; cases d)
     (simp add: SafeDestroyTimer_def erase_timer_def uv_timer_stop_def touch_def set_timer_def retired_def did_def)

lemma retired_ok:
  assumes "task_inv s" "timer_heap s ptr = Some d"
  shows "task_ok s (retired ptr d s)"
proof -
  let ?s = "retired ptr d s"
  have reg: "(i, p) \<in> set (timers ?s) \<longleftrightarrow> (i, p) \<in> set (timers s) \<and> i \<noteq> td_id d" for i p by (auto simp: retired_def)
  have heap: "timer_heap ?s = (timer_heap s)(ptr \<mapsto> d\<lparr>td_active := False, td_closing := True\<rparr>)" by (simp add: retired_def)
  have other: "timer_heap s p = Some e \<Longrightarrow> p \<noteq> ptr \<Longrightarrow> td_id e \<noteq> td_id d" for p e using assms unfolding task_inv_def by blast
  have "task_inv ?s" unfolding task_inv_def
  proof (intro conjI)
    show "\<forall>(i, p) \<in> set (timers ?s). \<exists>e. timer_heap ?s p = Some e \<and> td_id e = i \<and> td_attached e \<and> \<not> td_closing e"
    proof clarify
      fix i p
      assume "(i, p) \<in> set (timers ?s)"
      then have ip: "(i, p) \<in> set (timers s)" "i \<noteq> td_id d" using reg by auto
      then obtain e where e: "timer_heap s p = Some e" "td_id e = i" "td_attached e" "\<not> td_closing e" using assms(1) unfolding task_inv_def by auto
      then have "p \<noteq> ptr" using ip(2) assms(2) by auto
      then show "\<exists>e. timer_heap ?s p = Some e \<and> td_id e = i \<and> td_attached e \<and> \<not> td_closing e" using e heap by simp
    qed
    show "distinct (map fst (timers ?s))" using assms(1) by (auto simp: retired_def task_inv_def distinct_map_filter)
    show "\<forall>p e. timer_heap ?s p = Some e \<longrightarrow> timer_ok ?s p e"
      using assms other reg by (auto simp: heap task_inv_def timer_ok_def) (auto simp: retired_def)
    show "\<forall>p q e f. timer_heap ?s p = Some e \<longrightarrow> timer_heap ?s q = Some f \<longrightarrow> td_id e = td_id f \<longrightarrow> p = q"
      using assms other by (auto simp: heap task_inv_def dest: sym)
    show "\<not> undefined_use ?s" "\<forall>i. tally (is_shot i) ?s \<le> 1" "\<forall>i \<ge> nextTimerId ?s. tally (is_shot i) ?s = 0"
      using assms(1) by (simp_all add: retired_def task_inv_def)
  qed
  moreover have "task_rel s ?s" using assms(2) by (auto simp: task_rel_def retired_def kept_def)
  ultimately show ?thesis by (simp add: task_ok_def)
qed

lemma retire_ok:
  assumes "task_inv s" "timer_heap s ptr = Some d"
  shows "task_ok s (SafeDestroyTimer ptr (erase_timer (td_id d) (uv_timer_stop ptr s)))"
proof -
  note ok = retired_ok [OF assms]
  have "task_ok (retired ptr d s) (did (TimerClose ptr) (retired ptr d s))"
    by (rule did_ok) (use ok in \<open>simp_all add: task_ok_def is_run_def\<close>)
  then show ?thesis using ok task_ok_trans by (simp add: retire_eq [OF assms(2)])
qed

lemma ClearTimeout_ok:
  assumes "task_inv s"
  shows "task_ok s (ClearTimeout i s)"
proof (cases "map_of (timers s) i")
  case (Some ptr)
  then have "(i, ptr) \<in> set (timers s)" by (rule map_of_SomeD)
  then obtain d where "timer_heap s ptr = Some d" "td_id d = i" using assms unfolding task_inv_def by auto
  with retire_ok [OF assms this(1)] Some show ?thesis by (simp add: ClearTimeout_def)
qed (simp add: ClearTimeout_def task_ok_refl assms)

lemma fold_ok:
  assumes "\<And>x s. task_inv s \<Longrightarrow> task_ok s (f x s)"
  shows "task_inv s \<Longrightarrow> task_ok s (fold f xs s)"
proof (induction xs arbitrary: s)
  case (Cons x xs)
  have ok: "task_ok s (f x s)" by (rule assms [OF Cons.prems])
  then have "task_inv (f x s)" by (simp add: task_ok_def)
  from task_ok_trans [OF ok Cons.IH [OF this]] show ?case by simp
qed (simp add: task_ok_refl)

lemma Cancel_ok: "task_inv s \<Longrightarrow> task_ok s (Task_Cancel tgt s)"
  by (auto simp: Task_Cancel_def Let_def task_ok_refl ClearTimeout_ok fold_ok split: cancel_target.split double.split)

text \<open>A new timer: its object is fresh, and it is registered exactly when it was started.\<close>

definition schedule :: "task_env \<Rightarrow> TimerData \<Rightarrow> string \<Rightarrow> double \<Rightarrow> rat \<Rightarrow> string \<Rightarrow> bool \<Rightarrow> TaskContext \<Rightarrow> (string + unit) \<times> TaskContext" where
  "schedule env d label duration scale durationLabel recurring s =
     (let (ptr, i, s1) = alloc_timer d s in Task_StartTimer env label ptr duration scale durationLabel recurring s1)"

lemma task_inv_fresh: "task_inv s \<Longrightarrow> timer_heap s (next_ptr s) = None \<and> (\<forall>(i, p) \<in> set (timers s). i < nextTimerId s)"
  by (fastforce simp: task_inv_def timer_ok_def)

lemma schedule_cases:
  assumes "task_inv s"
  shows "\<exists>d' es. let s' = snd (schedule env d label dur sc dl r s) in
    timer_heap s' = (timer_heap s)(next_ptr s \<mapsto> d') \<and> td_id d' = nextTimerId s \<and> nextTimerId s' = nextTimerId s + 1 \<and>
    next_ptr s' = next_ptr s + 1 \<and> undefined_use s' = undefined_use s \<and> task_trace s' = task_trace s @ es \<and> (\<forall>e \<in> set es. \<forall>i. \<not> is_run i e) \<and>
    (timers s' = timers s \<and> \<not> td_active d' \<and> td_closing d' \<or>
     timers s' = timers s @ [(nextTimerId s, next_ptr s)] \<and> td_active d' \<and> td_attached d' \<and> \<not> td_closing d')"
proof -
  have "filter (\<lambda>(j, _). j \<noteq> nextTimerId s) (timers s) = timers s"
    using task_inv_fresh [OF assms] by (intro filter_True) auto
  then show ?thesis
    by (auto simp: schedule_def alloc_timer_def Task_StartTimer_def set_timer_def SafeDestroyTimer_def touch_def erase_timer_def did_def
        Let_def is_run_def split: sum.split)
qed

lemma schedule_ok:
  assumes "task_inv s"
  shows "task_ok s (snd (schedule env d label dur sc dl r s))"
proof -
  let ?s = "snd (schedule env d label dur sc dl r s)"
  obtain e es where e: "timer_heap ?s = (timer_heap s)(next_ptr s \<mapsto> e)" "td_id e = nextTimerId s" "nextTimerId ?s = nextTimerId s + 1"
      "next_ptr ?s = next_ptr s + 1" "undefined_use ?s = undefined_use s" "task_trace ?s = task_trace s @ es" "\<forall>x \<in> set es. \<forall>i. \<not> is_run i x"
      "timers ?s = timers s \<and> \<not> td_active e \<and> td_closing e \<or>
       timers ?s = timers s @ [(nextTimerId s, next_ptr s)] \<and> td_active e \<and> td_attached e \<and> \<not> td_closing e"
    using schedule_cases [OF assms, of env d label dur sc dl r] unfolding Let_def by blast
  have run: "filter (is_run i) es = []" for i using e(7) by (simp add: filter_empty_conv)
  have shot: "filter (is_shot i) es = []" for i using e(7) shot_run by (auto simp: filter_empty_conv)
  have tally: "tally (is_run i) ?s = tally (is_run i) s" "tally (is_shot i) ?s = tally (is_shot i) s" for i
    by (simp_all add: tally_def e(6) run shot)
  note fresh = task_inv_fresh [OF assms]
  have old: "timer_heap s p = Some f \<Longrightarrow> td_id f < nextTimerId s \<and> p < next_ptr s" for p f
    using assms by (auto simp: task_inv_def timer_ok_def)
  have uniq: "timer_heap s p = Some f \<Longrightarrow> timer_heap s q = Some g \<Longrightarrow> td_id f = td_id g \<Longrightarrow> p = q" for p q f g
    using assms unfolding task_inv_def by blast
  have which: "timer_heap ?s p = Some f \<Longrightarrow>
      if p = next_ptr s then td_id f = nextTimerId s else timer_heap s p = Some f \<and> td_id f < nextTimerId s" for p f
    using old e(2) by (auto simp: e(1))
  have reg: "set (timers s) \<subseteq> set (timers ?s)" "(i, p) \<in> set (timers ?s) \<Longrightarrow> (i, p) \<in> set (timers s) \<or> i = nextTimerId s \<and> p = next_ptr s \<and> td_attached e \<and> \<not> td_closing e" for i p
    using e(8) by auto
  have "task_inv ?s" unfolding task_inv_def
  proof (intro conjI)
    show "\<forall>(i, p) \<in> set (timers ?s). \<exists>f. timer_heap ?s p = Some f \<and> td_id f = i \<and> td_attached f \<and> \<not> td_closing f"
    proof clarify
      fix i p
      assume "(i, p) \<in> set (timers ?s)"
      then consider "(i, p) \<in> set (timers s)" | "i = nextTimerId s" "p = next_ptr s" "td_attached e" "\<not> td_closing e" using reg(2) by blast
      then show "\<exists>f. timer_heap ?s p = Some f \<and> td_id f = i \<and> td_attached f \<and> \<not> td_closing f"
      proof cases
        case 1
        then obtain f where f: "timer_heap s p = Some f" "td_id f = i" "td_attached f" "\<not> td_closing f" using assms unfolding task_inv_def by auto
        then have "p \<noteq> next_ptr s" using fresh by auto
        then show ?thesis using f e(1) by simp
      qed (simp add: e(1,2))
    qed
    have "nextTimerId s \<notin> fst ` set (timers s)" using fresh by force
    then show "distinct (map fst (timers ?s))" using e(8) assms by (auto simp: task_inv_def)
    show "\<forall>p f. timer_heap ?s p = Some f \<longrightarrow> timer_ok ?s p f"
    proof (intro allI impI)
      fix p f
      assume f: "timer_heap ?s p = Some f"
      show "timer_ok ?s p f"
      proof (cases "p = next_ptr s")
        case True
        then show ?thesis using f assms e(2,8) by (auto simp: e(1,3,4) tally task_inv_def timer_ok_def)
      next
        case False
        then have "timer_ok s p f" using f e(1) assms by (simp add: task_inv_def)
        then show ?thesis using reg(1) by (auto simp: e(3,4) tally timer_ok_def)
      qed
    qed
    show "\<forall>p q f g. timer_heap ?s p = Some f \<longrightarrow> timer_heap ?s q = Some g \<longrightarrow> td_id f = td_id g \<longrightarrow> p = q"
    proof (intro allI impI)
      fix p q f g
      assume fg: "timer_heap ?s p = Some f" "timer_heap ?s q = Some g" "td_id f = td_id g"
      have "td_id f = nextTimerId s \<longleftrightarrow> p = next_ptr s" using which [OF fg(1)] by (cases "p = next_ptr s") auto
      moreover have "td_id g = nextTimerId s \<longleftrightarrow> q = next_ptr s" using which [OF fg(2)] by (cases "q = next_ptr s") auto
      ultimately show "p = q" using which [OF fg(1)] which [OF fg(2)] uniq fg(3) by metis
    qed
    show "\<not> undefined_use ?s" "\<forall>i. tally (is_shot i) ?s \<le> 1" "\<forall>i \<ge> nextTimerId ?s. tally (is_shot i) ?s = 0"
      using assms by (simp_all add: e(3,5) tally task_inv_def)
  qed
  moreover have "task_rel s ?s" using old fresh e(2) by (auto simp: task_rel_def tally e(1,3) kept_refl)
  ultimately show ?thesis by (simp add: task_ok_def)
qed

text \<open>A due timer is marked as run before its code runs.\<close>

definition run_event :: "task_env \<Rightarrow> TimerData \<Rightarrow> TaskContext \<Rightarrow> task_effect" where
  "run_event env d s =
     (case td_thread d of
        Some thread \<Rightarrow> ResumeTask (td_id d) (td_recurring d) thread
                         (td_args d @ (if td_elapsed d then [LNumber (elapsed_seconds env s)] else []))
      | None \<Rightarrow> RunCallback (td_id d) (td_recurring d) (td_callback d) (td_args d))"

lemma run_event_id [simp]:
  "is_run i (run_event env d s) \<longleftrightarrow> i = td_id d" "is_shot i (run_event env d s) \<longleftrightarrow> i = td_id d \<and> \<not> td_recurring d"
  by (auto simp: run_event_def is_run_def is_shot_def split: option.split)

definition started :: "task_env \<Rightarrow> nat \<Rightarrow> TimerData \<Rightarrow> TaskContext \<Rightarrow> TaskContext" where
  "started env ptr d s =
     (let s0 = set_timer ptr (d\<lparr>td_active := td_recurring d\<rparr>) s in did (run_event env (d\<lparr>td_active := td_recurring d\<rparr>) s0) s0)"

lemma started_inv:
  assumes "task_inv s" "timer_heap s ptr = Some d" "td_active d"
  shows "task_inv (started env ptr d s)"
proof -
  let ?d = "d\<lparr>td_active := td_recurring d\<rparr>" and ?s = "started env ptr d s"
  have heap: "timer_heap ?s = (timer_heap s)(ptr \<mapsto> ?d)" by (simp add: started_def set_timer_def Let_def)
  have eqs: "timers ?s = timers s" "nextTimerId ?s = nextTimerId s" "next_ptr ?s = next_ptr s" "undefined_use ?s = undefined_use s"
    by (simp_all add: started_def set_timer_def Let_def)
  have tally: "tally (is_shot i) ?s = tally (is_shot i) s + of_bool (i = td_id d \<and> \<not> td_recurring d)" for i
    by (simp add: started_def set_timer_def Let_def)
  have ok: "timer_ok s ptr d" using assms(1,2) by (simp add: task_inv_def)
  have uniq: "timer_heap s p = Some f \<Longrightarrow> timer_heap s q = Some g \<Longrightarrow> td_id f = td_id g \<Longrightarrow> p = q" for p q f g
    using assms unfolding task_inv_def by blast
  have "\<forall>i. tally (is_shot i) s \<le> 1" "\<forall>i \<ge> nextTimerId s. tally (is_shot i) s = 0" using assms(1) by (simp_all add: task_inv_def)
  moreover have "td_id d < nextTimerId s" "\<not> td_recurring d \<Longrightarrow> tally (is_shot (td_id d)) s = 0" using ok assms(3) by (simp_all add: timer_ok_def)
  ultimately have shots: "\<forall>i. tally (is_shot i) s + of_bool (i = td_id d \<and> \<not> td_recurring d) \<le> 1"
      "\<forall>i \<ge> nextTimerId s. tally (is_shot i) s = 0 \<and> (i = td_id d \<longrightarrow> td_recurring d)" by auto
  have before: "timer_heap ?s p = Some f \<Longrightarrow> \<exists>g. timer_heap s p = Some g \<and> td_id f = td_id g" for p f
    using assms(2) by (auto simp: heap split: if_splits)
  show ?thesis unfolding task_inv_def
  proof (intro conjI)
    show "\<forall>(i, p) \<in> set (timers ?s). \<exists>f. timer_heap ?s p = Some f \<and> td_id f = i \<and> td_attached f \<and> \<not> td_closing f"
      using assms(1,2) by (fastforce simp: eqs heap task_inv_def)
    show "distinct (map fst (timers ?s))" "\<not> undefined_use ?s" using assms(1) by (simp_all add: eqs task_inv_def)
    show "\<forall>p f. timer_heap ?s p = Some f \<longrightarrow> timer_ok ?s p f"
    proof (intro allI impI)
      fix p f
      assume f: "timer_heap ?s p = Some f"
      show "timer_ok ?s p f"
      proof (cases "p = ptr")
        case True
        then show ?thesis using f ok assms(3) by (auto simp: heap timer_ok_def eqs tally)
      next
        case False
        then have "timer_heap s p = Some f" using f by (simp add: heap)
        moreover from this have "td_id f \<noteq> td_id d" using uniq assms(2) False by blast
        ultimately show ?thesis using assms(1) by (auto simp: task_inv_def timer_ok_def eqs tally)
      qed
    qed
    show "\<forall>p q f g. timer_heap ?s p = Some f \<longrightarrow> timer_heap ?s q = Some g \<longrightarrow> td_id f = td_id g \<longrightarrow> p = q"
      using before uniq by metis
    show "\<forall>i. tally (is_shot i) ?s \<le> 1" "\<forall>i \<ge> nextTimerId ?s. tally (is_shot i) ?s = 0"
      using shots by (simp_all add: tally eqs)
  qed
qed

text \<open>A timer that is no longer active stays so: its id is spent.\<close>

definition dormant :: "int \<Rightarrow> TaskContext \<Rightarrow> bool" where
  "dormant i s \<longleftrightarrow> i < nextTimerId s \<and> (\<forall>p d. timer_heap s p = Some d \<longrightarrow> td_id d = i \<longrightarrow> \<not> td_active d)"

lemma dormant_rel:
  assumes "task_rel s s'" "dormant i s"
  shows "dormant i s' \<and> tally (is_run i) s' = tally (is_run i) s"
proof -
  have "\<not> td_active d'" if d': "timer_heap s' p = Some d'" "td_id d' = i" for p d'
  proof (cases "timer_heap s p")
    case None
    then have "nextTimerId s \<le> td_id d'" using assms(1) d'(1) unfolding task_rel_def by blast
    then show ?thesis using assms(2) d'(2) by (simp add: dormant_def)
  next
    case (Some d)
    then obtain e where "timer_heap s' p = Some e" "kept d e" using assms(1) unfolding task_rel_def by blast
    then show ?thesis using assms(2) Some d' by (auto simp: kept_def dormant_def)
  qed
  moreover have "nextTimerId s \<le> nextTimerId s'" "tally (is_run i) s' = tally (is_run i) s" using assms(1) by (simp_all add: task_rel_def)
  ultimately show ?thesis using assms(2) by (auto simp: dormant_def)
qed

lemma dormant_clear:
  assumes "task_inv s" "i < nextTimerId s"
  shows "dormant i (ClearTimeout i s)"
proof -
  have reg: "td_id d = i \<Longrightarrow> td_active d \<Longrightarrow> map_of (timers s) i = Some p" if "timer_heap s p = Some d" for p d
    using assms(1) that by (auto simp: task_inv_def timer_ok_def)
  have uniq: "timer_heap s p = Some f \<Longrightarrow> timer_heap s q = Some g \<Longrightarrow> td_id f = td_id g \<Longrightarrow> p = q" for p q f g
    using assms unfolding task_inv_def by blast
  show ?thesis
  proof (cases "map_of (timers s) i")
    case None
    then show ?thesis using assms(2) reg by (auto simp: ClearTimeout_def dormant_def)
  next
    case (Some ptr)
    then have "(i, ptr) \<in> set (timers s)" by (rule map_of_SomeD)
    then obtain d where d: "timer_heap s ptr = Some d" "td_id d = i" using assms(1) unfolding task_inv_def by auto
    have "timer_heap (ClearTimeout i s) = timer_heap (retired ptr d s)" "nextTimerId (ClearTimeout i s) = nextTimerId s"
      using Some d retire_eq [OF d(1)] by (simp_all add: ClearTimeout_def retired_def)
    then show ?thesis using assms(2) uniq d by (auto simp: dormant_def retired_def)
  qed
qed

section \<open>Shutdown\<close>

definition shut :: "int \<times> nat \<Rightarrow> TaskContext \<Rightarrow> TaskContext" where
  "shut = (\<lambda>(_, ptr) s. SafeDestroyTimer ptr (uv_timer_stop ptr s))"

lemma shut_live:
  assumes "timer_heap s ptr = Some d"
  shows "timer_heap (shut (i, ptr) s) = (timer_heap s)(ptr \<mapsto> d\<lparr>td_active := False, td_closing := True\<rparr>)"
    and "timers (shut (i, ptr) s) = timers s" "nextTimerId (shut (i, ptr) s) = nextTimerId s" "next_ptr (shut (i, ptr) s) = next_ptr s"
    and "undefined_use (shut (i, ptr) s) = undefined_use s"
    and "tally (is_run j) (shut (i, ptr) s) = tally (is_run j) s" "tally (is_shot j) (shut (i, ptr) s) = tally (is_shot j) s"
  using assms
  by (cases d; simp add: shut_def SafeDestroyTimer_def uv_timer_stop_def touch_def set_timer_def is_run_def is_shot_def)+

lemma fold_shut:
  assumes "\<forall>x \<in> set ts. timer_heap s (snd x) \<noteq> None"
  shows "timer_heap (fold shut ts s) = (\<lambda>p. if p \<in> snd ` set ts then map_option (\<lambda>d. d\<lparr>td_active := False, td_closing := True\<rparr>) (timer_heap s p) else timer_heap s p) \<and>
    timers (fold shut ts s) = timers s \<and> nextTimerId (fold shut ts s) = nextTimerId s \<and> next_ptr (fold shut ts s) = next_ptr s \<and>
    undefined_use (fold shut ts s) = undefined_use s \<and> (\<forall>j. tally (is_run j) (fold shut ts s) = tally (is_run j) s) \<and>
    (\<forall>j. tally (is_shot j) (fold shut ts s) = tally (is_shot j) s)"
  using assms
proof (induction ts arbitrary: s)
  case (Cons x ts)
  obtain i ptr d where x: "x = (i, ptr)" "timer_heap s ptr = Some d" using Cons.prems by (cases x) auto
  note live = shut_live [OF x(2)]
  have "\<forall>y \<in> set ts. timer_heap (shut x s) (snd y) \<noteq> None" using Cons.prems by (auto simp: x live)
  from Cons.IH [OF this] show ?case by (auto simp: x live)
qed simp

definition shut_all :: "TaskContext \<Rightarrow> TaskContext" where
  "shut_all s = (fold shut (timers s) s)\<lparr>timers := [], shutdownHooks := []\<rparr>"

lemma shut_all_ok:
  assumes "task_inv s"
  shows "task_ok s (shut_all s)" and "timer_heap (shut_all s) p = Some d \<Longrightarrow> td_closing d"
proof -
  let ?off = "\<lambda>d. d\<lparr>td_active := False, td_closing := True\<rparr>"
  have "\<forall>x \<in> set (timers s). timer_heap s (snd x) \<noteq> None" using assms by (fastforce simp: task_inv_def)
  note eff = fold_shut [OF this]
  have heap: "timer_heap (shut_all s) = (\<lambda>p. if p \<in> snd ` set (timers s) then map_option ?off (timer_heap s p) else timer_heap s p)"
    and eqs: "nextTimerId (shut_all s) = nextTimerId s" "next_ptr (shut_all s) = next_ptr s" "undefined_use (shut_all s) = undefined_use s"
      "timers (shut_all s) = []"
    and tally: "tally (is_run j) (shut_all s) = tally (is_run j) s" "tally (is_shot j) (shut_all s) = tally (is_shot j) s" for j
    using eff by (simp_all add: shut_all_def)
  have reg: "timer_heap s p = Some d \<Longrightarrow> p \<notin> snd ` set (timers s) \<Longrightarrow> td_closing d" for p d
    using assms unfolding task_inv_def timer_ok_def by (metis image_eqI snd_conv)
  have before: "\<exists>d. timer_heap s p = Some d \<and> kept d d' \<and> td_closing d' \<and> \<not> td_active d'"
    if "timer_heap (shut_all s) p = Some d'" for p d'
    using that reg [of p] assms by (auto simp: heap kept_def task_inv_def timer_ok_def split: if_splits)
  then show "timer_heap (shut_all s) p = Some d \<Longrightarrow> td_closing d" by blast
  have uniq: "timer_heap s p = Some f \<Longrightarrow> timer_heap s q = Some g \<Longrightarrow> td_id f = td_id g \<Longrightarrow> p = q" for p q f g
    using assms unfolding task_inv_def by blast
  have "timer_ok (shut_all s) p d'" if d': "timer_heap (shut_all s) p = Some d'" for p d'
  proof -
    obtain d where d: "timer_heap s p = Some d" "kept d d'" "td_closing d'" "\<not> td_active d'" using before [OF d'] by blast
    have "timer_ok s p d" using assms d(1) by (simp add: task_inv_def)
    then show ?thesis using d(2,3,4) by (simp add: timer_ok_def eqs kept_def)
  qed
  moreover have "p = q" if "timer_heap (shut_all s) p = Some f" "timer_heap (shut_all s) q = Some g" "td_id f = td_id g" for p q f g
    using before [OF that(1)] before [OF that(2)] that(3) uniq unfolding kept_def by metis
  ultimately have "task_inv (shut_all s)" using assms by (simp add: task_inv_def eqs tally)
  moreover have "task_rel s (shut_all s)" by (auto simp: task_rel_def heap eqs tally kept_def)
  ultimately show "task_ok s (shut_all s)" by (simp add: task_ok_def)
qed

lemma fold_CloseCallback:
  "timer_heap (fold CloseCallback ps s) p = (if p \<in> set ps \<and> (\<exists>d. timer_heap s p = Some d \<and> td_attached d) then None else timer_heap s p)"
  by (induction ps arbitrary: s) (auto simp: CloseCallback_def touch_def split: option.split)

section \<open>Code that runs inside a callback\<close>

text \<open>The contract of Luau code: it uses the scheduler through its operations only, so it does not run the
  event loop. Under it every operation and every turn of the loop keeps the invariant.\<close>

locale quiet_code =
  fixes env :: task_env
  assumes code_ok: "task_inv s \<Longrightarrow> task_ok s (snd (task_code env e s))"
begin

lemma run_ok: "task_inv (did e s) \<Longrightarrow> task_ok (did e s) (snd (run_code env e s))"
  by (simp add: run_code_def code_ok)

lemma ok_did: "task_ok s s' \<Longrightarrow> (\<And>i. \<not> is_run i e) \<Longrightarrow> task_ok s (did e s')"
  by (meson did_ok task_ok_def task_ok_trans)

lemma report_main_ok: "task_ok s s' \<Longrightarrow> task_ok s (report_main env thread res s')"
  by (auto simp: report_main_def task_ok_def is_run_def intro!: ok_did [unfolded task_ok_def] split: resume_result.split)

lemma report_callback_ok: "task_ok s s' \<Longrightarrow> task_ok s (report_callback r res s')"
  by (auto simp: report_callback_def Let_def is_run_def intro!: ok_did split: resume_result.split)

lemma Spawn_ok:
  assumes "task_inv s"
  shows "task_ok s (snd (Task_Spawn env thread args s))"
proof -
  have "task_ok s (did (SpawnNow thread args) s)" by (rule did_ok) (simp_all add: assms is_run_def)
  then have "task_ok s (snd (run_code env (SpawnNow thread args) s))" by (meson run_ok task_ok_def task_ok_trans)
  then show ?thesis
    by (auto simp: Task_Spawn_def assms task_ok_refl is_run_def split_beta intro!: ok_did split: resume_result.split)
qed

lemma task_do_ok:
  assumes "task_inv s"
  shows "task_ok s (task_do env call s)"
proof (cases call)
  case (KSetTimeout cb ms args)
  have "task_do env call s = snd (schedule env (blank\<lparr>td_callback := cb, td_args := args\<rparr>) ''timeout'' ms 1 ''timeout delay'' False s)"
    by (simp add: KSetTimeout task_do_def Task_SetTimeout_def schedule_def split_beta Let_def)
  then show ?thesis by (simp only: schedule_ok [OF assms])
next
  case (KSetInterval cb ms args)
  have "task_do env call s = snd (schedule env (blank\<lparr>td_callback := cb, td_recurring := True, td_args := args\<rparr>) ''interval'' ms 1 ''interval duration'' True s)"
    by (simp add: KSetInterval task_do_def Task_SetInterval_def schedule_def split_beta Let_def)
  then show ?thesis by (simp only: schedule_ok [OF assms])
next
  case (KMainError m)
  then show ?thesis using assms
    by (auto simp: task_do_def SetMainThreadError_def is_run_def task_ok_def task_rel_refl intro!: ok_did [unfolded task_ok_def])
next
  case (KHook h)
  then show ?thesis by (simp add: task_do_def RegisterShutdownHook_def task_ok_def task_rel_refl assms)
next
  case (KMain thread)
  then show ?thesis by (simp add: task_do_def SetMainThread_def task_ok_def task_rel_refl assms)
qed (use schedule_ok [OF assms] in
  \<open>simp_all add: task_do_def Task_Wait_def Task_Defer_def Task_Delay_def ClearTimeout_ok Cancel_ok Spawn_ok
     assms schedule_def task_ok_refl split_beta Let_def\<close>)

text \<open>The whole of a due timer: the run is recorded, its code runs, and what it leaves is cleaned up.\<close>

lemma run_timer_eq:
  "run_timer env d s = (let (res, s1) = run_code env (run_event env d s) s in
     case td_thread d of Some thread \<Rightarrow> report_main env thread res s1 | None \<Rightarrow> report_callback (td_recurring d) res s1)"
  by (simp add: run_timer_def run_event_def split_beta Let_def split: option.split)

lemma fire_ok:
  assumes "task_inv s" "timer_heap s ptr = Some d" "td_active d"
  shows "task_ok (started env ptr d s) (fire env ptr s)"
proof -
  let ?d = "d\<lparr>td_active := td_recurring d\<rparr>" and ?s = "started env ptr d s"
  let ?before = "set_timer ptr ?d s"
  have inv: "task_inv ?s" by (rule started_inv [OF assms])
  have "task_ok ?s (snd (run_code env (run_event env ?d ?before) ?before))"
    using run_ok [of "run_event env ?d ?before" ?before] inv by (simp add: started_def Let_def)
  then have run: "task_ok ?s (run_timer env ?d ?before)"
    by (auto simp: run_timer_eq split_beta intro: report_main_ok report_callback_ok split: option.split)
  let ?after = "run_timer env ?d ?before"
  have "timer_heap ?s ptr = Some ?d" by (simp add: started_def set_timer_def Let_def)
  then obtain d1 where d1: "timer_heap ?after ptr = Some d1" "kept ?d d1" using run unfolding task_ok_def task_rel_def by blast
  have "td_attached d" using assms by (auto simp: task_inv_def timer_ok_def)
  then have "fire env ptr s = (if td_recurring d1 then ?after else SafeDestroyTimer ptr (erase_timer (td_id d1) (uv_timer_stop ptr ?after)))"
    using assms(2) d1(1) by (simp add: fire_def OnTimerFired_def touch_def set_timer_def)
  moreover have "task_ok ?after (SafeDestroyTimer ptr (erase_timer (td_id d1) (uv_timer_stop ptr ?after)))"
    using run d1(1) by (intro retire_ok) (simp_all add: task_ok_def)
  ultimately show ?thesis using run task_ok_trans by auto
qed

lemma CloseCallback_inv:
  assumes "task_inv s" "timer_heap s ptr = Some d" "td_closing d"
  shows "task_inv (CloseCallback ptr s)"
proof (cases "td_attached d")
  case True
  have "(i, p) \<in> set (timers s) \<Longrightarrow> p \<noteq> ptr" for i p using assms by (fastforce simp: task_inv_def)
  then show ?thesis using True assms(1,2)
    by (fastforce simp: CloseCallback_def touch_def task_inv_def timer_ok_def is_shot_def)
qed (simp add: CloseCallback_def touch_def assms)

lemma step_inv: "task_step env s s' \<Longrightarrow> task_inv s \<Longrightarrow> task_inv s'"
proof (induction rule: task_step.induct)
  case (call s c)
  then show ?case using task_do_ok by (simp add: task_ok_def)
next
  case (fired s ptr d)
  then show ?case using fire_ok by (simp add: task_ok_def)
qed (rule CloseCallback_inv)

lemma steps_inv: "(task_step env)\<^sup>*\<^sup>* s s' \<Longrightarrow> task_inv s \<Longrightarrow> task_inv s'"
  by (induction rule: rtranclp_induct) (auto intro: step_inv)

text \<open>Shutdown frees every timer whose handle was set up.\<close>

lemma Shutdown_frees:
  assumes "task_inv s" "timer_heap s p = Some d" "td_attached d"
  shows "timer_heap (Task_Shutdown env s) p = None"
proof -
  have hook: "task_inv s \<Longrightarrow> task_ok s (snd (run_code env (RunHook h) s))" for h s
    using did_ok [of s "RunHook h"] run_ok task_ok_trans by (simp add: is_run_def task_ok_def)
  define t where "t = fold (\<lambda>h s. snd (run_code env (RunHook h) s)) (shutdownHooks s) (shut_all s)"
  have "task_inv (shut_all s)" using shut_all_ok(1) [OF assms(1)] by (simp add: task_ok_def)
  from fold_ok [OF hook this] have "task_ok (shut_all s) t" unfolding t_def .
  with shut_all_ok(1) [OF assms(1)] obtain d1 d2 where d: "timer_heap (shut_all s) p = Some d1" "kept d d1" "timer_heap t p = Some d2" "kept d1 d2" "task_inv t"
    using assms(2) unfolding task_ok_def task_rel_def by metis
  have "td_closing d1" by (rule shut_all_ok(2) [OF assms(1) d(1)])
  moreover have "p < next_ptr t" using d(3,5) by (simp add: task_inv_def timer_ok_def)
  ultimately have "p \<in> set (closing_timers t)" "td_attached d2" using d assms(3) by (simp_all add: closing_timers_def kept_def)
  moreover have "Task_Shutdown env s = flush_closing t" by (simp add: Task_Shutdown_def shut_def shut_all_def t_def Let_def)
  ultimately show ?thesis using d(3) by (simp add: flush_closing_def fold_CloseCallback)
qed

lemma dormant_step:
  assumes "task_step env s s'" "task_inv s" "dormant i s"
  shows "dormant i s' \<and> tally (is_run i) s' = tally (is_run i) s"
  using assms
proof (induction rule: task_step.induct)
  case (call s c)
  then show ?case using task_do_ok [of s c] dormant_rel [of s "task_do env c s"] by (simp add: task_ok_def)
next
  case (fired s ptr d)
  then have "td_id d \<noteq> i" by (auto simp: dormant_def)
  then have "dormant i (started env ptr d s)" "tally (is_run i) (started env ptr d s) = tally (is_run i) s"
    using fired by (auto simp: started_def set_timer_def Let_def dormant_def)
  then show ?case using dormant_rel [of "started env ptr d s" "fire env ptr s"] fire_ok [OF fired(3,1,2)] by (simp add: task_ok_def)
next
  case (closed s ptr d)
  then show ?case by (auto simp: CloseCallback_def touch_def dormant_def is_run_def)
qed

lemma dormant_steps:
  assumes "(task_step env)\<^sup>*\<^sup>* s s'" "task_inv s" "dormant i s"
  shows "tally (is_run i) s' = tally (is_run i) s"
proof -
  from assms have "task_inv s' \<and> dormant i s' \<and> tally (is_run i) s' = tally (is_run i) s"
    by (induction rule: rtranclp_induct) (use step_inv dormant_step in auto)
  then show ?thesis by simp
qed

end

text \<open>Code that uses only the operations keeps the contract, however deep it spawns.\<close>

lemma nested_ok: "task_inv s \<Longrightarrow> task_ok s (snd (task_code (task_nested n script base) e s))"
proof (induction n arbitrary: s e)
  case (Suc n)
  have "quiet_code (task_nested n script base)" by unfold_locales (rule Suc.IH)
  then have "task_inv s \<Longrightarrow> task_ok s (task_do (task_nested n script base) c s)" for c s by (rule quiet_code.task_do_ok)
  from fold_ok [OF this Suc.prems] show ?case by simp
qed (simp add: task_ok_refl)

interpretation nested: quiet_code "task_nested n script base" for n script base
  by unfold_locales (rule nested_ok)

lemma TaskContext_new_inv: "task_inv TaskContext_new"
  by (simp add: TaskContext_new_def task_inv_def tally_def)

lemma reachable_inv: "(task_step (task_nested n script base))\<^sup>*\<^sup>* TaskContext_new s \<Longrightarrow> task_inv s"
  by (rule nested.steps_inv [OF _ TaskContext_new_inv])

text \<open>A concrete environment: libuv calls succeed, and the callback 7 clears its own timer.\<close>

definition demo_base :: task_env where
  "demo_base = \<lparr>task_code = \<lambda>e s. (Finished, s), uv_timer_init_status = \<lambda>s. 0, uv_timer_start_status = \<lambda>s. 0, uv_error = \<lambda>r. [],
     elapsed_seconds = \<lambda>s. Finite 0, foreign_callback = \<lambda>s. False, task_mult = \<lambda>a b. Finite (a * b)\<rparr>"

definition demo_script :: "task_effect \<Rightarrow> TaskContext \<Rightarrow> resume_result \<times> task_call list" where
  "demo_script e s = (case e of RunCallback i r cb args \<Rightarrow> (Finished, [KClear i]) | _ \<Rightarrow> (Finished, []))"

definition demo_env :: task_env where
  "demo_env = task_nested 1 demo_script demo_base"

definition demo_armed :: TaskContext where
  "demo_armed = task_do demo_env (KSetTimeout 7 (Finite 5) []) TaskContext_new"

lemma demo_armed_eq:
  "demo_armed = \<lparr>nextTimerId = 2, mainThread = None, mainThreadError = [], timers = [(1, 0)], shutdownHooks = [],
     timer_heap = [0 \<mapsto> \<lparr>td_id = 1, td_thread = None, td_callback = 7, td_recurring = False, td_elapsed = False, td_args = [],
       td_attached = True, td_active = True, td_closing = False\<rparr>],
     next_ptr = 1, undefined_use = False, task_trace = [TimerStart 0 5 False]\<rparr>"
  by (simp add: demo_armed_def demo_env_def demo_base_def demo_script_def task_do_def Task_SetTimeout_def alloc_timer_def blank_def
      Task_StartTimer_def TaskContext_new_def set_timer_def did_def Let_def ToMilliseconds_def max_u64_double_def)

lemma demo_reach:
  "(task_step demo_env)\<^sup>*\<^sup>* TaskContext_new demo_armed" "(task_step demo_env)\<^sup>*\<^sup>* TaskContext_new (fire demo_env 0 demo_armed)"
proof -
  have "task_step demo_env TaskContext_new demo_armed" unfolding demo_armed_def by (rule task_step.call)
  then show armed: "(task_step demo_env)\<^sup>*\<^sup>* TaskContext_new demo_armed" by simp
  have "task_step demo_env demo_armed (fire demo_env 0 demo_armed)" 
    using task_step.fired [of demo_armed 0 "the (timer_heap demo_armed 0)" demo_env] by (simp add: demo_armed_eq)
  with armed show "(task_step demo_env)\<^sup>*\<^sup>* TaskContext_new (fire demo_env 0 demo_armed)" by simp
qed

section \<open>Properties\<close>

text \<open>C15. Memory safety of the scheduler: whatever the calls, the timers that come due, the close callbacks and the
  scheduler calls that Luau code makes from its callbacks, no code of \<open>Task.cpp\<close> reads or writes a timer after it was freed.\<close>

theorem timers_safe:
  assumes "(task_step (task_nested n script base))\<^sup>*\<^sup>* TaskContext_new s"
  shows "\<not> undefined_use s"
  using reachable_inv [OF assms] by (simp add: task_inv_def)

theorem timers_safe_witness: "\<not> undefined_use (fire demo_env 0 demo_armed)"
  by (rule timers_safe [of 1 demo_script demo_base, folded demo_env_def]) (rule demo_reach(2))

text \<open>C28. A timeout, wait, defer or delay runs at most once, however timers, clears and nested calls interleave.\<close>

theorem one_shot_once:
  assumes "(task_step (task_nested n script base))\<^sup>*\<^sup>* TaskContext_new s"
  shows "length (filter (is_shot i) (task_trace s)) \<le> 1"
  using reachable_inv [OF assms] by (simp add: task_inv_def tally_def)

theorem one_shot_once_witness: "length (filter (is_shot 1) (task_trace (fire demo_env 0 demo_armed))) \<le> 1"
  by (rule one_shot_once [of 1 demo_script demo_base, folded demo_env_def]) (rule demo_reach(2))

text \<open>C29. Cancellation is final: once \<open>ClearTimeout\<close> has been called for an id that was given out, no later
  sequence of calls, due timers and close callbacks runs that timer again, intervals included.\<close>

theorem cancel_final:
  assumes "(task_step (task_nested n script base))\<^sup>*\<^sup>* TaskContext_new s" and "i < nextTimerId s"
    and "(task_step (task_nested n script base))\<^sup>*\<^sup>* (ClearTimeout i s) s'"
  shows "length (filter (is_run i) (task_trace s')) = length (filter (is_run i) (task_trace s))"
proof -
  note inv = reachable_inv [OF assms(1)]
  have "task_ok s (ClearTimeout i s)" by (rule ClearTimeout_ok [OF inv])
  with nested.dormant_steps [OF assms(3) _ dormant_clear [OF inv assms(2)]]
  have "tally (is_run i) s' = tally (is_run i) s" by (simp add: task_ok_def task_rel_def)
  then show ?thesis by (simp add: tally_def)
qed

theorem cancel_final_witness:
  "length (filter (is_run 1) (task_trace (CloseCallback 0 (ClearTimeout 1 demo_armed)))) = length (filter (is_run 1) (task_trace demo_armed))"
proof (rule cancel_final [of 1 demo_script demo_base, folded demo_env_def])
  show "(task_step demo_env)\<^sup>*\<^sup>* TaskContext_new demo_armed" by (rule demo_reach(1))
  show "1 < nextTimerId demo_armed" by (simp add: demo_armed_eq)
  have "timer_heap (ClearTimeout 1 demo_armed) 0 = Some ((the (timer_heap demo_armed 0))\<lparr>td_active := False, td_closing := True\<rparr>)"
    by (simp add: demo_armed_eq ClearTimeout_def uv_timer_stop_def touch_def set_timer_def erase_timer_def SafeDestroyTimer_def did_def)
  then show "(task_step demo_env)\<^sup>*\<^sup>* (ClearTimeout 1 demo_armed) (CloseCallback 0 (ClearTimeout 1 demo_armed))"
    using task_step.closed [of _ 0 _ demo_env] by (intro r_into_rtranclp) simp
qed

text \<open>Shutdown frees every timer whose handle was set up, also when shutdown hooks use the scheduler.\<close>

theorem shutdown_frees:
  assumes "(task_step (task_nested n script base))\<^sup>*\<^sup>* TaskContext_new s" and "timer_heap s p = Some d" "td_attached d"
  shows "timer_heap (Task_Shutdown (task_nested n script base) s) p = None"
  by (rule nested.Shutdown_frees [OF reachable_inv [OF assms(1)] assms(2,3)])

theorem shutdown_frees_witness: "timer_heap (Task_Shutdown demo_env demo_armed) 0 = None"
  by (rule shutdown_frees [of 1 demo_script demo_base _ _ "the (timer_heap demo_armed 0)", folded demo_env_def])
     (rule demo_reach(1), simp_all add: demo_armed_eq)

text \<open>The code runs the event loop inside a callback when a module that yields is required there. A callback that
  clears its own timer and then does so has its timer freed while \<open>OnTimerFired\<close> still needs it: the read of
  \<open>recurring\<close> after the callback is a use after free.\<close>

theorem self_clear_then_pump:
  assumes "(task_step (task_nested n script base))\<^sup>*\<^sup>* TaskContext_new s" and "timer_heap s ptr = Some d" "td_active d"
  shows "undefined_use (fire (base\<lparr>task_code := \<lambda>e s. (Finished, flush_closing (ClearTimeout (td_id d) s))\<rparr>) ptr s)"
proof -
  let ?env = "base\<lparr>task_code := \<lambda>e s. (Finished, flush_closing (ClearTimeout (td_id d) s))\<rparr>"
  let ?d = "d\<lparr>td_active := td_recurring d\<rparr>"
  define u where "u = started ?env ptr d s"
  have inv: "task_inv u" unfolding u_def by (rule started_inv [OF reachable_inv [OF assms(1)] assms(2,3)])
  have u: "timer_heap u ptr = Some ?d" "timers u = timers s" by (simp_all add: u_def started_def set_timer_def Let_def)
  have ok: "timer_ok s ptr d" "distinct (map fst (timers s))" using reachable_inv [OF assms(1)] assms(2) by (simp_all add: task_inv_def)
  then have reg: "map_of (timers u) (td_id d) = Some ptr" and att: "td_attached d" "\<not> td_closing d"
    using assms(3) by (simp_all add: timer_ok_def u(2))
  have "timer_heap (ClearTimeout (td_id d) u) ptr = Some (?d\<lparr>td_active := False, td_closing := True\<rparr>)"
    using retire_eq [OF u(1)] reg att by (simp add: ClearTimeout_def retired_def)
  moreover have "task_inv (ClearTimeout (td_id d) u)" using ClearTimeout_ok [OF inv] by (simp add: task_ok_def)
  ultimately have freed: "timer_heap (flush_closing (ClearTimeout (td_id d) u)) ptr = None"
    using att by (auto simp: flush_closing_def fold_CloseCallback closing_timers_def task_inv_def timer_ok_def)
  have "run_timer ?env ?d (set_timer ptr ?d s) = flush_closing (ClearTimeout (td_id d) u)"
    by (simp add: run_timer_def run_code_def u_def started_def run_event_def report_main_def report_callback_def Let_def split: option.split)
  then show ?thesis using freed att(1) assms(2) by (simp add: fire_def OnTimerFired_def touch_def set_timer_def)
qed

theorem self_clear_then_pump_witness:
  "undefined_use (fire (demo_base\<lparr>task_code := \<lambda>e s. (Finished, flush_closing (ClearTimeout 1 s))\<rparr>) 0 demo_armed)"
  using self_clear_then_pump [of 1 demo_script demo_base demo_armed 0 "the (timer_heap demo_armed 0)", folded demo_env_def] demo_reach(1)
  by (simp add: demo_armed_eq)

end
