(* ===== verification/Lode_EventLoop.thy ===== *)
theory Lode_EventLoop
  imports Lode_Value
begin

text \<open>
  The event loop, \<open>EventLoop.cpp\<close>: work posted from other threads, hooks that run when the loop closes, and the
  garbage collector hook of \<open>Run\<close>. libuv's own loop is a pair of environment fields, the turn of the loop and
  whether it is alive; posted work and hooks are an environment field as well, named by numbers. Each
  critical section of \<open>postMutex_\<close> is one operation of the model, so interleaving with other threads is
  interleaving of operations.
\<close>

section \<open>State\<close>

record GcBudget =
  stepSizeKB :: int
  softLimitKB :: double
  hardLimitKB :: double

datatype uv_mode = RunDefault | RunNoWait

datatype loop_effect =
    Posted nat
  | RanWork nat
  | RanHook nat
  | LogError string
  | GcStepped int
  | GcCollected
  | GcWarned
  | UvRan uv_mode
  | UvStopped
  | PrepareClosed
  | AsyncClosed
  | LoopClosed

record EventLoop =
  loop_open :: bool
  gcBudget :: GcBudget
  gcHookActive :: bool
  closeHooks :: "nat list"
  loop_closing :: bool
  postAsync :: bool
  posted :: "nat list"
  hardLimitWarned :: bool
  loop_trace :: "loop_effect list"

datatype outcome = Done | Threw string | ThrewUnknown

record loop_env =
  loop_code :: "loop_effect \<Rightarrow> EventLoop \<Rightarrow> outcome \<times> EventLoop"
  uv_run :: "uv_mode \<Rightarrow> EventLoop \<Rightarrow> EventLoop"
  uv_loop_alive :: "EventLoop \<Rightarrow> bool"
  loop_init_status :: int
  async_init_status :: int
  async_send_status :: "EventLoop \<Rightarrow> int"
  prepare_init_status :: "EventLoop \<Rightarrow> int"
  gc_count :: "EventLoop \<Rightarrow> int"
  loop_strerror :: "int \<Rightarrow> string"

definition no_budget :: GcBudget where
  "no_budget = \<lparr>stepSizeKB = 0, softLimitKB = Finite 0, hardLimitKB = Finite 0\<rparr>"

definition logged :: "loop_effect \<Rightarrow> EventLoop \<Rightarrow> EventLoop" where
  "logged e s = s\<lparr>loop_trace := loop_trace s @ [e]\<rparr>"

definition EventLoop_new :: "loop_env \<Rightarrow> string + EventLoop" where
  "EventLoop_new env =
     (if loop_init_status env \<noteq> 0
      then Inl (''Failed to initialize event loop: '' @ loop_strerror env (loop_init_status env))
      else if async_init_status env \<noteq> 0
      then Inl (''Failed to initialize event-loop post queue: '' @ loop_strerror env (async_init_status env))
      else Inr \<lparr>loop_open = True, gcBudget = no_budget, gcHookActive = False, closeHooks = [], loop_closing = False,
                postAsync = True, posted = [], hardLimitWarned = False, loop_trace = []\<rparr>)"

section \<open>Posted work and close hooks\<close>

text \<open>A function object that is called inside a \<open>try\<close>, with the two messages for what it throws.\<close>

definition guarded :: "loop_env \<Rightarrow> loop_effect \<Rightarrow> string \<Rightarrow> string \<Rightarrow> EventLoop \<Rightarrow> EventLoop" where
  "guarded env e known unknown s =
     (let (r, s1) = loop_code env e (logged e s)
      in case r of
           Done \<Rightarrow> s1
         | Threw message \<Rightarrow> logged (LogError (known @ message)) s1
         | ThrewUnknown \<Rightarrow> logged (LogError unknown) s1)"

definition run_work :: "loop_env \<Rightarrow> nat \<Rightarrow> EventLoop \<Rightarrow> EventLoop" where
  "run_work env n = guarded env (RanWork n) ''event-loop posted work failed: '' ''event-loop posted work failed''"

definition run_hook :: "loop_env \<Rightarrow> nat \<Rightarrow> EventLoop \<Rightarrow> EventLoop" where
  "run_hook env h =
     guarded env (RanHook h) ''Event-loop close hook failed: '' ''Event-loop close hook failed with an unknown exception''"

definition OnPosted :: "loop_env \<Rightarrow> EventLoop \<Rightarrow> EventLoop" where
  "OnPosted env s = fold (run_work env) (posted s) (s\<lparr>posted := []\<rparr>)"

definition Post :: "loop_env \<Rightarrow> nat \<Rightarrow> EventLoop \<Rightarrow> bool \<times> EventLoop" where
  "Post env n s =
     (if loop_closing s \<or> \<not> postAsync s then (False, s)
      else let s1 = logged (Posted n) (s\<lparr>posted := posted s @ [n]\<rparr>) in (async_send_status env s1 = 0, s1))"

text \<open>A hook that is added while the loop closes runs at once, outside of any \<open>try\<close>.\<close>

definition AddCloseHook :: "loop_env \<Rightarrow> nat \<Rightarrow> EventLoop \<Rightarrow> outcome \<times> EventLoop" where
  "AddCloseHook env h s =
     (if loop_closing s then loop_code env (RanHook h) (logged (RanHook h) s)
      else (Done, s\<lparr>closeHooks := closeHooks s @ [h]\<rparr>))"

text \<open>Turning the loop until nothing is alive may take forever; not returning is \<^const>\<open>None\<close>.\<close>

partial_function (option) drain_loop :: "loop_env \<Rightarrow> EventLoop \<Rightarrow> EventLoop option" where
  "drain_loop env s =
     (if uv_loop_alive env s then drain_loop env (uv_run env RunNoWait (logged (UvRan RunNoWait) s)) else Some s)"

definition close_begin :: "loop_env \<Rightarrow> EventLoop \<Rightarrow> EventLoop" where
  "close_begin env s =
     (let s1 = fold (run_hook env) (closeHooks s) (s\<lparr>loop_closing := True, posted := [], closeHooks := []\<rparr>);
          s2 = logged UvStopped s1
      in if postAsync s2 then logged AsyncClosed (s2\<lparr>postAsync := False\<rparr>) else s2)"

definition EventLoop_Close :: "loop_env \<Rightarrow> EventLoop \<Rightarrow> EventLoop option" where
  "EventLoop_Close env s =
     (if \<not> loop_open s then Some s
      else map_option (\<lambda>s1. logged LoopClosed (s1\<lparr>loop_open := False\<rparr>)) (drain_loop env (close_begin env s)))"

section \<open>Running\<close>

definition positive :: "double \<Rightarrow> bool" where
  "positive d \<longleftrightarrow> (case d of Finite r \<Rightarrow> 0 < r | Infinity negative \<Rightarrow> \<not> negative | NaN \<Rightarrow> False)"

definition exceeds :: "int \<Rightarrow> double \<Rightarrow> bool" where
  "exceeds used limit \<longleftrightarrow> (case limit of Finite r \<Rightarrow> r < of_int used | Infinity negative \<Rightarrow> negative | NaN \<Rightarrow> False)"

definition fits :: "int \<Rightarrow> double \<Rightarrow> bool" where
  "fits used limit \<longleftrightarrow> (case limit of Finite r \<Rightarrow> of_int used \<le> r | Infinity negative \<Rightarrow> \<not> negative | NaN \<Rightarrow> False)"

text \<open>The collector hook, with the budget that \<open>Run\<close> captured.\<close>

definition OnGcPrepare :: "loop_env \<Rightarrow> GcBudget \<Rightarrow> EventLoop \<Rightarrow> EventLoop" where
  "OnGcPrepare env b s =
     (let s1 = logged (GcStepped (stepSizeKB b)) s;
          s2 = (if positive (softLimitKB b) \<and> exceeds (gc_count env s1) (softLimitKB b) then logged (GcStepped 256) s1 else s1)
      in if positive (hardLimitKB b)
         then let used = gc_count env s2
              in if exceeds used (hardLimitKB b)
                 then let s3 = logged GcCollected s2
                      in if \<not> hardLimitWarned s3 then logged GcWarned (s3\<lparr>hardLimitWarned := True\<rparr>) else s3
                 else if fits used (if positive (softLimitKB b) then softLimitKB b else hardLimitKB b)
                      then s2\<lparr>hardLimitWarned := False\<rparr> else s2
         else s2)"

definition budgetActive :: "GcBudget \<Rightarrow> bool" where
  "budgetActive b \<longleftrightarrow> 0 < stepSizeKB b \<or> positive (softLimitKB b) \<or> positive (hardLimitKB b)"

definition EventLoop_Run :: "loop_env \<Rightarrow> EventLoop \<Rightarrow> EventLoop option" where
  "EventLoop_Run env s =
     (if \<not> loop_open s then Some s
      else
        let install = (budgetActive (gcBudget s) \<and> \<not> gcHookActive s \<and> prepare_init_status env s = 0);
            s1 = (if install then s\<lparr>gcHookActive := True, hardLimitWarned := False\<rparr> else s);
            s2 = uv_run env RunDefault (logged (UvRan RunDefault) s1)
        in if install
           then map_option (\<lambda>s3. s3\<lparr>gcHookActive := False\<rparr>) (drain_loop env (logged PrepareClosed s2))
           else Some s2)"

definition EventLoop_Step :: "loop_env \<Rightarrow> EventLoop \<Rightarrow> EventLoop" where
  "EventLoop_Step env s = (if loop_open s then uv_run env RunNoWait (logged (UvRan RunNoWait) s) else s)"

definition EventLoop_Stop :: "EventLoop \<Rightarrow> EventLoop" where
  "EventLoop_Stop s = (if loop_open s then logged UvStopped s else s)"

definition SetGcBudget :: "GcBudget \<Rightarrow> EventLoop \<Rightarrow> EventLoop" where
  "SetGcBudget b s = s\<lparr>gcBudget := b\<rparr>"

section \<open>Steps\<close>

datatype loop_op = OPost nat | OHook nat | OBudget GcBudget | OStop

definition loop_do :: "loop_env \<Rightarrow> loop_op \<Rightarrow> EventLoop \<Rightarrow> EventLoop" where
  "loop_do env c s =
     (case c of
        OPost n \<Rightarrow> snd (Post env n s)
      | OHook h \<Rightarrow> snd (AddCloseHook env h s)
      | OBudget b \<Rightarrow> SetGcBudget b s
      | OStop \<Rightarrow> EventLoop_Stop s)"

text \<open>An operation of any thread, the callback of the async handle, the collector hook, or the start of \<open>Close\<close>;
  libuv does not call back on the async handle once it is closing.\<close>

inductive loop_step :: "loop_env \<Rightarrow> EventLoop \<Rightarrow> EventLoop \<Rightarrow> bool" for env where
  op: "loop_step env s (loop_do env c s)"
| async: "postAsync s \<Longrightarrow> loop_step env s (OnPosted env s)"
| prepare: "loop_step env s (OnGcPrepare env b s)"
| close: "loop_open s \<Longrightarrow> loop_step env s (close_begin env s)"

primrec loop_nested :: "nat \<Rightarrow> (loop_effect \<Rightarrow> EventLoop \<Rightarrow> outcome \<times> loop_op list) \<Rightarrow> loop_env \<Rightarrow> loop_env" where
  "loop_nested 0 script base = base\<lparr>loop_code := \<lambda>e s. (fst (script e s), s)\<rparr>"
| "loop_nested (Suc n) script base =
     base\<lparr>loop_code := \<lambda>e s. (fst (script e s), fold (loop_do (loop_nested n script base)) (snd (script e s)) s)\<rparr>"

section \<open>Invariant\<close>

text \<open>The work that was accepted and the work that was run, in order.\<close>

fun post_of :: "loop_effect \<Rightarrow> nat list" where
  "post_of (Posted n) = [n]"
| "post_of _ = []"

fun work_of :: "loop_effect \<Rightarrow> nat list" where
  "work_of (RanWork n) = [n]"
| "work_of _ = []"

definition posts :: "EventLoop \<Rightarrow> nat list" where
  "posts s = concat (map post_of (loop_trace s))"

definition ran :: "EventLoop \<Rightarrow> nat list" where
  "ran s = concat (map work_of (loop_trace s))"

definition loop_inv :: "EventLoop \<Rightarrow> bool" where
  "loop_inv s \<longleftrightarrow> (\<exists>lost. posts s = ran s @ posted s @ lost \<and> (lost \<noteq> [] \<longrightarrow> loop_closing s)) \<and> (loop_closing s \<longrightarrow> \<not> postAsync s)"

text \<open>What code may do while it runs on the loop: post more work, unless the loop is closing.\<close>

definition grew :: "EventLoop \<Rightarrow> EventLoop \<Rightarrow> bool" where
  "grew s s' \<longleftrightarrow>
     (\<exists>new. posted s' = posted s @ new \<and> posts s' = posts s @ new \<and> (loop_closing s \<longrightarrow> new = [])) \<and>
     ran s' = ran s \<and> loop_closing s' = loop_closing s \<and> postAsync s' = postAsync s"

lemma logged_fields [simp]:
  "loop_open (logged e s) = loop_open s" "posted (logged e s) = posted s" "loop_closing (logged e s) = loop_closing s"
  "postAsync (logged e s) = postAsync s" "closeHooks (logged e s) = closeHooks s" "gcHookActive (logged e s) = gcHookActive s"
  "hardLimitWarned (logged e s) = hardLimitWarned s" "gcBudget (logged e s) = gcBudget s"
  "loop_trace (logged e s) = loop_trace s @ [e]"
  by (simp_all add: logged_def)

lemma lists_logged [simp]: "posts (logged e s) = posts s @ post_of e" "ran (logged e s) = ran s @ work_of e"
  by (simp_all add: posts_def ran_def)

lemma lists_update [simp]:
  "posts (s\<lparr>posted := x\<rparr>) = posts s" "posts (s\<lparr>loop_closing := c\<rparr>) = posts s" "posts (s\<lparr>closeHooks := h\<rparr>) = posts s"
  "posts (s\<lparr>postAsync := c\<rparr>) = posts s" "posts (s\<lparr>gcBudget := b\<rparr>) = posts s" "posts (s\<lparr>hardLimitWarned := c\<rparr>) = posts s"
  "ran (s\<lparr>posted := x\<rparr>) = ran s" "ran (s\<lparr>loop_closing := c\<rparr>) = ran s" "ran (s\<lparr>closeHooks := h\<rparr>) = ran s"
  "ran (s\<lparr>postAsync := c\<rparr>) = ran s" "ran (s\<lparr>gcBudget := b\<rparr>) = ran s" "ran (s\<lparr>hardLimitWarned := c\<rparr>) = ran s"
  by (simp_all add: posts_def ran_def)

lemma grew_refl [simp]: "grew s s"
  by (simp add: grew_def)

lemma grew_trans: "grew a b \<Longrightarrow> grew b c \<Longrightarrow> grew a c"
  unfolding grew_def by auto

lemma grew_logged: "grew a b \<Longrightarrow> post_of e = [] \<Longrightarrow> work_of e = [] \<Longrightarrow> grew a (logged e b)"
  by (auto simp: grew_def)

lemma fold_grew: "(\<And>x s. grew s (f x s)) \<Longrightarrow> grew s (fold f xs s)"
proof (induction xs arbitrary: s)
  case (Cons x xs)
  have "grew (f x s) (fold f xs (f x s))" by (rule Cons.IH [OF Cons.prems])
  with grew_trans [OF Cons.prems [of s x]] show ?case by simp
qed simp

lemma grew_inv: "loop_inv s \<Longrightarrow> grew s s' \<Longrightarrow> loop_inv s'"
  by (fastforce simp: loop_inv_def grew_def)

lemma Post_grew: "grew s (snd (Post env n s))"
  by (auto simp: Post_def Let_def grew_def)

text \<open>The contract of code that runs on the loop.\<close>

locale loop_client =
  fixes env :: loop_env
  assumes code_grew: "grew s (snd (loop_code env e s))"
begin

lemma guarded_grew: "grew (logged e s) (guarded env e known unknown s)"
  using code_grew [of "logged e s" e] by (auto simp: guarded_def split_beta intro: grew_logged split: outcome.split)

lemma loop_do_grew: "grew s (loop_do env c s)"
proof (cases c)
  case (OHook h)
  have "grew s (snd (loop_code env (RanHook h) (logged (RanHook h) s)))"
    by (rule grew_trans [OF grew_logged code_grew]) simp_all
  then show ?thesis by (auto simp: OHook loop_do_def AddCloseHook_def grew_def posts_def ran_def)
qed (simp_all add: loop_do_def Post_grew, auto simp: SetGcBudget_def EventLoop_Stop_def grew_def)

text \<open>Draining: the work taken out of the queue runs before anything posted meanwhile.\<close>

lemma drain_order:
  assumes "posts s = ran s @ ws @ posted s" "\<not> loop_closing s"
  shows "posts (fold (run_work env) ws s) = ran (fold (run_work env) ws s) @ posted (fold (run_work env) ws s) \<and>
    \<not> loop_closing (fold (run_work env) ws s)"
  using assms
proof (induction ws arbitrary: s)
  case (Cons w ws)
  let ?s = "run_work env w s"
  have "grew (logged (RanWork w) s) ?s" unfolding run_work_def by (rule guarded_grew)
  then have "posts ?s = ran ?s @ ws @ posted ?s" "\<not> loop_closing ?s" using Cons.prems by (auto simp: grew_def)
  from Cons.IH [OF this] show ?case by simp
qed simp

lemma OnPosted_inv:
  assumes "loop_inv s" "postAsync s"
  shows "loop_inv (OnPosted env s)"
proof -
  have "\<not> loop_closing s" "posts s = ran s @ posted s" using assms by (auto simp: loop_inv_def)
  then show ?thesis using drain_order [of "s\<lparr>posted := []\<rparr>" "posted s"] by (simp add: OnPosted_def loop_inv_def)
qed

lemma close_inv:
  assumes "loop_inv s"
  shows "loop_inv (close_begin env s)"
proof -
  let ?s = "s\<lparr>loop_closing := True, posted := [], closeHooks := []\<rparr>"
  have "grew s (run_hook env h s)" for h s
    unfolding run_hook_def by (rule grew_trans [OF grew_logged guarded_grew]) simp_all
  then have "grew ?s (fold (run_hook env) (closeHooks s) ?s)" by (rule fold_grew)
  then show ?thesis using assms by (auto simp: close_begin_def Let_def grew_def loop_inv_def)
qed

lemma loop_step_inv: "loop_step env s s' \<Longrightarrow> loop_inv s \<Longrightarrow> loop_inv s'"
proof (induction rule: loop_step.induct)
  case (op s c)
  then show ?case using loop_do_grew grew_inv by blast
next
  case (prepare s b)
  have "grew s (OnGcPrepare env b s)" by (auto simp: OnGcPrepare_def Let_def grew_def)
  with prepare show ?case using grew_inv by blast
qed (simp_all add: OnPosted_inv close_inv)

lemma loop_reach_inv: "(loop_step env)\<^sup>*\<^sup>* s s' \<Longrightarrow> loop_inv s \<Longrightarrow> loop_inv s'"
  by (induction rule: rtranclp_induct) (auto intro: loop_step_inv)

end

lemma loop_nested_grew: "grew s (snd (loop_code (loop_nested n script base) e s))"
proof (induction n arbitrary: s e)
  case (Suc n)
  have "loop_client (loop_nested n script base)" by unfold_locales (rule Suc.IH)
  then have "grew s (loop_do (loop_nested n script base) c s)" for c s by (rule loop_client.loop_do_grew)
  then show ?case by (simp add: fold_grew)
qed simp

interpretation scripted: loop_client "loop_nested n script base" for n script base
  by unfold_locales (rule loop_nested_grew)

lemma EventLoop_new_inv: "EventLoop_new env = Inr s \<Longrightarrow> loop_inv s"
  by (auto simp: EventLoop_new_def loop_inv_def posts_def ran_def split: if_splits)

section \<open>Draining the loop\<close>

lemma drain_forever:
  assumes "\<And>s. uv_loop_alive env s"
  shows "drain_loop env s = None"
proof -
  have "e \<noteq> env" if "drain_loop e t = Some u" for e t u
    by (rule drain_loop.raw_induct [OF _ that, where P = "\<lambda>e t u. e \<noteq> env"]) (use assms in \<open>auto split: if_splits\<close>)
  then show ?thesis by (cases "drain_loop env s") auto
qed

text \<open>The collector hook while the heap stays above the hard limit: every turn collects, one turn warns.\<close>

definition effects :: "loop_effect \<Rightarrow> EventLoop \<Rightarrow> nat" where
  "effects e s = length (filter ((=) e) (loop_trace s))"

lemma OnGcPrepare_above:
  assumes "positive (hardLimitKB b)" "\<And>s. exceeds (gc_count env s) (hardLimitKB b)"
  shows "effects GcWarned (OnGcPrepare env b s) = effects GcWarned s + of_bool (\<not> hardLimitWarned s)"
    and "effects GcCollected (OnGcPrepare env b s) = effects GcCollected s + 1" and "hardLimitWarned (OnGcPrepare env b s)"
  using assms by (simp_all add: OnGcPrepare_def Let_def effects_def)

lemma hard_limit_warns_once:
  assumes "positive (hardLimitKB b)" "\<And>s. exceeds (gc_count env s) (hardLimitKB b)" "\<not> hardLimitWarned s"
  shows "effects GcWarned ((OnGcPrepare env b ^^ Suc n) s) = effects GcWarned s + 1 \<and>
    effects GcCollected ((OnGcPrepare env b ^^ Suc n) s) = effects GcCollected s + Suc n \<and> hardLimitWarned ((OnGcPrepare env b ^^ Suc n) s)"
  using OnGcPrepare_above [of b env, OF assms(1,2)] assms(3) by (induction n) simp_all

section \<open>Properties\<close>

definition quiet_base :: loop_env where
  "quiet_base = \<lparr>loop_code = \<lambda>e s. (Done, s), uv_run = \<lambda>m s. s, uv_loop_alive = \<lambda>s. True, loop_init_status = 0, async_init_status = 0,
     async_send_status = \<lambda>s. 0, prepare_init_status = \<lambda>s. 0, gc_count = \<lambda>s. 0, loop_strerror = \<lambda>r. []\<rparr>"

definition post_script :: "loop_effect \<Rightarrow> EventLoop \<Rightarrow> outcome \<times> loop_op list" where
  "post_script e s = (case e of RanWork n \<Rightarrow> (Threw ''x'', [OPost (Suc n)]) | _ \<Rightarrow> (Done, []))"

definition new_loop :: EventLoop where
  "new_loop = \<lparr>loop_open = True, gcBudget = no_budget, gcHookActive = False, closeHooks = [], loop_closing = False,
     postAsync = True, posted = [], hardLimitWarned = False, loop_trace = []\<rparr>"

text \<open>C30. Posted work runs in the order it was accepted, each piece at most once, also when work throws or posts
  again; what was accepted and has not run is still queued, unless the loop is closing.\<close>

theorem posted_work_fifo:
  assumes "EventLoop_new (loop_nested n script base) = Inr s0" and "(loop_step (loop_nested n script base))\<^sup>*\<^sup>* s0 s"
  shows "\<exists>lost. posts s = ran s @ posted s @ lost \<and> (lost \<noteq> [] \<longrightarrow> loop_closing s)"
  using scripted.loop_reach_inv [OF assms(2) EventLoop_new_inv [OF assms(1)]] by (simp add: loop_inv_def)

theorem posted_work_fifo_witness:
  "\<exists>lost. posts (OnPosted (loop_nested 1 post_script quiet_base) (loop_do (loop_nested 1 post_script quiet_base) (OPost 4) new_loop)) =
     ran (OnPosted (loop_nested 1 post_script quiet_base) (loop_do (loop_nested 1 post_script quiet_base) (OPost 4) new_loop)) @
     posted (OnPosted (loop_nested 1 post_script quiet_base) (loop_do (loop_nested 1 post_script quiet_base) (OPost 4) new_loop)) @ lost \<and>
     (lost \<noteq> [] \<longrightarrow> loop_closing (OnPosted (loop_nested 1 post_script quiet_base) (loop_do (loop_nested 1 post_script quiet_base) (OPost 4) new_loop)))"
proof (rule posted_work_fifo)
  let ?env = "loop_nested 1 post_script quiet_base"
  let ?s = "loop_do ?env (OPost 4) new_loop"
  show "EventLoop_new ?env = Inr new_loop" by (simp add: EventLoop_new_def quiet_base_def new_loop_def)
  have "loop_step ?env new_loop ?s" by (rule loop_step.op)
  moreover have "postAsync ?s" by (simp add: loop_do_def Post_def new_loop_def Let_def)
  then have "loop_step ?env ?s (OnPosted ?env ?s)" by (rule loop_step.async)
  ultimately show "(loop_step ?env)\<^sup>*\<^sup>* new_loop (OnPosted ?env ?s)" by (meson converse_rtranclp_into_rtranclp r_into_rtranclp)
qed

text \<open>With a collector budget, \<open>Run\<close> does not end when the loop is stopped: after \<open>uv_run\<close> has returned, it turns
  the loop until nothing is alive. While something stays alive, such as an interval, \<open>Run\<close> never returns.\<close>

theorem stop_ignored_with_budget:
  assumes "loop_open s" "budgetActive (gcBudget s)" "\<not> gcHookActive s" "prepare_init_status env s = 0" "\<And>s. uv_loop_alive env s"
  shows "EventLoop_Run env s = None"
  using assms by (simp add: EventLoop_Run_def Let_def drain_forever)

theorem stop_ignored_with_budget_witness:
  "EventLoop_Run quiet_base (new_loop\<lparr>gcBudget := no_budget\<lparr>stepSizeKB := 64\<rparr>\<rparr>) = None"
  by (rule stop_ignored_with_budget) (simp_all add: new_loop_def budgetActive_def quiet_base_def)

end
