(* ===== verification/Lode_TcpClient.thy ===== *)
theory Lode_TcpClient
  imports Lode_Value
begin

text \<open>
  The socket object of the tcp module, \<open>TcpClient.cpp\<close>, on libuv. The fields of the class are a
  record and every method a state transformer; calls of libuv that change the outside (handles opened
  and closed, reads, writes), signals, native callbacks and resumed coroutines are appended to a
  trace. The environment gives the return code of every libuv call, its address functions and error
  texts, and the code that a signal, callback or coroutine runs before control returns; that code may
  use the same socket. The build without the Windows TLS context is modelled; \<open>nread\<close> of a read
  callback is given with the bytes of the buffer.
\<close>

section \<open>State\<close>

type_synonym sockaddr = "string \<times> nat"

datatype tcp_effect =
    CppConnected
  | CppError string
  | CppMessage bytes
  | CppDisconnected
  | SigConnected
  | SigMessage bytes
  | SigDisconnected "string option"
  | SigError string
  | CoResume
  | CoResumeError string
  | UvTcpInit
  | UvTcpConnect sockaddr
  | UvGetAddrInfo string nat
  | UvTimerOn nat
  | UvTimerOff
  | UvCloseTimer
  | UvCloseTcp
  | UvClosedCb
  | UvReadStart
  | UvReadStop
  | UvWrite bytes
  | UvShutdown
  | UvNoDelay bool
  | UvKeepAlive bool nat
  | MgrRemoveClient

record TcpClient =
  tcpInited :: bool
  addrInited :: bool
  tc_timerInited :: bool
  tcpClosed :: bool
  tc_timerClosed :: bool
  connected :: bool
  everConnected :: bool
  reading :: bool
  tc_closing :: bool
  tc_closed :: bool
  tc_disconnectedFired :: bool
  tc_connectPending :: bool
  tc_connectResumed :: bool
  tc_closeCount :: int
  tc_connectCo :: bool
  connectHost :: string
  connectPort :: nat
  tc_connectTimeoutMs :: nat
  tc_remote :: sockaddr
  tc_local :: sockaddr
  tc_closeReason :: string
  shutdownQueued :: bool
  tc_selfGuard :: bool
  tc_shuttingDown :: bool
  cppOnConnected :: bool
  cppOnError :: bool
  cppOnMessage :: bool
  cppOnDisconnected :: bool
  tcp_trace :: "tcp_effect list"

text \<open>The libuv calls whose return code the class looks at.\<close>

datatype uv_call =
    uv_tcp_init | uv_tcp_connect sockaddr | uv_timer_init | uv_getaddrinfo string nat | uv_read_start
  | uv_write bytes | uv_shutdown | uv_tcp_nodelay bool | uv_tcp_keepalive bool nat

record tcp_env =
  tcp_code :: "tcp_effect \<Rightarrow> TcpClient \<Rightarrow> TcpClient"
  uv_result :: "uv_call \<Rightarrow> TcpClient \<Rightarrow> int"
  uv_strerror :: "int \<Rightarrow> string"
  uv_ip4_addr :: "string \<Rightarrow> nat \<Rightarrow> int + sockaddr"
  uv_ip6_addr :: "string \<Rightarrow> nat \<Rightarrow> int + sockaddr"
  uv_getsockname :: "TcpClient \<Rightarrow> sockaddr option"
  uv_getpeername :: "TcpClient \<Rightarrow> sockaddr option"
  uv_eof :: int
  uv_ecanceled :: int
  tcp_mult :: "rat \<Rightarrow> rat \<Rightarrow> double"

text \<open>A socket made by \<open>TcpSocket.Create\<close>, and native code (the websocket module) installing its callbacks on one.\<close>

definition TcpClient_new :: TcpClient where
  "TcpClient_new =
     \<lparr>tcpInited = False, addrInited = False, tc_timerInited = False, tcpClosed = False, tc_timerClosed = False,
      connected = False, everConnected = False, reading = False, tc_closing = False, tc_closed = False,
      tc_disconnectedFired = False, tc_connectPending = False, tc_connectResumed = False, tc_closeCount = 0,
      tc_connectCo = False, connectHost = [], connectPort = 0, tc_connectTimeoutMs = 0, tc_remote = ([], 0),
      tc_local = ([], 0), tc_closeReason = [], shutdownQueued = False, tc_selfGuard = True, tc_shuttingDown = False,
      cppOnConnected = False, cppOnError = False, cppOnMessage = False, cppOnDisconnected = False, tcp_trace = []\<rparr>"

definition AttachTcpClient :: "TcpClient \<Rightarrow> TcpClient" where
  "AttachTcpClient c = c\<lparr>cppOnConnected := True, cppOnError := True, cppOnMessage := True, cppOnDisconnected := True\<rparr>"

definition uv :: "tcp_effect \<Rightarrow> TcpClient \<Rightarrow> TcpClient" where
  "uv e c = c\<lparr>tcp_trace := tcp_trace c @ [e]\<rparr>"

definition call_out :: "tcp_env \<Rightarrow> tcp_effect \<Rightarrow> TcpClient \<Rightarrow> TcpClient" where
  "call_out env e c = tcp_code env e (uv e c)"

section \<open>Helpers\<close>

definition Tcp_IsValidPort :: "double \<Rightarrow> bool \<Rightarrow> bool" where
  "Tcp_IsValidPort value allowZero =
     (case value of Finite r \<Rightarrow> is_integral r \<and> (if allowZero then 0 else 1) \<le> r \<and> r \<le> 65535 | _ \<Rightarrow> False)"

definition MakeSockAddr :: "tcp_env \<Rightarrow> string \<Rightarrow> nat \<Rightarrow> int + sockaddr" where
  "MakeSockAddr env host port =
     (if CHR '':'' \<in> set host then uv_ip6_addr env host port
      else uv_ip4_addr env (if host = [] then ''0.0.0.0'' else host) port)"

definition Tcp_FireError :: "tcp_env \<Rightarrow> string \<Rightarrow> TcpClient \<Rightarrow> TcpClient" where
  "Tcp_FireError env message c =
     (let c1 = c\<lparr>tc_closeReason := message\<rparr> in
      if tc_shuttingDown c1 \<or> tc_closed c1 \<or> tc_closing c1 then c1
      else if cppOnError c1 then call_out env (CppError message) c1
      else call_out env (SigError message) c1)"

definition Tcp_UpdateAddresses :: "tcp_env \<Rightarrow> TcpClient \<Rightarrow> TcpClient" where
  "Tcp_UpdateAddresses env c =
     (let c1 = (case uv_getsockname env c of Some a \<Rightarrow> c\<lparr>tc_local := a\<rparr> | None \<Rightarrow> c)
      in case uv_getpeername env c1 of Some a \<Rightarrow> c1\<lparr>tc_remote := a\<rparr> | None \<Rightarrow> c1)"

definition Tcp_NotifyConnectOk :: "tcp_env \<Rightarrow> TcpClient \<Rightarrow> TcpClient" where
  "Tcp_NotifyConnectOk env c =
     (if cppOnConnected c then call_out env CppConnected c
      else if \<not> tc_connectCo c then c
      else (call_out env CoResume c)\<lparr>tc_connectCo := False\<rparr>)"

definition Tcp_NotifyConnectError :: "tcp_env \<Rightarrow> string \<Rightarrow> TcpClient \<Rightarrow> TcpClient" where
  "Tcp_NotifyConnectError env message c =
     (if cppOnError c \<and> tc_connectPending c then call_out env (CppError message) c
      else if \<not> tc_connectCo c then c
      else (call_out env (CoResumeError message) c)\<lparr>tc_connectCo := False\<rparr>)"

section \<open>Closing\<close>

definition Tcp_FinishClosed :: "tcp_env \<Rightarrow> TcpClient \<Rightarrow> TcpClient" where
  "Tcp_FinishClosed env c =
     (if tc_closed c then c
      else
        let c1 = c\<lparr>tc_closed := True\<rparr>;
            c2 = (if (connected c1 \<or> everConnected c1) \<and> \<not> tc_disconnectedFired c1 then
                    (let c' = c1\<lparr>tc_disconnectedFired := True\<rparr> in
                     if cppOnDisconnected c' then call_out env CppDisconnected c'
                     else if tc_closeReason c' \<noteq> [] then call_out env (SigDisconnected (Some (tc_closeReason c'))) c'
                     else call_out env (SigDisconnected None) c')
                  else c1)
        in (uv MgrRemoveClient c2)\<lparr>tc_selfGuard := False\<rparr>)"

definition Tcp_CheckClosed :: "tcp_env \<Rightarrow> TcpClient \<Rightarrow> TcpClient" where
  "Tcp_CheckClosed env c =
     (if \<not> tc_closing c \<or> tc_closeCount c \<noteq> 0 \<or> addrInited c then c else Tcp_FinishClosed env c)"

definition stop_reading :: "TcpClient \<Rightarrow> TcpClient" where
  "stop_reading c = (if reading c then (uv UvReadStop c)\<lparr>reading := False\<rparr> else c)"

definition close_timer :: "TcpClient \<Rightarrow> TcpClient" where
  "close_timer c =
     (if tc_timerInited c \<and> \<not> tc_timerClosed c
      then (uv UvCloseTimer (uv UvTimerOff (c\<lparr>tc_timerClosed := True\<rparr>)))\<lparr>tc_closeCount := tc_closeCount c + 1\<rparr> else c)"

definition close_tcp :: "TcpClient \<Rightarrow> TcpClient" where
  "close_tcp c =
     (if tcpInited c \<and> \<not> tcpClosed c
      then (uv UvCloseTcp (c\<lparr>tcpClosed := True\<rparr>))\<lparr>tc_closeCount := tc_closeCount c + 1\<rparr> else c)"

definition Tcp_CloseHandles :: "tcp_env \<Rightarrow> TcpClient \<Rightarrow> TcpClient" where
  "Tcp_CloseHandles env c =
     (if tc_closed c then c
      else Tcp_CheckClosed env (close_tcp (close_timer (stop_reading (c\<lparr>tc_connectPending := False\<rparr>)))))"

definition Tcp_RequestClose :: "tcp_env \<Rightarrow> TcpClient \<Rightarrow> TcpClient" where
  "Tcp_RequestClose env c =
     (if tc_closing c then c
      else
        let c1 = c\<lparr>tc_closing := True\<rparr>;
            c2 = (if tc_connectPending c1 \<and> \<not> tc_connectResumed c1 \<and> \<not> tc_shuttingDown c1
                  then Tcp_NotifyConnectError env ''connection closed'' (c1\<lparr>tc_connectResumed := True\<rparr>) else c1)
        in Tcp_CloseHandles env (c2\<lparr>tc_connectPending := False\<rparr>))"

definition Tcp_FailConnect :: "tcp_env \<Rightarrow> string \<Rightarrow> TcpClient \<Rightarrow> TcpClient" where
  "Tcp_FailConnect env message c =
     (let c0 = c\<lparr>tc_closeReason := message\<rparr> in
      if tc_closing c0 then c0
      else
        let c1 = c0\<lparr>tc_closing := True\<rparr>;
            c2 = (if tc_connectPending c1 \<and> \<not> tc_connectResumed c1
                  then Tcp_NotifyConnectError env message (c1\<lparr>tc_connectResumed := True\<rparr>) else c1)
        in Tcp_CloseHandles env (c2\<lparr>tc_connectPending := False\<rparr>))"

definition Tcp_OnHandleClosed :: "tcp_env \<Rightarrow> TcpClient \<Rightarrow> TcpClient" where
  "Tcp_OnHandleClosed env c = Tcp_CheckClosed env (uv UvClosedCb (c\<lparr>tc_closeCount := tc_closeCount c - 1\<rparr>))"

section \<open>Connecting\<close>

definition StartReading :: "tcp_env \<Rightarrow> TcpClient \<Rightarrow> TcpClient" where
  "StartReading env c =
     (if reading c \<or> tc_closed c \<or> tc_closing c then c
      else
        let c1 = c\<lparr>reading := True\<rparr>;
            r = uv_result env uv_read_start c1
        in if r \<noteq> 0
           then Tcp_RequestClose env (Tcp_FireError env (''read: '' @ uv_strerror env r) (c1\<lparr>reading := False\<rparr>))
           else uv UvReadStart c1)"

definition StartTcpConnect :: "tcp_env \<Rightarrow> sockaddr \<Rightarrow> TcpClient \<Rightarrow> TcpClient" where
  "StartTcpConnect env addr c =
     (let r = uv_result env uv_tcp_init c in
      if r \<noteq> 0 then Tcp_FailConnect env (''tcp: '' @ uv_strerror env r) c
      else
        let c1 = (uv UvTcpInit c)\<lparr>tcpInited := True\<rparr>;
            r' = uv_result env (uv_tcp_connect addr) c1
        in if r' \<noteq> 0 then Tcp_FailConnect env (''connect: '' @ uv_strerror env r') c1
           else uv (UvTcpConnect addr) c1)"

definition connect_address :: "tcp_env \<Rightarrow> TcpClient \<Rightarrow> int \<times> TcpClient" where
  "connect_address env c =
     (case MakeSockAddr env (connectHost c) (connectPort c) of
        Inr addr \<Rightarrow> (0, StartTcpConnect env addr c)
      | Inl _ \<Rightarrow>
          (let c1 = c\<lparr>addrInited := True\<rparr>;
               r = uv_result env (uv_getaddrinfo (connectHost c) (connectPort c)) c1
           in if r \<noteq> 0 then (r, c1\<lparr>addrInited := False\<rparr>)
              else (0, uv (UvGetAddrInfo (connectHost c) (connectPort c)) c1)))"

definition BeginConnect :: "tcp_env \<Rightarrow> TcpClient \<Rightarrow> int \<times> TcpClient" where
  "BeginConnect env c =
     (if 0 < tc_connectTimeoutMs c then
        (let tr = uv_result env uv_timer_init c in
         if tr \<noteq> 0 then (tr, c)
         else connect_address env (uv (UvTimerOn (tc_connectTimeoutMs c)) (c\<lparr>tc_timerInited := True\<rparr>)))
      else connect_address env c)"

definition Tcp_ConnectNative :: "tcp_env \<Rightarrow> string \<Rightarrow> nat \<Rightarrow> nat \<Rightarrow> TcpClient \<Rightarrow> int \<times> TcpClient" where
  "Tcp_ConnectNative env host port timeoutMs c =
     (if connected c \<or> tc_connectPending c \<or> tc_closing c \<or> tc_closed c then (-1, c)
      else
        let (r, c') = BeginConnect env
              (c\<lparr>connectHost := host, connectPort := port, tc_connectTimeoutMs := timeoutMs, tc_connectPending := True\<rparr>)
        in (r, if r \<noteq> 0 then c'\<lparr>tc_connectPending := False\<rparr> else c'))"

datatype tcp_result = TcpRaised string | TcpReturned lvalue | TcpYielded | TcpUndefined

text \<open>The optional fourth argument of \<open>Connect\<close>: a timeout in seconds, or a table with a timeout and a TLS flag.\<close>

definition tcp_timeout :: "tcp_env \<Rightarrow> lvalue \<Rightarrow> string + nat" where
  "tcp_timeout env v =
     (case v of
        LNil \<Rightarrow> Inr 0
      | LNumber d \<Rightarrow> ToMilliseconds (tcp_mult env) d 1000 ''timeout''
      | _ \<Rightarrow> Inl ''socket Connect: timeout must be a number or nil'')"

definition tcp_options :: "tcp_env \<Rightarrow> lvalue \<Rightarrow> string + nat \<times> bool" where
  "tcp_options env v =
     (case v of
        LTable opts \<Rightarrow>
          (case tcp_timeout env (table_get opts ''timeout'') of
             Inl msg \<Rightarrow> Inl msg
           | Inr ms \<Rightarrow> Inr (ms, table_get opts ''tls'' = LBool True \<or> table_get opts ''ssl'' = LBool True))
      | _ \<Rightarrow> (case tcp_timeout env v of Inl msg \<Rightarrow> Inl msg | Inr ms \<Rightarrow> Inr (ms, False)))"

definition tcp_begin :: "tcp_env \<Rightarrow> string \<Rightarrow> nat \<Rightarrow> nat \<Rightarrow> TcpClient \<Rightarrow> tcp_result \<times> TcpClient" where
  "tcp_begin env host port timeoutMs c =
     (let (r, c') = BeginConnect env
            (c\<lparr>connectHost := host, connectPort := port, tc_connectTimeoutMs := timeoutMs, tc_connectPending := True,
               tc_connectCo := True\<rparr>)
      in if r \<noteq> 0
         then (TcpRaised (''socket Connect: '' @ uv_strerror env r), c'\<lparr>tc_connectPending := False, tc_connectCo := False\<rparr>)
         else (TcpYielded, c'))"

definition Tcp_MethodConnect :: "tcp_env \<Rightarrow> lvalue list \<Rightarrow> TcpClient \<Rightarrow> tcp_result \<times> TcpClient" where
  "Tcp_MethodConnect env args c =
     (if connected c then (TcpRaised ''socket Connect: already connected'', c)
      else if tc_connectPending c then (TcpRaised ''socket Connect: a connection attempt is already in progress'', c)
      else if tc_closing c \<or> tc_closed c then (TcpRaised ''socket Connect: socket is closed'', c)
      else case arg args 1 of
        LString host \<Rightarrow>
          (case arg args 2 of
             LNumber port \<Rightarrow>
               if host = [] then (TcpRaised ''socket Connect: host must not be empty'', c)
               else if \<not> Tcp_IsValidPort port False
               then (TcpRaised ''socket Connect: port must be an integer between 1 and 65535'', c)
               else (case tcp_options env (arg args 3) of
                       Inl msg \<Rightarrow> (TcpRaised msg, c)
                     | Inr (timeoutMs, reqTls) \<Rightarrow>
                         if reqTls then (TcpRaised ''socket Connect: tls: TLS is not supported on this platform'', c)
                         else tcp_begin env host (case port of Finite r \<Rightarrow> nat \<lfloor>r\<rfloor> | _ \<Rightarrow> 0) timeoutMs c)
           | _ \<Rightarrow> (TcpRaised ''socket Connect: port must be a number'', c))
      | _ \<Rightarrow> (TcpRaised ''socket Connect: host must be a string'', c))"

section \<open>Sending and options\<close>

definition tcp_write :: "tcp_env \<Rightarrow> bytes \<Rightarrow> TcpClient \<Rightarrow> TcpClient" where
  "tcp_write env data c =
     (let r = uv_result env (uv_write data) c in
      if r \<noteq> 0 then Tcp_FireError env (''write: '' @ uv_strerror env r) c else uv (UvWrite data) c)"

definition Tcp_SendNative :: "tcp_env \<Rightarrow> bytes \<Rightarrow> TcpClient \<Rightarrow> TcpClient" where
  "Tcp_SendNative env data c =
     (if tc_closed c \<or> tc_closing c \<or> \<not> connected c then c else tcp_write env data c)"

definition Tcp_MethodSend :: "tcp_env \<Rightarrow> lvalue list \<Rightarrow> TcpClient \<Rightarrow> tcp_result \<times> TcpClient" where
  "Tcp_MethodSend env args c =
     (if tc_closed c \<or> tc_closing c then (TcpRaised ''socket Send: socket is closed'', c)
      else if \<not> connected c then (TcpRaised ''socket Send: not connected'', c)
      else case arg args 1 of
        LString text \<Rightarrow> (TcpReturned LNil, tcp_write env (bytes_of text) c)
      | LBuffer data \<Rightarrow> (TcpReturned LNil, tcp_write env data c)
      | _ \<Rightarrow> (TcpRaised ''socket Send: data must be a string or buffer'', c))"

definition address_table :: "sockaddr \<Rightarrow> lvalue" where
  "address_table a = LTable [(''host'', LString (fst a)), (''port'', LNumber (Finite (of_nat (snd a))))]"

definition Tcp_MethodLocalAddress :: "TcpClient \<Rightarrow> tcp_result" where
  "Tcp_MethodLocalAddress c =
     (if \<not> connected c \<or> tc_closed c then TcpRaised ''socket LocalAddress: not connected''
      else TcpReturned (address_table (tc_local c)))"

definition Tcp_MethodRemoteAddress :: "TcpClient \<Rightarrow> tcp_result" where
  "Tcp_MethodRemoteAddress c =
     (if \<not> connected c \<or> tc_closed c then TcpRaised ''socket RemoteAddress: not connected''
      else TcpReturned (address_table (tc_remote c)))"

definition MethodSetNoDelay :: "tcp_env \<Rightarrow> lvalue list \<Rightarrow> TcpClient \<Rightarrow> tcp_result \<times> TcpClient" where
  "MethodSetNoDelay env args c =
     (if \<not> connected c \<or> tc_closed c then (TcpRaised ''socket SetNoDelay: not connected'', c)
      else case arg args 1 of
        LBool enabled \<Rightarrow>
          if uv_result env (uv_tcp_nodelay enabled) c \<noteq> 0 then (TcpRaised ''socket SetNoDelay: failed to apply nodelay'', c)
          else (TcpReturned LNil, uv (UvNoDelay enabled) c)
      | _ \<Rightarrow> (TcpRaised ''socket SetNoDelay: enabled must be a boolean'', c))"

text \<open>\<open>static_cast<unsigned int>\<close> of a number outside the range of the type, or of NaN, is undefined
  behaviour (\<^const>\<open>None\<close> below); NaN passes the comparison with 0.\<close>

definition keepalive_delay :: "lvalue \<Rightarrow> string + nat option" where
  "keepalive_delay v =
     (case v of
        LNil \<Rightarrow> Inr (Some 0)
      | LNumber (Finite r) \<Rightarrow>
          if r < 0 then Inl ''socket SetKeepAlive: delay must be a non-negative number of seconds''
          else Inr (if r < 4294967296 then Some (nat \<lfloor>r\<rfloor>) else None)
      | LNumber (Infinity negative) \<Rightarrow>
          if negative then Inl ''socket SetKeepAlive: delay must be a non-negative number of seconds'' else Inr None
      | LNumber NaN \<Rightarrow> Inr None
      | _ \<Rightarrow> Inl ''socket SetKeepAlive: delay must be a non-negative number of seconds'')"

definition MethodSetKeepAlive :: "tcp_env \<Rightarrow> lvalue list \<Rightarrow> TcpClient \<Rightarrow> tcp_result \<times> TcpClient" where
  "MethodSetKeepAlive env args c =
     (if \<not> connected c \<or> tc_closed c then (TcpRaised ''socket SetKeepAlive: not connected'', c)
      else case arg args 1 of
        LBool enabled \<Rightarrow>
          (case keepalive_delay (arg args 2) of
             Inl msg \<Rightarrow> (TcpRaised msg, c)
           | Inr None \<Rightarrow> (TcpUndefined, c)
           | Inr (Some d) \<Rightarrow>
               (let delay = (if enabled \<and> d = 0 then 60 else d) in
                if uv_result env (uv_tcp_keepalive enabled delay) c \<noteq> 0
                then (TcpRaised ''socket SetKeepAlive: failed to apply keepalive'', c)
                else (TcpReturned LNil, uv (UvKeepAlive enabled delay) c)))
      | _ \<Rightarrow> (TcpRaised ''socket SetKeepAlive: enabled must be a boolean'', c))"

definition MethodEnd :: "tcp_env \<Rightarrow> TcpClient \<Rightarrow> tcp_result \<times> TcpClient" where
  "MethodEnd env c =
     (if \<not> connected c \<or> tc_closing c \<or> tc_closed c then (TcpRaised ''socket End: not connected'', c)
      else if shutdownQueued c then (TcpReturned LNil, c)
      else
        let r = uv_result env uv_shutdown c in
        if r \<noteq> 0 then (TcpRaised (''socket End: '' @ uv_strerror env r), c)
        else (TcpReturned LNil, (uv UvShutdown c)\<lparr>shutdownQueued := True, connected := False\<rparr>))"

section \<open>Callbacks of libuv\<close>

definition OnShutdown :: "tcp_env \<Rightarrow> int \<Rightarrow> TcpClient \<Rightarrow> TcpClient" where
  "OnShutdown env status c =
     (if status \<noteq> 0 \<and> \<not> tc_closing c \<and> \<not> tc_closed c
      then Tcp_FireError env (''shutdown: '' @ uv_strerror env status) c else c)"

definition OnResolved :: "tcp_env \<Rightarrow> int \<Rightarrow> sockaddr \<Rightarrow> TcpClient \<Rightarrow> TcpClient" where
  "OnResolved env status addr c =
     (let c1 = c\<lparr>addrInited := False\<rparr> in
      if tc_closing c1 then Tcp_CheckClosed env c1
      else if status \<noteq> 0 then Tcp_FailConnect env (''dns: '' @ uv_strerror env status) c1
      else StartTcpConnect env addr c1)"

definition OnConnected :: "tcp_env \<Rightarrow> int \<Rightarrow> TcpClient \<Rightarrow> TcpClient" where
  "OnConnected env status c =
     (if tc_closing c then c
      else if status \<noteq> 0 then Tcp_FailConnect env (''connect: '' @ uv_strerror env status) c
      else
        let c1 = uv (UvNoDelay True) (c\<lparr>connected := True, everConnected := True, tc_connectPending := False\<rparr>);
            c2 = close_timer (Tcp_UpdateAddresses env c1);
            c3 = (if \<not> tc_connectResumed c2 then Tcp_NotifyConnectOk env (c2\<lparr>tc_connectResumed := True\<rparr>) else c2)
        in if tc_closing c3 then c3
           else
             let c4 = (if \<not> tc_shuttingDown c3 \<and> \<not> cppOnConnected c3 then call_out env SigConnected c3 else c3)
             in StartReading env c4)"

definition OnConnectTimeout :: "tcp_env \<Rightarrow> TcpClient \<Rightarrow> TcpClient" where
  "OnConnectTimeout env c =
     (if tc_closing c then c else Tcp_FailConnect env ''connect: connection timed out'' c)"

definition OnRead :: "tcp_env \<Rightarrow> int \<Rightarrow> bytes \<Rightarrow> TcpClient \<Rightarrow> TcpClient" where
  "OnRead env nread buf c =
     (if 0 < nread then
        (if cppOnMessage c then call_out env (CppMessage (take (nat nread) buf)) c
         else if \<not> tc_shuttingDown c then call_out env (SigMessage (take (nat nread) buf)) c
         else c)
      else if nread = uv_eof env then Tcp_RequestClose env (c\<lparr>tc_closeReason := ''eof''\<rparr>)
      else if nread < 0 \<and> nread \<noteq> uv_ecanceled env
      then Tcp_RequestClose env (Tcp_FireError env (''read: '' @ uv_strerror env nread) c)
      else c)"

definition OnWritten :: "tcp_env \<Rightarrow> int \<Rightarrow> TcpClient \<Rightarrow> TcpClient" where
  "OnWritten env status c =
     (if status \<noteq> 0 \<and> \<not> tc_closing c \<and> \<not> tc_closed c
      then Tcp_FireError env (''write: '' @ uv_strerror env status) c else c)"

section \<open>Entry points\<close>

text \<open>The method table of \<open>BuildClientMethods\<close>, the calls of native code, and \<open>TcpManager::Shutdown\<close> as one
  client sees it.\<close>

datatype tcp_call =
    TConnect "lvalue list" | TSend "lvalue list" | TClose | TEnd | TSetNoDelay "lvalue list" | TSetKeepAlive "lvalue list"
  | TConnectNative string nat nat | TSendNative bytes | TShutdown | TAttach

definition Tcp_IsConnected :: "TcpClient \<Rightarrow> bool" where
  "Tcp_IsConnected c \<longleftrightarrow> connected c \<and> \<not> tc_closing c \<and> \<not> tc_closed c"

definition TcpMethods :: "tcp_env \<Rightarrow> tcp_call \<Rightarrow> TcpClient \<Rightarrow> tcp_result \<times> TcpClient" where
  "TcpMethods env call c =
     (case call of
        TConnect args \<Rightarrow>
          if tc_shuttingDown c then (TcpRaised ''socket Connect: runtime is shutting down'', c)
          else Tcp_MethodConnect env args c
      | TSend args \<Rightarrow> Tcp_MethodSend env args c
      | TClose \<Rightarrow> (TcpReturned LNil, Tcp_RequestClose env c)
      | TEnd \<Rightarrow> MethodEnd env c
      | TSetNoDelay args \<Rightarrow> MethodSetNoDelay env args c
      | TSetKeepAlive args \<Rightarrow> MethodSetKeepAlive env args c
      | TConnectNative host port ms \<Rightarrow> (TcpReturned LNil, snd (Tcp_ConnectNative env host port ms c))
      | TSendNative data \<Rightarrow> (TcpReturned LNil, Tcp_SendNative env data c)
      | TShutdown \<Rightarrow> (TcpReturned LNil, Tcp_RequestClose env (c\<lparr>tc_shuttingDown := True\<rparr>))
      | TAttach \<Rightarrow> (TcpReturned LNil, AttachTcpClient c))"

text \<open>The socket that \<open>TcpServer::OnConnection\<close> makes for an incoming connection, with the code of \<open>uv_accept\<close>.\<close>

definition accept_client :: "tcp_env \<Rightarrow> int \<Rightarrow> TcpClient" where
  "accept_client env code =
     (let c = uv UvTcpInit (TcpClient_new\<lparr>tcpInited := True\<rparr>) in
      if code \<noteq> 0 then Tcp_RequestClose env c
      else StartReading env (Tcp_UpdateAddresses env (uv (UvNoDelay True) (c\<lparr>connected := True, everConnected := True\<rparr>))))"

definition happened :: "(tcp_effect \<Rightarrow> bool) \<Rightarrow> TcpClient \<Rightarrow> nat" where
  "happened P c = length (filter P (tcp_trace c))"

text \<open>Steps of the event loop. libuv calls a resolver callback only for a pending request, a timer callback
  only for an open timer, a read callback only between start and stop, and one close callback per
  \<open>uv_close\<close>.\<close>

inductive tcp_reach :: "tcp_env \<Rightarrow> TcpClient \<Rightarrow> bool" for env where
  create: "tcp_reach env TcpClient_new"
| accept: "tcp_reach env (accept_client env code)"
| call: "tcp_reach env c \<Longrightarrow> tcp_reach env (snd (TcpMethods env call c))"
| shutdown: "tcp_reach env c \<Longrightarrow> shutdownQueued c \<Longrightarrow> tcp_reach env (OnShutdown env status c)"
| resolved: "tcp_reach env c \<Longrightarrow> addrInited c \<Longrightarrow> tcp_reach env (OnResolved env status addr c)"
| connect: "tcp_reach env c \<Longrightarrow> tcpInited c \<Longrightarrow> tcp_reach env (OnConnected env status c)"
| timeout: "tcp_reach env c \<Longrightarrow> tc_timerInited c \<Longrightarrow> \<not> tc_timerClosed c \<Longrightarrow> tcp_reach env (OnConnectTimeout env c)"
| read: "tcp_reach env c \<Longrightarrow> reading c \<Longrightarrow> tcp_reach env (OnRead env nread buf c)"
| written: "tcp_reach env c \<Longrightarrow> tcp_reach env (OnWritten env status c)"
| handle_closed: "tcp_reach env c \<Longrightarrow>
    happened (\<lambda>e. e = UvClosedCb) c < happened (\<lambda>e. e = UvCloseTcp) c + happened (\<lambda>e. e = UvCloseTimer) c \<Longrightarrow>
    tcp_reach env (Tcp_OnHandleClosed env c)"

text \<open>Callbacks and Luau handlers that make the given calls, nested to depth \<open>n\<close>.\<close>

primrec tcp_nested :: "nat \<Rightarrow> (tcp_effect \<Rightarrow> TcpClient \<Rightarrow> tcp_call list) \<Rightarrow> tcp_env \<Rightarrow> tcp_env" where
  "tcp_nested 0 script base = base\<lparr>tcp_code := \<lambda>e c. c\<rparr>"
| "tcp_nested (Suc n) script base =
     base\<lparr>tcp_code := \<lambda>e c. fold (\<lambda>call c. snd (TcpMethods (tcp_nested n script base) call c)) (script e c) c\<rparr>"

section \<open>Invariant\<close>

definition is_tcp_disconnect :: "tcp_effect \<Rightarrow> bool" where
  "is_tcp_disconnect e \<longleftrightarrow> (case e of CppDisconnected \<Rightarrow> True | SigDisconnected _ \<Rightarrow> True | _ \<Rightarrow> False)"

definition is_notify :: "tcp_effect \<Rightarrow> bool" where
  "is_notify e \<longleftrightarrow> (case e of CppConnected \<Rightarrow> True | CoResume \<Rightarrow> True | CoResumeError _ \<Rightarrow> True | _ \<Rightarrow> False)"

definition is_message :: "tcp_effect \<Rightarrow> bool" where
  "is_message e \<longleftrightarrow> (case e of CppMessage _ \<Rightarrow> True | SigMessage _ \<Rightarrow> True | _ \<Rightarrow> False)"

text \<open>No data is delivered after the disconnection is announced.\<close>

definition quiet_end :: "tcp_effect list \<Rightarrow> bool" where
  "quiet_end tr \<longleftrightarrow> list_all (\<lambda>e. \<not> is_message e) (dropWhile (\<lambda>e. \<not> is_tcp_disconnect e) tr)"

definition handles_closed :: "TcpClient \<Rightarrow> bool" where
  "handles_closed c \<longleftrightarrow> \<not> reading c \<and> (tcpInited c \<longrightarrow> tcpClosed c) \<and> (tc_timerInited c \<longrightarrow> tc_timerClosed c)"

definition tcp_inv :: "TcpClient \<Rightarrow> bool" where
  "tcp_inv c \<longleftrightarrow>
     happened (\<lambda>e. e = UvCloseTcp) c = of_bool (tcpClosed c) \<and> happened (\<lambda>e. e = UvCloseTimer) c = of_bool (tc_timerClosed c) \<and>
     tc_closeCount c + int (happened (\<lambda>e. e = UvClosedCb) c) = of_bool (tcpClosed c) + of_bool (tc_timerClosed c) \<and>
     0 \<le> tc_closeCount c \<and>
     happened is_tcp_disconnect c = of_bool (tc_disconnectedFired c) \<and> (tc_disconnectedFired c \<longrightarrow> tc_closed c) \<and>
     happened is_notify c \<le> of_bool (tc_connectResumed c) \<and>
     (tc_closed c \<longrightarrow> tc_closing c \<and> tc_closeCount c = 0 \<and> \<not> addrInited c \<and> handles_closed c) \<and>
     quiet_end (tcp_trace c)"

text \<open>Between callbacks a closing socket has closed its handles and waits for libuv, or is closed.\<close>

definition settled :: "TcpClient \<Rightarrow> bool" where
  "settled c \<longleftrightarrow> (tc_closing c \<longrightarrow> handles_closed c \<and> (tc_closed c \<or> 0 < tc_closeCount c \<or> addrInited c))"

definition tcp_ok :: "TcpClient \<Rightarrow> TcpClient \<Rightarrow> bool" where
  "tcp_ok c c' \<longleftrightarrow>
     tcp_inv c' \<and> (tc_closing c \<longrightarrow> tc_closing c') \<and> (tc_closed c \<longrightarrow> tc_closed c') \<and> (settled c \<longrightarrow> settled c')"

lemmas tcp_kinds = is_tcp_disconnect_def is_notify_def is_message_def

lemma happened_uv [simp]: "happened P (uv e c) = happened P c + of_bool (P e)"
  by (simp add: happened_def uv_def)

lemma happened_update [simp]:
  "happened P (c\<lparr>tcpInited := b\<rparr>) = happened P c" "happened P (c\<lparr>addrInited := b\<rparr>) = happened P c"
  "happened P (c\<lparr>tc_timerInited := b\<rparr>) = happened P c" "happened P (c\<lparr>tcpClosed := b\<rparr>) = happened P c"
  "happened P (c\<lparr>tc_timerClosed := b\<rparr>) = happened P c" "happened P (c\<lparr>connected := b\<rparr>) = happened P c"
  "happened P (c\<lparr>everConnected := b\<rparr>) = happened P c" "happened P (c\<lparr>reading := b\<rparr>) = happened P c"
  "happened P (c\<lparr>tc_closing := b\<rparr>) = happened P c" "happened P (c\<lparr>tc_closed := b\<rparr>) = happened P c"
  "happened P (c\<lparr>tc_disconnectedFired := b\<rparr>) = happened P c" "happened P (c\<lparr>tc_connectPending := b\<rparr>) = happened P c"
  "happened P (c\<lparr>tc_connectResumed := b\<rparr>) = happened P c" "happened P (c\<lparr>tc_closeCount := k\<rparr>) = happened P c"
  "happened P (c\<lparr>tc_connectCo := b\<rparr>) = happened P c" "happened P (c\<lparr>connectHost := h\<rparr>) = happened P c"
  "happened P (c\<lparr>connectPort := n\<rparr>) = happened P c" "happened P (c\<lparr>tc_connectTimeoutMs := n\<rparr>) = happened P c"
  "happened P (c\<lparr>tc_remote := a\<rparr>) = happened P c" "happened P (c\<lparr>tc_local := a\<rparr>) = happened P c"
  "happened P (c\<lparr>tc_closeReason := h\<rparr>) = happened P c" "happened P (c\<lparr>shutdownQueued := b\<rparr>) = happened P c"
  "happened P (c\<lparr>tc_selfGuard := b\<rparr>) = happened P c" "happened P (c\<lparr>tc_shuttingDown := b\<rparr>) = happened P c"
  by (simp_all add: happened_def)

lemma uv_fields [simp]:
  "tcpInited (uv e c) = tcpInited c" "addrInited (uv e c) = addrInited c" "tc_timerInited (uv e c) = tc_timerInited c"
  "tcpClosed (uv e c) = tcpClosed c" "tc_timerClosed (uv e c) = tc_timerClosed c" "connected (uv e c) = connected c"
  "everConnected (uv e c) = everConnected c" "reading (uv e c) = reading c" "tc_closing (uv e c) = tc_closing c"
  "tc_closed (uv e c) = tc_closed c" "tc_disconnectedFired (uv e c) = tc_disconnectedFired c"
  "tc_connectPending (uv e c) = tc_connectPending c" "tc_connectResumed (uv e c) = tc_connectResumed c"
  "tc_closeCount (uv e c) = tc_closeCount c" "tc_connectCo (uv e c) = tc_connectCo c" "connectHost (uv e c) = connectHost c"
  "connectPort (uv e c) = connectPort c" "tc_connectTimeoutMs (uv e c) = tc_connectTimeoutMs c"
  "tc_closeReason (uv e c) = tc_closeReason c" "shutdownQueued (uv e c) = shutdownQueued c"
  "tc_shuttingDown (uv e c) = tc_shuttingDown c" "cppOnConnected (uv e c) = cppOnConnected c"
  "cppOnError (uv e c) = cppOnError c" "cppOnMessage (uv e c) = cppOnMessage c" "cppOnDisconnected (uv e c) = cppOnDisconnected c"
  "tcp_trace (uv e c) = tcp_trace c @ [e]"
  by (simp_all add: uv_def)

lemma quiet_end_snoc:
  "quiet_end (tr @ [e]) \<longleftrightarrow> quiet_end tr \<and> (is_message e \<longrightarrow> filter is_tcp_disconnect tr = [])"
  unfolding quiet_end_def
  by (induction tr) (auto simp: tcp_kinds filter_empty_conv split: tcp_effect.splits)

lemma quiet_end_close_timer: "quiet_end tr \<Longrightarrow> quiet_end (tr @ [UvTimerOff, UvCloseTimer])"
  using quiet_end_snoc [of "tr @ [UvTimerOff]" UvCloseTimer] by (simp add: quiet_end_snoc is_message_def)

lemma disconnect_kind:
  "is_tcp_disconnect e \<Longrightarrow> \<not> is_message e \<and> \<not> is_notify e \<and> e \<noteq> UvCloseTcp \<and> e \<noteq> UvCloseTimer \<and> e \<noteq> UvClosedCb"
  by (cases e) (simp_all add: tcp_kinds)

lemma tcp_ok_refl: "tcp_inv c \<Longrightarrow> tcp_ok c c"
  by (simp add: tcp_ok_def)

lemma tcp_ok_trans: "tcp_ok a b \<Longrightarrow> tcp_ok b c \<Longrightarrow> tcp_ok a c"
  by (auto simp: tcp_ok_def)

lemma tcp_ok_inv: "tcp_ok a b \<Longrightarrow> tcp_inv b"
  by (simp add: tcp_ok_def)

text \<open>A step that leaves the bookkeeping alone.\<close>

definition plain :: "tcp_effect \<Rightarrow> bool" where
  "plain e \<longleftrightarrow> \<not> is_tcp_disconnect e \<and> \<not> is_notify e \<and> e \<noteq> UvCloseTcp \<and> e \<noteq> UvCloseTimer \<and> e \<noteq> UvClosedCb"

lemma uv_ok:
  assumes "tcp_inv c" "plain e" "is_message e \<Longrightarrow> \<not> tc_closed c"
  shows "tcp_ok c (uv e c)"
proof -
  have "filter is_tcp_disconnect (tcp_trace c) = []" if "is_message e"
    using assms(1) assms(3) [OF that] by (auto simp: tcp_inv_def happened_def)
  then show ?thesis
    using assms by (auto simp: tcp_ok_def tcp_inv_def plain_def quiet_end_snoc settled_def handles_closed_def)
qed

text \<open>Fields the bookkeeping does not depend on.\<close>

lemma attach_fields [simp]:
  "tcp_inv (AttachTcpClient c) = tcp_inv c" "settled (AttachTcpClient c) = settled c"
  "tc_closing (AttachTcpClient c) = tc_closing c" "tc_closed (AttachTcpClient c) = tc_closed c"
  by (simp_all add: AttachTcpClient_def tcp_inv_def settled_def handles_closed_def happened_def)

lemma tcp_inv_update [simp]:
  "tcp_inv (c\<lparr>connected := b\<rparr>) = tcp_inv c" "tcp_inv (c\<lparr>everConnected := b\<rparr>) = tcp_inv c"
  "tcp_inv (c\<lparr>tc_connectPending := b\<rparr>) = tcp_inv c" "tcp_inv (c\<lparr>tc_connectCo := b\<rparr>) = tcp_inv c"
  "tcp_inv (c\<lparr>connectHost := h\<rparr>) = tcp_inv c" "tcp_inv (c\<lparr>connectPort := n\<rparr>) = tcp_inv c"
  "tcp_inv (c\<lparr>tc_connectTimeoutMs := n\<rparr>) = tcp_inv c" "tcp_inv (c\<lparr>tc_remote := a\<rparr>) = tcp_inv c"
  "tcp_inv (c\<lparr>tc_local := a\<rparr>) = tcp_inv c" "tcp_inv (c\<lparr>tc_closeReason := h\<rparr>) = tcp_inv c"
  "tcp_inv (c\<lparr>shutdownQueued := b\<rparr>) = tcp_inv c" "tcp_inv (c\<lparr>tc_selfGuard := b\<rparr>) = tcp_inv c"
  "tcp_inv (c\<lparr>tc_shuttingDown := b\<rparr>) = tcp_inv c"
  by (simp_all add: tcp_inv_def handles_closed_def)

lemma settled_update [simp]:
  "settled (c\<lparr>connected := b\<rparr>) = settled c" "settled (c\<lparr>everConnected := b\<rparr>) = settled c"
  "settled (c\<lparr>tc_connectPending := b\<rparr>) = settled c" "settled (c\<lparr>tc_connectCo := b\<rparr>) = settled c"
  "settled (c\<lparr>connectHost := h\<rparr>) = settled c" "settled (c\<lparr>connectPort := n\<rparr>) = settled c"
  "settled (c\<lparr>tc_connectTimeoutMs := n\<rparr>) = settled c" "settled (c\<lparr>tc_remote := a\<rparr>) = settled c"
  "settled (c\<lparr>tc_local := a\<rparr>) = settled c" "settled (c\<lparr>tc_closeReason := h\<rparr>) = settled c"
  "settled (c\<lparr>shutdownQueued := b\<rparr>) = settled c" "settled (c\<lparr>tc_selfGuard := b\<rparr>) = settled c"
  "settled (c\<lparr>tc_shuttingDown := b\<rparr>) = settled c"
  by (simp_all add: settled_def handles_closed_def)

lemma close_count:
  "tcp_inv c \<Longrightarrow> int (happened (\<lambda>e. e = UvCloseTcp) c + happened (\<lambda>e. e = UvCloseTimer) c) =
    tc_closeCount c + int (happened (\<lambda>e. e = UvClosedCb) c)"
  by (simp add: tcp_inv_def)

text \<open>A state that was not closing may be followed by any state that keeps the invariant and is settled.\<close>

lemma open_ok: "\<not> tc_closing c \<Longrightarrow> tcp_inv c \<Longrightarrow> tcp_inv c' \<Longrightarrow> settled c' \<Longrightarrow> tcp_ok c c'"
  by (auto simp: tcp_ok_def tcp_inv_def)

lemma close_handles_inv:
  assumes "tcp_inv c" "\<not> tc_closed c"
  shows "tcp_inv (close_tcp (close_timer (stop_reading c)))" "handles_closed (close_tcp (close_timer (stop_reading c)))"
    "tc_closing (close_tcp (close_timer (stop_reading c))) = tc_closing c"
proof -
  have 1: "tcp_inv (stop_reading c) \<and> \<not> reading (stop_reading c) \<and> \<not> tc_closed (stop_reading c) \<and> tc_closing (stop_reading c) = tc_closing c"
    using assms by (auto simp: stop_reading_def tcp_inv_def tcp_kinds quiet_end_snoc)
  have 2: "tcp_inv (close_timer d) \<and> reading (close_timer d) = reading d \<and> tc_closed (close_timer d) = tc_closed d \<and>
      (tc_timerInited (close_timer d) \<longrightarrow> tc_timerClosed (close_timer d)) \<and> tc_closing (close_timer d) = tc_closing d"
    if "tcp_inv d" "\<not> tc_closed d" for d
    using that by (auto simp: close_timer_def tcp_inv_def tcp_kinds quiet_end_close_timer)
  have 3: "tcp_inv (close_tcp d) \<and> reading (close_tcp d) = reading d \<and> tc_timerInited (close_tcp d) = tc_timerInited d \<and>
      tc_timerClosed (close_tcp d) = tc_timerClosed d \<and> (tcpInited (close_tcp d) \<longrightarrow> tcpClosed (close_tcp d)) \<and>
      tc_closing (close_tcp d) = tc_closing d"
    if "tcp_inv d" "\<not> tc_closed d" for d
    using that by (auto simp: close_tcp_def tcp_inv_def tcp_kinds quiet_end_snoc)
  from 1 2 3 show "tcp_inv (close_tcp (close_timer (stop_reading c)))" "handles_closed (close_tcp (close_timer (stop_reading c)))"
    "tc_closing (close_tcp (close_timer (stop_reading c))) = tc_closing c"
    by (auto simp: handles_closed_def)
qed

lemma close_timer_ok: "tcp_inv c \<Longrightarrow> \<not> tc_closing c \<Longrightarrow> tcp_inv (close_timer c) \<and> \<not> tc_closing (close_timer c) \<and>
    tc_connectResumed (close_timer c) = tc_connectResumed c"
  by (auto simp: close_timer_def tcp_inv_def tcp_kinds quiet_end_close_timer)

section \<open>The contract of callbacks\<close>

text \<open>The code a signal, native callback or coroutine runs keeps the bookkeeping and never reopens the
  socket. The lemmas below carry this through every operation of the class.\<close>

locale tcp_callbacks =
  fixes env :: tcp_env
  assumes code_ok: "tcp_inv c \<Longrightarrow> tcp_ok c (tcp_code env e c)"
begin

lemma call_out_ok:
  assumes "tcp_ok c (uv e c)"
  shows "tcp_ok c (call_out env e c)"
  unfolding call_out_def by (rule tcp_ok_trans [OF assms code_ok [OF tcp_ok_inv [OF assms]]])

lemma call_plain: "tcp_inv c \<Longrightarrow> plain e \<Longrightarrow> (is_message e \<Longrightarrow> \<not> tc_closed c) \<Longrightarrow> tcp_ok c (call_out env e c)"
  by (rule call_out_ok) (rule uv_ok)

lemma FireError_ok: "tcp_inv c \<Longrightarrow> tcp_ok c (Tcp_FireError env message c)"
  using call_plain [of "c\<lparr>tc_closeReason := message\<rparr>"]
  by (auto simp: Tcp_FireError_def Let_def tcp_ok_def plain_def tcp_kinds)

text \<open>Announcing the outcome of a connection attempt, once.\<close>

lemma notify_ok:
  assumes "tcp_inv c" "happened is_notify c = 0" "tc_connectResumed c" "is_notify e"
  shows "tcp_ok c (call_out env e c)"
proof (rule call_out_ok)
  show "tcp_ok c (uv e c)"
    using assms by (auto simp: tcp_ok_def tcp_inv_def quiet_end_snoc settled_def handles_closed_def tcp_kinds split: tcp_effect.splits)
qed

lemma resumed_inv:
  assumes "tcp_inv c" "\<not> tc_connectResumed c"
  shows "tcp_inv (c\<lparr>tc_connectResumed := True\<rparr>)" "happened is_notify (c\<lparr>tc_connectResumed := True\<rparr>) = 0"
  using assms by (auto simp: tcp_inv_def handles_closed_def)

lemma NotifyConnectOk_ok:
  assumes "tcp_inv c" "\<not> tc_connectResumed c"
  shows "tcp_ok c (Tcp_NotifyConnectOk env (c\<lparr>tc_connectResumed := True\<rparr>))"
proof -
  let ?c = "c\<lparr>tc_connectResumed := True\<rparr>"
  note r = resumed_inv [OF assms]
  have "tcp_ok ?c (call_out env e ?c)" if "is_notify e" for e by (rule notify_ok) (use r that in simp_all)
  from this [of CppConnected] this [of CoResume] r(1) show ?thesis
    by (auto simp: Tcp_NotifyConnectOk_def tcp_ok_def is_notify_def settled_def handles_closed_def)
qed

lemma NotifyConnectError_ok:
  assumes "tcp_inv c" "\<not> tc_connectResumed c"
  shows "tcp_ok c (Tcp_NotifyConnectError env message (c\<lparr>tc_connectResumed := True\<rparr>))"
proof -
  let ?c = "c\<lparr>tc_connectResumed := True\<rparr>"
  note r = resumed_inv [OF assms]
  have "tcp_ok ?c (call_out env (CoResumeError message) ?c)" by (rule notify_ok) (use r in \<open>simp_all add: is_notify_def\<close>)
  moreover have "tcp_ok ?c (call_out env (CppError message) ?c)"
    by (rule call_plain [OF r(1)]) (simp_all add: plain_def tcp_kinds)
  ultimately show ?thesis using r(1)
    by (auto simp: Tcp_NotifyConnectError_def tcp_ok_def settled_def handles_closed_def)
qed

lemma disconnect_ok:
  assumes "tcp_inv c" "tc_closed c" "\<not> tc_disconnectedFired c" "is_tcp_disconnect e"
  shows "tcp_ok c (call_out env e (c\<lparr>tc_disconnectedFired := True\<rparr>))"
proof -
  let ?c = "c\<lparr>tc_disconnectedFired := True\<rparr>"
  have "tcp_inv (uv e ?c)" "settled (uv e ?c)" "tc_closing (uv e ?c)" "tc_closed (uv e ?c)"
    using assms disconnect_kind [OF assms(4)] by (auto simp: tcp_inv_def quiet_end_snoc settled_def handles_closed_def)
  with code_ok [of "uv e ?c" e] show ?thesis by (simp add: call_out_def tcp_ok_def)
qed

lemma FinishClosed_ok:
  assumes "tcp_inv c" "tc_closing c" "tc_closeCount c = 0" "\<not> addrInited c" "handles_closed c"
  shows "tcp_ok c (Tcp_FinishClosed env c) \<and> tc_closed (Tcp_FinishClosed env c)"
proof (cases "tc_closed c")
  case False
  let ?c = "c\<lparr>tc_closed := True\<rparr>"
  have inv: "tcp_inv ?c" "settled ?c" "tc_closed ?c" using assms by (auto simp: tcp_inv_def handles_closed_def settled_def)
  have ok: "tcp_ok ?c (if (connected ?c \<or> everConnected ?c) \<and> \<not> tc_disconnectedFired ?c then
        (let c' = ?c\<lparr>tc_disconnectedFired := True\<rparr> in
         if cppOnDisconnected c' then call_out env CppDisconnected c'
         else if tc_closeReason c' \<noteq> [] then call_out env (SigDisconnected (Some (tc_closeReason c'))) c'
         else call_out env (SigDisconnected None) c') else ?c)" (is "tcp_ok ?c ?d")
    using disconnect_ok [OF inv(1,3)] inv by (auto simp: Let_def is_tcp_disconnect_def tcp_ok_refl)
  have "tcp_ok ?d (uv MgrRemoveClient ?d)" by (rule uv_ok [OF tcp_ok_inv [OF ok]]) (simp_all add: plain_def tcp_kinds)
  with ok have "tcp_ok ?c (uv MgrRemoveClient ?d)" by (rule tcp_ok_trans)
  moreover have "Tcp_FinishClosed env c = (uv MgrRemoveClient ?d)\<lparr>tc_selfGuard := False\<rparr>"
    using False by (simp add: Tcp_FinishClosed_def Let_def)
  ultimately show ?thesis using assms(2) inv by (simp add: tcp_ok_def)
qed (simp add: Tcp_FinishClosed_def tcp_ok_refl assms)

lemma CheckClosed_ok:
  assumes "tcp_inv c" "tc_closing c" "handles_closed c"
  shows "tcp_ok c (Tcp_CheckClosed env c) \<and> settled (Tcp_CheckClosed env c)"
proof (cases "tc_closeCount c = 0 \<and> \<not> addrInited c")
  case True
  have "tcp_ok c (Tcp_FinishClosed env c)" "tc_closed (Tcp_FinishClosed env c)"
    using FinishClosed_ok [OF assms(1,2) _ _ assms(3)] True by auto
  then show ?thesis using True assms(2) by (auto simp: Tcp_CheckClosed_def tcp_ok_def settled_def tcp_inv_def)
next
  case False
  then have "settled c" using assms by (auto simp: settled_def tcp_inv_def)
  then show ?thesis using False assms by (auto simp: Tcp_CheckClosed_def tcp_ok_refl)
qed

lemma CloseHandles_ok:
  assumes "tcp_inv c" "tc_closing c"
  shows "tcp_inv (Tcp_CloseHandles env c) \<and> tc_closing (Tcp_CloseHandles env c) \<and> settled (Tcp_CloseHandles env c)"
proof (cases "tc_closed c")
  case True
  then show ?thesis using assms by (auto simp: Tcp_CloseHandles_def settled_def tcp_inv_def)
next
  case False
  let ?c = "close_tcp (close_timer (stop_reading (c\<lparr>tc_connectPending := False\<rparr>)))"
  have c: "tcp_inv ?c" "handles_closed ?c" "tc_closing ?c"
    using close_handles_inv [of "c\<lparr>tc_connectPending := False\<rparr>"] assms False by simp_all
  from CheckClosed_ok [OF c(1,3,2)] False c(3) show ?thesis by (simp add: Tcp_CloseHandles_def tcp_ok_def)
qed

lemma closing_inv: "tcp_inv c \<Longrightarrow> tcp_inv (c\<lparr>tc_closing := True\<rparr>)"
  by (auto simp: tcp_inv_def handles_closed_def)

lemma RequestClose_ok:
  assumes "tcp_inv c"
  shows "tcp_ok c (Tcp_RequestClose env c) \<and> tc_closing (Tcp_RequestClose env c)"
proof (cases "tc_closing c")
  case False
  let ?c = "c\<lparr>tc_closing := True\<rparr>"
  let ?d = "if tc_connectPending ?c \<and> \<not> tc_connectResumed ?c \<and> \<not> tc_shuttingDown ?c
    then Tcp_NotifyConnectError env ''connection closed'' (?c\<lparr>tc_connectResumed := True\<rparr>) else ?c"
  have "tcp_ok ?c ?d" using NotifyConnectError_ok [OF closing_inv [OF assms]] tcp_ok_refl [OF closing_inv [OF assms]] by simp
  then have "tcp_inv (?d\<lparr>tc_connectPending := False\<rparr>)" "tc_closing (?d\<lparr>tc_connectPending := False\<rparr>)" by (auto simp: tcp_ok_def)
  from CloseHandles_ok [OF this] show ?thesis
    using False assms open_ok [OF False assms] by (simp add: Tcp_RequestClose_def Let_def)
qed (simp add: Tcp_RequestClose_def tcp_ok_refl assms)

lemma FailConnect_closes:
  assumes "tcp_inv c"
  shows "tcp_ok c (Tcp_FailConnect env message c) \<and> tc_closing (Tcp_FailConnect env message c)"
proof (cases "tc_closing c")
  case False
  let ?c = "c\<lparr>tc_closeReason := message, tc_closing := True\<rparr>"
  let ?d = "if tc_connectPending ?c \<and> \<not> tc_connectResumed ?c
    then Tcp_NotifyConnectError env message (?c\<lparr>tc_connectResumed := True\<rparr>) else ?c"
  have inv: "tcp_inv ?c" using closing_inv [of "c\<lparr>tc_closeReason := message\<rparr>"] assms by simp
  have "tcp_ok ?c ?d" using NotifyConnectError_ok [OF inv] tcp_ok_refl [OF inv] by simp
  then have "tcp_inv (?d\<lparr>tc_connectPending := False\<rparr>)" "tc_closing (?d\<lparr>tc_connectPending := False\<rparr>)" by (auto simp: tcp_ok_def)
  from CloseHandles_ok [OF this] show ?thesis
    using False assms open_ok [OF False assms] by (simp add: Tcp_FailConnect_def Let_def)
qed (use assms in \<open>simp add: Tcp_FailConnect_def tcp_ok_def Let_def\<close>)

lemma FailConnect_ok: "tcp_inv c \<Longrightarrow> tcp_ok c (Tcp_FailConnect env message c)"
  using FailConnect_closes by blast

text \<open>Operations that start on an open socket.\<close>

lemma open_step:
  assumes "tcp_inv c" "\<not> tc_closing c" "tcp_ok d e" "\<not> tc_closing d"
  shows "tcp_ok c e"
  using assms by (auto simp: tcp_ok_def settled_def tcp_inv_def)

lemma StartReading_ok:
  assumes "tcp_inv c"
  shows "tcp_ok c (StartReading env c)"
proof (cases "reading c \<or> tc_closed c \<or> tc_closing c")
  case False
  have inv: "tcp_inv (c\<lparr>reading := b\<rparr>)" for b using assms False by (auto simp: tcp_inv_def)
  have err: "tcp_ok (c\<lparr>reading := False\<rparr>) (Tcp_RequestClose env (Tcp_FireError env m (c\<lparr>reading := False\<rparr>)))" for m
    using FireError_ok [OF inv] RequestClose_ok [OF tcp_ok_inv [OF FireError_ok [OF inv]]] tcp_ok_trans by blast
  have "tcp_ok c (Tcp_RequestClose env (Tcp_FireError env m (c\<lparr>reading := False\<rparr>)))" for m
    by (rule open_step [OF assms _ err]) (use False in auto)
  moreover have rd: "tcp_ok (c\<lparr>reading := True\<rparr>) (uv UvReadStart (c\<lparr>reading := True\<rparr>))"
    by (rule uv_ok [OF inv]) (simp_all add: plain_def tcp_kinds)
  have "tcp_ok c (uv UvReadStart (c\<lparr>reading := True\<rparr>))" by (rule open_step [OF assms _ rd]) (use False in auto)
  ultimately show ?thesis using False by (simp add: StartReading_def Let_def)
qed (auto simp: StartReading_def tcp_ok_refl assms)

lemma StartTcpConnect_ok:
  assumes "tcp_inv c" "\<not> tc_closing c"
  shows "tcp_ok c (StartTcpConnect env addr c)"
proof -
  let ?c = "(uv UvTcpInit c)\<lparr>tcpInited := True\<rparr>"
  have inv: "tcp_inv ?c" using assms by (auto simp: tcp_inv_def tcp_kinds quiet_end_snoc)
  have "tcp_ok c (Tcp_FailConnect env m ?c)" for m by (rule open_step [OF assms FailConnect_ok [OF inv]]) (use assms in simp)
  moreover have "tcp_ok ?c (uv (UvTcpConnect addr) ?c)" by (rule uv_ok [OF inv]) (simp_all add: plain_def tcp_kinds)
  then have "tcp_ok c (uv (UvTcpConnect addr) ?c)" by (rule open_step [OF assms]) (use assms in simp)
  ultimately show ?thesis using FailConnect_ok [OF assms(1)] by (simp add: StartTcpConnect_def Let_def)
qed

lemma connect_address_ok:
  assumes "tcp_inv c" "\<not> tc_closing c"
  shows "tcp_ok c (snd (connect_address env c))"
proof -
  have inv: "tcp_inv (c\<lparr>addrInited := b\<rparr>)" for b using assms by (auto simp: tcp_inv_def)
  have "tcp_ok c (uv (UvGetAddrInfo h p) (c\<lparr>addrInited := True\<rparr>))" for h p
    by (rule open_step [OF assms uv_ok [OF inv]]) (use assms in \<open>simp_all add: plain_def tcp_kinds\<close>)
  moreover have "tcp_ok c (c\<lparr>addrInited := False\<rparr>)"
    by (rule open_step [OF assms tcp_ok_refl [OF inv]]) (use assms in simp)
  ultimately show ?thesis using StartTcpConnect_ok [OF assms]
    by (auto simp: connect_address_def Let_def split: sum.split)
qed

lemma BeginConnect_ok:
  assumes "tcp_inv c" "\<not> tc_closing c"
  shows "tcp_ok c (snd (BeginConnect env c))"
proof -
  let ?c = "uv (UvTimerOn (tc_connectTimeoutMs c)) (c\<lparr>tc_timerInited := True\<rparr>)"
  have inv: "tcp_inv ?c" using assms by (auto simp: tcp_inv_def tcp_kinds quiet_end_snoc)
  have "tcp_ok c (snd (connect_address env ?c))"
    by (rule open_step [OF assms connect_address_ok [OF inv]]) (use assms in simp_all)
  then show ?thesis using connect_address_ok [OF assms] tcp_ok_refl [OF assms(1)] by (simp add: BeginConnect_def Let_def)
qed

lemma tcp_ok_update [simp]:
  "tcp_ok c (d\<lparr>tc_connectPending := b\<rparr>) = tcp_ok c d" "tcp_ok c (d\<lparr>tc_connectCo := b\<rparr>) = tcp_ok c d"
  by (simp_all add: tcp_ok_def)

lemma Connect_ok:
  assumes "tcp_inv c"
  shows "tcp_ok c (snd (Tcp_ConnectNative env host port ms c))" "\<not> tc_closing c \<Longrightarrow> tcp_ok c (snd (tcp_begin env host port ms c))"
proof -
  have ok: "tcp_ok c (snd (BeginConnect env d))" if "\<not> tc_closing c" "tcp_inv d" "\<not> tc_closing d" for d
    by (rule open_step [OF assms that(1) BeginConnect_ok [OF that(2,3)] that(3)])
  show "tcp_ok c (snd (Tcp_ConnectNative env host port ms c))"
    using ok [of "c\<lparr>connectHost := host, connectPort := port, tc_connectTimeoutMs := ms, tc_connectPending := True\<rparr>"] assms
    by (auto simp: Tcp_ConnectNative_def tcp_ok_refl Let_def split: prod.split)
  show "tcp_ok c (snd (tcp_begin env host port ms c))" if "\<not> tc_closing c"
    using ok [of "c\<lparr>connectHost := host, connectPort := port, tc_connectTimeoutMs := ms, tc_connectPending := True, tc_connectCo := True\<rparr>"]
      that assms by (auto simp: tcp_begin_def split: prod.split)
qed

lemma MethodConnect_ok: "tcp_inv c \<Longrightarrow> tcp_ok c (snd (Tcp_MethodConnect env args c))"
  using Connect_ok(2) [of c]
  by (auto simp: Tcp_MethodConnect_def tcp_ok_refl Let_def split: lvalue.split sum.split)

lemma tcp_write_ok: "tcp_inv c \<Longrightarrow> tcp_ok c (tcp_write env data c)"
  by (auto simp: tcp_write_def Let_def plain_def tcp_kinds intro: FireError_ok uv_ok)

lemma MethodEnd_ok: "tcp_inv c \<Longrightarrow> tcp_ok c (snd (MethodEnd env c))"
  using uv_ok [of c UvShutdown] by (auto simp: MethodEnd_def tcp_ok_refl Let_def plain_def tcp_kinds tcp_ok_def)

lemma TcpMethods_ok:
  assumes "tcp_inv c"
  shows "tcp_ok c (snd (TcpMethods env call c))"
proof (cases call)
  case TAttach
  then show ?thesis using assms by (simp add: TcpMethods_def tcp_ok_def)
next
  case TShutdown
  have "tcp_ok (c\<lparr>tc_shuttingDown := True\<rparr>) (Tcp_RequestClose env (c\<lparr>tc_shuttingDown := True\<rparr>))" using RequestClose_ok assms by simp
  then show ?thesis by (simp add: TShutdown TcpMethods_def tcp_ok_def)
next
  case (TSetNoDelay args)
  then show ?thesis using assms uv_ok [OF assms]
    by (auto simp: TcpMethods_def MethodSetNoDelay_def tcp_ok_refl plain_def tcp_kinds split: lvalue.split)
next
  case (TSetKeepAlive args)
  then show ?thesis using assms uv_ok [OF assms]
    by (auto simp: TcpMethods_def MethodSetKeepAlive_def tcp_ok_refl plain_def tcp_kinds Let_def split: lvalue.split sum.split option.split)
next
  case (TSend args)
  then show ?thesis using assms by (auto simp: TcpMethods_def Tcp_MethodSend_def tcp_ok_refl tcp_write_ok split: lvalue.split)
qed (use assms RequestClose_ok in \<open>auto simp: TcpMethods_def tcp_ok_refl MethodConnect_ok MethodEnd_ok Connect_ok(1) Tcp_SendNative_def tcp_write_ok\<close>)

lemma performs_ok: "tcp_inv c \<Longrightarrow> tcp_ok c (fold (\<lambda>call c. snd (TcpMethods env call c)) calls c)"
proof (induction calls arbitrary: c)
  case (Cons call calls)
  have ok: "tcp_ok c (snd (TcpMethods env call c))" by (rule TcpMethods_ok [OF Cons.prems])
  from tcp_ok_trans [OF ok Cons.IH [OF tcp_ok_inv [OF ok]]] show ?case by simp
qed (simp add: tcp_ok_refl)

text \<open>Callbacks of libuv.\<close>

lemma OnConnected_ok:
  assumes "tcp_inv c"
  shows "tcp_ok c (OnConnected env status c)"
proof (cases "tc_closing c \<or> status \<noteq> 0")
  case True
  then show ?thesis using FailConnect_ok [OF assms] by (auto simp: OnConnected_def tcp_ok_refl assms)
next
  case False
  let ?c1 = "uv (UvNoDelay True) (c\<lparr>connected := True, everConnected := True, tc_connectPending := False\<rparr>)"
  define c2 where "c2 = close_timer (Tcp_UpdateAddresses env ?c1)"
  define c3 where "c3 = (if \<not> tc_connectResumed c2 then Tcp_NotifyConnectOk env (c2\<lparr>tc_connectResumed := True\<rparr>) else c2)"
  have "tcp_ok (c\<lparr>connected := True, everConnected := True, tc_connectPending := False\<rparr>) ?c1"
    by (rule uv_ok) (simp_all add: plain_def tcp_kinds assms)
  then have "tcp_inv (Tcp_UpdateAddresses env ?c1) \<and> \<not> tc_closing (Tcp_UpdateAddresses env ?c1)"
    using False by (auto simp: tcp_ok_def Tcp_UpdateAddresses_def Let_def split: option.split)
  then have c2: "tcp_inv c2" "\<not> tc_closing c2" using close_timer_ok by (auto simp: c2_def)
  have c3: "tcp_ok c2 c3" using NotifyConnectOk_ok [OF c2(1)] tcp_ok_refl [OF c2(1)] by (simp add: c3_def)
  let ?c4 = "if \<not> tc_shuttingDown c3 \<and> \<not> cppOnConnected c3 then call_out env SigConnected c3 else c3"
  have "tcp_ok c3 (call_out env SigConnected c3)"
    by (rule call_plain [OF tcp_ok_inv [OF c3]]) (simp_all add: plain_def tcp_kinds)
  then have "tcp_ok c3 ?c4" using tcp_ok_refl [OF tcp_ok_inv [OF c3]] by simp
  then have "tcp_ok c2 (StartReading env ?c4)"
    using c3 StartReading_ok [OF tcp_ok_inv] tcp_ok_trans by blast
  moreover have "OnConnected env status c = (if tc_closing c3 then c3 else StartReading env ?c4)"
    using False unfolding OnConnected_def Let_def c3_def c2_def by simp
  ultimately have "tcp_ok c2 (OnConnected env status c)" using c3 by presburger
  then show ?thesis using open_step [OF assms] False c2 by blast
qed

lemma OnRead_ok:
  assumes "tcp_inv c" "reading c"
  shows "tcp_ok c (OnRead env nread buf c)"
proof -
  have open_c: "\<not> tc_closed c" using assms by (auto simp: tcp_inv_def handles_closed_def)
  have "tcp_ok c (call_out env e c)" if "plain e" for e by (rule call_plain [OF assms(1) that open_c])
  from this [of "CppMessage (take (nat nread) buf)"] this [of "SigMessage (take (nat nread) buf)"]
  have msg: "tcp_ok c (call_out env (CppMessage (take (nat nread) buf)) c)" "tcp_ok c (call_out env (SigMessage (take (nat nread) buf)) c)"
    by (simp_all add: plain_def tcp_kinds)
  have eof: "tcp_ok c (Tcp_RequestClose env (c\<lparr>tc_closeReason := m\<rparr>))" for m
    using RequestClose_ok [of "c\<lparr>tc_closeReason := m\<rparr>"] assms by (simp add: tcp_ok_def)
  have err: "tcp_ok c (Tcp_RequestClose env (Tcp_FireError env m c))" for m
    using FireError_ok [OF assms(1)] RequestClose_ok [OF tcp_ok_inv [OF FireError_ok [OF assms(1)]]] tcp_ok_trans by blast
  show ?thesis unfolding OnRead_def using msg eof err tcp_ok_refl [OF assms(1)] by presburger
qed

lemma OnResolved_ok:
  assumes "tcp_inv c" "settled c"
  shows "tcp_inv (OnResolved env status addr c) \<and> settled (OnResolved env status addr c)"
proof -
  let ?c = "c\<lparr>addrInited := False\<rparr>"
  have inv: "tcp_inv ?c" using assms by (auto simp: tcp_inv_def handles_closed_def)
  show ?thesis
  proof (cases "tc_closing c")
    case True
    have "handles_closed ?c" using assms True by (auto simp: settled_def handles_closed_def)
    with CheckClosed_ok [OF inv] True show ?thesis by (simp add: OnResolved_def Let_def tcp_ok_def)
  next
    case False
    then show ?thesis using FailConnect_ok [OF inv] StartTcpConnect_ok [OF inv]
      by (auto simp: OnResolved_def Let_def tcp_ok_def settled_def)
  qed
qed

lemma OnHandleClosed_ok:
  assumes "tcp_inv c" "settled c"
    "happened (\<lambda>e. e = UvClosedCb) c < happened (\<lambda>e. e = UvCloseTcp) c + happened (\<lambda>e. e = UvCloseTimer) c"
  shows "tcp_inv (Tcp_OnHandleClosed env c) \<and> settled (Tcp_OnHandleClosed env c)"
proof -
  let ?c = "uv UvClosedCb (c\<lparr>tc_closeCount := tc_closeCount c - 1\<rparr>)"
  have pos: "0 < tc_closeCount c" using close_count [OF assms(1)] assms(3) by linarith
  then have inv: "tcp_inv ?c" using assms(1) by (auto simp: tcp_inv_def handles_closed_def tcp_kinds quiet_end_snoc)
  show ?thesis
  proof (cases "tc_closing c")
    case True
    have "handles_closed ?c" using assms True by (auto simp: settled_def handles_closed_def)
    with CheckClosed_ok [OF inv] True show ?thesis by (simp add: Tcp_OnHandleClosed_def tcp_ok_def)
  next
    case False
    then show ?thesis using inv by (simp add: Tcp_OnHandleClosed_def Tcp_CheckClosed_def settled_def)
  qed
qed

lemma tcp_inv_new: "tcp_inv TcpClient_new \<and> settled TcpClient_new"
  by (simp add: TcpClient_new_def tcp_inv_def settled_def happened_def quiet_end_def)

lemma accept_ok: "tcp_inv (accept_client env code) \<and> settled (accept_client env code)"
proof -
  let ?c = "uv UvTcpInit (TcpClient_new\<lparr>tcpInited := True\<rparr>)"
  have inv: "tcp_inv ?c" "\<not> tc_closing ?c" by (simp_all add: TcpClient_new_def tcp_inv_def happened_def quiet_end_def tcp_kinds uv_def)
  let ?d = "Tcp_UpdateAddresses env (uv (UvNoDelay True) (?c\<lparr>connected := True, everConnected := True\<rparr>))"
  have "tcp_ok (?c\<lparr>connected := True, everConnected := True\<rparr>) (uv (UvNoDelay True) (?c\<lparr>connected := True, everConnected := True\<rparr>))"
    by (rule uv_ok) (use inv in \<open>simp_all add: plain_def tcp_kinds\<close>)
  then have d: "tcp_inv ?d" "\<not> tc_closing ?d" using inv
    by (auto simp: tcp_ok_def Tcp_UpdateAddresses_def Let_def split: option.split)
  show ?thesis
    using RequestClose_ok [OF inv(1)] StartReading_ok [OF d(1)] inv d
    by (simp add: accept_client_def Let_def tcp_ok_def settled_def)
qed

lemma tcp_reach_inv: "tcp_reach env c \<Longrightarrow> tcp_inv c \<and> settled c"
proof (induction rule: tcp_reach.induct)
  case (call c call)
  then show ?case using TcpMethods_ok by (auto simp: tcp_ok_def)
next
  case (shutdown c status)
  then show ?case using FireError_ok by (auto simp: tcp_ok_def OnShutdown_def)
next
  case (written c status)
  then show ?case using FireError_ok by (auto simp: tcp_ok_def OnWritten_def)
next
  case (timeout c)
  then show ?case using FailConnect_ok by (auto simp: tcp_ok_def OnConnectTimeout_def)
next
  case (connect c status)
  then show ?case using OnConnected_ok by (auto simp: tcp_ok_def)
next
  case (read c nread buf)
  then show ?case using OnRead_ok by (auto simp: tcp_ok_def)
qed (simp_all add: tcp_inv_new accept_ok OnResolved_ok OnHandleClosed_ok)

end

lemma tcp_callbacks_nested: "tcp_callbacks (tcp_nested n script base)"
proof (induction n)
  case 0
  show ?case by unfold_locales (simp add: tcp_ok_refl)
next
  case (Suc n)
  from tcp_callbacks.performs_ok [OF Suc] show ?case by unfold_locales simp
qed

interpretation sockets: tcp_callbacks "tcp_nested n script base" for n script base
  by (rule tcp_callbacks_nested)

section \<open>Properties\<close>

text \<open>Surroundings for the instances below: every libuv call succeeds, and every handler closes the socket and
  tries to write to it.\<close>

definition kind_uv :: tcp_env where
  "kind_uv = \<lparr>tcp_code = (\<lambda>e c. c), uv_result = (\<lambda>_ _. 0), uv_strerror = (\<lambda>_. ''error''), uv_ip4_addr = (\<lambda>h p. Inr (h, p)),
     uv_ip6_addr = (\<lambda>h p. Inr (h, p)), uv_getsockname = (\<lambda>_. None), uv_getpeername = (\<lambda>_. None), uv_eof = - 4095,
     uv_ecanceled = - 125, tcp_mult = (\<lambda>a b. Finite (a * b))\<rparr>"

definition closing_uv :: tcp_env where
  "closing_uv = tcp_nested 1 (\<lambda>e c. [TClose, TSendNative []]) kind_uv"

lemmas accept_run =
  accept_client_def TcpClient_new_def StartReading_def Tcp_UpdateAddresses_def uv_def kind_uv_def Let_def

lemma accepted_reading: "reading (accept_client closing_uv 0)"
  by (simp add: closing_uv_def accept_run)

text \<open>C13. In every reachable state of a socket, whatever its handlers and native callbacks do to it: the
  disconnection is announced at most once, the outcome of a connection attempt at most once, each of the two
  libuv handles is closed at most once, and no data is delivered after the disconnection.\<close>

theorem tcp_at_most_once:
  assumes "tcp_reach (tcp_nested n script base) c"
  shows "happened is_tcp_disconnect c \<le> 1 \<and> happened is_notify c \<le> 1 \<and>
    happened (\<lambda>e. e = UvCloseTcp) c \<le> 1 \<and> happened (\<lambda>e. e = UvCloseTimer) c \<le> 1 \<and> quiet_end (tcp_trace c)"
proof -
  have "tcp_inv c" using sockets.tcp_reach_inv [OF assms] by simp
  then show ?thesis by (auto simp: tcp_inv_def of_bool_def split: if_splits)
qed

theorem tcp_at_most_once_witness:
  "happened is_tcp_disconnect (Tcp_OnHandleClosed closing_uv (OnRead closing_uv (- 4095) [] (accept_client closing_uv 0))) \<le> 1"
proof -
  let ?c = "accept_client closing_uv 0"
  let ?d = "OnRead closing_uv (- 4095) [] ?c"
  have "tcp_reach closing_uv ?d" by (intro tcp_reach.intros accepted_reading)
  moreover have "happened (\<lambda>e. e = UvClosedCb) ?d < happened (\<lambda>e. e = UvCloseTcp) ?d + happened (\<lambda>e. e = UvCloseTimer) ?d"
    by (simp add: closing_uv_def accept_run OnRead_def Tcp_RequestClose_def Tcp_CloseHandles_def close_tcp_def close_timer_def
        stop_reading_def Tcp_CheckClosed_def happened_def)
  ultimately have "tcp_reach closing_uv (Tcp_OnHandleClosed closing_uv ?d)" by (rule tcp_reach.handle_closed)
  then show ?thesis using tcp_at_most_once unfolding closing_uv_def by blast
qed

text \<open>Letting libuv report what is outstanding: the resolver request, then the close callbacks.\<close>

definition drain :: "tcp_env \<Rightarrow> int \<Rightarrow> sockaddr \<Rightarrow> TcpClient \<Rightarrow> TcpClient" where
  "drain env status addr c =
     (Tcp_OnHandleClosed env ^^ nat (tc_closeCount c)) (if addrInited c then OnResolved env status addr c else c)"

lemma drain_handles:
  assumes "tcp_inv c" "tc_closing c" "handles_closed c" "\<not> addrInited c" "tc_closeCount c = int n" "n = 0 \<Longrightarrow> tc_closed c"
  shows "tc_closed ((Tcp_OnHandleClosed (tcp_nested k script base) ^^ n) c)"
  using assms
proof (induction n arbitrary: c)
  case (Suc n)
  let ?env = "tcp_nested k script base"
  let ?c = "uv UvClosedCb (c\<lparr>tc_closeCount := tc_closeCount c - 1\<rparr>)"
  have inv: "tcp_inv ?c" and h: "handles_closed ?c"
    using Suc.prems by (auto simp: tcp_inv_def handles_closed_def tcp_kinds quiet_end_snoc)
  have "tc_closed ((Tcp_OnHandleClosed ?env ^^ n) (Tcp_OnHandleClosed ?env c))"
  proof (cases n)
    case 0
    have "tc_closed (Tcp_FinishClosed ?env ?c)"
      using sockets.FinishClosed_ok [OF inv] h Suc.prems 0 by simp
    then show ?thesis using Suc.prems 0 by (simp add: Tcp_OnHandleClosed_def Tcp_CheckClosed_def)
  next
    case (Suc m)
    then have "Tcp_OnHandleClosed ?env c = ?c" using Suc.prems by (simp add: Tcp_OnHandleClosed_def Tcp_CheckClosed_def)
    then show ?thesis using Suc.IH [OF inv] Suc.prems h Suc by simp
  qed
  then show ?case by (simp add: funpow_swap1)
qed simp

text \<open>C23. Closing completes: a reachable socket that is closing and not closed has a libuv callback
  outstanding, and once libuv has reported the pending resolver request and the close of its handles the
  socket is closed.\<close>

theorem tcp_close_completes:
  assumes "tcp_reach (tcp_nested n script base) c" "tc_closing c"
  shows "(tc_closed c \<or> addrInited c \<or>
      happened (\<lambda>e. e = UvClosedCb) c < happened (\<lambda>e. e = UvCloseTcp) c + happened (\<lambda>e. e = UvCloseTimer) c) \<and>
    tc_closed (drain (tcp_nested n script base) status addr c)"
proof
  let ?env = "tcp_nested n script base"
  have inv: "tcp_inv c" "settled c" using sockets.tcp_reach_inv [OF assms(1)] by simp_all
  then have h: "handles_closed c" "tc_closed c \<or> 0 < tc_closeCount c \<or> addrInited c" "0 \<le> tc_closeCount c"
    using assms(2) by (auto simp: settled_def tcp_inv_def)
  show "tc_closed c \<or> addrInited c \<or>
      happened (\<lambda>e. e = UvClosedCb) c < happened (\<lambda>e. e = UvCloseTcp) c + happened (\<lambda>e. e = UvCloseTimer) c"
    using h(2) close_count [OF inv(1)] by linarith
  let ?a = "c\<lparr>addrInited := False\<rparr>"
  have a: "tcp_inv ?a" "handles_closed ?a" using inv h by (auto simp: tcp_inv_def handles_closed_def)
  consider "\<not> addrInited c" | "addrInited c" "tc_closeCount c = 0" | "addrInited c" "tc_closeCount c \<noteq> 0" by blast
  then show "tc_closed (drain ?env status addr c)"
  proof cases
    case 1
    then show ?thesis using drain_handles [OF inv(1) assms(2) h(1) 1, of "nat (tc_closeCount c)"] h by (auto simp: drain_def)
  next
    case 2
    have "tc_closed (Tcp_FinishClosed ?env ?a)" using sockets.FinishClosed_ok [OF a(1) _ _ _ a(2)] 2 assms(2) by simp
    then show ?thesis using 2 assms(2) by (simp add: drain_def OnResolved_def Tcp_CheckClosed_def)
  next
    case 3
    then show ?thesis using drain_handles [OF a(1) _ a(2), of "nat (tc_closeCount c)"] h assms(2)
      by (auto simp: drain_def OnResolved_def Tcp_CheckClosed_def)
  qed
qed

theorem tcp_close_completes_witness:
  "tc_closed (drain closing_uv 0 ([], 0) (snd (TcpMethods closing_uv TClose (accept_client closing_uv 0))))"
proof -
  let ?c = "snd (TcpMethods closing_uv TClose (accept_client closing_uv 0))"
  have "tcp_reach closing_uv ?c" by (intro tcp_reach.intros)
  moreover have "tc_closing ?c"
    by (simp add: closing_uv_def TcpMethods_def accept_run Tcp_RequestClose_def Tcp_CloseHandles_def close_tcp_def close_timer_def
        stop_reading_def Tcp_CheckClosed_def)
  ultimately show ?thesis using tcp_close_completes unfolding closing_uv_def by blast
qed

lemma update_addresses_fields:
  "happened P (Tcp_UpdateAddresses env c) = happened P c" "reading (Tcp_UpdateAddresses env c) = reading c"
  "tc_connectCo (Tcp_UpdateAddresses env c) = tc_connectCo c" "tc_connectResumed (Tcp_UpdateAddresses env c) = tc_connectResumed c"
  "tc_closing (Tcp_UpdateAddresses env c) = tc_closing c"
  by (simp_all add: Tcp_UpdateAddresses_def Let_def split: option.split)

lemma close_timer_fields:
  "happened is_notify (close_timer c) = happened is_notify c" "reading (close_timer c) = reading c"
  "tc_connectCo (close_timer c) = tc_connectCo c" "tc_connectResumed (close_timer c) = tc_connectResumed c"
  "tc_closing (close_timer c) = tc_closing c"
  by (simp_all add: close_timer_def is_notify_def)

text \<open>\<open>Connect\<close> after \<open>End\<close>: the half-closed socket counts as not connected, so the guards of \<open>Connect\<close> let a
  second attempt through. It initialises the libuv handle a second time although the first connection was
  never closed (and is still being read), and when it succeeds the coroutine that waits for it is not
  resumed, because the flag of the first attempt is still set.\<close>

theorem connect_after_end:
  assumes "Tcp_IsConnected c" "tc_connectResumed c" "\<not> shutdownQueued c" "\<not> tc_connectPending c" "reading c"
    "uv_result env uv_shutdown c = 0" "uv_ip4_addr env ''10.0.0.1'' 80 = Inr addr"
    "\<And>d. uv_result env uv_tcp_init d = 0" "\<And>d. uv_result env (uv_tcp_connect addr) d = 0" "tcp_code env = (\<lambda>e d. d)"
  defines "d \<equiv> Tcp_MethodConnect env [LNil, LString ''10.0.0.1'', LNumber (Finite 80)] (snd (MethodEnd env c))"
  shows "fst d = TcpYielded \<and> happened (\<lambda>e. e = UvTcpInit) (snd d) = happened (\<lambda>e. e = UvTcpInit) c + 1 \<and>
    happened (\<lambda>e. e = UvCloseTcp) (snd d) = happened (\<lambda>e. e = UvCloseTcp) c \<and>
    happened is_notify (OnConnected env 0 (snd d)) = happened is_notify c \<and> tc_connectCo (OnConnected env 0 (snd d))"
proof -
  have e: "snd (MethodEnd env c) = (uv UvShutdown c)\<lparr>shutdownQueued := True, connected := False\<rparr>" (is "_ = ?e")
    using assms(1,3,6) by (simp add: MethodEnd_def Tcp_IsConnected_def)
  have port: "Tcp_IsValidPort (Finite 80) False" by (simp add: Tcp_IsValidPort_def is_integral_def)
  let ?f = "?e\<lparr>connectHost := ''10.0.0.1'', connectPort := 80, tc_connectTimeoutMs := 0, tc_connectPending := True, tc_connectCo := True\<rparr>"
  have "connect_address env ?f = (0, uv (UvTcpConnect addr) ((uv UvTcpInit ?f)\<lparr>tcpInited := True\<rparr>))"
    using assms(7-9) by (simp add: connect_address_def MakeSockAddr_def StartTcpConnect_def)
  then have d: "d = (TcpYielded, uv (UvTcpConnect addr) ((uv UvTcpInit ?f)\<lparr>tcpInited := True\<rparr>))"
    using assms(1,4) port unfolding d_def e
    by (simp add: Tcp_MethodConnect_def Tcp_IsConnected_def arg_def tcp_options_def tcp_timeout_def tcp_begin_def BeginConnect_def)
  have "happened is_notify (OnConnected env 0 (snd d)) = happened is_notify c \<and> tc_connectCo (OnConnected env 0 (snd d))"
    using assms(1,2,5,10) unfolding d Tcp_IsConnected_def
    by (simp add: OnConnected_def update_addresses_fields close_timer_fields StartReading_def call_out_def is_notify_def Let_def)
  then show ?thesis by (simp add: d)
qed

theorem connect_after_end_witness:
  "let c = TcpClient_new\<lparr>tcpInited := True, connected := True, everConnected := True, tc_connectResumed := True, reading := True\<rparr>;
       d = Tcp_MethodConnect kind_uv [LNil, LString ''10.0.0.1'', LNumber (Finite 80)] (snd (MethodEnd kind_uv c))
   in fst d = TcpYielded \<and> tc_connectCo (OnConnected kind_uv 0 (snd d))"
  using connect_after_end
    [of "TcpClient_new\<lparr>tcpInited := True, connected := True, everConnected := True, tc_connectResumed := True, reading := True\<rparr>"
      kind_uv "(''10.0.0.1'', 80)"]
  by (simp add: Let_def kind_uv_def TcpClient_new_def Tcp_IsConnected_def)

text \<open>When \<open>uv_tcp_connect\<close> refuses an address at once, \<open>Connect\<close> resumes its own coroutine with the error
  while that coroutine is still running, drops it, and then yields: the caller is suspended, the only
  resumption it could get lies before the suspension, and the socket is closing.\<close>

theorem refused_connect_hangs:
  assumes "\<not> connected c" "\<not> tc_connectPending c" "\<not> tc_closing c" "\<not> tc_closed c" "\<not> tc_connectResumed c" "\<not> cppOnError c"
    "uv_ip4_addr env ''10.0.0.1'' 80 = Inr addr" "\<And>d. uv_result env uv_tcp_init d = 0"
    "\<And>d. uv_result env (uv_tcp_connect addr) d = - 101" "tcp_code env = (\<lambda>e d. d)" "\<not> tcpClosed c" "0 \<le> tc_closeCount c"
  defines "d \<equiv> Tcp_MethodConnect env [LNil, LString ''10.0.0.1'', LNumber (Finite 80)] c"
  shows "fst d = TcpYielded \<and> happened is_notify (snd d) = happened is_notify c + 1 \<and> \<not> tc_connectCo (snd d) \<and> tc_closing (snd d)"
proof -
  have port: "Tcp_IsValidPort (Finite 80) False" by (simp add: Tcp_IsValidPort_def is_integral_def)
  let ?f = "c\<lparr>connectHost := ''10.0.0.1'', connectPort := 80, tc_connectTimeoutMs := 0, tc_connectPending := True, tc_connectCo := True\<rparr>"
  let ?i = "(uv UvTcpInit ?f)\<lparr>tcpInited := True\<rparr>"
  have "connect_address env ?f = (0, Tcp_FailConnect env (''connect: '' @ uv_strerror env (- 101)) ?i)"
    using assms(7-9) by (simp add: connect_address_def MakeSockAddr_def StartTcpConnect_def)
  then have d: "d = (TcpYielded, Tcp_FailConnect env (''connect: '' @ uv_strerror env (- 101)) ?i)"
    using assms(1-4) port unfolding d_def
    by (simp add: Tcp_MethodConnect_def arg_def tcp_options_def tcp_timeout_def tcp_begin_def BeginConnect_def)
  show ?thesis using assms(3-6,10-12) unfolding d
    by (simp add: Tcp_FailConnect_def Tcp_NotifyConnectError_def call_out_def Tcp_CloseHandles_def stop_reading_def close_timer_def
        close_tcp_def Tcp_CheckClosed_def is_notify_def Let_def)
qed

theorem refused_connect_hangs_witness:
  "let env = kind_uv\<lparr>uv_result := (\<lambda>call d. if call = uv_tcp_connect (''10.0.0.1'', 80) then - 101 else 0)\<rparr>;
       d = Tcp_MethodConnect env [LNil, LString ''10.0.0.1'', LNumber (Finite 80)] TcpClient_new
   in fst d = TcpYielded \<and> \<not> tc_connectCo (snd d)"
  using refused_connect_hangs
    [of "TcpClient_new" "kind_uv\<lparr>uv_result := (\<lambda>call d. if call = uv_tcp_connect (''10.0.0.1'', 80) then - 101 else 0)\<rparr>"
      "(''10.0.0.1'', 80)"]
  by (simp add: Let_def kind_uv_def TcpClient_new_def)

text \<open>A \<open>Connect\<close> that fails because the resolver cannot be started raises its error but leaves the timeout
  running: nothing stops or closes the timer, so it later fires into the idle socket, or into a second
  attempt, and closes it.\<close>

theorem failed_connect_keeps_timer:
  assumes "tcp_inv c" "\<not> connected c" "\<not> tc_connectPending c" "\<not> tc_closing c" "\<not> tc_closed c" "\<not> tc_timerClosed c" "host \<noteq> []"
    "tcp_options env opts = Inr (ms, False)" "0 < ms" "MakeSockAddr env host 80 = Inl code"
    "\<And>d. uv_result env uv_timer_init d = 0" "\<And>d. uv_result env (uv_getaddrinfo host 80) d = - 12" "tcp_callbacks env"
  defines "d \<equiv> Tcp_MethodConnect env [LNil, LString host, LNumber (Finite 80), opts] c"
  shows "fst d = TcpRaised (''socket Connect: '' @ uv_strerror env (- 12)) \<and> tcp_trace (snd d) = tcp_trace c @ [UvTimerOn ms] \<and>
    tc_timerInited (snd d) \<and> \<not> tc_timerClosed (snd d) \<and> tc_closing (OnConnectTimeout env (snd d))"
proof -
  have port: "Tcp_IsValidPort (Finite 80) False" by (simp add: Tcp_IsValidPort_def is_integral_def)
  let ?f = "c\<lparr>connectHost := host, connectPort := 80, tc_connectTimeoutMs := ms, tc_connectPending := True, tc_connectCo := True\<rparr>"
  let ?t = "uv (UvTimerOn ms) (?f\<lparr>tc_timerInited := True\<rparr>)"
  have d: "d = (TcpRaised (''socket Connect: '' @ uv_strerror env (- 12)),
      ?t\<lparr>addrInited := True, addrInited := False, tc_connectPending := False, tc_connectCo := False\<rparr>)"
    using assms(2-5,7-12) port unfolding d_def
    by (simp add: Tcp_MethodConnect_def arg_def tcp_begin_def BeginConnect_def connect_address_def Let_def)
  have "tcp_inv (snd d)" using assms(1,4,5) unfolding d by (auto simp: tcp_inv_def tcp_kinds quiet_end_snoc)
  from tcp_callbacks.FailConnect_closes [OF assms(13) this]
  have "tc_closing (OnConnectTimeout env (snd d))" by (simp add: OnConnectTimeout_def)
  then show ?thesis using assms(6) by (simp add: d)
qed

theorem failed_connect_keeps_timer_witness:
  "let env = (tcp_nested 0 (\<lambda>_ _. []) kind_uv)\<lparr>uv_ip4_addr := (\<lambda>_ _. Inl (- 22)), uv_result := (\<lambda>call d. if call = uv_getaddrinfo ''host'' 80 then - 12 else 0)\<rparr>
   in tc_closing (OnConnectTimeout env (snd (Tcp_MethodConnect env [LNil, LString ''host'', LNumber (Finite 80), LNumber (Finite 5)] TcpClient_new)))"
proof -
  let ?env = "(tcp_nested 0 (\<lambda>_ _. []) kind_uv)\<lparr>uv_ip4_addr := (\<lambda>_ _. Inl (- 22)), uv_result := (\<lambda>call d. if call = uv_getaddrinfo ''host'' 80 then - 12 else 0)\<rparr>"
  have "tcp_callbacks ?env" by unfold_locales (simp add: kind_uv_def tcp_ok_refl)
  moreover have "tcp_options ?env (LNumber (Finite 5)) = Inr (5000, False)"
    by (simp add: tcp_options_def tcp_timeout_def ToMilliseconds_def max_u64_double_def kind_uv_def)
  ultimately show ?thesis
    using failed_connect_keeps_timer [of "TcpClient_new" "''host''" ?env "LNumber (Finite 5)" 5000 "- 22"]
    by (simp add: Let_def MakeSockAddr_def sockets.tcp_inv_new kind_uv_def) (simp add: TcpClient_new_def)
qed

end
