(* ===== verification/Lode_TcpServer.thy ===== *)
theory Lode_TcpServer
  imports Lode_TcpClient
begin

text \<open>
  The listening socket of the tcp module, \<open>TcpServer.cpp\<close>, with the entries of \<open>BuildServerMethods\<close>, the
  constructor \<open>Server.Create\<close> and the lists of \<open>TcpManager\<close>. As for the client, fields are a record,
  methods state transformers, and calls of libuv, signals and callbacks a trace; the close callbacks
  that are still to come are the uv_close entries of the trace that no callback entry answers. A
  connection hands the new client, made by \<^const>\<open>accept_client\<close>, to its listener.
\<close>

section \<open>State\<close>

datatype server_effect =
    SvSigError string
  | SvCppError string
  | SvSigClient TcpClient
  | SvCppClient TcpClient
  | SvTcpInit
  | SvBind sockaddr
  | SvListen nat
  | SvClose
  | SvClosedCb
  | SvDropClient
  | SvRefused TcpClient
  | MgrRemoveServer

record TcpServer =
  sv_tcpInited :: bool
  sv_tcpClosed :: bool
  listening :: bool
  sv_closing :: bool
  sv_closed :: bool
  backlog :: nat
  sv_local :: sockaddr
  sv_selfGuard :: bool
  sv_shuttingDown :: bool
  cppOnClient :: bool
  sv_cppOnError :: bool
  sv_trace :: "server_effect list"

datatype server_call = sv_uv_tcp_init | sv_uv_tcp_bind sockaddr | sv_uv_listen nat | sv_uv_accept | sv_uv_client_init

record server_env =
  sv_code :: "server_effect \<Rightarrow> TcpServer \<Rightarrow> TcpServer"
  sv_result :: "server_call \<Rightarrow> TcpServer \<Rightarrow> int"
  sv_getsockname :: "TcpServer \<Rightarrow> sockaddr option"
  client_env :: tcp_env

definition TcpServer_new :: "bool \<Rightarrow> nat \<Rightarrow> TcpServer" where
  "TcpServer_new native bl =
     \<lparr>sv_tcpInited = False, sv_tcpClosed = False, listening = False, sv_closing = False, sv_closed = False, backlog = bl,
      sv_local = ([], 0), sv_selfGuard = True, sv_shuttingDown = False, cppOnClient = native, sv_cppOnError = native, sv_trace = []\<rparr>"

text \<open>\<open>Server.Create\<close>: the \<open>backlog\<close> option is truncated to an integer after the range check; NaN passes the check,
  and its conversion to \<open>int\<close> is undefined behaviour (\<^const>\<open>None\<close>).\<close>

definition Server_Create :: "bool \<Rightarrow> lvalue list \<Rightarrow> string + TcpServer option" where
  "Server_Create shutting args =
     (if shutting then Inl ''socket: runtime is shutting down''
      else case arg args 1 of
        LNil \<Rightarrow> Inr (Some (TcpServer_new False 511))
      | LTable opts \<Rightarrow>
          (case table_get opts ''backlog'' of
             LNil \<Rightarrow> Inr (Some (TcpServer_new False 511))
           | LNumber (Finite r) \<Rightarrow>
               if r < 1 \<or> 65535 < r then Inl ''socket.Server:Create: backlog must be an integer between 1 and 65535''
               else Inr (Some (TcpServer_new False (nat \<lfloor>r\<rfloor>)))
           | LNumber (Infinity _) \<Rightarrow> Inl ''socket.Server:Create: backlog must be an integer between 1 and 65535''
           | LNumber NaN \<Rightarrow> Inr None
           | _ \<Rightarrow> Inl ''socket.Server:Create: backlog must be a number'')
      | _ \<Rightarrow> Inl ''socket.Server:Create: opts must be a table or nil'')"

definition sv :: "server_effect \<Rightarrow> TcpServer \<Rightarrow> TcpServer" where
  "sv e s = s\<lparr>sv_trace := sv_trace s @ [e]\<rparr>"

definition sv_call_out :: "server_env \<Rightarrow> server_effect \<Rightarrow> TcpServer \<Rightarrow> TcpServer" where
  "sv_call_out env e s = sv_code env e (sv e s)"

section \<open>Operations\<close>

definition Server_FireError :: "server_env \<Rightarrow> string \<Rightarrow> TcpServer \<Rightarrow> TcpServer" where
  "Server_FireError env message s =
     (if sv_shuttingDown s \<or> sv_closed s \<or> sv_closing s then s
      else if sv_cppOnError s then sv_call_out env (SvCppError message) s
      else sv_call_out env (SvSigError message) s)"

definition Server_UpdateAddresses :: "server_env \<Rightarrow> TcpServer \<Rightarrow> TcpServer" where
  "Server_UpdateAddresses env s = (case sv_getsockname env s of Some a \<Rightarrow> s\<lparr>sv_local := a\<rparr> | None \<Rightarrow> s)"

definition close_listener :: "TcpServer \<Rightarrow> TcpServer" where
  "close_listener s = sv SvClose (s\<lparr>sv_tcpClosed := True\<rparr>)"

definition BindFail :: "string \<Rightarrow> TcpServer \<Rightarrow> tcp_result \<times> TcpServer" where
  "BindFail message s =
     (TcpRaised (''socket Server: '' @ message), if sv_tcpInited s \<and> \<not> sv_tcpClosed s then close_listener s else s)"

definition BindFailNative :: "server_env \<Rightarrow> string \<Rightarrow> TcpServer \<Rightarrow> TcpServer" where
  "BindFailNative env message s =
     (let s1 = (if sv_tcpInited s \<and> \<not> sv_tcpClosed s then close_listener s else s)
      in if sv_cppOnError s1 then sv_call_out env (SvCppError (''socket Server: '' @ message)) s1 else s1)"

text \<open>The part \<open>MethodListen\<close> and \<open>ListenNative\<close> share: open, bind and listen. \<^const>\<open>Inl\<close> carries the message
  for the caller's failure function.\<close>

definition open_listener :: "server_env \<Rightarrow> string \<Rightarrow> nat \<Rightarrow> TcpServer \<Rightarrow> (string + unit) \<times> TcpServer" where
  "open_listener env host port s =
     (let ce = client_env env; r = sv_result env sv_uv_tcp_init s in
      if r \<noteq> 0 then (Inl (''tcp: '' @ uv_strerror ce r), s)
      else
        let s1 = (sv SvTcpInit s)\<lparr>sv_tcpInited := True\<rparr> in
        case MakeSockAddr ce host port of
          Inl _ \<Rightarrow> (Inl ''host must be an IPv4 or IPv6 address'', s1)
        | Inr addr \<Rightarrow>
            (let r1 = sv_result env (sv_uv_tcp_bind addr) s1 in
             if r1 \<noteq> 0 then (Inl (''bind: '' @ uv_strerror ce r1), s1)
             else
               let s2 = sv (SvBind addr) s1; r2 = sv_result env (sv_uv_listen (backlog s2)) s2
               in if r2 \<noteq> 0 then (Inl (''listen: '' @ uv_strerror ce r2), s2)
                  else (Inr (), Server_UpdateAddresses env ((sv (SvListen (backlog s2)) s2)\<lparr>listening := True\<rparr>))))"

definition MethodListen :: "server_env \<Rightarrow> lvalue list \<Rightarrow> TcpServer \<Rightarrow> tcp_result \<times> TcpServer" where
  "MethodListen env args s =
     (if sv_closing s \<or> sv_closed s then (TcpRaised ''socket Server: server is closed'', s)
      else if listening s then (TcpRaised ''socket Server: already listening'', s)
      else case arg args 1 of
        LNumber port \<Rightarrow>
          if \<not> Tcp_IsValidPort port True then (TcpRaised ''socket Server: port must be an integer between 0 and 65535'', s)
          else
            let listen = (\<lambda>host.
                  case open_listener env host (case port of Finite r \<Rightarrow> nat \<lfloor>r\<rfloor> | _ \<Rightarrow> 0) s of
                    (Inl message, s') \<Rightarrow> BindFail message s'
                  | (Inr _, s') \<Rightarrow> (TcpReturned LNil, s'))
            in (case arg args 2 of
                  LNil \<Rightarrow> listen []
                | LString host \<Rightarrow> listen host
                | _ \<Rightarrow> (TcpRaised ''socket Server: host must be a string or nil'', s))
      | _ \<Rightarrow> (TcpRaised ''socket Server: port must be a number'', s))"

definition ListenNative :: "server_env \<Rightarrow> string \<Rightarrow> nat \<Rightarrow> TcpServer \<Rightarrow> TcpServer" where
  "ListenNative env host port s =
     (if sv_closing s \<or> sv_closed s \<or> listening s then s
      else case open_listener env host port s of
             (Inl message, s') \<Rightarrow> BindFailNative env message s'
           | (Inr _, s') \<Rightarrow> s')"

definition Server_MethodLocalAddress :: "TcpServer \<Rightarrow> tcp_result" where
  "Server_MethodLocalAddress s =
     (if \<not> listening s \<or> sv_closed s then TcpRaised ''socket Server: not listening''
      else TcpReturned (address_table (sv_local s)))"

definition Server_FinishClosed :: "TcpServer \<Rightarrow> TcpServer" where
  "Server_FinishClosed s =
     (if sv_closed s then s
      else (sv MgrRemoveServer (s\<lparr>sv_closed := True, listening := False\<rparr>))\<lparr>sv_selfGuard := False\<rparr>)"

definition Server_RequestClose :: "TcpServer \<Rightarrow> TcpServer" where
  "Server_RequestClose s =
     (if sv_closing s then s
      else
        let s1 = s\<lparr>sv_closing := True\<rparr>
        in if listening s1 \<and> sv_tcpInited s1 \<and> \<not> sv_tcpClosed s1 then close_listener s1 else Server_FinishClosed s1)"

definition Server_OnHandleClosed :: "TcpServer \<Rightarrow> TcpServer" where
  "Server_OnHandleClosed s = Server_FinishClosed (sv SvClosedCb s)"

definition OnConnection :: "server_env \<Rightarrow> int \<Rightarrow> TcpServer \<Rightarrow> TcpServer" where
  "OnConnection env status s =
     (let ce = client_env env in
      if sv_closing s \<or> sv_closed s then s
      else if status \<noteq> 0 then Server_FireError env (''accept: '' @ uv_strerror ce status) s
      else
        let r = sv_result env sv_uv_client_init s in
        if r \<noteq> 0 then Server_FireError env (''tcp init: '' @ uv_strerror ce r) (sv SvDropClient s)
        else
          let a = sv_result env sv_uv_accept s in
          if a \<noteq> 0 then Server_FireError env (''accept: '' @ uv_strerror ce a) (sv (SvRefused (accept_client ce a)) s)
          else if cppOnClient s then sv_call_out env (SvCppClient (accept_client ce 0)) s
          else sv_call_out env (SvSigClient (accept_client ce 0)) s)"

definition IsListening :: "TcpServer \<Rightarrow> bool" where
  "IsListening s \<longleftrightarrow> listening s \<and> \<not> sv_closing s \<and> \<not> sv_closed s"

datatype server_method = SListen "lvalue list" | SListenNative string nat | SClose | SShutdown

definition ServerMethods :: "server_env \<Rightarrow> server_method \<Rightarrow> TcpServer \<Rightarrow> tcp_result \<times> TcpServer" where
  "ServerMethods env call s =
     (case call of
        SListen args \<Rightarrow>
          if sv_shuttingDown s then (TcpRaised ''socket Server: runtime is shutting down'', s) else MethodListen env args s
      | SListenNative host port \<Rightarrow> (TcpReturned LNil, ListenNative env host port s)
      | SClose \<Rightarrow> (TcpReturned LNil, Server_RequestClose s)
      | SShutdown \<Rightarrow> (TcpReturned LNil, Server_RequestClose (s\<lparr>sv_shuttingDown := True\<rparr>)))"

section \<open>Steps\<close>

definition sv_count :: "server_effect \<Rightarrow> TcpServer \<Rightarrow> nat" where
  "sv_count e s = count_list (sv_trace s) e"

inductive server_reach :: "server_env \<Rightarrow> TcpServer \<Rightarrow> bool" for env where
  create: "server_reach env (TcpServer_new native bl)"
| call: "server_reach env s \<Longrightarrow> server_reach env (snd (ServerMethods env call s))"
| connection: "server_reach env s \<Longrightarrow> listening s \<Longrightarrow> server_reach env (OnConnection env status s)"
| handle_closed: "server_reach env s \<Longrightarrow> sv_count SvClosedCb s < sv_count SvClose s \<Longrightarrow> server_reach env (Server_OnHandleClosed s)"

primrec server_nested :: "nat \<Rightarrow> (server_effect \<Rightarrow> TcpServer \<Rightarrow> server_method list) \<Rightarrow> server_env \<Rightarrow> server_env" where
  "server_nested 0 script base = base\<lparr>sv_code := \<lambda>e s. s\<rparr>"
| "server_nested (Suc n) script base =
     base\<lparr>sv_code := \<lambda>e s. fold (\<lambda>call s. snd (ServerMethods (server_nested n script base) call s)) (script e s) s\<rparr>"

section \<open>Manager\<close>

text \<open>The two lists of \<open>TcpManager\<close>, with sockets given by their identities.\<close>

record TcpManager =
  clients :: "nat list"
  servers :: "nat list"

definition AddClient :: "nat \<Rightarrow> TcpManager \<Rightarrow> TcpManager" where
  "AddClient i m = m\<lparr>clients := clients m @ [i]\<rparr>"

definition AddServer :: "nat \<Rightarrow> TcpManager \<Rightarrow> TcpManager" where
  "AddServer i m = m\<lparr>servers := servers m @ [i]\<rparr>"

definition RemoveClient :: "nat \<Rightarrow> TcpManager \<Rightarrow> TcpManager" where
  "RemoveClient i m = m\<lparr>clients := remove1 i (clients m)\<rparr>"

definition RemoveServer :: "nat \<Rightarrow> TcpManager \<Rightarrow> TcpManager" where
  "RemoveServer i m = m\<lparr>servers := remove1 i (servers m)\<rparr>"

section \<open>Invariant\<close>

text \<open>The listener is closed once, the manager told once; a closed server does not listen, and a closing
  one waits for its close callback.\<close>

definition server_inv :: "TcpServer \<Rightarrow> bool" where
  "server_inv s \<longleftrightarrow>
     sv_count SvClose s = of_bool (sv_tcpClosed s) \<and> sv_count SvClosedCb s \<le> sv_count SvClose s \<and>
     sv_count MgrRemoveServer s = of_bool (sv_closed s) \<and> (sv_closed s \<longrightarrow> \<not> listening s \<and> \<not> sv_selfGuard s) \<and>
     (sv_count SvClosedCb s \<noteq> 0 \<longrightarrow> sv_closed s) \<and> (sv_closing s \<and> \<not> sv_closed s \<longrightarrow> sv_tcpClosed s) \<and>
     (listening s \<longrightarrow> sv_tcpInited s)"

lemma sv_fields [simp]:
  "sv_tcpInited (sv e s) = sv_tcpInited s" "sv_tcpClosed (sv e s) = sv_tcpClosed s" "listening (sv e s) = listening s"
  "sv_closing (sv e s) = sv_closing s" "sv_closed (sv e s) = sv_closed s" "backlog (sv e s) = backlog s"
  "sv_selfGuard (sv e s) = sv_selfGuard s" "sv_cppOnError (sv e s) = sv_cppOnError s" "sv_shuttingDown (sv e s) = sv_shuttingDown s"
  "sv_count f (sv e s) = sv_count f s + of_bool (e = f)"
  by (simp_all add: sv_def sv_count_def)

lemma sv_count_update [simp]:
  "sv_count e (s\<lparr>sv_tcpInited := b\<rparr>) = sv_count e s" "sv_count e (s\<lparr>sv_tcpClosed := b\<rparr>) = sv_count e s"
  "sv_count e (s\<lparr>listening := b\<rparr>) = sv_count e s" "sv_count e (s\<lparr>sv_closing := b\<rparr>) = sv_count e s"
  "sv_count e (s\<lparr>sv_closed := b\<rparr>) = sv_count e s" "sv_count e (s\<lparr>sv_local := a\<rparr>) = sv_count e s"
  "sv_count e (s\<lparr>sv_selfGuard := b\<rparr>) = sv_count e s" "sv_count e (s\<lparr>sv_shuttingDown := b\<rparr>) = sv_count e s"
  by (simp_all add: sv_count_def)

definition sv_plain :: "server_effect \<Rightarrow> bool" where
  "sv_plain e \<longleftrightarrow> e \<noteq> SvClose \<and> e \<noteq> SvClosedCb \<and> e \<noteq> MgrRemoveServer"

lemma server_inv_sv: "sv_plain e \<Longrightarrow> server_inv (sv e s) = server_inv s"
  by (auto simp: server_inv_def sv_plain_def)

lemma server_inv_update [simp]:
  "server_inv (s\<lparr>sv_local := a\<rparr>) = server_inv s" "server_inv (s\<lparr>sv_shuttingDown := b\<rparr>) = server_inv s"
  by (simp_all add: server_inv_def)

lemma server_inv_new: "server_inv (TcpServer_new native bl)"
  by (simp add: server_inv_def TcpServer_new_def sv_count_def)

lemma open_listener_inv: "server_inv s \<Longrightarrow> \<not> sv_closed s \<Longrightarrow> server_inv (snd (open_listener env host port s)) \<and>
    \<not> sv_closed (snd (open_listener env host port s))"
  by (auto simp: open_listener_def Let_def Server_UpdateAddresses_def server_inv_def split: sum.split option.split)

lemma open_listenerD: "open_listener env host port s = (r, s') \<Longrightarrow> server_inv s \<Longrightarrow> \<not> sv_closed s \<Longrightarrow> server_inv s'"
  using open_listener_inv [of s env host port] by simp

lemma close_listener_inv: "server_inv s \<Longrightarrow> \<not> sv_tcpClosed s \<Longrightarrow> server_inv (close_listener s)"
  by (auto simp: close_listener_def server_inv_def)

lemma MethodListen_inv: "server_inv s \<Longrightarrow> server_inv (snd (MethodListen env args s))"
  by (auto simp: MethodListen_def Let_def BindFail_def split: lvalue.split sum.split prod.split
      dest!: open_listenerD intro: close_listener_inv)

lemma Server_RequestClose_inv:
  assumes "server_inv s"
  shows "server_inv (Server_RequestClose s)"
proof (cases "sv_closing s")
  case False
  have "server_inv (s\<lparr>sv_closing := True, sv_tcpClosed := True, sv_trace := sv_trace s @ [SvClose]\<rparr>)" if "\<not> sv_tcpClosed s"
    using assms that by (auto simp: server_inv_def sv_count_def)
  moreover have "server_inv (Server_FinishClosed (s\<lparr>sv_closing := True\<rparr>))"
    using assms by (auto simp: Server_FinishClosed_def server_inv_def)
  ultimately show ?thesis using False by (simp add: Server_RequestClose_def Let_def close_listener_def sv_def)
qed (simp add: Server_RequestClose_def assms)

text \<open>The contract of the code that an error or a new client runs: it keeps the invariant.\<close>

locale server_callbacks =
  fixes env :: server_env
  assumes code_inv: "server_inv s \<Longrightarrow> server_inv (sv_code env e s)"
begin

lemma call_out_inv: "server_inv s \<Longrightarrow> sv_plain e \<Longrightarrow> server_inv (sv_call_out env e s)"
  by (simp add: sv_call_out_def code_inv server_inv_sv)

lemma FireError_inv: "server_inv s \<Longrightarrow> server_inv (Server_FireError env message s)"
  by (simp add: Server_FireError_def call_out_inv sv_plain_def)

lemma ListenNative_inv: "server_inv s \<Longrightarrow> server_inv (ListenNative env host port s)"
  by (auto simp: ListenNative_def Let_def BindFailNative_def sv_plain_def split: sum.split prod.split
      dest!: open_listenerD intro: call_out_inv close_listener_inv)

lemma ServerMethods_inv: "server_inv s \<Longrightarrow> server_inv (snd (ServerMethods env call s))"
  by (cases call) (simp_all add: ServerMethods_def MethodListen_inv ListenNative_inv Server_RequestClose_inv)

lemma performs_inv: "server_inv s \<Longrightarrow> server_inv (fold (\<lambda>call s. snd (ServerMethods env call s)) calls s)"
  by (induction calls arbitrary: s) (simp_all add: ServerMethods_inv)

lemma OnConnection_inv: "server_inv s \<Longrightarrow> server_inv (OnConnection env status s)"
  by (simp add: OnConnection_def Let_def FireError_inv call_out_inv server_inv_sv sv_plain_def)

lemma server_reach_inv: "server_reach env s \<Longrightarrow> server_inv s"
proof (induction rule: server_reach.induct)
  case (handle_closed s)
  then show ?case by (auto simp: Server_OnHandleClosed_def Server_FinishClosed_def server_inv_def)
qed (simp_all add: ServerMethods_inv OnConnection_inv server_inv_new)

end

lemma server_callbacks_nested: "server_callbacks (server_nested n script base)"
proof (induction n)
  case 0
  show ?case by unfold_locales simp
next
  case (Suc n)
  from server_callbacks.performs_inv [OF Suc] show ?case by unfold_locales simp
qed

interpretation acceptors: server_callbacks "server_nested n script base" for n script base
  by (rule server_callbacks_nested)

section \<open>Properties\<close>


definition server_demo :: server_env where
  "server_demo = server_nested 1 (\<lambda>e s. [SClose])
     \<lparr>sv_code = (\<lambda>e s. s), sv_result = (\<lambda>_ _. 0), sv_getsockname = (\<lambda>_. None), client_env = kind_uv\<rparr>"


text \<open>A second \<open>Listen\<close> after one that could not bind: the failed attempt has only started to close its
  handle, so the server still accepts the call and listens on a new one. The close callback of the old
  handle then marks the server closed and not listening, and nothing closes the handle that listens: it
  stays open, and \<open>Close\<close> does nothing.\<close>

theorem listen_retry_leaks:
  assumes "\<not> sv_closing s" "\<not> sv_closed s" "\<not> listening s" "\<not> sv_tcpClosed s"
    "\<And>d. sv_result env sv_uv_tcp_init d = 0" "\<And>n d. sv_result env (sv_uv_listen n) d = 0"
    "uv_ip4_addr (client_env env) ''0.0.0.0'' 80 = Inr a" "uv_ip4_addr (client_env env) ''0.0.0.0'' 81 = Inr b"
    "\<And>d. sv_result env (sv_uv_tcp_bind a) d = - 98" "\<And>d. sv_result env (sv_uv_tcp_bind b) d = 0"
  defines "retry \<equiv> snd (MethodListen env [LNil, LNumber (Finite 81)] (snd (MethodListen env [LNil, LNumber (Finite 80)] s)))"
  defines "final \<equiv> Server_RequestClose (Server_OnHandleClosed retry)"
  shows "IsListening retry \<and> sv_count SvTcpInit final = sv_count SvTcpInit s + 2 \<and> sv_count SvClose final = sv_count SvClose s + 1 \<and>
    sv_closed final \<and> \<not> IsListening (Server_OnHandleClosed retry)"
proof -
  have port: "Tcp_IsValidPort (Finite 80) True" "Tcp_IsValidPort (Finite 81) True" by (simp_all add: Tcp_IsValidPort_def is_integral_def)
  let ?f = "close_listener ((sv SvTcpInit s)\<lparr>sv_tcpInited := True\<rparr>)"
  have first: "snd (MethodListen env [LNil, LNumber (Finite 80)] s) = ?f"
    using assms(1-9) port by (simp add: MethodListen_def arg_def BindFail_def open_listener_def MakeSockAddr_def Let_def)
  have f: "\<not> sv_closing ?f" "\<not> sv_closed ?f" "\<not> listening ?f" "sv_tcpClosed ?f"
    "sv_count SvTcpInit ?f = sv_count SvTcpInit s + 1" "sv_count SvClose ?f = sv_count SvClose s + 1"
    using assms(1-3) by (simp_all add: close_listener_def)
  let ?g = "(sv SvTcpInit ?f)\<lparr>sv_tcpInited := True\<rparr>"
  have "retry = Server_UpdateAddresses env ((sv (SvListen (backlog ?f)) (sv (SvBind b) ?g))\<lparr>listening := True\<rparr>)"
    using assms(5,6,8,10) f port unfolding retry_def first
    by (simp add: MethodListen_def arg_def open_listener_def MakeSockAddr_def Let_def)
  then have r: "\<not> sv_closing retry" "\<not> sv_closed retry" "listening retry" "sv_tcpClosed retry"
    "sv_count SvTcpInit retry = sv_count SvTcpInit s + 2" "sv_count SvClose retry = sv_count SvClose s + 1"
    using f by (simp_all add: Server_UpdateAddresses_def split: option.split)
  then show ?thesis unfolding final_def
    by (simp add: IsListening_def Server_OnHandleClosed_def Server_FinishClosed_def Server_RequestClose_def Let_def)
qed

theorem listen_retry_leaks_witness:
  "let env = server_demo\<lparr>sv_result := (\<lambda>call d. if call = sv_uv_tcp_bind (''0.0.0.0'', 80) then - 98 else 0)\<rparr>;
       retry = snd (MethodListen env [LNil, LNumber (Finite 81)] (snd (MethodListen env [LNil, LNumber (Finite 80)] (TcpServer_new False 511))))
   in IsListening retry \<and> \<not> IsListening (Server_OnHandleClosed retry)"
  using listen_retry_leaks
    [of "TcpServer_new False 511" "server_demo\<lparr>sv_result := (\<lambda>call d. if call = sv_uv_tcp_bind (''0.0.0.0'', 80) then - 98 else 0)\<rparr>"
      "(''0.0.0.0'', 80)" "(''0.0.0.0'', 81)"]
  by (simp add: Let_def server_demo_def kind_uv_def TcpServer_new_def)

text \<open>\<open>Close\<close> after a \<open>Listen\<close> that could not bind: the server takes itself off the manager and drops its own
  reference at once, although the close callback of its handle, which lies inside the object, is still to come.\<close>

theorem close_after_bind_failure:
  fixes message :: string
  assumes "\<not> sv_closing s" "\<not> sv_closed s" "\<not> listening s" "sv_tcpInited s" "\<not> sv_tcpClosed s" "server_inv s"
  defines "s' \<equiv> Server_RequestClose (snd (BindFail message s))"
  shows "sv_closed s' \<and> \<not> sv_selfGuard s' \<and> sv_count SvClosedCb s' < sv_count SvClose s'"
  using assms(1-6) unfolding s'_def
  by (auto simp: BindFail_def close_listener_def Server_RequestClose_def Server_FinishClosed_def Let_def server_inv_def)

theorem close_after_bind_failure_witness:
  "let s' = Server_RequestClose (snd (BindFail ''bind'' ((TcpServer_new False 511)\<lparr>sv_tcpInited := True\<rparr>)))
   in sv_closed s' \<and> sv_count SvClosedCb s' < sv_count SvClose s'"
proof -
  have "server_inv ((TcpServer_new False 511)\<lparr>sv_tcpInited := True\<rparr>)" by (simp add: server_inv_def TcpServer_new_def sv_count_def)
  then show ?thesis
    using close_after_bind_failure [of "(TcpServer_new False 511)\<lparr>sv_tcpInited := True\<rparr>" "''bind''"]
    by (simp add: Let_def) (simp add: TcpServer_new_def)
qed

end
