(* ===== verification/Lode_Lockfile.thy ===== *)
theory Lode_Lockfile
  imports Lode_Manifest "HOL-Library.Multiset" "HOL-Library.Product_Lexorder"
begin

text \<open>
  The dependency graph and its lockfile, \<open>PackageGraph.hpp\<close> and \<open>PackageLockfile.cpp\<close>. \<open>std::sort\<close> may order
  equivalent elements in any way, so the three sorts are parameters of which only the standard's promise
  is assumed; the path functions of \<open>std::filesystem\<close>, the JSON printer and reader and the outcome of
  file operations are parameters too. A document is a \<^typ>\<open>json\<close> value.
\<close>

section \<open>The graph\<close>

datatype DependencySource = Root | StandardLibrary | Path | Git

datatype DependencyScope = Runtime | Development

record DependencyEdge =
  edge_alias :: string
  edge_source :: DependencySource
  requestedVersion :: string
  edge_sourceReference :: string
  target :: "nat option"
  scope :: DependencyScope

record PackageArtifact =
  platform :: string
  architecture :: string
  configuration :: string
  abi :: string
  release :: string
  asset :: string
  sha256 :: string

record PackageNode =
  pkg_name :: string
  pkg_version :: string
  pkg_root :: string
  pkg_source :: DependencySource
  sourceReference :: string
  resolvedCommit :: string
  artifacts :: "PackageArtifact list"
  dependencies :: "DependencyEdge list"

record DependencyGraph =
  g_root :: nat
  packages :: "PackageNode list"

record lock_env =
  weakly_canonical :: "string \<Rightarrow> string option"
  fs_relative :: "string \<Rightarrow> string \<Rightarrow> string option"
  is_absolute :: "string \<Rightarrow> bool"
  generic_string :: "string \<Rightarrow> string"
  sort_packages :: "(nat \<Rightarrow> nat \<Rightarrow> bool) \<Rightarrow> nat list \<Rightarrow> nat list"
  sort_artifacts :: "(PackageArtifact \<Rightarrow> PackageArtifact \<Rightarrow> bool) \<Rightarrow> PackageArtifact list \<Rightarrow> PackageArtifact list"
  sort_edges :: "(DependencyEdge \<Rightarrow> DependencyEdge \<Rightarrow> bool) \<Rightarrow> DependencyEdge list \<Rightarrow> DependencyEdge list"
  json_dump :: "json \<Rightarrow> string"
  json_parse :: "string \<Rightarrow> string + json"

section \<open>Order of packages\<close>

definition SourceName :: "DependencySource \<Rightarrow> string" where
  "SourceName src = (case src of Root \<Rightarrow> ''root'' | StandardLibrary \<Rightarrow> ''stdlib'' | Path \<Rightarrow> ''path'' | Git \<Rightarrow> ''git'')"

definition SourceRank :: "DependencySource \<Rightarrow> nat" where
  "SourceRank src = (case src of Root \<Rightarrow> 0 | StandardLibrary \<Rightarrow> 1 | Path \<Rightarrow> 2 | Git \<Rightarrow> 3)"

definition RelativePackageReference :: "lock_env \<Rightarrow> DependencyGraph \<Rightarrow> PackageNode \<Rightarrow> string" where
  "RelativePackageReference env graph package =
     (if pkg_source package \<noteq> Path then []
      else case weakly_canonical env (pkg_root (packages graph ! g_root graph)) of
        None \<Rightarrow> []
      | Some rootPath \<Rightarrow>
          (case fs_relative env (pkg_root package) rootPath of
             None \<Rightarrow> []
           | Some relative \<Rightarrow>
               if relative = [] \<or> relative = ''.'' \<or> is_absolute env relative then [] else generic_string env relative))"

definition PackageReference :: "lock_env \<Rightarrow> DependencyGraph \<Rightarrow> PackageNode \<Rightarrow> string" where
  "PackageReference env graph package =
     (if pkg_source package = Git then sourceReference package
      else if pkg_source package = Path then RelativePackageReference env graph package
      else [])"

definition PackageLess :: "lock_env \<Rightarrow> DependencyGraph \<Rightarrow> nat \<Rightarrow> nat \<Rightarrow> bool" where
  "PackageLess env graph left right =
     (let a = packages graph ! left; b = packages graph ! right;
          aReference = PackageReference env graph a; bReference = PackageReference env graph b
      in if SourceRank (pkg_source a) \<noteq> SourceRank (pkg_source b) then SourceRank (pkg_source a) < SourceRank (pkg_source b)
         else if pkg_name a \<noteq> pkg_name b then pkg_name a < pkg_name b
         else if pkg_version a \<noteq> pkg_version b then pkg_version a < pkg_version b
         else if aReference \<noteq> bReference then aReference < bReference
         else if resolvedCommit a \<noteq> resolvedCommit b then resolvedCommit a < resolvedCommit b
         else False)"

definition artifact_less :: "PackageArtifact \<Rightarrow> PackageArtifact \<Rightarrow> bool" where
  "artifact_less a b \<longleftrightarrow>
     [platform a, architecture a, configuration a, abi a, release a, asset a, sha256 a] <
     [platform b, architecture b, configuration b, abi b, release b, asset b, sha256 b]"

definition alias_less :: "DependencyEdge \<Rightarrow> DependencyEdge \<Rightarrow> bool" where
  "alias_less a b \<longleftrightarrow> edge_alias a < edge_alias b"

definition ordered :: "lock_env \<Rightarrow> DependencyGraph \<Rightarrow> nat list" where
  "ordered env graph =
     g_root graph # sort_packages env (PackageLess env graph) (filter (\<lambda>i. i \<noteq> g_root graph) [0..<length (packages graph)])"

definition remapped :: "nat list \<Rightarrow> nat \<Rightarrow> nat option" where
  "remapped order old = find_idx (\<lambda>i. i = old) order"

section \<open>The document\<close>

definition quoted :: "string \<Rightarrow> string" where
  "quoted s = CHR 0x27 # s @ [CHR 0x27]"

definition json_object :: "(string \<times> json) list \<Rightarrow> (string \<times> json) list" where
  "json_object kvs = fold (\<lambda>(k, v). obj_set k v) kvs []"

definition artifact_document :: "PackageArtifact \<Rightarrow> json" where
  "artifact_document a =
     (let doc = json_object [(''platform'', JString (platform a)), (''architecture'', JString (architecture a)), (''abi'', JString (abi a)),
            (''release'', JString (release a)), (''asset'', JString (asset a)), (''sha256'', JString (sha256 a))]
      in JObject (if configuration a \<noteq> [] then obj_set ''configuration'' (JString (configuration a)) doc else doc))"

text \<open>The errors and fields a package adds for its source.\<close>

definition source_fields :: "lock_env \<Rightarrow> DependencyGraph \<Rightarrow> PackageNode \<Rightarrow> string list \<times> (string \<times> json) list" where
  "source_fields env graph p =
     (case pkg_source p of
        Git \<Rightarrow>
          ((if sourceReference p = [] then [''Cannot write lode.lock: Git package '' @ quoted (pkg_name p) @ '' has no repository reference.''] else []) @
           (if resolvedCommit p = [] then [''Cannot write lode.lock: Git package '' @ quoted (pkg_name p) @ '' has no resolved commit.''] else []),
           (if sourceReference p \<noteq> [] then [(''reference'', JString (sourceReference p))] else []) @
           (if resolvedCommit p \<noteq> [] then [(''commit'', JString (resolvedCommit p))] else []))
      | Path \<Rightarrow>
          (let reference = RelativePackageReference env graph p in
           if reference = []
           then ([''Cannot write lode.lock: path package '' @ quoted (pkg_name p) @ '' has no project-relative source reference.''], [])
           else ([], [(''reference'', JString reference)]))
      | _ \<Rightarrow> ([], []))"

definition edge_document :: "DependencyEdge \<Rightarrow> nat \<Rightarrow> json" where
  "edge_document e newTarget =
     JObject (json_object [(''alias'', JString (edge_alias e)), (''requirement'', JString (requestedVersion e)), (''target'', JInt (int newTarget))])"

text \<open>The loop over the sorted dependencies: errors, then the two arrays.\<close>

fun add_dependencies :: "DependencyGraph \<Rightarrow> nat list \<Rightarrow> nat \<Rightarrow> DependencyEdge list \<Rightarrow> string list \<times> json list \<times> json list" where
  "add_dependencies graph order oldIndex [] = ([], [], [])"
| "add_dependencies graph order oldIndex (e # es) =
     (let (errs, deps, devs) = add_dependencies graph order oldIndex es in
      case target e of
        None \<Rightarrow>
          ((''Cannot write lode.lock: dependency '' @ quoted (edge_alias e) @ '' has unresolved '' @ SourceName (edge_source e) @ '' resolution.'') # errs, deps, devs)
      | Some t \<Rightarrow>
          (case remapped order t of
             None \<Rightarrow> ((''Cannot write lode.lock: dependency '' @ quoted (edge_alias e) @ '' points to an invalid graph node.'') # errs, deps, devs)
           | Some newTarget \<Rightarrow>
               if scope e = Development then
                 (if oldIndex \<noteq> g_root graph
                  then ((''Cannot write lode.lock: development dependency '' @ quoted (edge_alias e) @ '' belongs to a non-root package.'') # errs, deps, devs)
                  else (errs, deps, edge_document e newTarget # devs))
               else (errs, edge_document e newTarget # deps, devs)))"

definition package_document :: "lock_env \<Rightarrow> DependencyGraph \<Rightarrow> nat list \<Rightarrow> nat \<Rightarrow> string list \<times> json" where
  "package_document env graph order oldIndex =
     (let p = packages graph ! oldIndex;
          (srcErrs, srcFields) = source_fields env graph p;
          arts = map artifact_document (sort_artifacts env artifact_less (artifacts p));
          (depErrs, deps, devs) = add_dependencies graph order oldIndex (sort_edges env alias_less (dependencies p))
      in (srcErrs @ depErrs,
          JObject (json_object
            ([(''name'', JString (pkg_name p)), (''version'', JString (pkg_version p)), (''source'', JString (SourceName (pkg_source p)))] @
             srcFields @ (if artifacts p \<noteq> [] then [(''artifacts'', JArray arts)] else []) @
             [(''dependencies'', JArray deps)] @ (if devs \<noteq> [] then [(''devDependencies'', JArray devs)] else [])))))"

record LockfileResult =
  content :: string
  errors :: "string list"

definition IsValid :: "LockfileResult \<Rightarrow> bool" where
  "IsValid r \<longleftrightarrow> errors r = []"

definition lock_document :: "lock_env \<Rightarrow> DependencyGraph \<Rightarrow> json" where
  "lock_document env graph =
     JObject (json_object [(''lockfileVersion'', JInt 1), (''root'', JInt 0),
       (''packages'', JArray (map (\<lambda>i. snd (package_document env graph (ordered env graph) i)) (ordered env graph)))])"

definition BuildLockfile :: "lock_env \<Rightarrow> DependencyGraph \<Rightarrow> LockfileResult" where
  "BuildLockfile env graph =
     (if packages graph = []
      then \<lparr>content = [], errors = [''Cannot build lode.lock from an empty dependency graph.'']\<rparr>
      else if length (packages graph) \<le> g_root graph
      then \<lparr>content = [], errors = [''Cannot build lode.lock: the graph root index is invalid.'']\<rparr>
      else
        let errs = concat (map (\<lambda>i. fst (package_document env graph (ordered env graph) i)) (ordered env graph))
        in \<lparr>content = (if errs = [] then json_dump env (lock_document env graph) @ [CHR 0x0A] else []), errors = errs\<rparr>)"

section \<open>The graph snapshot\<close>

text \<open>\<open>SerializeDependencyGraph\<close>: the packages in their order, without their machine-specific root directories.\<close>

definition snapshot_edge :: "DependencyEdge \<Rightarrow> json" where
  "snapshot_edge e =
     JObject (json_object
       ([(''alias'', JString (edge_alias e)), (''source'', JString (SourceName (edge_source e))), (''version'', JString (requestedVersion e))] @
        (if edge_sourceReference e \<noteq> [] then [(''reference'', JString (edge_sourceReference e))] else []) @
        (case target e of Some t \<Rightarrow> [(''target'', JInt (int t))] | None \<Rightarrow> [])))"

definition snapshot_package :: "PackageNode \<Rightarrow> json" where
  "snapshot_package p =
     (let deps = map snapshot_edge (filter (\<lambda>e. scope e = Runtime) (dependencies p));
          devs = map snapshot_edge (filter (\<lambda>e. scope e = Development) (dependencies p))
      in JObject (json_object
           ([(''name'', JString (pkg_name p)), (''version'', JString (pkg_version p)), (''source'', JString (SourceName (pkg_source p))),
             (''dependencies'', JArray deps)] @
            (if pkg_source p = Git then [(''reference'', JString (sourceReference p)), (''commit'', JString (resolvedCommit p))] else []) @
            (if artifacts p \<noteq> [] then [(''artifacts'', JArray (map artifact_document (artifacts p)))] else []) @
            (if devs \<noteq> [] then [(''devDependencies'', JArray devs)] else []))))"

definition SerializeDependencyGraph :: "lock_env \<Rightarrow> DependencyGraph \<Rightarrow> string" where
  "SerializeDependencyGraph env g =
     json_dump env (JObject (json_object [(''root'', JInt (int (g_root g))), (''packages'', JArray (map snapshot_package (packages g)))])) @
     [CHR 0x0A]"

lemma snapshot_portable:
  "SerializeDependencyGraph env (g\<lparr>packages := map (\<lambda>p. p\<lparr>pkg_root := f p\<rparr>) (packages g)\<rparr>) = SerializeDependencyGraph env g"
proof -
  have "snapshot_package (p\<lparr>pkg_root := r\<rparr>) = snapshot_package p" for p r unfolding snapshot_package_def by simp
  then show ?thesis by (simp add: SerializeDependencyGraph_def comp_def)
qed

section \<open>Files\<close>

text \<open>The state of the file system, and the outcome of the operations of one call: the absolute path, the name of
  the temporary file, whether it opens and takes the text, and the error of the atomic replacement.\<close>

type_synonym files = "string \<rightharpoonup> string"

record write_outcome =
  absolute_path :: "string + string"
  timestamp :: nat
  open_ok :: bool
  write_ok :: bool
  replace_error :: "string option"

definition AddError :: "string \<Rightarrow> LockfileResult \<Rightarrow> LockfileResult" where
  "AddError message r = r\<lparr>errors := errors r @ [message]\<rparr>"

definition temporary_path :: "write_outcome \<Rightarrow> string \<Rightarrow> string" where
  "temporary_path out path = path @ ''.tmp-'' @ nat_string (timestamp out)"

text \<open>A write that fails may have left any prefix of the text in the temporary file, which is then removed.\<close>

definition WriteLockfile :: "lock_env \<Rightarrow> write_outcome \<Rightarrow> DependencyGraph \<Rightarrow> files \<Rightarrow> LockfileResult \<times> files" where
  "WriteLockfile env out graph fs =
     (let r = BuildLockfile env graph in
      if \<not> IsValid r then (r, fs)
      else case absolute_path out of
        Inl e \<Rightarrow> (AddError (''Cannot determine the lockfile path: '' @ e) r, fs)
      | Inr path \<Rightarrow>
          (let tmp = temporary_path out path in
           if \<not> open_ok out then (AddError (''Cannot open temporary lockfile for writing: '' @ tmp) r, fs)
           else if \<not> write_ok out then (AddError (''Failed to write temporary lockfile: '' @ tmp) r, fs(tmp := None))
           else
             let fs1 = fs(tmp \<mapsto> content r) in
             case replace_error out of
               Some e \<Rightarrow> (AddError (''Cannot replace lockfile '' @ quoted path @ '': '' @ e) r, fs1(tmp := None))
             | None \<Rightarrow> (r, fs1(tmp := None, path \<mapsto> content r))))"

definition ValidateLockfile :: "lock_env \<Rightarrow> string \<Rightarrow> DependencyGraph \<Rightarrow> files \<Rightarrow> LockfileResult" where
  "ValidateLockfile env path graph fs =
     (let expected = BuildLockfile env graph in
      if \<not> IsValid expected then expected
      else case fs path of
        None \<Rightarrow> AddError (''Cannot open lockfile: '' @ path) expected
      | Some text \<Rightarrow>
          (case (json_parse env text, json_parse env (content expected)) of
             (Inr actual, Inr expectedDocument) \<Rightarrow>
               if actual \<noteq> expectedDocument
               then AddError (''Lockfile does not match the current dependency graph: '' @ path) (expected\<lparr>content := []\<rparr>)
               else expected\<lparr>content := text\<rparr>
           | (Inl e, _) \<Rightarrow> AddError (''Failed to parse lockfile '' @ path @ '': '' @ e) (expected\<lparr>content := []\<rparr>)
           | (_, Inl e) \<Rightarrow> AddError (''Failed to parse lockfile '' @ path @ '': '' @ e) (expected\<lparr>content := []\<rparr>)))"

section \<open>Sorting\<close>

text \<open>What the standard promises of \<open>std::sort\<close> for a strict weak order: a permutation, with no element before a
  smaller one.\<close>

definition strict_weak :: "('a \<Rightarrow> 'a \<Rightarrow> bool) \<Rightarrow> bool" where
  "strict_weak lt \<longleftrightarrow>
     (\<forall>a. \<not> lt a a) \<and> (\<forall>a b c. lt a b \<longrightarrow> lt b c \<longrightarrow> lt a c) \<and>
     (\<forall>a b c. \<not> lt a b \<longrightarrow> \<not> lt b c \<longrightarrow> \<not> lt a c)"

definition std_sort :: "(('a \<Rightarrow> 'a \<Rightarrow> bool) \<Rightarrow> 'a list \<Rightarrow> 'a list) \<Rightarrow> bool" where
  "std_sort srt \<longleftrightarrow>
     (\<forall>lt xs. strict_weak lt \<longrightarrow> mset (srt lt xs) = mset xs \<and> sorted_wrt (\<lambda>a b. \<not> lt b a) (srt lt xs))"

text \<open>An executable sort with that promise.\<close>

fun insert_by :: "('a \<Rightarrow> 'a \<Rightarrow> bool) \<Rightarrow> 'a \<Rightarrow> 'a list \<Rightarrow> 'a list" where
  "insert_by lt x [] = [x]"
| "insert_by lt x (y # ys) = (if lt y x then y # insert_by lt x ys else x # y # ys)"

definition insertion_sort :: "('a \<Rightarrow> 'a \<Rightarrow> bool) \<Rightarrow> 'a list \<Rightarrow> 'a list" where
  "insertion_sort lt xs = foldr (insert_by lt) xs []"

lemma mset_insert_by [simp]: "mset (insert_by lt x xs) = add_mset x (mset xs)"
  by (induction xs) auto

lemma sorted_insert_by:
  assumes "strict_weak lt"
  shows "sorted_wrt (\<lambda>a b. \<not> lt b a) xs \<Longrightarrow> sorted_wrt (\<lambda>a b. \<not> lt b a) (insert_by lt x xs)"
proof (induction xs)
  case (Cons y ys)
  have set: "set (insert_by lt x ys) = insert x (set ys)" by (metis mset_insert_by set_mset_add_mset_insert set_mset_mset)
  have asym: "lt y x \<Longrightarrow> \<not> lt x y" and ntrans: "\<And>z. \<not> lt z y \<Longrightarrow> \<not> lt y x \<Longrightarrow> \<not> lt z x"
    using assms unfolding strict_weak_def by blast+
  show ?case
  proof (cases "lt y x")
    case True
    then show ?thesis using Cons asym by (simp add: set)
  next
    case False
    then show ?thesis using Cons.prems ntrans by auto
  qed
qed simp

lemma std_sort_insertion: "std_sort insertion_sort"
  unfolding std_sort_def
proof (intro allI impI conjI)
  fix lt :: "'a \<Rightarrow> 'a \<Rightarrow> bool" and xs
  show "mset (insertion_sort lt xs) = mset xs" unfolding insertion_sort_def by (induction xs) simp_all
  assume "strict_weak lt"
  then show "sorted_wrt (\<lambda>a b. \<not> lt b a) (insertion_sort lt xs)"
    unfolding insertion_sort_def by (induction xs) (simp_all add: sorted_insert_by)
qed

lemma strict_weak_key: "strict_weak (\<lambda>a b. (k a :: 'k::linorder) < k b)"
  unfolding strict_weak_def by (auto intro: less_trans)

lemma std_sort_key:
  assumes "std_sort srt"
  shows "mset (srt (\<lambda>a b. (k a :: 'k::linorder) < k b) xs) = mset xs"
    and "sorted (map k (srt (\<lambda>a b. k a < k b) xs))"
  using assms strict_weak_key [of k] unfolding std_sort_def by (auto simp: sorted_wrt_map not_less)

text \<open>Sorting commutes with a renaming that keeps the keys, when the keys tell the elements apart; the two sides may
  use different sorting functions.\<close>

lemma sort_transport:
  fixes k :: "'a \<Rightarrow> 'k::linorder" and k' :: "'b \<Rightarrow> 'k"
  assumes srt: "std_sort srt" "std_sort srt'" and ms: "mset ys = mset (map f xs)"
    and key: "\<And>x. x \<in> set xs \<Longrightarrow> k' (f x) = k x" and inj: "inj_on k' (set ys)"
  shows "srt' (\<lambda>a b. k' a < k' b) ys = map f (srt (\<lambda>a b. k a < k b) xs)" (is "?A = map f ?B")
proof -
  note A = std_sort_key [OF srt(2), of k' ys] and B = std_sort_key [OF srt(1), of k xs]
  have setA: "set ?A = set ys" and setB: "set ?B = set xs" using A(1) B(1) by (metis set_mset_mset)+
  have setf: "set (map f ?B) = set ys" using ms setB by (metis set_map set_mset_mset)
  have "map k' (map f ?B) = map k ?B" using setB key by simp
  then have "sorted (map k' (map f ?B))" using B(2) by (simp only:)
  moreover have "mset (map k' (map f ?B)) = mset (map k' ?A)"
  proof -
    have "mset (map f ?B) = mset ys" using B(1) ms by simp
    then show ?thesis using A(1) by (metis mset_map)
  qed
  ultimately have "map k' ?A = map k' (map f ?B)" using A(2) by (metis properties_for_sort)
  then show ?thesis using inj_on_map_eq_map [of k' ?A "map f ?B"] inj setA setf by simp
qed

section \<open>Keys of packages, artifacts and dependencies\<close>

definition pkg_key :: "lock_env \<Rightarrow> DependencyGraph \<Rightarrow> nat \<Rightarrow> nat \<times> string \<times> string \<times> string \<times> string" where
  "pkg_key env g i =
     (let p = packages g ! i
      in (SourceRank (pkg_source p), pkg_name p, pkg_version p, PackageReference env g p, resolvedCommit p))"

definition artifact_key :: "PackageArtifact \<Rightarrow> string list" where
  "artifact_key a = [platform a, architecture a, configuration a, abi a, release a, asset a, sha256 a]"

lemma PackageLess_key: "PackageLess env g = (\<lambda>i j. pkg_key env g i < pkg_key env g j)"
  unfolding PackageLess_def pkg_key_def Let_def by (intro ext) (auto simp: less_prod_def)

lemma artifact_less_key: "artifact_less = (\<lambda>a b. artifact_key a < artifact_key b)"
  by (intro ext) (simp add: artifact_less_def artifact_key_def)

lemma alias_less_key: "alias_less = (\<lambda>a b. edge_alias a < edge_alias b)"
  by (intro ext) (simp add: alias_less_def)

lemma inj_artifact_key: "inj artifact_key"
  by (rule injI) (simp add: artifact_key_def)

section \<open>Dependencies of a package\<close>

definition edge_ok :: "DependencyGraph \<Rightarrow> nat \<Rightarrow> DependencyEdge \<Rightarrow> bool" where
  "edge_ok g i e \<longleftrightarrow>
     (case target e of None \<Rightarrow> False | Some t \<Rightarrow> t < length (packages g)) \<and> (scope e = Development \<longrightarrow> i = g_root g)"

lemma remapped_Some: "remapped order old = Some k \<Longrightarrow> k < length order \<and> order ! k = old"
  unfolding remapped_def by (auto dest: find_idx_SomeD)

lemma remapped_member: "(\<exists>k. remapped order old = Some k) \<longleftrightarrow> old \<in> set order"
  unfolding remapped_def by (metis (mono_tags, lifting) find_idx_None not_None_eq)

lemma add_dependencies_valid:
  assumes "set order = {..<length (packages g)}"
  shows "fst (add_dependencies g order i es) = [] \<longleftrightarrow> (\<forall>e \<in> set es. edge_ok g i e)"
proof (induction es)
  case (Cons e es)
  obtain errs deps devs where r: "add_dependencies g order i es = (errs, deps, devs)" by (cases "add_dependencies g order i es")
  show ?case
  proof (cases "target e")
    case (Some t)
    have "remapped order t = None \<longleftrightarrow> \<not> t < length (packages g)"
      using remapped_member [of order t] unfolding assms lessThan_iff by (metis not_None_eq)
    then show ?thesis using Cons r Some by (cases "remapped order t") (auto simp: edge_ok_def)
  qed (use r in \<open>simp add: edge_ok_def\<close>)
qed simp

lemma add_dependencies_lists:
  assumes "set order = {..<length (packages g)}" "e \<in> set es" "edge_ok g i e" "add_dependencies g order i es = (errs, deps, devs)"
  shows "\<exists>t. t < length order \<and> target e = Some (order ! t) \<and> edge_document e t \<in> set (if scope e = Development then devs else deps)"
  using assms(2,4)
proof (induction es arbitrary: errs deps devs)
  case (Cons d es)
  obtain errs' deps' devs' where r: "add_dependencies g order i es = (errs', deps', devs')" by (cases "add_dependencies g order i es")
  have sub: "set deps' \<subseteq> set deps \<and> set devs' \<subseteq> set devs"
    using Cons.prems(2) r by (auto simp: Let_def split: option.splits if_splits)
  show ?case
  proof (cases "e = d")
    case True
    from assms(3) obtain t where t: "target e = Some t" "t \<in> set order" using assms(1) by (auto simp: edge_ok_def split: option.splits)
    then obtain k where k: "remapped order t = Some k" using remapped_member by blast
    with Cons.prems(2) r t(1) True assms(3) have "edge_document e k \<in> set (if scope e = Development then devs else deps)"
      by (auto simp: edge_ok_def split: if_splits)
    then show ?thesis using remapped_Some [OF k] t(1) by auto
  next
    case False
    then have "e \<in> set es" using Cons.prems(1) by simp
    from Cons.IH [OF this r] sub show ?thesis by (auto split: if_splits)
  qed
qed simp

text \<open>Reading a member of an object.\<close>

lemma obj_get_set: "obj_get (obj_set k v kvs) k' = (if k' = k then Some v else obj_get kvs k')"
  unfolding obj_get_def by (induction k v kvs rule: obj_set.induct) auto

definition json_field :: "json \<Rightarrow> string \<Rightarrow> json option" where
  "json_field doc k = (case doc of JObject kvs \<Rightarrow> obj_get kvs k | _ \<Rightarrow> None)"

lemma json_object_get: "obj_get (fold (\<lambda>(k, v). obj_set k v) kvs acc) k = (case map_of (rev kvs) k of Some v \<Rightarrow> Some v | None \<Rightarrow> obj_get acc k)"
  by (induction kvs arbitrary: acc) (auto simp: obj_get_set map_of_append split: option.split)

lemma json_field_object: "json_field (JObject (json_object kvs)) k = map_of (rev kvs) k"
  using json_object_get [of kvs "[]" k] by (auto simp: json_field_def json_object_def obj_get_def split: option.splits)

section \<open>The contract of the sorts\<close>

lemma root_split: "r < n \<Longrightarrow> add_mset r (mset (filter (\<lambda>i. i \<noteq> r) [0..<n])) = mset [0..<n]"
proof (induction n)
  case (Suc n)
  then show ?case by (cases "r = n") (auto simp: filter_id_conv)
qed simp

definition package_ok :: "lock_env \<Rightarrow> DependencyGraph \<Rightarrow> nat \<Rightarrow> bool" where
  "package_ok env g i \<longleftrightarrow>
     (let p = packages g ! i in
      (pkg_source p = Git \<longrightarrow> sourceReference p \<noteq> [] \<and> resolvedCommit p \<noteq> []) \<and>
      (pkg_source p = Path \<longrightarrow> RelativePackageReference env g p \<noteq> []) \<and> (\<forall>e \<in> set (dependencies p). edge_ok g i e))"

lemma source_fields_valid:
  "fst (source_fields env g p) = [] \<longleftrightarrow>
     (pkg_source p = Git \<longrightarrow> sourceReference p \<noteq> [] \<and> resolvedCommit p \<noteq> []) \<and>
     (pkg_source p = Path \<longrightarrow> RelativePackageReference env g p \<noteq> [])"
  by (cases "pkg_source p") (auto simp: source_fields_def Let_def)

lemma fst_package_document:
  "fst (package_document env g order i) =
     fst (source_fields env g (packages g ! i)) @
     fst (add_dependencies g order i (sort_edges env alias_less (dependencies (packages g ! i))))"
  by (simp add: package_document_def Let_def split: prod.split)

text \<open>The client of \<open>std::sort\<close>: what holds of the lockfile for every sort with the standard's promise.\<close>

locale lock_sorts =
  fixes env :: lock_env
  assumes sort_packages: "std_sort (sort_packages env)"
    and sort_artifacts: "std_sort (sort_artifacts env)"
    and sort_edges: "std_sort (sort_edges env)"
begin

lemma set_sort_edges [simp]: "set (sort_edges env alias_less es) = set es"
  unfolding alias_less_key using std_sort_key(1) [OF sort_edges, of edge_alias es] by (metis set_mset_mset)

lemma ordered_perm: "g_root g < length (packages g) \<Longrightarrow> mset (ordered env g) = mset [0..<length (packages g)]"
  unfolding ordered_def PackageLess_key
  using std_sort_key(1) [OF sort_packages, of "pkg_key env g"] root_split [of "g_root g"] by simp

lemma ordered_set: "g_root g < length (packages g) \<Longrightarrow> set (ordered env g) = {..<length (packages g)}"
  by (drule ordered_perm) (metis atLeast_upt set_mset_mset)

lemma valid_iff:
  "IsValid (BuildLockfile env g) \<longleftrightarrow>
     g_root g < length (packages g) \<and> (\<forall>i < length (packages g). package_ok env g i)"
proof (cases "g_root g < length (packages g)")
  case True
  have "IsValid (BuildLockfile env g) \<longleftrightarrow> (\<forall>i \<in> set (ordered env g). fst (package_document env g (ordered env g) i) = [])"
    using True by (auto simp: BuildLockfile_def IsValid_def Let_def)
  also have "\<dots> \<longleftrightarrow> (\<forall>i < length (packages g). package_ok env g i)"
    using ordered_set [OF True]
    by (simp add: fst_package_document source_fields_valid add_dependencies_valid package_ok_def Let_def lessThan_def)
  finally show ?thesis using True by simp
qed (auto simp: BuildLockfile_def IsValid_def)

lemma targets:
  assumes "IsValid (BuildLockfile env g)" "k < length (packages g)" "e \<in> set (dependencies (packages g ! (ordered env g ! k)))"
  shows "\<exists>t arr. t < length (packages g) \<and> target e = Some (ordered env g ! t) \<and> edge_document e t \<in> set arr \<and>
    json_field (snd (package_document env g (ordered env g) (ordered env g ! k)))
      (if scope e = Development then ''devDependencies'' else ''dependencies'') = Some (JArray arr)"
proof -
  let ?o = "ordered env g"
  let ?i = "?o ! k"
  from assms(1) have r: "g_root g < length (packages g)" and ok: "\<forall>i < length (packages g). package_ok env g i" by (simp_all add: valid_iff)
  note set = ordered_set [OF r]
  have len: "length ?o = length (packages g)" using ordered_perm [OF r] by (metis length_upt minus_nat.diff_0 size_mset)
  then have "?i < length (packages g)" using set assms(2) by (metis lessThan_iff nth_mem)
  then have eok: "edge_ok g ?i e" using ok assms(3) by (auto simp: package_ok_def Let_def)
  obtain errs deps devs where d: "add_dependencies g ?o ?i (sort_edges env alias_less (dependencies (packages g ! ?i))) = (errs, deps, devs)"
    by (metis prod.collapse)
  obtain serrs sf where s: "source_fields env g (packages g ! ?i) = (serrs, sf)" by fastforce
  from add_dependencies_lists [OF set _ eok d] assms(3) obtain t where
    t: "t < length (packages g)" "target e = Some (?o ! t)" "edge_document e t \<in> set (if scope e = Development then devs else deps)"
    using len by auto
  then have "json_field (snd (package_document env g ?o ?i)) (if scope e = Development then ''devDependencies'' else ''dependencies'') =
      Some (JArray (if scope e = Development then devs else deps))"
    by (auto simp: package_document_def Let_def d s json_field_object)
  with t show ?thesis by blast
qed

end

interpretation insertion: lock_sorts
  "env\<lparr>sort_packages := insertion_sort, sort_artifacts := insertion_sort, sort_edges := insertion_sort\<rparr>" for env
  by unfold_locales (simp_all add: std_sort_insertion)

section \<open>Renumbering the packages\<close>

definition relabel_edge :: "(nat \<Rightarrow> nat) \<Rightarrow> DependencyEdge \<Rightarrow> DependencyEdge" where
  "relabel_edge f e = e\<lparr>target := map_option f (target e)\<rparr>"

definition relabel :: "(nat \<Rightarrow> nat) \<Rightarrow> PackageNode \<Rightarrow> PackageNode" where
  "relabel f p = p\<lparr>dependencies := map (relabel_edge f) (dependencies p)\<rparr>"

text \<open>The same packages in another order.\<close>

definition renumbered :: "(nat \<Rightarrow> nat) \<Rightarrow> DependencyGraph \<Rightarrow> DependencyGraph \<Rightarrow> bool" where
  "renumbered f g g' \<longleftrightarrow>
     length (packages g') = length (packages g) \<and> inj_on f {..<length (packages g)} \<and>
     (\<forall>i. f i < length (packages g) \<longleftrightarrow> i < length (packages g)) \<and> g_root g' = f (g_root g) \<and>
     (\<forall>i < length (packages g). packages g' ! f i = relabel f (packages g ! i))"

text \<open>The keys of the order tell the packages apart, and the aliases of a package its dependencies.\<close>

definition distinguishable :: "lock_env \<Rightarrow> DependencyGraph \<Rightarrow> bool" where
  "distinguishable env g \<longleftrightarrow>
     inj_on (pkg_key env g) ({..<length (packages g)} - {g_root g}) \<and>
     (\<forall>p \<in> set (packages g). distinct (map edge_alias (dependencies p)))"

definition with_sorts :: "lock_env \<Rightarrow> lock_env \<Rightarrow> lock_env" where
  "with_sorts env srt = env\<lparr>sort_packages := sort_packages srt, sort_artifacts := sort_artifacts srt, sort_edges := sort_edges srt\<rparr>"

lemma relabel_simps [simp]:
  "pkg_name (relabel f p) = pkg_name p" "pkg_version (relabel f p) = pkg_version p" "pkg_root (relabel f p) = pkg_root p"
  "pkg_source (relabel f p) = pkg_source p" "sourceReference (relabel f p) = sourceReference p"
  "resolvedCommit (relabel f p) = resolvedCommit p" "artifacts (relabel f p) = artifacts p"
  "dependencies (relabel f p) = map (relabel_edge f) (dependencies p)"
  "edge_alias (relabel_edge f e) = edge_alias e" "scope (relabel_edge f e) = scope e" "edge_source (relabel_edge f e) = edge_source e"
  "target (relabel_edge f e) = map_option f (target e)" "edge_document (relabel_edge f e) k = edge_document e k"
  by (simp_all add: relabel_def relabel_edge_def edge_document_def)

lemma with_sorts_simps [simp]:
  "sort_packages (with_sorts env srt) = sort_packages srt" "sort_artifacts (with_sorts env srt) = sort_artifacts srt"
  "sort_edges (with_sorts env srt) = sort_edges srt" "json_dump (with_sorts env srt) = json_dump env"
  "weakly_canonical (with_sorts env srt) = weakly_canonical env" "fs_relative (with_sorts env srt) = fs_relative env"
  "is_absolute (with_sorts env srt) = is_absolute env" "generic_string (with_sorts env srt) = generic_string env"
  by (simp_all add: with_sorts_def)

lemma find_idx_map: "find_idx P (map f xs) = find_idx (\<lambda>x. P (f x)) xs"
  by (induction xs) auto

lemma find_idx_cong: "(\<And>x. x \<in> set xs \<Longrightarrow> P x = Q x) \<Longrightarrow> find_idx P xs = find_idx Q xs"
  by (induction xs) auto

definition renumbering :: "(nat \<Rightarrow> nat) \<Rightarrow> DependencyGraph \<Rightarrow> DependencyGraph \<Rightarrow> lock_env \<Rightarrow> lock_env \<Rightarrow> bool" where
  "renumbering f g g' env srt \<longleftrightarrow>
     renumbered f g g' \<and> g_root g < length (packages g) \<and> distinguishable env g \<and> lock_sorts env \<and> lock_sorts srt"

lemma renumbering_eq: "renumbering f g g' env srt \<Longrightarrow> i < length (packages g) \<Longrightarrow> f i = f j \<longleftrightarrow> i = j"
  unfolding renumbering_def renumbered_def by (metis inj_onD lessThan_iff)

lemma renumbering_node:
  "renumbering f g g' env srt \<Longrightarrow> i < length (packages g) \<Longrightarrow> packages g' ! f i = relabel f (packages g ! i)"
  by (simp add: renumbering_def renumbered_def)

lemma renumbering_reference:
  assumes "renumbering f g g' env srt"
  shows "RelativePackageReference (with_sorts env srt) g' (relabel f p) = RelativePackageReference env g p"
  using assms renumbering_node [OF assms, of "g_root g"]
  by (auto simp: RelativePackageReference_def renumbering_def renumbered_def split: option.split)

lemma renumbering_key:
  assumes "renumbering f g g' env srt" "i < length (packages g)"
  shows "pkg_key (with_sorts env srt) g' (f i) = pkg_key env g i"
  by (simp add: pkg_key_def renumbering_node [OF assms] PackageReference_def renumbering_reference [OF assms(1)] Let_def)

lemma renumbered_image:
  assumes "renumbered f g g'" "g_root g < length (packages g)"
  shows "f ` ({..<length (packages g)} - {g_root g}) = {..<length (packages g)} - {f (g_root g)}"
proof -
  have "f ` {..<length (packages g)} = {..<length (packages g)}"
    using assms by (intro endo_inj_surj) (auto simp: renumbered_def)
  then show ?thesis using assms by (subst inj_on_image_set_diff [of f "{..<length (packages g)}"]) (auto simp: renumbered_def)
qed

lemma renumbering_order:
  assumes R: "renumbering f g g' env srt"
  shows "ordered (with_sorts env srt) g' = map f (ordered env g)"
proof -
  let ?n = "length (packages g)" and ?env' = "with_sorts env srt"
  let ?xs = "filter (\<lambda>i. i \<noteq> g_root g) [0..<?n]" and ?ys = "filter (\<lambda>i. i \<noteq> f (g_root g)) [0..<?n]"
  from R have same: "renumbered f g g'" and root_ok: "g_root g < ?n" and keys: "distinguishable env g"
    and sorts: "lock_sorts env" "lock_sorts srt" by (simp_all add: renumbering_def)
  have sets: "set ?xs = {..<?n} - {g_root g}" "set ?ys = {..<?n} - {f (g_root g)}" by auto
  note image = renumbered_image [OF same root_ok]
  have "distinct (map f ?xs)" using same by (auto simp: distinct_map renumbered_def inj_on_def)
  moreover have "set (map f ?xs) = set ?ys" using image sets by simp
  ultimately have ms: "mset ?ys = mset (map f ?xs)" by (intro set_eq_iff_mset_eq_distinct [THEN iffD1]) simp_all
  have "inj_on (pkg_key ?env' g') (f ` set ?xs)"
  proof (rule inj_onI)
    fix a b
    assume "a \<in> f ` set ?xs" "b \<in> f ` set ?xs" and eq: "pkg_key ?env' g' a = pkg_key ?env' g' b"
    then obtain i j where ij: "a = f i" "b = f j" "i \<in> set ?xs" "j \<in> set ?xs" by blast
    then have "pkg_key env g i = pkg_key env g j" using eq renumbering_key [OF R] by simp
    then show "a = b" using keys ij unfolding distinguishable_def sets by (auto dest: inj_onD)
  qed
  then have inj: "inj_on (pkg_key ?env' g') (set ?ys)" using image sets by simp
  have "sort_packages ?env' (PackageLess ?env' g') ?ys = map f (sort_packages env (PackageLess env g) ?xs)"
    unfolding PackageLess_key
    by (rule sort_transport [OF _ _ ms _ inj]) (use renumbering_key [OF R] sorts in \<open>simp_all add: lock_sorts_def\<close>)
  then show ?thesis using same by (simp add: ordered_def renumbered_def)
qed

lemma renumbering_dependencies:
  assumes R: "renumbering f g g' env srt" and order: "set order \<subseteq> {..<length (packages g)}" and i: "i < length (packages g)"
  shows "add_dependencies g' (map f order) (f i) (map (relabel_edge f) es) = add_dependencies g order i es"
proof (induction es)
  case (Cons e es)
  have remap: "remapped (map f order) (f t) = remapped order t" for t
    unfolding remapped_def find_idx_map by (rule find_idx_cong) (use order renumbering_eq [OF R] in blast)
  have "f i = g_root g' \<longleftrightarrow> i = g_root g" using R renumbering_eq [OF R i] by (simp add: renumbering_def renumbered_def)
  then show ?case using Cons remap
    by (cases "target e") (simp_all add: Let_def split: option.split prod.split)
qed simp

lemma renumbering_sorts:
  assumes R: "renumbering f g g' env srt" and p: "p \<in> set (packages g)"
  shows "sort_edges srt alias_less (map (relabel_edge f) (dependencies p)) = map (relabel_edge f) (sort_edges env alias_less (dependencies p))"
    and "sort_artifacts srt artifact_less (artifacts p) = sort_artifacts env artifact_less (artifacts p)"
proof -
  have "inj_on edge_alias (set (dependencies p))" using R p by (simp add: renumbering_def distinguishable_def distinct_map)
  then have inj: "inj_on edge_alias (set (map (relabel_edge f) (dependencies p)))"
    unfolding inj_on_def set_map by (metis (no_types, lifting) imageE relabel_simps(9))
  show "sort_edges srt alias_less (map (relabel_edge f) (dependencies p)) = map (relabel_edge f) (sort_edges env alias_less (dependencies p))"
    unfolding alias_less_key by (rule sort_transport [OF _ _ _ _ inj]) (use R in \<open>simp_all add: renumbering_def lock_sorts_def\<close>)
  show "sort_artifacts srt artifact_less (artifacts p) = sort_artifacts env artifact_less (artifacts p)"
    unfolding artifact_less_key
    using sort_transport [of "sort_artifacts env" "sort_artifacts srt" "artifacts p" "\<lambda>a. a" "artifacts p" artifact_key artifact_key]
      R inj_on_subset [OF inj_artifact_key] by (simp add: renumbering_def lock_sorts_def)
qed

lemma renumbering_document:
  assumes R: "renumbering f g g' env srt" and i: "i < length (packages g)"
  shows "package_document (with_sorts env srt) g' (map f (ordered env g)) (f i) = package_document env g (ordered env g) i"
proof -
  have "packages g ! i \<in> set (packages g)" using i by simp
  note parts = renumbering_sorts [OF R this]
  have "set (ordered env g) \<subseteq> {..<length (packages g)}" using R lock_sorts.ordered_set [of env g] by (simp add: renumbering_def)
  note deps = renumbering_dependencies [OF R this i]
  have "source_fields (with_sorts env srt) g' (relabel f (packages g ! i)) = source_fields env g (packages g ! i)"
    by (cases "pkg_source (packages g ! i)") (simp_all add: source_fields_def renumbering_reference [OF R] Let_def)
  then show ?thesis by (simp add: package_document_def renumbering_node [OF R i] parts deps Let_def)
qed

lemma renumbering_result:
  assumes R: "renumbering f g g' env srt"
  shows "BuildLockfile (with_sorts env srt) g' = BuildLockfile env g"
proof -
  let ?env' = "with_sorts env srt"
  have in_range: "i \<in> set (ordered env g) \<Longrightarrow> i < length (packages g)" for i
    using R lock_sorts.ordered_set [of env g] by (simp add: renumbering_def)
  have len: "length (packages g') = length (packages g)" "g_root g' < length (packages g')" "packages g' \<noteq> []" "packages g \<noteq> []"
    "g_root g < length (packages g)"
    using R by (auto simp: renumbering_def renumbered_def)
  have docs: "map (package_document ?env' g' (ordered ?env' g')) (ordered ?env' g') = map (package_document env g (ordered env g)) (ordered env g)"
    unfolding renumbering_order [OF R] map_map by (rule map_cong) (use renumbering_document [OF R] in_range in auto)
  have "map (\<lambda>i. fst (package_document ?env' g' (ordered ?env' g') i)) (ordered ?env' g') =
      map (\<lambda>i. fst (package_document env g (ordered env g) i)) (ordered env g)"
    "map (\<lambda>i. snd (package_document ?env' g' (ordered ?env' g') i)) (ordered ?env' g') =
      map (\<lambda>i. snd (package_document env g (ordered env g) i)) (ordered env g)"
    using arg_cong [OF docs, of "map fst"] arg_cong [OF docs, of "map snd"] by (simp_all add: comp_def)
  then show ?thesis using len by (simp add: BuildLockfile_def lock_document_def Let_def)
qed

lemma renumbering_swap:
  assumes "length (packages g) = 2"
  shows "renumbered (\<lambda>i. if i = 0 then 1 else if i = 1 then 0 else i) g
    \<lparr>g_root = (if g_root g = 0 then 1 else if g_root g = 1 then 0 else g_root g),
     packages = map (relabel (\<lambda>i. if i = 0 then 1 else if i = 1 then 0 else i)) [packages g ! 1, packages g ! 0]\<rparr>"
  using assms by (auto simp: renumbered_def inj_on_def less_2_cases_iff)

section \<open>Properties\<close>

text \<open>A project with one dependency on the standard library, in both orders, and surroundings with an executable sort.\<close>

definition demo_graph :: DependencyGraph where
  "demo_graph = \<lparr>g_root = 0, packages =
     [\<lparr>pkg_name = ''app'', pkg_version = ''1.0'', pkg_root = ''/app'', pkg_source = Root, sourceReference = [], resolvedCommit = [], artifacts = [],
       dependencies = [\<lparr>edge_alias = ''json'', edge_source = StandardLibrary, requestedVersion = ''1'', edge_sourceReference = [], target = Some 1, scope = Runtime\<rparr>]\<rparr>,
      \<lparr>pkg_name = ''json'', pkg_version = ''1.2'', pkg_root = ''/json'', pkg_source = StandardLibrary, sourceReference = [], resolvedCommit = [],
       artifacts = [], dependencies = []\<rparr>]\<rparr>"

definition demo_env :: lock_env where
  "demo_env = \<lparr>weakly_canonical = Some, fs_relative = (\<lambda>p r. Some p), is_absolute = (\<lambda>_. False), generic_string = (\<lambda>s. s),
     sort_packages = insertion_sort, sort_artifacts = insertion_sort, sort_edges = insertion_sort,
     json_dump = (\<lambda>_. ''{}''), json_parse = (\<lambda>_. Inl [])\<rparr>"

lemma demo_sorts: "lock_sorts demo_env"
  by unfold_locales (simp_all add: demo_env_def std_sort_insertion)

lemma demo_valid: "IsValid (BuildLockfile demo_env demo_graph)"
  by (auto simp: lock_sorts.valid_iff [OF demo_sorts] demo_graph_def package_ok_def edge_ok_def less_Suc_eq)

lemma parser_irrelevant:
  "BuildLockfile (env\<lparr>json_parse := f\<rparr>) g = BuildLockfile env g \<and> lock_document (env\<lparr>json_parse := f\<rparr>) g = lock_document env g"
proof -
  have rel: "RelativePackageReference (env\<lparr>json_parse := f\<rparr>) = RelativePackageReference env"
    by (intro ext) (auto simp: RelativePackageReference_def split: option.split)
  have ref: "PackageReference (env\<lparr>json_parse := f\<rparr>) = PackageReference env" "source_fields (env\<lparr>json_parse := f\<rparr>) = source_fields env"
    unfolding PackageReference_def source_fields_def rel by simp_all
  have less: "PackageLess (env\<lparr>json_parse := f\<rparr>) = PackageLess env" unfolding PackageLess_def ref by simp
  have "ordered (env\<lparr>json_parse := f\<rparr>) = ordered env" "package_document (env\<lparr>json_parse := f\<rparr>) = package_document env"
    unfolding ordered_def package_document_def ref less by simp_all
  then show ?thesis by (simp add: BuildLockfile_def lock_document_def)
qed





text \<open>The lockfile keeps the graph: its packages are those of the graph, each once, the root first, and every
  dependency is listed under its package with the new index of the package it points to.\<close>

theorem lockfile_targets:
  assumes "lock_sorts env" "IsValid (BuildLockfile env g)"
  shows "mset (ordered env g) = mset [0..<length (packages g)] \<and> ordered env g ! 0 = g_root g \<and>
    (\<forall>k < length (packages g). \<forall>e \<in> set (dependencies (packages g ! (ordered env g ! k))).
      \<exists>t arr. t < length (packages g) \<and> target e = Some (ordered env g ! t) \<and> edge_document e t \<in> set arr \<and>
        json_field (snd (package_document env g (ordered env g) (ordered env g ! k)))
          (if scope e = Development then ''devDependencies'' else ''dependencies'') = Some (JArray arr))"
proof (intro conjI allI impI ballI)
  have r: "g_root g < length (packages g)" using lock_sorts.valid_iff [OF assms(1)] assms(2) by simp
  show "mset (ordered env g) = mset [0..<length (packages g)]" by (rule lock_sorts.ordered_perm [OF assms(1) r])
  show "ordered env g ! 0 = g_root g" by (simp add: ordered_def)
qed (rule lock_sorts.targets [OF assms])

theorem lockfile_targets_witness:
  "mset (ordered demo_env demo_graph) = mset [0..<2] \<and> ordered demo_env demo_graph ! 0 = 0"
proof -
  have "length (packages demo_graph) = 2" "g_root demo_graph = 0" by (simp_all add: demo_graph_def)
  then show ?thesis using lockfile_targets [OF demo_sorts demo_valid] by (simp del: mset_upt)
qed

text \<open>Writing is all or nothing: when \<open>WriteLockfile\<close> reports no error, the lockfile holds the new text and
  \<open>ValidateLockfile\<close> accepts it for the same graph; when it reports one, the lockfile is what it was.\<close>

theorem lockfile_write_atomic:
  assumes "absolute_path out = Inr path" "json_parse env (json_dump env (lock_document env g) @ [CHR 0x0A]) = Inr (lock_document env g)"
    "WriteLockfile env out g fs = (r, fs')"
  shows "(IsValid r \<longrightarrow> ValidateLockfile env path g fs' = r \<and> fs' path = Some (content (BuildLockfile env g))) \<and>
    (\<not> IsValid r \<longrightarrow> fs' path = fs path)"
proof -
  have tmp: "temporary_path out path \<noteq> path" by (simp add: temporary_path_def)
  show ?thesis
  proof (cases "IsValid (BuildLockfile env g)")
    case True
    then have parse: "json_parse env (content (BuildLockfile env g)) = Inr (lock_document env g)"
      using assms(2) by (auto simp: BuildLockfile_def IsValid_def Let_def split: if_splits)
    have bad: "\<not> IsValid (AddError m q)" for m q by (simp add: IsValid_def AddError_def)
    show ?thesis using assms(1,3) True tmp bad parse
      by (auto simp: WriteLockfile_def ValidateLockfile_def Let_def split: if_splits option.splits)
  next
    case False
    then show ?thesis using assms(3) by (simp add: WriteLockfile_def Let_def)
  qed
qed

theorem lockfile_write_atomic_witness:
  "let env = demo_env\<lparr>json_parse := (\<lambda>_. Inr (lock_document demo_env demo_graph))\<rparr>;
       out = \<lparr>absolute_path = Inr ''/app/lode.lock'', timestamp = 7, open_ok = True, write_ok = True, replace_error = None\<rparr>;
       (r, fs') = WriteLockfile env out demo_graph (\<lambda>_. None)
   in IsValid r \<and> ValidateLockfile env ''/app/lode.lock'' demo_graph fs' = r"
proof -
  let ?env = "demo_env\<lparr>json_parse := (\<lambda>_. Inr (lock_document demo_env demo_graph))\<rparr>"
  let ?out = "\<lparr>absolute_path = Inr ''/app/lode.lock'', timestamp = 7, open_ok = True, write_ok = True, replace_error = None\<rparr>"
  have build: "BuildLockfile ?env demo_graph = BuildLockfile demo_env demo_graph" by (simp add: parser_irrelevant)
  obtain r fs' where w: "WriteLockfile ?env ?out demo_graph (\<lambda>_. None) = (r, fs')" by fastforce
  moreover have "IsValid r" using w demo_valid by (auto simp: WriteLockfile_def build Let_def)
  ultimately show ?thesis
    using lockfile_write_atomic [of ?out "''/app/lode.lock''" ?env demo_graph] by (simp add: parser_irrelevant)
qed

end
