(* ===== verification/Lode_Cdef.thy ===== *)
theory Lode_Cdef
  imports Lode_Text "HOL-Library.AList"
begin

text \<open>
  The parser of C declarations of the ffi module (\<open>CdefParser.cpp\<close>, \<open>FfiTypes.hpp\<close>): tokens, types, aggregate
  layouts, parameter lists, typedefs and prototypes. The cursor is the line of the token before it and the tokens
  from it on. An exception is a value of \<open>cdef_error\<close>; reading past the last token is undefined behaviour and a
  constructor of its own. The macro \<open>_WIN32\<close> is the argument \<open>win\<close>. An \<open>unordered_map\<close> is an association
  list.
\<close>

section \<open>Data\<close>

datatype ArgClass = Arg_Bool | Arg_I8 | Arg_U8 | Arg_I16 | Arg_U16 | Arg_I32 | Arg_U32 | Arg_I64 | Arg_U64
  | Arg_Ptr | Arg_F32 | Arg_F64 | Arg_Struct

datatype RetKind = Ret_Void | Ret_Bool | Ret_I8 | Ret_U8 | Ret_I16 | Ret_U16 | Ret_I32 | Ret_U32 | Ret_I64 | Ret_U64
  | Ret_Ptr | Ret_F32 | Ret_F64 | Ret_Struct

datatype CallingConvention = Conv_Default | Conv_Cdecl | Conv_Stdcall

record Prototype =
  p_name :: string
  p_args :: "ArgClass list"
  p_argStructNames :: "string list"
  p_ret :: RetKind
  p_retStructName :: string
  p_convention :: CallingConvention

definition Prototype_new :: Prototype where
  "Prototype_new = \<lparr>p_name = [], p_args = [], p_argStructNames = [], p_ret = Ret_Void, p_retStructName = [], p_convention = Conv_Default\<rparr>"

record StructLayout =
  sl_name :: string
  sl_fields :: "ArgClass list"
  sl_fieldStructNames :: "string list"
  sl_fieldNames :: "string list"
  sl_fieldCounts :: "nat list"
  sl_isUnion :: bool

definition StructLayout_new :: StructLayout where
  "StructLayout_new = \<lparr>sl_name = [], sl_fields = [], sl_fieldStructNames = [], sl_fieldNames = [], sl_fieldCounts = [], sl_isUnion = False\<rparr>"

definition kMaxArity :: nat where
  "kMaxArity = 16"

text \<open>On a 64-bit platform. The switches have no case for \<open>Struct\<close>, which falls to the final \<open>return\<close>.\<close>

fun SizeOf :: "ArgClass \<Rightarrow> nat" where
  "SizeOf Arg_Bool = 1" | "SizeOf Arg_I8 = 1" | "SizeOf Arg_U8 = 1"
| "SizeOf Arg_I16 = 2" | "SizeOf Arg_U16 = 2"
| "SizeOf Arg_I32 = 4" | "SizeOf Arg_U32 = 4" | "SizeOf Arg_F32 = 4"
| "SizeOf Arg_I64 = 8" | "SizeOf Arg_U64 = 8" | "SizeOf Arg_F64 = 8"
| "SizeOf Arg_Ptr = 8" | "SizeOf Arg_Struct = 0"

fun AlignOf :: "ArgClass \<Rightarrow> nat" where
  "AlignOf Arg_Bool = 1" | "AlignOf Arg_I8 = 1" | "AlignOf Arg_U8 = 1"
| "AlignOf Arg_I16 = 2" | "AlignOf Arg_U16 = 2"
| "AlignOf Arg_I32 = 4" | "AlignOf Arg_U32 = 4" | "AlignOf Arg_F32 = 4"
| "AlignOf Arg_I64 = 8" | "AlignOf Arg_U64 = 8" | "AlignOf Arg_F64 = 8"
| "AlignOf Arg_Ptr = 8" | "AlignOf Arg_Struct = 1"

datatype cdef_error = Cdef_Error nat string | Cdef_OutOfRange | Cdef_Undefined

text \<open>\<open>throw std::runtime_error\<close>, with the line kept beside the message.\<close>

definition Fail :: "nat \<Rightarrow> string \<Rightarrow> cdef_error" where
  "Fail line message = Cdef_Error line (''ffi.cdef: line '' @ nat_string line @ '': '' @ message)"

definition quoted :: "string \<Rightarrow> string" where
  "quoted s = [CHR 0x27] @ s @ [CHR 0x27]"

definition andThen :: "'e + 'a \<Rightarrow> ('a \<Rightarrow> 'e + 'b) \<Rightarrow> 'e + 'b" where
  "andThen m f = (case m of Inl e \<Rightarrow> Inl e | Inr x \<Rightarrow> f x)"

section \<open>Tokens\<close>

record Token =
  t_text :: string
  t_line :: nat

definition is_word_char :: "char \<Rightarrow> bool" where
  "is_word_char c \<longleftrightarrow> is_alnum c \<or> c = CHR ''_''"

definition is_punctuation :: "char \<Rightarrow> bool" where
  "is_punctuation c \<longleftrightarrow> c \<in> set ''(),;*[]{}=+-<>|&~''"

text \<open>The body of a block comment: the line and what follows its end, or the line where the text ended.\<close>

fun skip_block_comment :: "nat \<Rightarrow> string \<Rightarrow> nat + nat \<times> string" where
  "skip_block_comment line (c # d # s) =
     (if c = CHR ''*'' \<and> d = CHR ''/'' then Inr (line, s)
      else skip_block_comment (if c = LF then Suc line else line) (d # s))"
| "skip_block_comment line _ = Inl line"

lemma skip_block_comment_length: "skip_block_comment line s = Inr (line', s') \<Longrightarrow> length s' < length s"
  by (induction line s rule: skip_block_comment.induct) (auto split: if_splits)

lemma length_dropWhile_less: "\<lbrakk>P c\<rbrakk> \<Longrightarrow> length (dropWhile P (c # s)) < Suc (length s)"
  by (simp add: le_imp_less_Suc length_dropWhile_le)

function (sequential) tokenize :: "nat \<Rightarrow> string \<Rightarrow> cdef_error + Token list" where
  "tokenize line [] = Inr []"
| "tokenize line (c # s) =
     (if c = LF then tokenize (Suc line) s
      else if is_space c then tokenize line s
      else if c = CHR ''/'' \<and> s \<noteq> [] \<and> hd s = CHR ''/'' then tokenize line (dropWhile (\<lambda>x. x \<noteq> LF) (c # s))
      else if c = CHR ''/'' \<and> s \<noteq> [] \<and> hd s = CHR ''*'' then
        (case skip_block_comment line (tl s) of
           Inl l \<Rightarrow> Inl (Fail l ''unterminated block comment'')
         | Inr (l, s') \<Rightarrow> tokenize l s')
      else if is_alpha c \<or> c = CHR ''_'' then
        map_sum id (Cons \<lparr>t_text = takeWhile is_word_char (c # s), t_line = line\<rparr>) (tokenize line (dropWhile is_word_char (c # s)))
      else if is_digit c then
        map_sum id (Cons \<lparr>t_text = takeWhile (\<lambda>x. is_alnum x \<or> x = CHR ''.'') (c # s), t_line = line\<rparr>)
          (tokenize line (dropWhile (\<lambda>x. is_alnum x \<or> x = CHR ''.'') (c # s)))
      else if is_punctuation c then map_sum id (Cons \<lparr>t_text = [c], t_line = line\<rparr>) (tokenize line s)
      else Inl (Fail line (''unexpected character '' @ quoted [c])))"
  by pat_completeness auto
termination
proof (relation "measure (\<lambda>(_, s). length s)", goal_cases)
  case (5 line c s b l s')
  then show ?case using skip_block_comment_length [of line "tl s" l s'] by (cases s) auto
qed (auto intro: length_dropWhile_less simp: is_word_char_def is_alnum_def length_dropWhile_le le_imp_less_Suc)

declare tokenize.simps(2) [simp del]

definition Tokenize :: "string \<Rightarrow> cdef_error + Token list" where
  "Tokenize src = tokenize 1 src"

definition base_type_words :: "string list" where
  "base_type_words = [''void'', ''bool'', ''_Bool'', ''char'', ''short'', ''int'', ''long'', ''float'', ''double'', ''signed'',
     ''unsigned'', ''const'', ''volatile'', ''restrict'', ''int8_t'', ''int16_t'', ''int32_t'', ''int64_t'', ''uint8_t'',
     ''uint16_t'', ''uint32_t'', ''uint64_t'', ''intptr_t'', ''uintptr_t'', ''size_t'', ''ssize_t'', ''ptrdiff_t'', ''wchar_t'',
     ''__int32'', ''__int64'']"

definition IsBaseTypeWord :: "string \<Rightarrow> bool" where
  "IsBaseTypeWord w \<longleftrightarrow> w \<in> set base_type_words"

definition Contains :: "string \<Rightarrow> string \<Rightarrow> bool" where
  "Contains value needle \<longleftrightarrow> find_sub needle value \<noteq> None"

definition IsCallingConvention :: "string \<Rightarrow> bool" where
  "IsCallingConvention token \<longleftrightarrow> token \<in> {''__cdecl'', ''__stdcall'', ''WINAPI'', ''APIENTRY'', ''CALLBACK''}"

definition IsUnsupportedCallingConvention :: "string \<Rightarrow> bool" where
  "IsUnsupportedCallingConvention token \<longleftrightarrow> token = ''__vectorcall''"

definition ParseConvention :: "Token \<Rightarrow> CallingConvention" where
  "ParseConvention token = (if t_text token = ''__cdecl'' then Conv_Cdecl else Conv_Stdcall)"

definition ValidateConvention :: "bool \<Rightarrow> Token \<Rightarrow> cdef_error + unit" where
  "ValidateConvention win token =
     (let named = ''calling convention '' @ quoted (t_text token) @ '' is not supported''
      in if IsUnsupportedCallingConvention (t_text token) then Inl (Fail (t_line token) named)
         else if \<not> win \<and> ParseConvention token = Conv_Stdcall then Inl (Fail (t_line token) (named @ '' on this architecture''))
         else Inr ())"

section \<open>The cursor\<close>

record Cursor =
  LastLine :: nat
  c_rest :: "Token list"

definition Eof :: "Cursor \<Rightarrow> bool" where
  "Eof cur \<longleftrightarrow> c_rest cur = []"

definition Next :: "Cursor \<Rightarrow> cdef_error + Token \<times> Cursor" where
  "Next cur =
     (case c_rest cur of
        [] \<Rightarrow> Inl (Fail (LastLine cur) ''unexpected end of declarations'')
      | t # ts \<Rightarrow> Inr (t, \<lparr>LastLine = t_line t, c_rest = ts\<rparr>))"

text \<open>\<open>!cur.Eof() && p(cur.Peek().text)\<close>, and \<open>cur.Eof() ? cur.LastLine() : cur.Peek().line\<close>.\<close>

definition peeks :: "(string \<Rightarrow> bool) \<Rightarrow> Cursor \<Rightarrow> bool" where
  "peeks P cur \<longleftrightarrow> (case c_rest cur of [] \<Rightarrow> False | t # _ \<Rightarrow> P (t_text t))"

definition here :: "Cursor \<Rightarrow> nat" where
  "here cur = (case c_rest cur of [] \<Rightarrow> LastLine cur | t # _ \<Rightarrow> t_line t)"

text \<open>\<open>if (cur.Eof() || cur.Next().text != s) Fail(...)\<close>, where the line is taken after the token.\<close>

definition expect :: "string \<Rightarrow> (Cursor \<Rightarrow> cdef_error) \<Rightarrow> Cursor \<Rightarrow> cdef_error + Cursor" where
  "expect s fail cur =
     (case c_rest cur of
        [] \<Rightarrow> Inl (fail cur)
      | t # ts \<Rightarrow> (let cur' = \<lparr>LastLine = t_line t, c_rest = ts\<rparr> in if t_text t = s then Inr cur' else Inl (fail cur')))"

fun skip_tokens :: "(string \<Rightarrow> bool) \<Rightarrow> nat \<Rightarrow> Token list \<Rightarrow> Cursor" where
  "skip_tokens P line [] = \<lparr>LastLine = line, c_rest = []\<rparr>"
| "skip_tokens P line (t # ts) = (if P (t_text t) then skip_tokens P (t_line t) ts else \<lparr>LastLine = line, c_rest = t # ts\<rparr>)"

definition skip_while :: "(string \<Rightarrow> bool) \<Rightarrow> Cursor \<Rightarrow> Cursor" where
  "skip_while P cur = skip_tokens P (LastLine cur) (c_rest cur)"

text \<open>\<open>while (depth != 0 && !cur.Eof())\<close> over nested brackets: the depth that is left and the cursor.\<close>

fun skip_nested :: "string \<Rightarrow> string \<Rightarrow> nat \<Rightarrow> nat \<Rightarrow> Token list \<Rightarrow> nat \<times> Cursor" where
  "skip_nested left right depth line [] = (depth, \<lparr>LastLine = line, c_rest = []\<rparr>)"
| "skip_nested left right depth line (t # ts) =
     (if depth = 0 then (0, \<lparr>LastLine = line, c_rest = t # ts\<rparr>)
      else skip_nested left right
             (if t_text t = left then Suc depth else if t_text t = right then depth - 1 else depth) (t_line t) ts)"

definition skip_balanced :: "string \<Rightarrow> string \<Rightarrow> (Cursor \<Rightarrow> cdef_error) \<Rightarrow> Cursor \<Rightarrow> cdef_error + Cursor" where
  "skip_balanced left right fail cur =
     (case skip_nested left right 1 (LastLine cur) (c_rest cur) of (depth, c) \<Rightarrow> if depth \<noteq> 0 then Inl (fail c) else Inr c)"

definition SkipEnumDefinition :: "Cursor \<Rightarrow> cdef_error + Cursor" where
  "SkipEnumDefinition cur =
     andThen (Next cur) (\<lambda>(_, c1).
     andThen (if peeks (\<lambda>w. w \<noteq> ''{'') c1 then map_sum id snd (Next c1) else Inr c1) (\<lambda>c2.
     if peeks (\<lambda>w. w = ''{'') c2 then
       andThen (Next c2) (\<lambda>(_, c3). skip_balanced ''{'' ''}'' (\<lambda>c4. Fail (LastLine c4) ''unterminated enum definition'') c3)
     else Inr c2))"

section \<open>Types\<close>

definition is_qualifier :: "string \<Rightarrow> bool" where
  "is_qualifier w \<longleftrightarrow> w = ''const'' \<or> w = ''volatile'' \<or> w = ''restrict''"

text \<open>The names in scope: typedefs, and the aggregates that are opaque or defined.\<close>

record cdef_scope =
  aliases :: "(string \<times> ArgClass) list"
  opaqueAggregateAliases :: "string set"
  definedAggregateAliases :: "string set"

definition is_alias :: "cdef_scope \<Rightarrow> string \<Rightarrow> bool" where
  "is_alias sc w \<longleftrightarrow> map_of (aliases sc) w \<noteq> None"

fun class_ret :: "ArgClass \<Rightarrow> RetKind option" where
  "class_ret Arg_Bool = Some Ret_Bool" | "class_ret Arg_I8 = Some Ret_I8" | "class_ret Arg_U8 = Some Ret_U8"
| "class_ret Arg_I16 = Some Ret_I16" | "class_ret Arg_U16 = Some Ret_U16" | "class_ret Arg_I32 = Some Ret_I32"
| "class_ret Arg_U32 = Some Ret_U32" | "class_ret Arg_I64 = Some Ret_I64" | "class_ret Arg_U64 = Some Ret_U64"
| "class_ret Arg_Ptr = Some Ret_Ptr" | "class_ret Arg_F32 = Some Ret_F32" | "class_ret Arg_F64 = Some Ret_F64"
| "class_ret Arg_Struct = None"

text \<open>The loop over the words of a type: it ends at a typedef name, or where no word of a type follows.\<close>

datatype type_scan = Scan_Alias Token ArgClass Cursor | Scan_Words "string list" Cursor

fun scan_words :: "cdef_scope \<Rightarrow> string list \<Rightarrow> nat \<Rightarrow> Token list \<Rightarrow> type_scan" where
  "scan_words sc ws line [] = Scan_Words ws \<lparr>LastLine = line, c_rest = []\<rparr>"
| "scan_words sc ws line (t # ts) =
     (case map_of (aliases sc) (t_text t) of
        Some cls \<Rightarrow> Scan_Alias t cls \<lparr>LastLine = t_line t, c_rest = ts\<rparr>
      | None \<Rightarrow>
          if IsBaseTypeWord (t_text t) then scan_words sc (ws @ [t_text t]) (t_line t) ts
          else Scan_Words ws \<lparr>LastLine = line, c_rest = t # ts\<rparr>)"

text \<open>\<open>base\<close>: the words with blanks between them.\<close>

fun join_words :: "string list \<Rightarrow> string" where
  "join_words [] = []"
| "join_words [w] = w"
| "join_words (w # ws) = w @ '' '' @ join_words ws"

definition integer_class :: "bool \<Rightarrow> string \<Rightarrow> ArgClass" where
  "integer_class win base =
     (let isUnsigned = (Contains base ''unsigned'' \<or>
            base \<in> {''uint8_t'', ''uint16_t'', ''uint32_t'', ''uint64_t'', ''uintptr_t'', ''size_t''});
          isBool = (base = ''bool'' \<or> base = ''_Bool'');
          isByte = (base = ''int8_t'' \<or> base = ''uint8_t'' \<or> Contains base ''char'' \<or> isBool);
          isShort = (base = ''int16_t'' \<or> base = ''uint16_t'' \<or> Contains base ''short'');
          isWide = (Contains base ''64'' \<or> Contains base ''long long'' \<or> (\<not> win \<and> Contains base ''long'') \<or>
            base \<in> {''size_t'', ''uintptr_t'', ''ssize_t'', ''ptrdiff_t''})
      in if isBool then Arg_Bool
         else if isByte then if isUnsigned then Arg_U8 else Arg_I8
         else if isShort then if isUnsigned then Arg_U16 else Arg_I16
         else if isWide then if isUnsigned then Arg_U64 else Arg_I64
         else if isUnsigned then Arg_U32 else Arg_I32)"

text \<open>A type is its class, the new value of \<open>retOut\<close>, the new value of \<open>*structName\<close> (empty before) and the cursor.\<close>

type_synonym parsed_type = "ArgClass \<times> RetKind \<times> string \<times> Cursor"

definition aggregate_type :: "Cursor \<Rightarrow> cdef_error + parsed_type" where
  "aggregate_type cur =
     andThen (Next cur) (\<lambda>(aggregate, c1).
     if Eof c1 \<or> peeks (\<lambda>w. w \<in> {''*'', '','', '')''}) c1 then Inl (Fail (here c1) (''expected '' @ t_text aggregate @ '' tag''))
     else andThen (Next c1) (\<lambda>(_, c2).
       let c3 = skip_while (\<lambda>w. w = ''*'') c2
       in if peeks (\<lambda>w. w = ''*'') c2 then Inr (Arg_Ptr, Ret_Ptr, [], c3)
          else Inl (Fail (here c3) (t_text aggregate @ '' values by value are not supported; use a pointer''))))"

definition enum_type :: "Cursor \<Rightarrow> cdef_error + parsed_type" where
  "enum_type cur =
     andThen (Next cur) (\<lambda>(_, c1).
     andThen (if peeks (\<lambda>w. w \<notin> {''*'', '','', '')'', ''[''}) c1 then map_sum id snd (Next c1) else Inr c1) (\<lambda>c2.
     Inr (Arg_I32, Ret_I32, [], c2)))"

definition alias_type :: "cdef_scope \<Rightarrow> RetKind \<Rightarrow> Token \<Rightarrow> ArgClass \<Rightarrow> Cursor \<Rightarrow> cdef_error + parsed_type" where
  "alias_type sc retOut aliasName cls cur =
     (let c1 = skip_while is_qualifier cur; pointerToAlias = peeks (\<lambda>w. w = ''*'') c1; c2 = skip_while (\<lambda>w. w = ''*'') c1
      in if t_text aliasName \<in> definedAggregateAliases sc \<and> \<not> pointerToAlias then Inr (Arg_Struct, retOut, t_text aliasName, c2)
         else if t_text aliasName \<in> opaqueAggregateAliases sc \<and> \<not> pointerToAlias then
           Inl (Fail (t_line aliasName) (''struct or union values by value are not supported; use '' @ quoted (t_text aliasName @ ''*'')))
         else if pointerToAlias then Inr (Arg_Ptr, Ret_Ptr, [], c2)
         else Inr (cls, (case class_ret cls of None \<Rightarrow> retOut | Some r \<Rightarrow> r), [], c2))"

definition word_type :: "bool \<Rightarrow> bool \<Rightarrow> string list \<Rightarrow> Cursor \<Rightarrow> cdef_error + parsed_type" where
  "word_type win allowVoid ws cur =
     (let pointer = peeks (\<lambda>w. w = ''*'') cur; c1 = skip_while (\<lambda>w. w = ''*'') cur; sawVoid = (''void'' \<in> set ws);
          cls = integer_class win (join_words ws)
      in if ws = [] then Inl (Fail (here c1) ''expected a type'')
         else if sawVoid \<and> \<not> allowVoid \<and> \<not> pointer then
           Inl (Fail (here c1) (quoted ''void'' @ '' is only valid as the sole return type''))
         else if pointer then Inr (Arg_Ptr, Ret_Ptr, [], c1)
         else if ''float'' \<in> set ws \<and> ''double'' \<notin> set ws then Inr (Arg_F32, Ret_F32, [], c1)
         else if ''double'' \<in> set ws then Inr (Arg_F64, Ret_F64, [], c1)
         else if sawVoid then Inr (Arg_I32, Ret_Void, [], c1)
         else Inr (cls, the (class_ret cls), [], c1))"

definition ParseType :: "bool \<Rightarrow> cdef_scope \<Rightarrow> RetKind \<Rightarrow> bool \<Rightarrow> Cursor \<Rightarrow> cdef_error + parsed_type" where
  "ParseType win sc retOut allowVoid cur =
     (let c1 = skip_while is_qualifier cur
      in if peeks (\<lambda>w. w = ''struct'' \<or> w = ''union'') c1 then aggregate_type c1
         else if peeks (\<lambda>w. w = ''enum'') c1 then enum_type c1
         else case scan_words sc [] (LastLine c1) (c_rest c1) of
                Scan_Alias t cls c2 \<Rightarrow> alias_type sc retOut t cls c2
              | Scan_Words ws c2 \<Rightarrow> word_type win allowVoid ws c2)"

section \<open>Progress of the type parser\<close>

lemma andThen_simps [simp]: "andThen (Inl e) f = Inl e" "andThen (Inr x) f = f x"
  by (simp_all add: andThen_def)

lemma andThen_Inr: "andThen m f = Inr y \<longleftrightarrow> (\<exists>x. m = Inr x \<and> f x = Inr y)"
  by (cases m) auto

lemma andThen_Inl: "andThen m f = Inl e \<longleftrightarrow> m = Inl e \<or> (\<exists>x. m = Inr x \<and> f x = Inl e)"
  by (cases m) auto

lemma map_sum_Inr: "map_sum f g m = Inr y \<longleftrightarrow> (\<exists>x. m = Inr x \<and> y = g x)"
  by (cases m) auto

lemma map_sum_id_Inl: "map_sum id g m = Inl e \<longleftrightarrow> m = Inl e"
  by (cases m) auto

abbreviation ahead :: "Cursor \<Rightarrow> nat" where
  "ahead cur \<equiv> length (c_rest cur)"

lemma Next_ahead: "Next cur = Inr (t, cur') \<Longrightarrow> ahead cur = Suc (ahead cur')"
  by (auto simp: Next_def split: list.splits)

lemma expect_ahead: "expect s fail cur = Inr cur' \<Longrightarrow> ahead cur = Suc (ahead cur')"
  by (auto simp: expect_def Let_def split: list.splits if_splits)

lemma skip_tokens_ahead: "ahead (skip_tokens P line ts) \<le> length ts"
  by (induction P line ts rule: skip_tokens.induct) auto

lemma skip_while_ahead: "ahead (skip_while P cur) \<le> ahead cur"
  by (simp add: skip_while_def skip_tokens_ahead)

lemma skip_nested_ahead: "skip_nested left right depth line ts = (d, cur) \<Longrightarrow> ahead cur \<le> length ts"
  by (induction left right depth line ts rule: skip_nested.induct) (auto split: if_splits)

lemma skip_balanced_ahead: "skip_balanced left right fail cur = Inr cur' \<Longrightarrow> ahead cur' \<le> ahead cur"
  by (auto simp: skip_balanced_def split: prod.splits if_splits dest: skip_nested_ahead)

lemma scan_words_ahead:
  "scan_words sc ws line ts = Scan_Alias t cls cur \<Longrightarrow> ahead cur < length ts"
  "scan_words sc ws line ts = Scan_Words ws' cur \<Longrightarrow> ahead cur \<le> length ts \<and> (ws = [] \<longrightarrow> ws' \<noteq> [] \<longrightarrow> ahead cur < length ts)"
proof (induction sc ws line ts rule: scan_words.induct)
  case (2 sc ws line t ts)
  { case 1 then show ?case using 2(1) by (auto split: option.splits if_splits) }
  { case 2 then show ?case using "2.IH"(2) by (auto split: option.splits if_splits) }
qed auto

lemma aggregate_type_ahead: "aggregate_type cur = Inr (cls, r, n, cur') \<Longrightarrow> ahead cur' < ahead cur"
  using skip_while_ahead [of "\<lambda>w. w = ''*''"]
  by (fastforce simp: aggregate_type_def andThen_Inr Let_def dest!: Next_ahead split: if_splits intro: le_imp_less_Suc le_SucI)

lemma enum_type_ahead: "enum_type cur = Inr (cls, r, n, cur') \<Longrightarrow> ahead cur' < ahead cur"
  by (auto simp: enum_type_def andThen_Inr map_sum_Inr dest!: Next_ahead split: if_splits)

lemma alias_type_ahead: "alias_type sc retOut t c cur = Inr (cls, r, n, cur') \<Longrightarrow> ahead cur' \<le> ahead cur"
  using skip_while_ahead [of "\<lambda>w. w = ''*''" "skip_while is_qualifier cur"] skip_while_ahead [of is_qualifier cur]
  by (auto simp: alias_type_def Let_def split: if_splits)

lemma word_type_ahead: "word_type win allowVoid ws cur = Inr (cls, r, n, cur') \<Longrightarrow> ahead cur' \<le> ahead cur \<and> ws \<noteq> []"
  using skip_while_ahead [of "\<lambda>w. w = ''*''" cur] by (auto simp: word_type_def Let_def split: if_splits)

lemma ParseType_ahead:
  assumes "ParseType win sc retOut allowVoid cur = Inr (cls, r, n, cur')"
  shows "ahead cur' < ahead cur"
proof -
  let ?c = "skip_while is_qualifier cur"
  have "ahead cur' < ahead ?c" using assms
    by (auto simp: ParseType_def Let_def split: if_splits type_scan.splits
        dest!: aggregate_type_ahead enum_type_ahead alias_type_ahead word_type_ahead scan_words_ahead)
  then show ?thesis using skip_while_ahead [of is_qualifier cur] by simp
qed

section \<open>Parameters\<close>

text \<open>After \<open>(\<close> of \<open>( *name )( ... )\<close>: the line of the opening parenthesis is \<open>callbackLine\<close>.\<close>

definition callback_parameter :: "Cursor \<Rightarrow> cdef_error + Cursor" where
  "callback_parameter cur =
     andThen (Next cur) (\<lambda>(t, c1). let callbackLine = t_line t in
     andThen (expect ''*'' (\<lambda>_. Fail callbackLine (''expected '' @ quoted ''*'' @ '' in function pointer parameter'')) c1) (\<lambda>c2.
     andThen (if peeks (\<lambda>w. w \<noteq> '')'') c2 then map_sum id snd (Next c2) else Inr c2) (\<lambda>c3.
     andThen (expect '')'' (\<lambda>_. Fail callbackLine ''malformed function pointer parameter'') c3) (\<lambda>c4.
     andThen (expect ''('' (\<lambda>_. Fail callbackLine ''malformed function pointer parameter'') c4) (\<lambda>c5.
     skip_balanced ''('' '')'' (\<lambda>_. Fail callbackLine ''unterminated function pointer parameter'') c5)))))"

definition array_parameter :: "Cursor \<Rightarrow> cdef_error + Cursor" where
  "array_parameter cur =
     andThen (Next cur) (\<lambda>(t, c1).
     if Eof c1 \<or> peeks (\<lambda>w. w = '']'') c1 then Inl (Fail (t_line t) ''array parameter requires a fixed size'')
     else andThen (Next c1) (\<lambda>(extent, c2).
       if t_text extent = [] \<or> \<not> is_digit (hd (t_text extent))
       then Inl (Fail (t_line extent) ''array parameter size must be an integer literal'')
       else expect '']'' (\<lambda>_. Fail (t_line extent) (''expected '' @ quoted '']'' @ '' after array parameter size'')) c2))"

text \<open>The optional name of a parameter or its callback declarator, an array suffix, and what ends the parameter: a comma, or the list.\<close>

definition parameter_name :: "ArgClass \<Rightarrow> Cursor \<Rightarrow> cdef_error + ArgClass \<times> Cursor" where
  "parameter_name cls cur =
     (if peeks (\<lambda>w. w = ''('') cur then map_sum id (Pair Arg_Ptr) (callback_parameter cur)
      else if peeks (\<lambda>w. w \<notin> {'','', '')'', ''*''} \<and> \<not> IsBaseTypeWord w) cur then map_sum id (\<lambda>(_, c). (cls, c)) (Next cur)
      else Inr (cls, cur))"

definition parameter_array :: "ArgClass \<Rightarrow> Cursor \<Rightarrow> cdef_error + ArgClass \<times> Cursor" where
  "parameter_array cls cur = (if peeks (\<lambda>w. w = ''['') cur then map_sum id (Pair Arg_Ptr) (array_parameter cur) else Inr (cls, cur))"

definition parameter_end :: "Cursor \<Rightarrow> cdef_error + bool \<times> Cursor" where
  "parameter_end cur =
     (if Eof cur then Inl (Fail (LastLine cur) (''expected '' @ quoted '')'' @ '' in parameter list''))
      else andThen (Next cur) (\<lambda>(separator, c1).
        if t_text separator = '')'' then Inr (False, c1)
        else if t_text separator \<noteq> '','' then
          Inl (Fail (t_line separator) (''expected '' @ quoted '','' @ '' or '' @ quoted '')'' @ '' in parameter list''))
        else Inr (True, c1)))"

text \<open>
  One round of the loop over parameters, which the source has twice. \<open>outer\<close> is the copy of \<open>ParseCdef\<close>, which takes the
  line of a misplaced \<open>void\<close> from the next token although there may be none. The flag of the result tells that a comma
  followed.
\<close>

definition parameter :: "bool \<Rightarrow> bool \<Rightarrow> cdef_scope \<Rightarrow> bool \<Rightarrow> Cursor \<Rightarrow> cdef_error + ArgClass \<times> string \<times> bool \<times> Cursor" where
  "parameter outer win sc first cur =
     andThen (ParseType win sc Ret_I32 first cur) (\<lambda>(cls, unused, structName, c1).
     if cls = Arg_I32 \<and> unused = Ret_Void then
       Inl (if outer \<and> Eof c1 then Cdef_Undefined else Fail (here c1) (quoted ''void'' @ '' is not a valid parameter type''))
     else
       andThen (parameter_name cls c1) (\<lambda>(cls2, c2).
       andThen (parameter_array cls2 c2) (\<lambda>(cls3, c3).
       map_sum id (\<lambda>(comma, c4). (cls3, structName, comma, c4)) (parameter_end c3))))"

lemma callback_parameter_ahead: "callback_parameter cur = Inr cur' \<Longrightarrow> ahead cur' < ahead cur"
  by (auto simp: callback_parameter_def andThen_Inr map_sum_Inr Let_def split: if_splits
      dest!: Next_ahead expect_ahead skip_balanced_ahead)

lemma array_parameter_ahead: "array_parameter cur = Inr cur' \<Longrightarrow> ahead cur' < ahead cur"
  by (auto simp: array_parameter_def andThen_Inr split: if_splits dest!: Next_ahead expect_ahead)

lemma parameter_name_ahead: "parameter_name cls cur = Inr (cls', cur') \<Longrightarrow> ahead cur' \<le> ahead cur"
  by (auto simp: parameter_name_def map_sum_Inr split: if_splits dest!: callback_parameter_ahead Next_ahead)

lemma parameter_array_ahead: "parameter_array cls cur = Inr (cls', cur') \<Longrightarrow> ahead cur' \<le> ahead cur"
  by (auto simp: parameter_array_def map_sum_Inr split: if_splits dest!: array_parameter_ahead)

lemma parameter_end_ahead: "parameter_end cur = Inr (comma, cur') \<Longrightarrow> ahead cur' < ahead cur"
  by (auto simp: parameter_end_def andThen_Inr split: if_splits dest!: Next_ahead)

lemma parameter_ahead:
  assumes "parameter outer win sc first cur = Inr (cls, n, comma, cur')"
  shows "ahead cur' < ahead cur"
  using assms
  by (fastforce simp: parameter_def andThen_Inr map_sum_Inr split: if_splits
      dest!: ParseType_ahead parameter_name_ahead parameter_array_ahead parameter_end_ahead)

function parameter_loop ::
  "bool \<Rightarrow> bool \<Rightarrow> cdef_scope \<Rightarrow> bool \<Rightarrow> Cursor \<Rightarrow> cdef_error + (ArgClass \<times> string) list \<times> Cursor" where
  "parameter_loop outer win sc first cur =
     (case parameter outer win sc first cur of
        Inl e \<Rightarrow> Inl e
      | Inr (cls, structName, comma, c1) \<Rightarrow>
          if comma then map_sum id (\<lambda>(ps, c2). ((cls, structName) # ps, c2)) (parameter_loop outer win sc False c1)
          else Inr ([(cls, structName)], c1))"
  by pat_completeness auto
termination
  by (relation "measure (\<lambda>(_, _, _, _, cur). ahead cur)") (auto dest: parameter_ahead)

declare parameter_loop.simps [simp del]

definition too_many :: "nat \<Rightarrow> string" where
  "too_many n = ''too many parameters ('' @ nat_string n @ ''); maximum supported arity is '' @ nat_string kMaxArity"

text \<open>\<open>(void)\<close>, and the lists that \<open>ParseFunctionParameters\<close> adds to an empty prototype.\<close>

definition is_void_list :: "Cursor \<Rightarrow> bool" where
  "is_void_list cur \<longleftrightarrow>
     (case c_rest cur of t # u # _ \<Rightarrow> t_text t = ''void'' \<and> t_text u = '')'' | _ \<Rightarrow> False)"

definition skip_two :: "Cursor \<Rightarrow> cdef_error + Cursor" where
  "skip_two cur = andThen (Next cur) (\<lambda>(_, c1). map_sum id snd (Next c1))"

definition ParseFunctionParameters :: "bool \<Rightarrow> cdef_scope \<Rightarrow> Prototype \<Rightarrow> Cursor \<Rightarrow> cdef_error + Prototype \<times> Cursor" where
  "ParseFunctionParameters win sc prototype cur =
     (if is_void_list cur then map_sum id (Pair prototype) (skip_two cur)
      else if Eof cur then Inr (prototype, cur)
      else if peeks (\<lambda>w. w = '')'') cur then map_sum id (\<lambda>(_, c). (prototype, c)) (Next cur)
      else andThen (parameter_loop False win sc True cur) (\<lambda>(ps, c1).
        let p = prototype\<lparr>p_args := p_args prototype @ map fst ps, p_argStructNames := p_argStructNames prototype @ map snd ps\<rparr>
        in if length (p_args p) > kMaxArity then Inl (Fail (LastLine c1) (too_many (length (p_args p)))) else Inr (p, c1)))"

lemma parameter_loop_ahead: "parameter_loop outer win sc first cur = Inr (ps, cur') \<Longrightarrow> ahead cur' < ahead cur"
proof (induction outer win sc first cur arbitrary: ps rule: parameter_loop.induct)
  case (1 outer win sc first cur)
  then show ?case
    by (subst (asm) (2) parameter_loop.simps)
      (fastforce split: sum.splits if_splits prod.splits simp: map_sum_Inr dest: parameter_ahead)
qed

lemma skip_two_ahead: "skip_two cur = Inr cur' \<Longrightarrow> ahead cur' < ahead cur"
  by (auto simp: skip_two_def andThen_Inr map_sum_Inr dest!: Next_ahead)

lemma ParseFunctionParameters_ahead: "ParseFunctionParameters win sc p cur = Inr (p', cur') \<Longrightarrow> ahead cur' \<le> ahead cur"
  by (auto simp: ParseFunctionParameters_def andThen_Inr map_sum_Inr Let_def split: if_splits
      dest!: Next_ahead parameter_loop_ahead skip_two_ahead)

section \<open>Aggregates\<close>

text \<open>A convention marker between the type and the name, as it stands in fields and prototypes.\<close>

definition optional_convention :: "bool \<Rightarrow> Cursor \<Rightarrow> cdef_error + CallingConvention \<times> Cursor" where
  "optional_convention win cur =
     (if peeks (\<lambda>w. IsCallingConvention w \<or> IsUnsupportedCallingConvention w) cur
      then andThen (Next cur) (\<lambda>(convention, c1). map_sum id (\<lambda>_. (ParseConvention convention, c1)) (ValidateConvention win convention))
      else Inr (Conv_Default, cur))"

text \<open>\<open>R (*field)(Args)\<close>: the name and the cursor behind the parameters.\<close>

definition callback_field :: "bool \<Rightarrow> cdef_scope \<Rightarrow> Cursor \<Rightarrow> cdef_error + string \<times> Cursor" where
  "callback_field win sc cur =
     andThen (Next cur) (\<lambda>(t, c1). let callbackLine = t_line t in
     andThen (expect ''*'' (\<lambda>_. Fail callbackLine (''expected '' @ quoted ''*'' @ '' in function-pointer field'')) c1) (\<lambda>c2.
     if Eof c2 \<or> peeks (\<lambda>w. w = '')'') c2 then Inl (Fail callbackLine ''expected function-pointer field name'')
     else
       andThen (Next c2) (\<lambda>(name, c3).
       andThen (expect '')'' (\<lambda>_. Fail callbackLine ''malformed function-pointer field'') c3) (\<lambda>c4.
       andThen (expect ''('' (\<lambda>_. Fail callbackLine ''malformed function-pointer field'') c4) (\<lambda>c5.
       map_sum id (\<lambda>(_, c6). (t_text name, c6)) (ParseFunctionParameters win sc Prototype_new c5))))))"

definition array_extent :: "Token \<Rightarrow> cdef_error + nat" where
  "array_extent extent =
     (if t_text extent = [] \<or> \<not> is_digit (hd (t_text extent))
      then Inl (Fail (t_line extent) ''struct array size must be an integer literal'')
      else case stoull 10 (t_text extent) of
             None \<Rightarrow> Inl Cdef_OutOfRange
           | Some count \<Rightarrow> if count = 0 then Inl (Fail (t_line extent) ''struct array size must not be zero'') else Inr count)"

definition array_field :: "Cursor \<Rightarrow> cdef_error + nat \<times> Cursor" where
  "array_field cur =
     andThen (Next cur) (\<lambda>(t, c1).
     if Eof c1 \<or> peeks (\<lambda>w. w = '']'') c1 then Inl (Fail (t_line t) ''struct array field requires a fixed size'')
     else
       andThen (Next c1) (\<lambda>(extent, c2).
       andThen (array_extent extent) (\<lambda>count.
       map_sum id (Pair count)
         (expect '']'' (\<lambda>_. Fail (t_line extent) (''expected '' @ quoted '']'' @ '' after struct array size'')) c2))))"

definition field_name :: "bool \<Rightarrow> cdef_scope \<Rightarrow> ArgClass \<Rightarrow> Cursor \<Rightarrow> cdef_error + ArgClass \<times> string \<times> Cursor" where
  "field_name win sc cls cur =
     (if Eof cur \<or> peeks (\<lambda>w. w = '';'') cur then Inl (Fail (here cur) ''expected struct field name'')
      else if peeks (\<lambda>w. w = ''('') cur then map_sum id (Pair Arg_Ptr) (callback_field win sc cur)
      else map_sum id (\<lambda>(t, c). (cls, t_text t, c)) (Next cur))"

text \<open>One field: its class, the name of its layout, its name, the number of elements and the cursor.\<close>

definition struct_field :: "bool \<Rightarrow> cdef_scope \<Rightarrow> Cursor \<Rightarrow> cdef_error + ArgClass \<times> string \<times> string \<times> nat \<times> Cursor" where
  "struct_field win sc cur =
     andThen (ParseType win sc Ret_Void False cur) (\<lambda>(cls, ignored, fieldStructName, c1).
     if cls = Arg_I32 \<and> ignored = Ret_Void then Inl (Fail (LastLine c1) ''struct fields cannot have type void'')
     else
       andThen (optional_convention win c1) (\<lambda>(_, c2).
       andThen (field_name win sc cls c2) (\<lambda>(cls3, fieldName, c3).
       andThen (if peeks (\<lambda>w. w = ''['') c3 then array_field c3 else Inr (1, c3)) (\<lambda>(count, c4).
       map_sum id (\<lambda>c5. (cls3, fieldStructName, fieldName, count, c5))
         (expect '';'' (\<lambda>c. Fail (LastLine c) (''expected '' @ quoted '';'' @ '' after struct field'')) c4)))))"

definition add_field :: "ArgClass \<Rightarrow> string \<Rightarrow> string \<Rightarrow> nat \<Rightarrow> StructLayout \<Rightarrow> StructLayout" where
  "add_field cls structName name count layout = layout\<lparr>
     sl_fields := sl_fields layout @ replicate count cls,
     sl_fieldStructNames := sl_fieldStructNames layout @ replicate count structName,
     sl_fieldNames := sl_fieldNames layout @ [name],
     sl_fieldCounts := sl_fieldCounts layout @ [count]\<rparr>"

lemma optional_convention_ahead: "optional_convention win cur = Inr (v, cur') \<Longrightarrow> ahead cur' \<le> ahead cur"
  by (auto simp: optional_convention_def andThen_Inr map_sum_Inr split: if_splits dest!: Next_ahead)

lemma callback_field_ahead: "callback_field win sc cur = Inr (n, cur') \<Longrightarrow> ahead cur' < ahead cur"
  by (auto simp: callback_field_def andThen_Inr map_sum_Inr Let_def split: if_splits
      dest!: Next_ahead expect_ahead ParseFunctionParameters_ahead)

lemma array_field_ahead: "array_field cur = Inr (n, cur') \<Longrightarrow> ahead cur' < ahead cur"
  by (auto simp: array_field_def andThen_Inr map_sum_Inr split: if_splits dest!: Next_ahead expect_ahead)

lemma field_name_ahead: "field_name win sc cls cur = Inr (cls', n, cur') \<Longrightarrow> ahead cur' < ahead cur"
  by (auto simp: field_name_def map_sum_Inr split: if_splits dest!: callback_field_ahead Next_ahead)

lemma struct_field_Inr:
  "struct_field win sc cur = Inr (cls, sn, n, k, cur') \<longleftrightarrow>
     (\<exists>cls0 r c1 conv c2 c3 c4. ParseType win sc Ret_Void False cur = Inr (cls0, r, sn, c1) \<and> \<not> (cls0 = Arg_I32 \<and> r = Ret_Void) \<and>
        optional_convention win c1 = Inr (conv, c2) \<and> field_name win sc cls0 c2 = Inr (cls, n, c3) \<and>
        (if peeks (\<lambda>w. w = ''['') c3 then array_field c3 else Inr (1, c3)) = Inr (k, c4) \<and>
        expect '';'' (\<lambda>c. Fail (LastLine c) (''expected '' @ quoted '';'' @ '' after struct field'')) c4 = Inr cur')"
  unfolding struct_field_def andThen_Inr map_sum_Inr
  by (safe; (simp split: if_split_asm add: andThen_Inr map_sum_Inr; fail)?) (auto simp: andThen_Inr map_sum_Inr split: if_split_asm)

lemma struct_field_ahead:
  assumes "struct_field win sc cur = Inr (cls, sn, n, k, cur')"
  shows "ahead cur' < ahead cur"
proof -
  obtain cls0 r c1 conv c2 c3 c4 where c: "ParseType win sc Ret_Void False cur = Inr (cls0, r, sn, c1)"
    "optional_convention win c1 = Inr (conv, c2)" "field_name win sc cls0 c2 = Inr (cls, n, c3)"
    "(if peeks (\<lambda>w. w = ''['') c3 then array_field c3 else Inr (1, c3)) = Inr (k, c4)"
    "expect '';'' (\<lambda>c. Fail (LastLine c) (''expected '' @ quoted '';'' @ '' after struct field'')) c4 = Inr cur'"
    using assms unfolding struct_field_Inr by blast
  have "ahead c4 \<le> ahead c3" using c(4) by (auto split: if_splits dest: array_field_ahead)
  then show ?thesis using ParseType_ahead [OF c(1)] optional_convention_ahead [OF c(2)] field_name_ahead [OF c(3)] expect_ahead [OF c(5)]
    by simp
qed

function aggregate_loop :: "bool \<Rightarrow> cdef_scope \<Rightarrow> StructLayout \<Rightarrow> Cursor \<Rightarrow> cdef_error + StructLayout \<times> Cursor" where
  "aggregate_loop win sc layout cur =
     (if Eof cur \<or> peeks (\<lambda>w. w = ''}'') cur then Inr (layout, cur)
      else case struct_field win sc cur of
             Inl e \<Rightarrow> Inl e
           | Inr (cls, structName, name, count, c1) \<Rightarrow> aggregate_loop win sc (add_field cls structName name count layout) c1)"
  by pat_completeness auto
termination
  by (relation "measure (\<lambda>(_, _, _, cur). ahead cur)") (auto dest: struct_field_ahead)

declare aggregate_loop.simps [simp del]

definition ParseAggregateLayout :: "bool \<Rightarrow> cdef_scope \<Rightarrow> Cursor \<Rightarrow> cdef_error + StructLayout \<times> Cursor" where
  "ParseAggregateLayout win sc cur =
     andThen (Next cur) (\<lambda>(aggregate, c1).
     andThen (if peeks (\<lambda>w. w \<noteq> ''{'') c1 then map_sum id snd (Next c1) else Inr c1) (\<lambda>c2.
     let layout = StructLayout_new\<lparr>sl_isUnion := t_text aggregate = ''union''\<rparr>
     in if Eof c2 \<or> peeks (\<lambda>w. w \<noteq> ''{'') c2 then Inr (layout, c2)
        else
          andThen (Next c2) (\<lambda>(_, c3).
          andThen (aggregate_loop win sc layout c3) (\<lambda>(layout', c4).
          if Eof c4 then Inl (Fail (LastLine c4) ''unterminated struct definition'')
          else map_sum id (\<lambda>(_, c5). (layout', c5)) (Next c4)))))"

lemma aggregate_loop_ahead: "aggregate_loop win sc layout cur = Inr (layout', cur') \<Longrightarrow> ahead cur' \<le> ahead cur"
proof (induction win sc layout cur rule: aggregate_loop.induct)
  case (1 win sc layout cur)
  then show ?case
    by (subst (asm) (2) aggregate_loop.simps)
      (fastforce split: sum.splits if_splits prod.splits dest: struct_field_ahead)
qed

lemma ParseAggregateLayout_ahead: "ParseAggregateLayout win sc cur = Inr (layout, cur') \<Longrightarrow> ahead cur' < ahead cur"
  by (auto simp: ParseAggregateLayout_def andThen_Inr map_sum_Inr Let_def split: if_splits dest!: Next_ahead aggregate_loop_ahead)

section \<open>Declarations\<close>

definition skip_semicolon :: "Cursor \<Rightarrow> cdef_error + Cursor" where
  "skip_semicolon cur = (if peeks (\<lambda>w. w = '';'') cur then map_sum id snd (Next cur) else Inr cur)"

definition ret_kind :: "ArgClass \<Rightarrow> RetKind \<Rightarrow> RetKind" where
  "ret_kind cls ret = (if cls = Arg_Struct then Ret_Struct else ret)"

definition pointer_convention :: "bool \<Rightarrow> Cursor \<Rightarrow> cdef_error + CallingConvention \<times> Cursor" where
  "pointer_convention win cur = (if peeks IsCallingConvention cur then optional_convention win cur else Inr (Conv_Default, cur))"

text \<open>\<open>TryParseFunctionTypedef\<close>: without a parenthesis after the type the cursor is left where it was.\<close>

definition TryParseFunctionTypedef :: "bool \<Rightarrow> cdef_scope \<Rightarrow> Cursor \<Rightarrow> cdef_error + (Prototype \<times> Cursor) option" where
  "TryParseFunctionTypedef win sc cur =
     andThen (ParseType win sc Ret_I32 True cur) (\<lambda>(retClass, ret, retStructName, c1).
     if \<not> peeks (\<lambda>w. w = ''('') c1 then Inr None
     else
       andThen (Next c1) (\<lambda>(_, c2).
       andThen (pointer_convention win c2) (\<lambda>(convention, c3).
       andThen (expect ''*'' (\<lambda>c. Fail (LastLine c) (''expected '' @ quoted ''*'' @ '' in function-pointer typedef'')) c3) (\<lambda>c4.
       if Eof c4 \<or> peeks (\<lambda>w. \<not> is_alpha (hd w) \<and> hd w \<noteq> CHR ''_'') c4
       then Inl (Fail (here c4) ''expected function-pointer typedef name'')
       else
         andThen (Next c4) (\<lambda>(typedefName, c5).
         andThen (expect '')'' (\<lambda>c. Fail (LastLine c) (''expected '' @ quoted '')'' @ '' after function-pointer typedef name'')) c5) (\<lambda>c6.
         andThen (expect ''('' (\<lambda>c. Fail (LastLine c) (''expected '' @ quoted ''('' @ '' after function-pointer typedef name'')) c6) (\<lambda>c7.
         andThen (ParseFunctionParameters win sc (Prototype_new\<lparr>p_name := t_text typedefName,
             p_ret := ret_kind retClass ret, p_retStructName := retStructName, p_convention := convention\<rparr>) c7) (\<lambda>(p, c8).
         andThen (skip_semicolon c8) (\<lambda>c9.
         Inr (Some (p, c9)))))))))))"

record cdef_state =
  scope :: cdef_scope
  functionTypes :: "(string \<times> Prototype) list"
  protos :: "Prototype list"
  structs :: "StructLayout list"

definition set_alias :: "string \<Rightarrow> ArgClass \<Rightarrow> cdef_scope \<Rightarrow> cdef_scope" where
  "set_alias name cls sc = sc\<lparr>aliases := AList.update name cls (aliases sc)\<rparr>"

text \<open>The end of a typedef: its name, which must not be a token that \<open>bad\<close> excludes, and a semicolon.\<close>

definition typedef_name :: "(string \<Rightarrow> bool) \<Rightarrow> string \<Rightarrow> Cursor \<Rightarrow> cdef_error + string \<times> Cursor" where
  "typedef_name bad what cur =
     (if Eof cur \<or> peeks bad cur then Inl (Fail (here cur) ''expected typedef name'')
      else
        andThen (Next cur) (\<lambda>(name, c1).
        map_sum id (Pair (t_text name))
          (expect '';'' (\<lambda>c. Fail (LastLine c) (''expected '' @ quoted '';'' @ '' after '' @ what @ '' '' @
             quoted (t_text name))) c1)))"

definition register_aggregate :: "string \<Rightarrow> StructLayout \<Rightarrow> cdef_state \<Rightarrow> cdef_state" where
  "register_aggregate name layout st =
     (let sc = set_alias name Arg_Ptr (scope st);
          sc1 = sc\<lparr>opaqueAggregateAliases := insert name (opaqueAggregateAliases sc)\<rparr>
      in if sl_fields layout = [] then st\<lparr>scope := sc1\<rparr>
         else st\<lparr>scope := (if sl_isUnion layout then sc1 else sc1\<lparr>definedAggregateAliases := insert name (definedAggregateAliases sc1)\<rparr>),
                 structs := structs st @ [layout\<lparr>sl_name := name\<rparr>]\<rparr>)"

definition typedef_declaration :: "bool \<Rightarrow> cdef_state \<Rightarrow> Cursor \<Rightarrow> cdef_error + cdef_state \<times> Cursor" where
  "typedef_declaration win st cur =
     (if peeks (\<lambda>w. w = ''struct'' \<or> w = ''union'') cur then
        andThen (ParseAggregateLayout win (scope st) cur) (\<lambda>(layout, c1).
        map_sum id (\<lambda>(name, c2). (register_aggregate name layout st, c2)) (typedef_name (\<lambda>w. w = '';'') ''typedef'' c1))
      else
        andThen (TryParseFunctionTypedef win (scope st) cur) (\<lambda>r. case r of
          Some (p, c1) \<Rightarrow>
            Inr (st\<lparr>scope := set_alias (p_name p) Arg_Ptr (scope st), functionTypes := AList.update (p_name p) p (functionTypes st)\<rparr>, c1)
        | None \<Rightarrow>
            if peeks (\<lambda>w. w = ''enum'') cur then
              andThen (SkipEnumDefinition cur) (\<lambda>c1.
              map_sum id (\<lambda>(name, c2). (st\<lparr>scope := set_alias name Arg_I32 (scope st)\<rparr>, c2))
                (typedef_name (\<lambda>w. w = '';'') ''typedef enum'' c1))
            else
              andThen (ParseType win (scope st) Ret_I32 False cur) (\<lambda>(cls, _, _, c1).
              map_sum id (\<lambda>(name, c2). (st\<lparr>scope := set_alias name cls (scope st)\<rparr>, c2))
                (typedef_name (\<lambda>w. IsBaseTypeWord w \<or> w = ''*'' \<or> w = '';'') ''typedef'' c1))))"

definition last_token_line :: "Cursor \<Rightarrow> nat" where
  "last_token_line cur = (if c_rest cur = [] then LastLine cur else t_line (last (c_rest cur)))"

text \<open>The parameter list of a prototype in \<open>ParseCdef\<close> itself.\<close>

definition prototype_parameters :: "bool \<Rightarrow> cdef_scope \<Rightarrow> Cursor \<Rightarrow> cdef_error + (ArgClass \<times> string) list \<times> Cursor" where
  "prototype_parameters win sc cur =
     (if is_void_list cur then map_sum id (Pair []) (skip_two cur)
      else if peeks (\<lambda>w. w \<noteq> '')'') cur then parameter_loop True win sc True cur
      else map_sum id (\<lambda>(_, c). ([], c)) (Next cur))"

definition prototype_declaration :: "bool \<Rightarrow> cdef_scope \<Rightarrow> Cursor \<Rightarrow> cdef_error + Prototype \<times> Cursor" where
  "prototype_declaration win sc cur =
     andThen (ParseType win sc Ret_I32 True cur) (\<lambda>(retCls, ret, retStructName, c1).
     andThen (optional_convention win c1) (\<lambda>(convention, c2).
     if Eof c2 \<or> peeks (\<lambda>w. w = '';'' \<or> w = ''('' \<or> w = '')'') c2
     then Inl (Fail (here c2) ''expected function name after return type'')
     else
       andThen (Next c2) (\<lambda>(name, c3).
       andThen (Next c3) (\<lambda>(t, c4).
       if t_text t \<noteq> ''('' then
         Inl (Fail (last_token_line c4) (''expected '' @ quoted ''('' @ '' after function name''))
       else
         andThen (prototype_parameters win sc c4) (\<lambda>(ps, c5).
         if length ps > kMaxArity then Inl (Fail (here c5) (too_many (length ps)))
         else
           andThen (skip_semicolon c5) (\<lambda>c6.
           Inr (\<lparr>p_name = t_text name, p_args = map fst ps, p_argStructNames = map snd ps,
                 p_ret = ret_kind retCls ret, p_retStructName = retStructName,
                 p_convention = convention\<rparr>, c6)))))))"

text \<open>One round of the loop of \<open>ParseCdef\<close>.\<close>

definition cdef_declaration :: "bool \<Rightarrow> cdef_state \<Rightarrow> Cursor \<Rightarrow> cdef_error + cdef_state \<times> Cursor" where
  "cdef_declaration win st cur =
     (if peeks (\<lambda>w. w = ''typedef'') cur then andThen (Next cur) (\<lambda>(_, c1). typedef_declaration win st c1)
      else if peeks (\<lambda>w. w = ''enum'') cur then
        andThen (SkipEnumDefinition cur) (\<lambda>c1.
        map_sum id (Pair st) (skip_semicolon c1))
      else map_sum id (\<lambda>(p, c1). (st\<lparr>protos := protos st @ [p]\<rparr>, c1)) (prototype_declaration win (scope st) cur))"

lemma SkipEnumDefinition_ahead: "SkipEnumDefinition cur = Inr cur' \<Longrightarrow> ahead cur' < ahead cur"
  by (auto simp: SkipEnumDefinition_def andThen_Inr map_sum_Inr split: if_splits dest!: Next_ahead skip_balanced_ahead)

lemma typedef_name_ahead: "typedef_name bad what cur = Inr (n, cur') \<Longrightarrow> ahead cur' < ahead cur"
  by (auto simp: typedef_name_def andThen_Inr map_sum_Inr split: if_splits dest!: Next_ahead expect_ahead)

lemma skip_semicolon_ahead: "skip_semicolon c = Inr cur' \<Longrightarrow> ahead cur' \<le> ahead c"
  by (auto simp: skip_semicolon_def map_sum_Inr split: if_splits dest!: Next_ahead)

lemma pointer_convention_ahead: "pointer_convention win cur = Inr (v, cur') \<Longrightarrow> ahead cur' \<le> ahead cur"
  by (auto simp: pointer_convention_def split: if_splits dest: optional_convention_ahead)

lemma TryParseFunctionTypedef_ahead:
  assumes "TryParseFunctionTypedef win sc cur = Inr (Some (p, cur'))"
  shows "ahead cur' < ahead cur"
  using assms unfolding TryParseFunctionTypedef_def andThen_Inr
  by (clarsimp split: if_split_asm simp: andThen_Inr
      dest!: ParseType_ahead Next_ahead pointer_convention_ahead expect_ahead ParseFunctionParameters_ahead skip_semicolon_ahead)

lemma typedef_declaration_ahead: "typedef_declaration win st cur = Inr (st', cur') \<Longrightarrow> ahead cur' < ahead cur"
  unfolding typedef_declaration_def
  by (auto simp: andThen_Inr map_sum_Inr split: if_split_asm option.split_asm
      dest!: ParseAggregateLayout_ahead typedef_name_ahead TryParseFunctionTypedef_ahead SkipEnumDefinition_ahead ParseType_ahead)

lemma prototype_parameters_ahead: "prototype_parameters win sc cur = Inr (ps, cur') \<Longrightarrow> ahead cur' < ahead cur"
  by (auto simp: prototype_parameters_def map_sum_Inr split: if_splits dest!: skip_two_ahead parameter_loop_ahead Next_ahead)

lemma prototype_declaration_ahead: "prototype_declaration win sc cur = Inr (p, cur') \<Longrightarrow> ahead cur' < ahead cur"
  unfolding prototype_declaration_def andThen_Inr
  by (clarsimp split: if_split_asm simp: andThen_Inr
      dest!: ParseType_ahead Next_ahead optional_convention_ahead prototype_parameters_ahead skip_semicolon_ahead)

lemma cdef_declaration_ahead: "cdef_declaration win st cur = Inr (st', cur') \<Longrightarrow> ahead cur' < ahead cur"
  unfolding cdef_declaration_def
  by (auto simp: andThen_Inr map_sum_Inr split: if_split_asm
      dest!: typedef_declaration_ahead prototype_declaration_ahead SkipEnumDefinition_ahead skip_semicolon_ahead Next_ahead)

function declaration_loop :: "bool \<Rightarrow> cdef_state \<Rightarrow> Cursor \<Rightarrow> cdef_error + cdef_state" where
  "declaration_loop win st cur =
     (if Eof cur then Inr st
      else case cdef_declaration win st cur of Inl e \<Rightarrow> Inl e | Inr (st1, c1) \<Rightarrow> declaration_loop win st1 c1)"
  by pat_completeness auto
termination
  by (relation "measure (\<lambda>(_, _, cur). ahead cur)") (auto dest: cdef_declaration_ahead)

declare declaration_loop.simps [simp del]

text \<open>The state at the end is the result: prototypes, layouts, typedefs and function types.\<close>

definition cdef_state_new :: cdef_state where
  "cdef_state_new = \<lparr>scope = \<lparr>aliases = [], opaqueAggregateAliases = {}, definedAggregateAliases = {}\<rparr>,
     functionTypes = [], protos = [], structs = []\<rparr>"

definition ParseCdef :: "bool \<Rightarrow> string \<Rightarrow> cdef_error + cdef_state" where
  "ParseCdef win source = andThen (Tokenize source) (\<lambda>tokens. declaration_loop win cdef_state_new \<lparr>LastLine = 1, c_rest = tokens\<rparr>)"

fun clsName :: "ArgClass \<Rightarrow> string" where
  "clsName Arg_Bool = ''bool''" | "clsName Arg_I8 = ''int8''" | "clsName Arg_U8 = ''uint8''"
| "clsName Arg_I16 = ''int16''" | "clsName Arg_U16 = ''uint16''" | "clsName Arg_I32 = ''int32''"
| "clsName Arg_U32 = ''uint32''" | "clsName Arg_I64 = ''int64''" | "clsName Arg_U64 = ''uint64''"
| "clsName Arg_Ptr = ''ptr''" | "clsName Arg_F32 = ''float''" | "clsName Arg_F64 = ''double''"
| "clsName Arg_Struct = ''struct''"

fun join_comma :: "string list \<Rightarrow> string" where
  "join_comma [] = []"
| "join_comma [x] = x"
| "join_comma (x # xs) = x @ '', '' @ join_comma xs"

definition Describe :: "Prototype \<Rightarrow> string" where
  "Describe p = (if p_name p = [] then ''(anonymous)'' else p_name p) @ ''('' @ join_comma (map clsName (p_args p)) @ '')''"

end
