(* ===== verification/Lode_CdefProps.thy ===== *)
theory Lode_CdefProps
  imports Lode_Cdef "HOL-Library.Sublist"
begin

text \<open>
  Properties of the declaration parser: what it accepts is well formed, the line of an error is a line of the text,
  and the only undefined behaviour is that of a text that breaks off behind a type. The proofs are a calculus of weakest preconditions for the
  parser functions, over the token list they run on.
\<close>

section \<open>Weakest preconditions\<close>

definition line_of :: "Token list \<Rightarrow> nat \<Rightarrow> bool" where
  "line_of toks l \<longleftrightarrow> l = 1 \<or> l \<in> t_line ` set toks"

definition on_track :: "Token list \<Rightarrow> Cursor \<Rightarrow> bool" where
  "on_track toks cur \<longleftrightarrow> suffix (c_rest cur) toks \<and> line_of toks (LastLine cur)"

definition ends_in_type :: "Token list \<Rightarrow> bool" where
  "ends_in_type toks \<longleftrightarrow> toks \<noteq> [] \<and> IsBaseTypeWord (t_text (last toks))"

fun error_ok :: "Token list \<Rightarrow> cdef_error \<Rightarrow> bool" where
  "error_ok toks (Cdef_Error line _) \<longleftrightarrow> line_of toks line"
| "error_ok toks Cdef_OutOfRange \<longleftrightarrow> True"
| "error_ok toks Cdef_Undefined \<longleftrightarrow> ends_in_type toks"

definition wp :: "Token list \<Rightarrow> ('a \<Rightarrow> bool) \<Rightarrow> cdef_error + 'a \<Rightarrow> bool" where
  "wp toks Q r \<longleftrightarrow> (case r of Inl e \<Rightarrow> error_ok toks e | Inr x \<Rightarrow> Q x)"

named_theorems wp_rules \<open>preconditions of the parser functions\<close>

lemma wp_simps [simp]:
  "wp toks Q (Inl e) \<longleftrightarrow> error_ok toks e"
  "wp toks Q (Inr x) \<longleftrightarrow> Q x"
  "wp toks Q (andThen m f) \<longleftrightarrow> wp toks (\<lambda>x. wp toks Q (f x)) m"
  "wp toks Q (map_sum id g m) \<longleftrightarrow> wp toks (\<lambda>x. Q (g x)) m"
  by (auto simp: wp_def andThen_def split: sum.splits)

lemma wp_mono: "wp toks Q r \<Longrightarrow> (\<And>x. Q x \<Longrightarrow> R x) \<Longrightarrow> wp toks R r"
  by (auto simp: wp_def split: sum.splits)

lemma wp_if [wp_rules]: "(b \<Longrightarrow> wp toks Q x) \<Longrightarrow> (\<not> b \<Longrightarrow> wp toks Q y) \<Longrightarrow> wp toks Q (if b then x else y)"
  by simp

lemma wp_InrD: "wp toks Q r \<Longrightarrow> r = Inr x \<Longrightarrow> Q x"
  by (simp add: wp_def)

lemma error_ok_Fail [simp]: "error_ok toks (Fail line m) \<longleftrightarrow> line_of toks line"
  by (simp add: Fail_def)

lemma on_track_next: "on_track toks \<lparr>LastLine = l, c_rest = t # ts\<rparr> \<Longrightarrow> on_track toks \<lparr>LastLine = t_line t, c_rest = ts\<rparr> \<and> t \<in> set toks"
  by (auto simp: on_track_def line_of_def suffix_def)

lemma line_of_track [simp]:
  "on_track toks cur \<Longrightarrow> line_of toks (LastLine cur)"
  "on_track toks cur \<Longrightarrow> line_of toks (here cur)"
  "t \<in> set toks \<Longrightarrow> line_of toks (t_line t)"
  by (auto simp: on_track_def line_of_def here_def suffix_def split: list.splits)

lemma on_track_eta [simp]: "on_track toks \<lparr>LastLine = LastLine cur, c_rest = c_rest cur\<rparr> \<longleftrightarrow> on_track toks cur"
  by (simp add: on_track_def)

lemma on_track_cases:
  assumes "on_track toks cur"
  obtains "c_rest cur = []" | t ts where "c_rest cur = t # ts" "t \<in> set toks" "on_track toks \<lparr>LastLine = t_line t, c_rest = ts\<rparr>"
  using assms on_track_next [of toks "LastLine cur"] by (cases "c_rest cur") (auto simp: on_track_def line_of_def suffix_def)

lemma wp_Next [wp_rules]:
  assumes "on_track toks cur" "\<And>t c. t \<in> set toks \<Longrightarrow> on_track toks c \<Longrightarrow> c_rest cur = t # c_rest c \<Longrightarrow> Q (t, c)"
  shows "wp toks Q (Next cur)"
  using assms(1) by (rule on_track_cases) (use assms in \<open>auto simp: Next_def\<close>)

lemma wp_expect [wp_rules]:
  assumes "on_track toks cur" "\<And>c. on_track toks c \<Longrightarrow> Q c" "\<And>c. on_track toks c \<Longrightarrow> error_ok toks (fail c)"
  shows "wp toks Q (expect s fail cur)"
  using assms(1) by (rule on_track_cases) (use assms in \<open>auto simp: expect_def Let_def\<close>)

lemma on_track_skip_tokens: "on_track toks \<lparr>LastLine = l, c_rest = ts\<rparr> \<Longrightarrow> on_track toks (skip_tokens P l ts)"
  by (induction P l ts rule: skip_tokens.induct) (use on_track_next in auto)

lemma on_track_skip_while [intro, simp]: "on_track toks cur \<Longrightarrow> on_track toks (skip_while P cur)"
  unfolding skip_while_def by (rule on_track_skip_tokens) simp

lemma on_track_skip_nested:
  "on_track toks \<lparr>LastLine = l, c_rest = ts\<rparr> \<Longrightarrow> skip_nested left right depth l ts = (d, cur) \<Longrightarrow> on_track toks cur"
  by (induction left right depth l ts rule: skip_nested.induct) (use on_track_next in \<open>auto split: if_splits\<close>)

lemma wp_skip_balanced [wp_rules]:
  assumes "on_track toks cur" "\<And>c. on_track toks c \<Longrightarrow> Q c" "\<And>c. on_track toks c \<Longrightarrow> error_ok toks (fail c)"
  shows "wp toks Q (skip_balanced left right fail cur)"
  using assms on_track_skip_nested [of toks "LastLine cur" "c_rest cur" left right 1]
  by (auto simp: skip_balanced_def wp_def split: prod.splits)

lemma wp_ValidateConvention [wp_rules]: "t \<in> set toks \<Longrightarrow> Q () \<Longrightarrow> wp toks Q (ValidateConvention win t)"
  by (simp add: ValidateConvention_def Let_def)

lemma wp_SkipEnumDefinition [wp_rules]:
  assumes "on_track toks cur" "\<And>c. on_track toks c \<Longrightarrow> Q c"
  shows "wp toks Q (SkipEnumDefinition cur)"
  using assms by (auto simp: SkipEnumDefinition_def intro!: wp_rules)

section \<open>Types\<close>

lemma scan_words_track:
  "on_track toks \<lparr>LastLine = l, c_rest = ts\<rparr> \<Longrightarrow> scan_words sc ws l ts = Scan_Alias t cls cur \<Longrightarrow> on_track toks cur \<and> t \<in> set toks"
  "on_track toks \<lparr>LastLine = l, c_rest = ts\<rparr> \<Longrightarrow> (ws \<noteq> [] \<longrightarrow> ts = [] \<longrightarrow> ends_in_type toks) \<Longrightarrow> scan_words sc ws l ts = Scan_Words ws' cur \<Longrightarrow>
     on_track toks cur \<and> (ws' \<noteq> [] \<longrightarrow> Eof cur \<longrightarrow> ends_in_type toks)"
proof (induction sc ws l ts rule: scan_words.induct)
  case (2 sc ws line t ts)
  have next_track: "on_track toks \<lparr>LastLine = t_line t, c_rest = ts\<rparr>" "t \<in> set toks" if "on_track toks \<lparr>LastLine = line, c_rest = t # ts\<rparr>"
    using on_track_next [OF that] by auto
  have ending: "ts = [] \<longrightarrow> ends_in_type toks" if "on_track toks \<lparr>LastLine = line, c_rest = t # ts\<rparr>" "IsBaseTypeWord (t_text t)"
    using that by (auto simp: on_track_def suffix_def ends_in_type_def)
  { case 1 then show ?case using 2(1) next_track by (auto split: option.splits if_splits) }
  { case 2 then show ?case using "2.IH"(2) next_track ending by (auto simp: Eof_def split: option.splits if_splits) }
qed (auto simp: Eof_def)

text \<open>A class by value comes with the name of a defined aggregate, or from a typedef of one and without a name.\<close>

definition named :: "string set \<Rightarrow> ArgClass \<Rightarrow> string \<Rightarrow> bool" where
  "named names cls n \<longleftrightarrow> (cls = Arg_Struct \<longrightarrow> n = [] \<or> n \<in> names)"

definition type_ok :: "Token list \<Rightarrow> cdef_scope \<Rightarrow> RetKind \<Rightarrow> parsed_type \<Rightarrow> bool" where
  "type_ok toks sc retOut = (\<lambda>(cls, r, n, c). on_track toks c \<and> named (definedAggregateAliases sc) cls n \<and>
     (cls = Arg_I32 \<longrightarrow> r = Ret_Void \<longrightarrow> Eof c \<longrightarrow> ends_in_type toks) \<and> (retOut \<noteq> Ret_Struct \<longrightarrow> r \<noteq> Ret_Struct))"

lemma class_ret_not_Struct: "class_ret cls \<noteq> Some Ret_Struct"
  by (cases cls) auto

lemma class_ret_integer: "\<exists>r. class_ret (integer_class win base) = Some r"
  by (simp add: integer_class_def Let_def)

lemma wp_aggregate_type: "on_track toks cur \<Longrightarrow> wp toks (type_ok toks sc retOut) (aggregate_type cur)"
  by (auto simp: aggregate_type_def type_ok_def named_def Let_def intro!: wp_rules)

lemma wp_enum_type: "on_track toks cur \<Longrightarrow> wp toks (type_ok toks sc retOut) (enum_type cur)"
  by (auto simp: enum_type_def type_ok_def named_def intro!: wp_rules)

lemma wp_alias_type: "on_track toks cur \<Longrightarrow> t \<in> set toks \<Longrightarrow> wp toks (type_ok toks sc retOut) (alias_type sc retOut t cls cur)"
  by (auto simp: alias_type_def type_ok_def named_def Let_def class_ret_not_Struct split: option.splits intro!: wp_rules)

lemma skip_while_unmoved: "\<not> peeks P cur \<Longrightarrow> skip_while P cur = cur"
  by (cases cur; cases "c_rest cur") (auto simp: skip_while_def peeks_def)

lemma wp_word_type:
  "on_track toks cur \<Longrightarrow> (ws \<noteq> [] \<Longrightarrow> Eof cur \<Longrightarrow> ends_in_type toks) \<Longrightarrow> wp toks (type_ok toks sc retOut) (word_type win allowVoid ws cur)"
  using class_ret_integer [of win "join_words ws"] class_ret_not_Struct [of "integer_class win (join_words ws)"]
  by (auto simp: word_type_def type_ok_def named_def Let_def skip_while_unmoved intro!: wp_rules)

lemma wp_ParseType [wp_rules]:
  assumes cur: "on_track toks cur"
    and Q: "\<And>cls r n c. on_track toks c \<Longrightarrow> type_ok toks sc retOut (cls, r, n, c) \<Longrightarrow>
      (retOut \<noteq> Ret_Struct \<longrightarrow> ret_kind cls r = Ret_Struct \<longrightarrow> n = [] \<or> n \<in> definedAggregateAliases sc) \<Longrightarrow> Q (cls, r, n, c)"
  shows "wp toks Q (ParseType win sc retOut allowVoid cur)"
proof (rule wp_mono)
  let ?c = "skip_while is_qualifier cur"
  have c: "on_track toks ?c" using cur by simp
  have "wp toks (type_ok toks sc retOut) (case scan_words sc [] (LastLine ?c) (c_rest ?c) of
      Scan_Alias t cls c2 \<Rightarrow> alias_type sc retOut t cls c2 | Scan_Words ws c2 \<Rightarrow> word_type win allowVoid ws c2)"
  proof (cases "scan_words sc [] (LastLine ?c) (c_rest ?c)")
    case (Scan_Alias t cls c2)
    then show ?thesis using scan_words_track(1) [OF _ Scan_Alias, of toks] c by (simp add: wp_alias_type)
  next
    case (Scan_Words ws c2)
    then show ?thesis using scan_words_track(2) [OF _ _ Scan_Words, of toks] c by (auto intro: wp_word_type)
  qed
  then show "wp toks (type_ok toks sc retOut) (ParseType win sc retOut allowVoid cur)"
    unfolding ParseType_def Let_def by (intro wp_if wp_aggregate_type wp_enum_type c)
qed (use Q in \<open>auto simp: type_ok_def named_def ret_kind_def split: if_splits\<close>)

section \<open>Parameters and fields\<close>

lemma wp_callback_parameter [wp_rules]:
  "on_track toks cur \<Longrightarrow> (\<And>c. on_track toks c \<Longrightarrow> Q c) \<Longrightarrow> wp toks Q (callback_parameter cur)"
  by (auto simp: callback_parameter_def Let_def intro!: wp_rules)

lemma wp_array_parameter [wp_rules]:
  "on_track toks cur \<Longrightarrow> (\<And>c. on_track toks c \<Longrightarrow> Q c) \<Longrightarrow> wp toks Q (array_parameter cur)"
  by (auto simp: array_parameter_def intro!: wp_rules)

lemma named_Ptr [simp]: "named names Arg_Ptr n"
  by (simp add: named_def)

lemma wp_parameter_name [wp_rules]:
  assumes "on_track toks cur" "named names cls sn" "\<And>cls' c. on_track toks c \<Longrightarrow> named names cls' sn \<Longrightarrow> Q (cls', c)"
  shows "wp toks Q (parameter_name cls cur)"
  using assms by (auto simp: parameter_name_def intro!: wp_rules)

lemma wp_parameter_array [wp_rules]:
  assumes "on_track toks cur" "named names cls sn" "\<And>cls' c. on_track toks c \<Longrightarrow> named names cls' sn \<Longrightarrow> Q (cls', c)"
  shows "wp toks Q (parameter_array cls cur)"
  using assms by (auto simp: parameter_array_def intro!: wp_rules)

lemma wp_parameter_end [wp_rules]:
  "on_track toks cur \<Longrightarrow> (\<And>v c. on_track toks c \<Longrightarrow> Q (v, c)) \<Longrightarrow> wp toks Q (parameter_end cur)"
  by (auto simp: parameter_end_def intro!: wp_rules)

lemma wp_parameter [wp_rules]:
  assumes "on_track toks cur"
    and "\<And>cls n comma c. on_track toks c \<Longrightarrow> named (definedAggregateAliases sc) cls n \<Longrightarrow> Q (cls, n, comma, c)"
  shows "wp toks Q (parameter outer win sc first cur)"
  unfolding parameter_def by (auto simp: type_ok_def intro!: wp_rules assms)

lemma wp_parameter_loop:
  "on_track toks cur \<Longrightarrow>
     wp toks (\<lambda>(ps, c). on_track toks c \<and> ps \<noteq> [] \<and> (\<forall>(cls, n) \<in> set ps. named (definedAggregateAliases sc) cls n)) (parameter_loop outer win sc first cur)"
proof (induction outer win sc first cur rule: parameter_loop.induct)
  case (1 outer win sc first cur)
  have one: "wp toks (\<lambda>(cls, n, comma, c). on_track toks c \<and> named (definedAggregateAliases sc) cls n) (parameter outer win sc first cur)"
    by (rule wp_parameter [OF "1.prems"]) auto
  show ?case
  proof (cases "parameter outer win sc first cur")
    case (Inl e)
    then show ?thesis using one by (subst parameter_loop.simps) simp
  next
    case (Inr r)
    obtain cls n comma c where r: "r = (cls, n, comma, c)" by (cases r)
    have c: "on_track toks c" "named (definedAggregateAliases sc) cls n" using one Inr r by auto
    show ?thesis
    proof (cases comma)
      case True
      have "wp toks (\<lambda>(ps, c). on_track toks c \<and> ps \<noteq> [] \<and> (\<forall>(cls, n) \<in> set ps. named (definedAggregateAliases sc) cls n))
          (parameter_loop outer win sc False c)"
        using "1.IH" [OF Inr [unfolded r] refl refl refl True c(1)] by simp
      then show ?thesis using Inr r True c by (subst parameter_loop.simps) (auto elim!: wp_mono)
    qed (use Inr r c in \<open>subst parameter_loop.simps, auto\<close>)
  qed
qed

lemma wp_skip_two [wp_rules]: "on_track toks cur \<Longrightarrow> (\<And>c. on_track toks c \<Longrightarrow> Q c) \<Longrightarrow> wp toks Q (skip_two cur)"
  by (auto simp: skip_two_def intro!: wp_rules)

definition proto_ok :: "string set \<Rightarrow> Prototype \<Rightarrow> bool" where
  "proto_ok names p \<longleftrightarrow> length (p_args p) \<le> kMaxArity \<and> length (p_argStructNames p) = length (p_args p) \<and>
     (\<forall>(cls, n) \<in> set (zip (p_args p) (p_argStructNames p)). named names cls n) \<and>
     (p_ret p = Ret_Struct \<longrightarrow> p_retStructName p = [] \<or> p_retStructName p \<in> names)"

lemma wp_ParseFunctionParameters [wp_rules]:
  assumes cur: "on_track toks cur" and p: "p_args p = []" "p_argStructNames p = []"
    "p_ret p = Ret_Struct \<longrightarrow> p_retStructName p = [] \<or> p_retStructName p \<in> definedAggregateAliases sc"
    and Q: "\<And>p' c. on_track toks c \<Longrightarrow> proto_ok (definedAggregateAliases sc) p' \<Longrightarrow> Q (p', c)"
  shows "wp toks Q (ParseFunctionParameters win sc p cur)"
  unfolding ParseFunctionParameters_def
  using p by (auto intro!: wp_rules cur wp_mono [OF wp_parameter_loop [OF cur]] Q simp: proto_ok_def kMaxArity_def Let_def zip_map_fst_snd)

lemma wp_optional_convention [wp_rules]:
  "on_track toks cur \<Longrightarrow> (\<And>v c. on_track toks c \<Longrightarrow> Q (v, c)) \<Longrightarrow> wp toks Q (optional_convention win cur)"
  by (auto simp: optional_convention_def intro!: wp_rules)

lemma wp_callback_field [wp_rules]:
  "on_track toks cur \<Longrightarrow> (\<And>n c. on_track toks c \<Longrightarrow> Q (n, c)) \<Longrightarrow> wp toks Q (callback_field win sc cur)"
  by (auto simp: callback_field_def Let_def Prototype_new_def intro!: wp_rules)

lemma wp_array_field [wp_rules]:
  "on_track toks cur \<Longrightarrow> (\<And>k c. 0 < k \<Longrightarrow> on_track toks c \<Longrightarrow> Q (k, c)) \<Longrightarrow> wp toks Q (array_field cur)"
  by (auto simp: array_field_def array_extent_def split: option.splits intro!: wp_rules)

lemma wp_field_name [wp_rules]:
  assumes "on_track toks cur" "named names cls sn" "\<And>cls' n c. on_track toks c \<Longrightarrow> named names cls' sn \<Longrightarrow> Q (cls', n, c)"
  shows "wp toks Q (field_name win sc cls cur)"
  using assms by (auto simp: field_name_def intro!: wp_rules)

lemma wp_struct_field [wp_rules]:
  assumes "on_track toks cur"
    and "\<And>cls sn n k c. on_track toks c \<Longrightarrow> named (definedAggregateAliases sc) cls sn \<Longrightarrow> 0 < k \<Longrightarrow> Q (cls, sn, n, k, c)"
  shows "wp toks Q (struct_field win sc cur)"
  unfolding struct_field_def
  by (auto simp: type_ok_def intro!: wp_rules assms)

text \<open>A layout under construction, and a finished one.\<close>

definition fields_ok :: "string set \<Rightarrow> StructLayout \<Rightarrow> bool" where
  "fields_ok names l \<longleftrightarrow> length (sl_fieldStructNames l) = length (sl_fields l) \<and> length (sl_fieldCounts l) = length (sl_fieldNames l) \<and>
     sum_list (sl_fieldCounts l) = length (sl_fields l) \<and> 0 \<notin> set (sl_fieldCounts l) \<and>
     (\<forall>(cls, n) \<in> set (zip (sl_fields l) (sl_fieldStructNames l)). named names cls n)"

definition layout_ok :: "string set \<Rightarrow> StructLayout \<Rightarrow> bool" where
  "layout_ok names l \<longleftrightarrow> fields_ok names l \<and> sl_fields l \<noteq> []"

lemma fields_ok_add_field:
  "fields_ok names l \<Longrightarrow> named names cls sn \<Longrightarrow> 0 < k \<Longrightarrow> fields_ok names (add_field cls sn n k l)"
  by (auto simp: fields_ok_def add_field_def zip_replicate)

lemma wp_aggregate_loop:
  "on_track toks cur \<Longrightarrow> fields_ok (definedAggregateAliases sc) l \<Longrightarrow>
     wp toks (\<lambda>(l', c). on_track toks c \<and> fields_ok (definedAggregateAliases sc) l') (aggregate_loop win sc l cur)"
proof (induction win sc l cur rule: aggregate_loop.induct)
  case (1 win sc l cur)
  have one: "wp toks (\<lambda>(cls, sn, n, k, c). on_track toks c \<and> named (definedAggregateAliases sc) cls sn \<and> 0 < k) (struct_field win sc cur)"
    by (rule wp_struct_field [OF "1.prems"(1)]) auto
  show ?case
  proof (cases "Eof cur \<or> peeks (\<lambda>w. w = ''}'') cur")
    case True
    then show ?thesis using "1.prems" by (subst aggregate_loop.simps) simp
  next
    case more: False
    show ?thesis
    proof (cases "struct_field win sc cur")
      case (Inl e)
      then show ?thesis using one more by (subst aggregate_loop.simps) simp
    next
      case (Inr r)
      obtain cls sn n k c where r: "r = (cls, sn, n, k, c)" by (cases r)
      have c: "on_track toks c" "named (definedAggregateAliases sc) cls sn" "0 < k" using one Inr r by auto
      have "wp toks (\<lambda>(l', c). on_track toks c \<and> fields_ok (definedAggregateAliases sc) l') (aggregate_loop win sc (add_field cls sn n k l) c)"
        using "1.IH" [OF more Inr [unfolded r] refl refl refl refl c(1) fields_ok_add_field [OF "1.prems"(2) c(2,3)]] .
      then show ?thesis using Inr r more by (subst aggregate_loop.simps) simp
    qed
  qed
qed

lemma wp_ParseAggregateLayout [wp_rules]:
  assumes "on_track toks cur" "\<And>l c. on_track toks c \<Longrightarrow> fields_ok (definedAggregateAliases sc) l \<Longrightarrow> Q (l, c)"
  shows "wp toks Q (ParseAggregateLayout win sc cur)"
proof -
  have new: "fields_ok names (StructLayout_new\<lparr>sl_isUnion := u\<rparr>)" for names u
    by (simp add: StructLayout_new_def fields_ok_def)
  show ?thesis unfolding ParseAggregateLayout_def
    using assms by (auto simp: Let_def intro!: wp_rules new wp_mono [OF wp_aggregate_loop] assms(2))
qed

section \<open>Declarations\<close>

lemma wp_skip_semicolon [wp_rules]: "on_track toks cur \<Longrightarrow> (\<And>c. on_track toks c \<Longrightarrow> Q c) \<Longrightarrow> wp toks Q (skip_semicolon cur)"
  by (auto simp: skip_semicolon_def intro!: wp_rules)

lemma wp_pointer_convention [wp_rules]:
  "on_track toks cur \<Longrightarrow> (\<And>v c. on_track toks c \<Longrightarrow> Q (v, c)) \<Longrightarrow> wp toks Q (pointer_convention win cur)"
  by (auto simp: pointer_convention_def intro!: wp_rules)

lemma wp_TryParseFunctionTypedef [wp_rules]:
  assumes "on_track toks cur" "Q None" "\<And>p c. on_track toks c \<Longrightarrow> proto_ok (definedAggregateAliases sc) p \<Longrightarrow> Q (Some (p, c))"
  shows "wp toks Q (TryParseFunctionTypedef win sc cur)"
  unfolding TryParseFunctionTypedef_def
  by (auto simp: Prototype_new_def intro!: wp_rules assms)

lemma wp_typedef_name [wp_rules]:
  "on_track toks cur \<Longrightarrow> (\<And>n c. on_track toks c \<Longrightarrow> Q (n, c)) \<Longrightarrow> wp toks Q (typedef_name bad what cur)"
  by (auto simp: typedef_name_def intro!: wp_rules)

lemma wp_prototype_parameters [wp_rules]:
  assumes "on_track toks cur"
    and "\<And>ps c. on_track toks c \<Longrightarrow> (\<forall>(cls, n) \<in> set ps. named (definedAggregateAliases sc) cls n) \<Longrightarrow> Q (ps, c)"
  shows "wp toks Q (prototype_parameters win sc cur)"
  using assms by (auto simp: prototype_parameters_def intro!: wp_rules wp_mono [OF wp_parameter_loop [OF assms(1)]])

lemma last_token_line [simp]: "on_track toks cur \<Longrightarrow> line_of toks (last_token_line cur)"
  by (auto simp: last_token_line_def on_track_def suffix_def line_of_def)

lemma wp_prototype_declaration [wp_rules]:
  assumes "on_track toks cur" "\<And>p c. on_track toks c \<Longrightarrow> proto_ok (definedAggregateAliases sc) p \<Longrightarrow> Q (p, c)"
  shows "wp toks Q (prototype_declaration win sc cur)"
  unfolding prototype_declaration_def
  by (auto simp: proto_ok_def kMaxArity_def zip_map_fst_snd intro!: wp_rules assms)

section \<open>Blocks of declarations\<close>

definition value_names :: "StructLayout list \<Rightarrow> string set" where
  "value_names ls = sl_name ` {l \<in> set ls. \<not> sl_isUnion l}"

definition cdef_ok :: "cdef_state \<Rightarrow> bool" where
  "cdef_ok st \<longleftrightarrow>
     (\<forall>i < length (structs st). layout_ok (value_names (take i (structs st))) (structs st ! i)) \<and>
     (\<forall>p \<in> set (protos st). proto_ok (value_names (structs st)) p) \<and>
     (\<forall>(n, p) \<in> set (functionTypes st). proto_ok (value_names (structs st)) p) \<and>
     (\<forall>l \<in> set (structs st). is_alias (scope st) (sl_name l)) \<and>
     distinct (map fst (aliases (scope st))) \<and> distinct (map fst (functionTypes st))"

definition state_ok :: "cdef_state \<Rightarrow> bool" where
  "state_ok st \<longleftrightarrow> cdef_ok st \<and> definedAggregateAliases (scope st) \<subseteq> value_names (structs st)"

lemma proto_ok_mono: "proto_ok names p \<Longrightarrow> names \<subseteq> names' \<Longrightarrow> proto_ok names' p"
  by (fastforce simp: proto_ok_def named_def)

lemma fields_ok_mono: "fields_ok names l \<Longrightarrow> names \<subseteq> names' \<Longrightarrow> fields_ok names' l"
  by (fastforce simp: fields_ok_def named_def)

lemma is_alias_keys: "is_alias sc w \<longleftrightarrow> w \<in> fst ` set (aliases sc)"
  by (auto simp: is_alias_def map_of_eq_None_iff image_iff dest: map_of_SomeD intro: weak_map_of_SomeI)

lemma state_ok_set_alias: "state_ok st \<Longrightarrow> state_ok (st\<lparr>scope := set_alias n cls (scope st)\<rparr>)"
  by (auto simp: state_ok_def cdef_ok_def is_alias_keys set_alias_def distinct_update dom_update)

lemma value_names_snoc: "value_names (ls @ [l]) = value_names ls \<union> (if sl_isUnion l then {} else {sl_name l})"
  by (auto simp: value_names_def)

lemma state_ok_aggregate:
  assumes "state_ok st" "fields_ok (definedAggregateAliases (scope st)) l"
  shows "state_ok (register_aggregate n l st)"
proof (cases "sl_fields l = []")
  case True
  then show ?thesis using state_ok_set_alias [OF assms(1), of n Arg_Ptr]
    by (simp add: register_aggregate_def Let_def state_ok_def cdef_ok_def is_alias_keys set_alias_def)
next
  case False
  let ?l = "l\<lparr>sl_name := n\<rparr>"
  have "fields_ok (value_names (structs st)) l"
    using assms fields_ok_mono [of "definedAggregateAliases (scope st)" l "value_names (structs st)"] by (simp add: state_ok_def)
  then have l: "layout_ok (value_names (structs st)) ?l" using False by (simp add: layout_ok_def fields_ok_def)
  have more: "value_names (structs st) \<subseteq> value_names (structs st @ [?l])" by (auto simp: value_names_snoc)
  show ?thesis using assms(1) l False
    by (auto simp: register_aggregate_def Let_def state_ok_def cdef_ok_def value_names_snoc is_alias_keys set_alias_def dom_update
        distinct_update nth_append less_Suc_eq intro: proto_ok_mono)
qed

lemma in_set_update: "(k, w) \<in> set (AList.update x y xs) \<Longrightarrow> (k, w) = (x, y) \<or> (k, w) \<in> set xs"
  by (induction xs) (auto split: if_splits)

lemma state_ok_function_type:
  assumes "state_ok st" "proto_ok (definedAggregateAliases (scope st)) p"
  shows "state_ok (st\<lparr>scope := set_alias (p_name p) Arg_Ptr (scope st), functionTypes := AList.update (p_name p) p (functionTypes st)\<rparr>)"
proof -
  have "proto_ok (value_names (structs st)) p" using assms proto_ok_mono by (auto simp: state_ok_def)
  then have "proto_ok (value_names (structs st)) q" if "(n, q) \<in> set (AList.update (p_name p) p (functionTypes st))" for n q
    using that assms(1) by (auto simp: state_ok_def cdef_ok_def dest!: in_set_update)
  then show ?thesis using state_ok_set_alias [OF assms(1), of "p_name p" Arg_Ptr]
    by (auto simp: state_ok_def cdef_ok_def distinct_update)
qed

lemma wp_typedef_declaration [wp_rules]:
  assumes "on_track toks cur" "state_ok st" "\<And>st' c. on_track toks c \<Longrightarrow> state_ok st' \<Longrightarrow> Q (st', c)"
  shows "wp toks Q (typedef_declaration win st cur)"
  unfolding typedef_declaration_def
  by (auto intro!: wp_rules assms state_ok_aggregate state_ok_function_type state_ok_set_alias)

lemma state_ok_proto: "state_ok st \<Longrightarrow> proto_ok (definedAggregateAliases (scope st)) p \<Longrightarrow> state_ok (st\<lparr>protos := protos st @ [p]\<rparr>)"
  by (auto simp: state_ok_def cdef_ok_def intro: proto_ok_mono)

lemma wp_cdef_declaration [wp_rules]:
  assumes "on_track toks cur" "state_ok st" "\<And>st' c. on_track toks c \<Longrightarrow> state_ok st' \<Longrightarrow> Q (st', c)"
  shows "wp toks Q (cdef_declaration win st cur)"
  unfolding cdef_declaration_def
  by (auto intro!: wp_rules assms state_ok_proto)

lemma wp_declaration_loop: "on_track toks cur \<Longrightarrow> state_ok st \<Longrightarrow> wp toks state_ok (declaration_loop win st cur)"
proof (induction win st cur rule: declaration_loop.induct)
  case (1 win st cur)
  have one: "wp toks (\<lambda>(st', c). on_track toks c \<and> state_ok st') (cdef_declaration win st cur)"
    by (rule wp_cdef_declaration [OF "1.prems"]) auto
  show ?case
  proof (cases "Eof cur")
    case True
    then show ?thesis using "1.prems" by (subst declaration_loop.simps) simp
  next
    case False
    then show ?thesis using one "1.IH" [OF False]
      by (subst declaration_loop.simps) (auto split: sum.split)
  qed
qed

lemma state_ok_new: "state_ok cdef_state_new"
  by (simp add: state_ok_def cdef_ok_def cdef_state_new_def value_names_def)

lemma wp_ParseCdef:
  assumes "Tokenize source = Inr toks"
  shows "wp toks state_ok (ParseCdef win source)"
  using wp_declaration_loop [of toks "\<lparr>LastLine = 1, c_rest = toks\<rparr>" cdef_state_new win] state_ok_new
  by (simp add: ParseCdef_def assms on_track_def line_of_def)

lemma skip_block_comment_lines:
  "skip_block_comment line s = Inl l \<Longrightarrow> line \<le> l \<and> l \<le> line + count_list s LF"
  "skip_block_comment line s = Inr (l, s') \<Longrightarrow> line \<le> l \<and> l + count_list s' LF \<le> line + count_list s LF"
  by (induction line s rule: skip_block_comment.induct) (auto split: if_splits)

lemma count_list_dropWhile: "count_list (dropWhile P xs) c \<le> count_list xs c"
  by (induction xs) auto

text \<open>Every token, and every error of the tokenizer, is on a line of the text.\<close>

fun token_result_lines :: "nat \<Rightarrow> nat \<Rightarrow> cdef_error + Token list \<Rightarrow> bool" where
  "token_result_lines lo hi (Inr toks) \<longleftrightarrow> (\<forall>t \<in> set toks. lo \<le> t_line t \<and> t_line t \<le> hi)"
| "token_result_lines lo hi (Inl (Cdef_Error l m)) \<longleftrightarrow> lo \<le> l \<and> l \<le> hi"
| "token_result_lines lo hi (Inl e) \<longleftrightarrow> False"

lemma token_result_lines_mono: "token_result_lines lo hi r \<Longrightarrow> lo' \<le> lo \<Longrightarrow> hi \<le> hi' \<Longrightarrow> token_result_lines lo' hi' r"
  by (induction lo hi r rule: token_result_lines.induct) (auto intro: le_trans)

lemma token_result_lines_Cons:
  "token_result_lines lo hi r \<Longrightarrow> lo \<le> t_line t \<Longrightarrow> t_line t \<le> hi \<Longrightarrow> token_result_lines lo hi (map_sum id (Cons t) r)"
  by (induction lo hi r rule: token_result_lines.induct) auto

lemma token_result_lines_if:
  "(b \<Longrightarrow> token_result_lines lo hi x) \<Longrightarrow> (\<not> b \<Longrightarrow> token_result_lines lo hi y) \<Longrightarrow> token_result_lines lo hi (if b then x else y)"
  by simp

lemma tokenize_lines: "token_result_lines line (line + count_list s LF) (tokenize line s)"
proof (induction "length s" arbitrary: line s rule: less_induct)
  case less
  show ?case
  proof (cases s)
    case (Cons c s1)
    have rest: "token_result_lines line (line + count_list s LF) (tokenize l' s')"
      if "length s' < length s" "line \<le> l'" "l' + count_list s' LF \<le> line + count_list s LF" for l' s'
      using less [OF that(1), of l'] that by (auto elim: token_result_lines_mono)
    have drop: "token_result_lines line (line + count_list s LF) (tokenize line (dropWhile P s))" if "P c" for P
      using that length_dropWhile_less [of P c s1] count_list_dropWhile [of P s LF] by (intro rest) (auto simp: Cons)
    have comment: "token_result_lines line (line + count_list s LF)
        (case skip_block_comment line (tl s1) of Inl l \<Rightarrow> Inl (Fail l m) | Inr (l, s') \<Rightarrow> tokenize l s')" if "c \<noteq> LF" "s1 \<noteq> []" "hd s1 = CHR ''*''" for m
    proof (cases "skip_block_comment line (tl s1)")
      case (Inl l)
      then show ?thesis using that skip_block_comment_lines(1) [OF Inl] by (cases s1) (auto simp: Fail_def Cons)
    next
      case (Inr r)
      then obtain l s' where r: "skip_block_comment line (tl s1) = Inr (l, s')" by (cases r) auto
      have "token_result_lines line (line + count_list s LF) (tokenize l s')"
        using that skip_block_comment_lines(2) [OF r] skip_block_comment_length [OF r]
        by (intro rest) (cases s1, auto simp: Cons)+
      then show ?thesis by (simp add: r)
    qed
    show ?thesis unfolding Cons tokenize.simps unfolding Cons [symmetric]
    proof (intro token_result_lines_if, goal_cases)
      case 1 then show ?case by (intro rest) (auto simp: Cons)
    next
      case 2 then show ?case by (intro rest) (auto simp: Cons)
    next
      case 3 then show ?case by (intro drop) auto
    next
      case 4 then show ?case by (intro comment) auto
    next
      case 5 then show ?case by (intro token_result_lines_Cons drop) (auto simp: is_word_char_def is_alnum_def)
    next
      case 6 then show ?case by (intro token_result_lines_Cons drop) (auto simp: is_alnum_def)
    next
      case 7 then show ?case by (intro token_result_lines_Cons rest) (auto simp: Cons)
    qed (simp add: Fail_def)
  qed simp
qed

section \<open>Properties\<close>



text \<open>C38. The line an error names is a line of the text, counted from one.\<close>

theorem cdef_error_line:
  assumes "ParseCdef win source = Inl (Cdef_Error line message)"
  shows "1 \<le> line \<and> line \<le> 1 + count_list source LF"
proof -
  have lines: "token_result_lines 1 (1 + count_list source LF) (Tokenize source)"
    using tokenize_lines [of 1 source] by (simp add: Tokenize_def)
  show ?thesis
  proof (cases "Tokenize source")
    case (Inl e)
    then show ?thesis using lines assms by (simp add: ParseCdef_def)
  next
    case (Inr toks)
    then have "line_of toks line" using wp_ParseCdef [OF Inr, of win] assms by (simp add: wp_def)
    then show ?thesis using lines Inr by (auto simp: line_of_def)
  qed
qed

theorem cdef_error_line_witness:
  "\<exists>line message. ParseCdef False [LF, CHR ''i'', CHR ''n'', CHR ''t'', CHR '';''] = Inl (Cdef_Error line message) \<and> 1 \<le> line \<and> line \<le> 2"
proof -
  have "case ParseCdef False [LF, CHR ''i'', CHR ''n'', CHR ''t'', CHR '';''] of Inl (Cdef_Error _ _) \<Rightarrow> True | _ \<Rightarrow> False" by code_simp
  then obtain line message where e: "ParseCdef False [LF, CHR ''i'', CHR ''n'', CHR ''t'', CHR '';''] = Inl (Cdef_Error line message)"
    by (auto split: sum.splits cdef_error.splits)
  show ?thesis using e cdef_error_line [OF e] by simp
qed

text \<open>C39. The parser reads past its last token only for a text that breaks off behind the word of a type, as in the witness, where
  a parameter list ends after \<open>void\<close>.\<close>

theorem cdef_undefined:
  assumes "Tokenize source = Inr toks" "ParseCdef win source = Inl Cdef_Undefined"
  shows "toks \<noteq> [] \<and> IsBaseTypeWord (t_text (last toks))"
  using wp_ParseCdef [OF assms(1), of win] assms(2) by (simp add: wp_def ends_in_type_def)

theorem cdef_undefined_witness:
  "\<exists>toks. Tokenize ''int f(void'' = Inr toks \<and> ParseCdef False ''int f(void'' = Inl Cdef_Undefined \<and> toks \<noteq> [] \<and> IsBaseTypeWord (t_text (last toks))"
proof -
  have undefined: "ParseCdef False ''int f(void'' = Inl Cdef_Undefined" by code_simp
  have "case Tokenize ''int f(void'' of Inl e \<Rightarrow> False | Inr toks \<Rightarrow> True" by code_simp
  then obtain toks where "Tokenize ''int f(void'' = Inr toks" by (auto split: sum.splits)
  then show ?thesis using cdef_undefined [OF _ undefined] undefined by blast
qed

text \<open>A callback that returns nothing cannot be declared: as a parameter, in either copy of the loop, and as a field of a structure
  its \<open>void\<close> is rejected before the parenthesis of the declarator is looked at.\<close>

theorem void_callback_rejected:
  assumes "map_of (aliases sc) ''void'' = None" "map_of (aliases sc) ''('' = None"
  shows "\<exists>m m'.
    parameter outer win sc first \<lparr>LastLine = l0, c_rest = \<lparr>t_text = ''void'', t_line = l\<rparr> # \<lparr>t_text = ''('', t_line = l'\<rparr> # ts\<rparr> = Inl (Cdef_Error l' m) \<and>
    struct_field win sc \<lparr>LastLine = l0, c_rest = \<lparr>t_text = ''void'', t_line = l\<rparr> # \<lparr>t_text = ''('', t_line = l'\<rparr> # ts\<rparr> = Inl (Cdef_Error l' m')"
proof -
  let ?cur = "\<lparr>LastLine = l0, c_rest = \<lparr>t_text = ''void'', t_line = l\<rparr> # \<lparr>t_text = ''('', t_line = l'\<rparr> # ts\<rparr>"
  have words: "IsBaseTypeWord ''void''" "\<not> IsBaseTypeWord ''(''" by (simp_all add: IsBaseTypeWord_def base_type_words_def)
  have type: "ParseType win sc r v ?cur = word_type win v [''void''] \<lparr>LastLine = l, c_rest = \<lparr>t_text = ''('', t_line = l'\<rparr> # ts\<rparr>" for r v
    using assms words by (simp add: ParseType_def skip_while_def is_qualifier_def peeks_def)
  show ?thesis unfolding parameter_def struct_field_def type
    by (cases first) (simp_all add: word_type_def skip_while_def peeks_def here_def Fail_def Let_def Eof_def)
qed

theorem void_callback_rejected_witness:
  "\<exists>m. parameter False False (\<lparr>aliases = [], opaqueAggregateAliases = {}, definedAggregateAliases = {}\<rparr>) True
     \<lparr>LastLine = 1, c_rest = [\<lparr>t_text = ''void'', t_line = 2\<rparr>, \<lparr>t_text = ''('', t_line = 3\<rparr>]\<rparr> = Inl (Cdef_Error 3 m)"
  using void_callback_rejected [of "\<lparr>aliases = [], opaqueAggregateAliases = {}, definedAggregateAliases = {}\<rparr>" False False True 1 2 3 "[]"]
  by auto

end
