(* ===== verification/Lode_FfiTypes.thy ===== *)
theory Lode_FfiTypes
  imports Lode_CdefProps Lode_Value
begin

text \<open>
  Types of the ffi module (\<open>modules/ffi/src/Main.cpp\<close>): aggregate layouts, the registry of C types of a Luau state, its
  preamble of declarations, and the methods \<open>CDef\<close>, \<open>TypeOf\<close>, \<open>AlignOf\<close>, \<open>SizeOf\<close>, \<open>OffsetOf\<close>, \<open>Struct\<close> and \<open>Union\<close>.
  Sizes and offsets are 64-bit words. An \<open>unordered_map\<close> is an association list, and the order in which a loop visits one is
  a parameter. The registry is that of one main thread; a state without an entry has the empty one.
\<close>

section \<open>Errors and text\<close>

datatype ffi_error = Bind_Error string | Cdef_Failure cdef_error | Std_Exception

definition parse_cdef :: "bool \<Rightarrow> string \<Rightarrow> ffi_error + cdef_state" where
  "parse_cdef win source = (case ParseCdef win source of Inl e \<Rightarrow> Inl (Cdef_Failure e) | Inr st \<Rightarrow> Inr st)"

definition is_layout_blank :: "char \<Rightarrow> bool" where
  "is_layout_blank c \<longleftrightarrow> c \<in> {CHR '' '', CHR 0x09, CR, LF}"

definition trim_right :: "string \<Rightarrow> string" where
  "trim_right s = rev (dropWhile is_layout_blank (rev s))"

text \<open>The parts between semicolons, as the loops over fields cut them: nothing follows a final semicolon.\<close>

function field_pieces :: "string \<Rightarrow> string list" where
  "field_pieces s =
     (if s = [] then []
      else takeWhile (\<lambda>c. c \<noteq> CHR '';'') s #
        (case dropWhile (\<lambda>c. c \<noteq> CHR '';'') s of [] \<Rightarrow> [] | _ # r \<Rightarrow> field_pieces r))"
  by pat_completeness auto
termination
proof (relation "measure length", goal_cases)
  case (2 s c r)
  then show ?case using length_dropWhile_le [of "\<lambda>c. c \<noteq> CHR '';''" s] by simp
qed simp

declare field_pieces.simps [simp del]

section \<open>Layouts\<close>

record RawStructLayout =
  raw_size :: u64
  raw_alignment :: u64
  raw_offsets :: "(string \<times> u64) list"

definition RawStructLayout_new :: RawStructLayout where
  "RawStructLayout_new = \<lparr>raw_size = 0, raw_alignment = 1, raw_offsets = []\<rparr>"

definition align_up :: "u64 \<Rightarrow> u64 \<Rightarrow> u64" where
  "align_up offset alignment = (offset + alignment - 1) div alignment * alignment"

definition size_of :: "ArgClass \<Rightarrow> u64" where
  "size_of cls = of_nat (SizeOf cls)"

definition align_of :: "ArgClass \<Rightarrow> u64" where
  "align_of cls = of_nat (AlignOf cls)"

text \<open>\<open>emplace\<close> of an \<open>unordered_map\<close>: an existing entry stays.\<close>

definition emplace :: "'k \<Rightarrow> 'v \<Rightarrow> ('k \<times> 'v) list \<Rightarrow> ('k \<times> 'v) list" where
  "emplace k v m = (if map_of m k = None then m @ [(k, v)] else m)"

text \<open>The loop of \<open>LayoutFor\<close> over fields; \<open>classes\<close> are those from \<open>fieldIndex\<close> on. \<^const>\<open>None\<close>: an index outside the vector.\<close>

fun layout_loop :: "bool \<Rightarrow> (string \<times> nat) list \<Rightarrow> ArgClass list \<Rightarrow> u64 \<Rightarrow> RawStructLayout \<Rightarrow> (u64 \<times> RawStructLayout) option" where
  "layout_loop isUnion [] classes offset out = Some (offset, out)"
| "layout_loop isUnion ((name, count) # rest) classes offset out =
     (case classes of
        [] \<Rightarrow> None
      | type # _ \<Rightarrow>
          (let alignment = align_of type;
               place = (if isUnion then offset else align_up offset alignment);
               out1 = out\<lparr>raw_offsets := emplace name (if isUnion then 0 else place) (raw_offsets out)\<rparr>;
               bytes = size_of type * of_nat count;
               offset' = (if isUnion then max place bytes else place + bytes)
           in layout_loop isUnion rest (drop count classes) offset' (out1\<lparr>raw_alignment := max (raw_alignment out1) alignment\<rparr>)))"

definition LayoutFor :: "StructLayout \<Rightarrow> RawStructLayout option" where
  "LayoutFor layout =
     map_option (\<lambda>(offset, out). out\<lparr>raw_size := align_up offset (raw_alignment out)\<rparr>)
       (layout_loop (sl_isUnion layout) (zip (sl_fieldNames layout) (sl_fieldCounts layout)) (sl_fields layout) 0 RawStructLayout_new)"

text \<open>\<open>ParseStructLayout\<close>: the array suffix, the class and the name of a field declaration.\<close>

definition array_suffix :: "string \<Rightarrow> ffi_error + string \<times> u64" where
  "array_suffix field =
     (case find_idx (\<lambda>c. c = CHR ''['') field of
        None \<Rightarrow> Inr (field, 1)
      | Some openBracket \<Rightarrow>
          (case find_from '']'' field openBracket of
             None \<Rightarrow> Inl (Bind_Error (''ffi.struct: expected '' @ quoted '']'' @ '' after array size''))
           | Some closeBracket \<Rightarrow>
               (let extent = take (closeBracket - openBracket - 1) (drop (openBracket + 1) field)
                in if extent = [] then Inl (Bind_Error ''ffi.struct: array field requires a fixed size'')
                   else case stoull 10 extent of
                          None \<Rightarrow> Inl Std_Exception
                        | Some count \<Rightarrow>
                            if count = 0 then Inl (Bind_Error ''ffi.struct: array field size must not be zero'')
                            else Inr (trim_right (take openBracket field @ drop (closeBracket + 1) field), of_nat count))))"

definition single_class :: "string \<Rightarrow> cdef_state \<Rightarrow> ffi_error + ArgClass" where
  "single_class message st =
     (case protos st of
        [p] \<Rightarrow> (case p_args p of [cls] \<Rightarrow> Inr cls | _ \<Rightarrow> Inl (Bind_Error message))
      | _ \<Rightarrow> Inl (Bind_Error message))"

definition layout_field_name :: "string \<Rightarrow> ffi_error + string" where
  "layout_field_name field =
     (case find_sub ''(*'' field of
        Some functionOpen \<Rightarrow>
          (case find_from '')'' field (functionOpen + 2) of
             None \<Rightarrow> Inl (Bind_Error ''ffi.struct: malformed function-pointer field'')
           | Some nameEnd \<Rightarrow>
               if nameEnd = functionOpen + 2 then Inl (Bind_Error ''ffi.struct: malformed function-pointer field'')
               else Inr (take (nameEnd - (functionOpen + 2)) (drop (functionOpen + 2) field)))
      | None \<Rightarrow>
          (case rfind_idx (\<lambda>c. c = CHR '' '' \<or> c = CHR 0x09) field of
             None \<Rightarrow> Inl (Bind_Error ''ffi.struct: each field requires a name'')
           | Some nameBegin \<Rightarrow>
               if length field \<le> nameBegin + 1 then Inl (Bind_Error ''ffi.struct: each field requires a name'')
               else Inr (drop (nameBegin + 1) field)))"

text \<open>The state of the loop: the offset, the alignment, the offsets of fields, and whether there was a field.\<close>

type_synonym struct_progress = "u64 \<times> u64 \<times> (string \<times> u64) list \<times> bool"

definition struct_piece :: "bool \<Rightarrow> string \<Rightarrow> struct_progress \<Rightarrow> ffi_error + struct_progress" where
  "struct_piece win piece = (\<lambda>(offset, structAlignment, offsets, sawField).
     let field0 = trim_right (dropWhile is_layout_blank piece)
     in if field0 = [] then Inr (offset, structAlignment, offsets, sawField)
        else
          andThen (array_suffix field0) (\<lambda>(field, count).
          andThen (parse_cdef win (''void __ffi_struct_field('' @ field @ '');'')) (\<lambda>parsed.
          andThen (single_class ''ffi.struct: each field must have one supported C type'' parsed) (\<lambda>type.
          andThen (layout_field_name field) (\<lambda>name.
          let place = align_up offset (align_of type)
          in if map_of offsets name \<noteq> None then Inl (Bind_Error (''ffi.struct: duplicate field '' @ quoted name))
             else Inr (place + size_of type * count, max structAlignment (align_of type), offsets @ [(name, place)], True))))))"

fun struct_pieces :: "bool \<Rightarrow> string list \<Rightarrow> struct_progress \<Rightarrow> ffi_error + struct_progress" where
  "struct_pieces win [] s = Inr s"
| "struct_pieces win (p # ps) s = andThen (struct_piece win p s) (struct_pieces win ps)"

definition ParseStructLayout :: "bool \<Rightarrow> string \<Rightarrow> ffi_error + RawStructLayout" where
  "ParseStructLayout win source =
     andThen (struct_pieces win (field_pieces source) (0, 1, [], False)) (\<lambda>(offset, structAlignment, offsets, sawField).
     if \<not> sawField then Inl (Bind_Error ''ffi.struct: expected at least one field declaration'')
     else Inr \<lparr>raw_size = align_up offset structAlignment, raw_alignment = structAlignment, raw_offsets = offsets\<rparr>)"

fun union_offsets :: "string list \<Rightarrow> (string \<times> u64) list \<Rightarrow> ffi_error + (string \<times> u64) list" where
  "union_offsets [] offsets = Inr offsets"
| "union_offsets (n # ns) offsets =
     (if map_of offsets n \<noteq> None then Inl (Bind_Error (''ffi.union: duplicate field '' @ quoted n))
      else union_offsets ns (offsets @ [(n, 0)]))"

fun union_pieces :: "bool \<Rightarrow> string list \<Rightarrow> RawStructLayout \<times> bool \<Rightarrow> ffi_error + RawStructLayout \<times> bool" where
  "union_pieces win [] s = Inr s"
| "union_pieces win (p # ps) (layout, sawField) =
     (if list_all is_layout_blank p then union_pieces win ps (layout, sawField)
      else
        andThen (ParseStructLayout win (p @ '';'')) (\<lambda>member.
        andThen (union_offsets (map fst (raw_offsets member)) (raw_offsets layout)) (\<lambda>offsets.
        union_pieces win ps
          (\<lparr>raw_size = max (raw_size layout) (raw_size member), raw_alignment = max (raw_alignment layout) (raw_alignment member),
            raw_offsets = offsets\<rparr>, True))))"

definition ParseUnionLayout :: "bool \<Rightarrow> string \<Rightarrow> ffi_error + RawStructLayout" where
  "ParseUnionLayout win source =
     andThen (union_pieces win (field_pieces source) (RawStructLayout_new, False)) (\<lambda>(layout, sawField).
     if \<not> sawField then Inl (Bind_Error ''ffi.union: expected at least one field declaration'')
     else Inr (layout\<lparr>raw_size := align_up (raw_size layout) (raw_alignment layout)\<rparr>))"

section \<open>The registry\<close>

record RegisteredStruct =
  rs_layout :: StructLayout
  rs_raw :: RawStructLayout

record TypeRegistry =
  reg_structs :: "(string \<times> RegisteredStruct) list"
  reg_functionTypes :: "(string \<times> Prototype) list"
  reg_aliases :: "(string \<times> ArgClass) list"

definition TypeRegistry_new :: TypeRegistry where
  "TypeRegistry_new = \<lparr>reg_structs = [], reg_functionTypes = [], reg_aliases = []\<rparr>"

text \<open>The orders in which \<open>unordered_map\<close>s are visited.\<close>

record hash_order =
  visit_aliases :: "(string \<times> ArgClass) list \<Rightarrow> (string \<times> ArgClass) list"
  visit_functions :: "(string \<times> Prototype) list \<Rightarrow> (string \<times> Prototype) list"

fun CanonicalTypeName :: "ArgClass \<Rightarrow> string option" where
  "CanonicalTypeName Arg_Bool = Some ''bool''" | "CanonicalTypeName Arg_I8 = Some ''int8_t''"
| "CanonicalTypeName Arg_U8 = Some ''uint8_t''" | "CanonicalTypeName Arg_I16 = Some ''int16_t''"
| "CanonicalTypeName Arg_U16 = Some ''uint16_t''" | "CanonicalTypeName Arg_I32 = Some ''int32_t''"
| "CanonicalTypeName Arg_U32 = Some ''uint32_t''" | "CanonicalTypeName Arg_I64 = Some ''int64_t''"
| "CanonicalTypeName Arg_U64 = Some ''uint64_t''" | "CanonicalTypeName Arg_Ptr = Some ''void*''"
| "CanonicalTypeName Arg_F32 = Some ''float''" | "CanonicalTypeName Arg_F64 = Some ''double''"
| "CanonicalTypeName Arg_Struct = None"

fun retName :: "RetKind \<Rightarrow> string option" where
  "retName Ret_Void = Some ''void''" | "retName Ret_Bool = Some ''bool''"
| "retName Ret_I8 = Some ''int8_t''" | "retName Ret_U8 = Some ''uint8_t''"
| "retName Ret_I16 = Some ''int16_t''" | "retName Ret_U16 = Some ''uint16_t''"
| "retName Ret_I32 = Some ''int32_t''" | "retName Ret_U32 = Some ''uint32_t''"
| "retName Ret_I64 = Some ''int64_t''" | "retName Ret_U64 = Some ''uint64_t''"
| "retName Ret_Ptr = Some ''void*''" | "retName Ret_F32 = Some ''float''"
| "retName Ret_F64 = Some ''double''" | "retName Ret_Struct = None"

definition alias_line :: "string \<times> ArgClass \<Rightarrow> string" where
  "alias_line a = (case CanonicalTypeName (snd a) of None \<Rightarrow> [] | Some canonical \<Rightarrow> ''typedef '' @ canonical @ '' '' @ fst a @ '';'' @ [LF])"

definition canonical_arg :: "ArgClass \<Rightarrow> string" where
  "canonical_arg cls = (case CanonicalTypeName cls of None \<Rightarrow> ''void*'' | Some n \<Rightarrow> n)"

definition function_line :: "string \<times> Prototype \<Rightarrow> string" where
  "function_line f =
     (case retName (p_ret (snd f)) of
        None \<Rightarrow> []
      | Some ret \<Rightarrow>
          ''typedef '' @ ret @ '' ('' @ (if p_convention (snd f) = Conv_Stdcall then ''__stdcall '' else []) @ ''*'' @ fst f @ '')( '' @
          (if p_args (snd f) = [] then ''void'' else join_comma (map canonical_arg (p_args (snd f)))) @ '');'' @ [LF])"

definition RegistryPreamble :: "hash_order \<Rightarrow> TypeRegistry \<Rightarrow> string" where
  "RegistryPreamble h registry =
     concat (map alias_line (visit_aliases h (reg_aliases registry))) @
     concat (map function_line (visit_functions h (reg_functionTypes registry)))"

definition ParseForState :: "bool \<Rightarrow> hash_order \<Rightarrow> TypeRegistry \<Rightarrow> string \<Rightarrow> ffi_error + cdef_state" where
  "ParseForState win h registry declarations = parse_cdef win (RegistryPreamble h registry @ declarations)"

definition ParseTypeSize :: "bool \<Rightarrow> string \<Rightarrow> ffi_error + nat" where
  "ParseTypeSize win declaration =
     andThen (parse_cdef win (''void __ffi_sizeof('' @ declaration @ '' value);'')) (\<lambda>parsed.
     map_sum id SizeOf (single_class ''ffi.sizeof: expected one C type'' parsed))"

definition ParseSingleType :: "bool \<Rightarrow> hash_order \<Rightarrow> TypeRegistry option \<Rightarrow> string \<Rightarrow> ffi_error + ArgClass" where
  "ParseSingleType win h registry type =
     (let source = (case registry of None \<Rightarrow> [] | Some r \<Rightarrow> RegistryPreamble h r)
      in andThen (parse_cdef win (source @ ''void __ffi_type('' @ type @ '' value);''))
           (single_class ''ffi: expected one supported C type''))"

definition SameLayout :: "StructLayout \<Rightarrow> StructLayout \<Rightarrow> bool" where
  "SameLayout l r \<longleftrightarrow> sl_isUnion l = sl_isUnion r \<and> sl_fields l = sl_fields r \<and>
     sl_fieldStructNames l = sl_fieldStructNames r \<and> sl_fieldNames l = sl_fieldNames r \<and> sl_fieldCounts l = sl_fieldCounts r"

definition SamePrototype :: "Prototype \<Rightarrow> Prototype \<Rightarrow> bool" where
  "SamePrototype l r \<longleftrightarrow> p_args l = p_args r \<and> p_argStructNames l = p_argStructNames r \<and> p_ret l = p_ret r \<and>
     p_retStructName l = p_retStructName r \<and> p_convention l = p_convention r"

section \<open>The methods of the module\<close>

text \<open>
  A loop of \<open>CDef\<close> over what was parsed: an unknown name is added, a known one must be the same. What was added stays when
  a later entry raises. \<open>entry\<close> builds the entry; \<^const>\<open>None\<close> is undefined behaviour in \<open>LayoutFor\<close>.
\<close>

fun register_all :: "('v \<Rightarrow> 'w option) \<Rightarrow> ('w \<Rightarrow> 'v \<Rightarrow> bool) \<Rightarrow> string \<Rightarrow> (string \<times> 'v) list \<Rightarrow> (string \<times> 'w) list \<Rightarrow>
    ffi_error option \<times> (string \<times> 'w) list" where
  "register_all entry same what [] m = (None, m)"
| "register_all entry same what ((n, v) # rest) m =
     (case entry v of
        None \<Rightarrow> (Some (Cdef_Failure Cdef_Undefined), m)
      | Some w \<Rightarrow>
          (case map_of m n of
             None \<Rightarrow> register_all entry same what rest (m @ [(n, w)])
           | Some old \<Rightarrow>
               if same old v then register_all entry same what rest m
               else (Some (Bind_Error (''ffi.cdef: incompatible redefinition of '' @ what @ '' '' @ quoted n)), m)))"

definition make_struct :: "StructLayout \<Rightarrow> RegisteredStruct option" where
  "make_struct l = map_option (\<lambda>r. \<lparr>rs_layout = l, rs_raw = r\<rparr>) (LayoutFor l)"

definition parse_block :: "bool \<Rightarrow> hash_order \<Rightarrow> TypeRegistry \<Rightarrow> string \<Rightarrow> ffi_error + cdef_state" where
  "parse_block win h registry source =
     (case parse_cdef win (RegistryPreamble h registry @ source) of
        Inl (Cdef_Failure (Cdef_Error _ _)) \<Rightarrow> parse_cdef win source
      | r \<Rightarrow> r)"

definition CDef :: "bool \<Rightarrow> hash_order \<Rightarrow> TypeRegistry \<Rightarrow> string \<Rightarrow> ffi_error option \<times> TypeRegistry" where
  "CDef win h registry source =
     (case parse_block win h registry source of
        Inl e \<Rightarrow> (Some e, registry)
      | Inr parsed \<Rightarrow>
          (let (e1, ss) = register_all make_struct (\<lambda>old l. SameLayout (rs_layout old) l) ''type''
                 (map (\<lambda>l. (sl_name l, l)) (structs parsed)) (reg_structs registry);
               r1 = registry\<lparr>reg_structs := ss\<rparr>
           in if e1 \<noteq> None then (e1, r1)
              else
                let (e2, as) = register_all Some (=) ''alias'' (visit_aliases h (aliases (scope parsed))) (reg_aliases r1);
                    r2 = r1\<lparr>reg_aliases := as\<rparr>
                in if e2 \<noteq> None then (e2, r2)
                   else
                     let (e3, fs) = register_all Some SamePrototype ''function type''
                           (visit_functions h (functionTypes parsed)) (reg_functionTypes r2)
                     in (e3, r2\<lparr>reg_functionTypes := fs\<rparr>)))"

text \<open>The class of a name that is no aggregate.\<close>

definition scalar_of :: "bool \<Rightarrow> hash_order \<Rightarrow> TypeRegistry \<Rightarrow> string \<Rightarrow> ffi_error + ArgClass" where
  "scalar_of win h registry name =
     (case map_of (reg_aliases registry) name of Some cls \<Rightarrow> Inr cls | None \<Rightarrow> ParseSingleType win h (Some registry) name)"

text \<open>The descriptor of \<open>TypeOf\<close>: name, size, alignment, offsets, and whether it is a function type.\<close>

record type_descriptor =
  td_Name :: string
  td_Size :: u64
  td_Align :: u64
  td_Offset :: "(string \<times> u64) list"
  td_function :: bool

definition TypeOf :: "bool \<Rightarrow> hash_order \<Rightarrow> TypeRegistry \<Rightarrow> string \<Rightarrow> ffi_error + type_descriptor" where
  "TypeOf win h registry name =
     (case map_of (reg_structs registry) name of
        Some found \<Rightarrow> Inr \<lparr>td_Name = name, td_Size = raw_size (rs_raw found), td_Align = raw_alignment (rs_raw found),
          td_Offset = raw_offsets (rs_raw found), td_function = False\<rparr>
      | None \<Rightarrow>
          if map_of (reg_functionTypes registry) name \<noteq> None then
            Inr \<lparr>td_Name = name, td_Size = 8, td_Align = 8, td_Offset = [], td_function = True\<rparr>
          else map_sum id (\<lambda>cls. \<lparr>td_Name = name, td_Size = size_of cls, td_Align = align_of cls, td_Offset = [], td_function = False\<rparr>)
                 (scalar_of win h registry name))"

definition AlignOf_method :: "bool \<Rightarrow> hash_order \<Rightarrow> TypeRegistry \<Rightarrow> string \<Rightarrow> ffi_error + u64" where
  "AlignOf_method win h registry name =
     (case map_of (reg_structs registry) name of
        Some found \<Rightarrow> Inr (raw_alignment (rs_raw found))
      | None \<Rightarrow> map_sum id align_of (scalar_of win h registry name))"

definition SizeOf_method :: "bool \<Rightarrow> TypeRegistry \<Rightarrow> string \<Rightarrow> ffi_error + u64" where
  "SizeOf_method win registry name =
     (case map_of (reg_structs registry) name of
        Some found \<Rightarrow> Inr (raw_size (rs_raw found))
      | None \<Rightarrow>
          (case map_of (reg_aliases registry) name of
             Some cls \<Rightarrow> Inr (size_of cls)
           | None \<Rightarrow> map_sum id of_nat (ParseTypeSize win name)))"

definition OffsetOf_method :: "TypeRegistry \<Rightarrow> string \<Rightarrow> string \<Rightarrow> ffi_error + u64" where
  "OffsetOf_method registry name field =
     (case map_of (reg_structs registry) name of
        None \<Rightarrow> Inl (Bind_Error ''FFI.OffsetOf: type is not a registered aggregate'')
      | Some type \<Rightarrow>
          (case map_of (raw_offsets (rs_raw type)) field of
             None \<Rightarrow> Inl (Bind_Error (''FFI.OffsetOf: unknown field '' @ quoted field))
           | Some offset \<Rightarrow> Inr offset))"

text \<open>\<open>Struct\<close> and \<open>Union\<close> give a zeroed buffer of the size of the layout.\<close>

definition Struct_method :: "bool \<Rightarrow> string \<Rightarrow> ffi_error + bytes" where
  "Struct_method win source = map_sum id (\<lambda>l. replicate (unat (raw_size l)) 0) (ParseStructLayout win source)"

definition Union_method :: "bool \<Rightarrow> string \<Rightarrow> ffi_error + bytes" where
  "Union_method win source = map_sum id (\<lambda>l. replicate (unat (raw_size l)) 0) (ParseUnionLayout win source)"

section \<open>Layouts against the rules of the C ABI\<close>

lemma unat_align_up:
  assumes "a \<in> {1, 2, 4, 8}" "unat x + 8 < 2 ^ 64"
  shows "unat (align_up x (of_nat a)) = (unat x + a - 1) div a * a"
proof -
  have a: "unat (of_nat a :: u64) = a" using assms(1) by auto
  have s: "unat (x + of_nat a - 1) = unat x + a - 1"
  proof -
    have "x + of_nat a - 1 = of_nat (unat x + a - 1)" using assms(1) by (auto simp: of_nat_diff)
    moreover have "unat x + a - 1 < 2 ^ 64" using assms by auto
    ultimately show ?thesis by (simp add: unat_of_nat)
  qed
  have le: "(unat x + a - 1) div a * a < 2 ^ 64"
  proof -
    have "(unat x + a - 1) div a * a \<le> unat x + a - 1" by (rule div_times_less_eq_dividend)
    then show ?thesis using assms by auto
  qed
  show ?thesis unfolding align_up_def unat_word_ariths(2) unat_div_distrib s a using le by simp
qed

lemma round_up_bounds:
  fixes a :: nat assumes "0 < a"
  shows "x \<le> (x + a - 1) div a * a" "(x + a - 1) div a * a < x + a" "a dvd (x + a - 1) div a * a"
proof -
  have "(x + a - 1) div a * a \<le> x + a - 1" by (rule div_times_less_eq_dividend)
  then show "(x + a - 1) div a * a < x + a" using assms by linarith
  have "(x + a - 1) mod a < a" using assms by simp
  moreover have "(x + a - 1) div a * a + (x + a - 1) mod a = x + a - 1" by simp
  ultimately show "x \<le> (x + a - 1) div a * a" using assms by linarith
qed simp

lemma AlignOf_cases: "AlignOf c \<in> {1, 2, 4, 8}" "0 < AlignOf c" "AlignOf c \<le> 8" "SizeOf c \<le> 8"
  by (cases c; simp)+


fun members_of :: "(string \<times> nat) list \<Rightarrow> ArgClass list \<Rightarrow> (string \<times> ArgClass \<times> nat) list" where
  "members_of [] cs = []"
| "members_of ((n, k) # rest) cs = (n, hd cs, k) # members_of rest (drop k cs)"

definition members :: "StructLayout \<Rightarrow> (string \<times> ArgClass \<times> nat) list" where
  "members l = members_of (zip (sl_fieldNames l) (sl_fieldCounts l)) (sl_fields l)"

text \<open>Every member starts at the first address from the end of the one before on that its alignment divides.\<close>

fun placed :: "nat \<Rightarrow> (string \<times> ArgClass \<times> nat) list \<Rightarrow> nat list \<Rightarrow> nat \<Rightarrow> bool" where
  "placed start [] os fin \<longleftrightarrow> os = [] \<and> fin = start"
| "placed start ((n, c, k) # ms) (off # os) fin \<longleftrightarrow>
     start \<le> off \<and> off < start + AlignOf c \<and> AlignOf c dvd off \<and> placed (off + SizeOf c * k) ms os fin"
| "placed start (m # ms) [] fin \<longleftrightarrow> False"

lemma unat_max_word: "unat (max x y :: 'a::len word) = max (unat x) (unat y)"
  by (simp add: max_def word_le_nat_alt)

definition room :: "(string \<times> ArgClass \<times> nat) list \<Rightarrow> nat" where
  "room ms = (\<Sum>(n, c, k) \<leftarrow> ms. SizeOf c * k + 8)"

fun alignment_of :: "(string \<times> ArgClass \<times> nat) list \<Rightarrow> nat" where
  "alignment_of [] = 1"
| "alignment_of ((n, c, k) # ms) = max (AlignOf c) (alignment_of ms)"

lemma room_simps [simp]: "room [] = 0" "room ((n, c, k) # ms) = SizeOf c * k + 8 + room ms"
  by (simp_all add: room_def)

lemma layout_loop_placed:
  assumes "sum_list (map snd nks) = length cs" "0 \<notin> snd ` set nks" "distinct (map fst nks)"
    "fst ` set nks \<inter> fst ` set (raw_offsets out) = {}"
    "unat start + room (members_of nks cs) + 8 < 2 ^ 64" "unat (raw_alignment out) = A" "1 \<le> A" "A \<le> 8"
  shows "\<exists>os fin out'. layout_loop False nks cs start out = Some (of_nat fin, out') \<and> placed (unat start) (members_of nks cs) os fin \<and>
    fin \<le> unat start + room (members_of nks cs) \<and>
    raw_offsets out' = raw_offsets out @ zip (map fst nks) (map of_nat os) \<and>
    unat (raw_alignment out') = max A (alignment_of (members_of nks cs))"
  using assms
proof (induction nks arbitrary: cs start out A)
  case Nil
  then show ?case by (intro exI [of _ "[]"] exI [of _ "unat start"]) auto
next
  case (Cons nk nks)
  obtain n k where nk: "nk = (n, k)" by (cases nk)
  have k: "0 < k" using Cons.prems(2) nk by auto
  obtain c cs' where cs: "cs = c # cs'" using Cons.prems(1) k nk by (cases cs) auto
  let ?a = "AlignOf c"
  have a: "?a \<in> {1, 2, 4, 8}" "0 < ?a" "?a \<le> 8" by (rule AlignOf_cases)+
  have bound: "unat start + SizeOf c * k + 8 + room (members_of nks (drop k cs)) + 8 < 2 ^ 64"
    using Cons.prems(5) by (simp add: nk cs)
  define off where "off = unat (align_up start (align_of c))"
  have offv: "off = (unat start + AlignOf c - 1) div AlignOf c * AlignOf c"
    unfolding off_def align_of_def using a bound by (intro unat_align_up) auto
  have offb: "unat start \<le> off" "off < unat start + ?a" "?a dvd off" unfolding offv using round_up_bounds [OF a(2)] by blast+
  have o: "align_up start (align_of c) = of_nat off" by (simp add: off_def)
  define st' where "st' = align_up start (align_of c) + size_of c * of_nat k"
  have "of_nat (off + SizeOf c * k) = st'" by (simp add: st'_def size_of_def o)
  moreover have small: "off + SizeOf c * k < 2 ^ 64" using offb a bound by linarith
  moreover have "unat (of_nat (off + SizeOf c * k) :: u64) = (off + SizeOf c * k) mod 2 ^ 64" by (subst unat_of_nat) simp
  ultimately have st': "unat st' = off + SizeOf c * k" by (metis mod_less)
  let ?out = "out\<lparr>raw_offsets := raw_offsets out @ [(n, align_up start (align_of c))], raw_alignment := max (raw_alignment out) (align_of c)\<rparr>"
  have new: "emplace n v (raw_offsets out) = raw_offsets out @ [(n, v)]" for v
    using Cons.prems(4) by (auto simp: emplace_def map_of_eq_None_iff nk)
  have align: "unat (max (raw_alignment out) (align_of c)) = max A ?a"
    using a Cons.prems(6) by (auto simp: unat_max_word align_of_def)
  have "\<exists>os fin out'. layout_loop False nks (drop k cs) st' ?out = Some (of_nat fin, out') \<and>
      placed (unat st') (members_of nks (drop k cs)) os fin \<and> fin \<le> unat st' + room (members_of nks (drop k cs)) \<and>
      raw_offsets out' = raw_offsets ?out @ zip (map fst nks) (map of_nat os) \<and>
      unat (raw_alignment out') = max (max A ?a) (alignment_of (members_of nks (drop k cs)))"
  proof (rule Cons.IH)
    show "unat st' + room (members_of nks (drop k cs)) + 8 < 2 ^ 64" using bound offb a by (simp add: st')
    show "unat (raw_alignment ?out) = max A ?a" using align by simp
  qed (use Cons.prems a nk in auto)
  then obtain os fin out' where ih: "layout_loop False nks (drop k cs) st' ?out = Some (of_nat fin, out')"
    "placed (unat st') (members_of nks (drop k cs)) os fin" "fin \<le> unat st' + room (members_of nks (drop k cs))"
    "raw_offsets out' = raw_offsets ?out @ zip (map fst nks) (map of_nat os)"
    "unat (raw_alignment out') = max (max A ?a) (alignment_of (members_of nks (drop k cs)))" by blast
  have "layout_loop False ((n, k) # nks) (c # cs') start out = Some (of_nat fin, out')"
    using ih(1) by (simp add: Let_def new cs st'_def)
  moreover have "placed (unat start) (members_of ((n, k) # nks) (c # cs')) (off # os) fin"
    using ih(2) offb by (simp add: st' cs)
  moreover have "fin \<le> unat start + room (members_of ((n, k) # nks) (c # cs'))"
    using ih(3) offb a by (simp add: st' cs)
  moreover have "raw_offsets out' = raw_offsets out @ zip (map fst (nk # nks)) (map of_nat (off # os))"
    using ih(4) by (simp add: nk o)
  moreover have "unat (raw_alignment out') = max A (alignment_of (members_of ((n, k) # nks) (c # cs')))"
    using ih(5) by (simp add: cs max.assoc)
  ultimately show ?case unfolding nk cs by blast
qed

lemma alignment_of_cases: "alignment_of ms \<in> {1, 2, 4, 8}"
proof (induction ms rule: alignment_of.induct)
  case (2 n c k ms)
  then show ?case using AlignOf_cases(1) [of c] by (auto simp: max_def)
qed simp

lemma align_up_word:
  assumes "a \<in> {1, 2, 4, 8}" "unat al = a" "x + 8 < 2 ^ 64"
  shows "unat (align_up (of_nat x) al) = (x + a - 1) div a * a"
proof -
  have x: "unat (of_nat x :: u64) = x" using assms(3) by (simp add: unat_of_nat)
  have "al = of_nat a" using assms(2) by auto
  then show ?thesis using unat_align_up [OF assms(1), of "of_nat x"] assms(3) x by simp
qed


definition demo_layout :: StructLayout where
  "demo_layout = \<lparr>sl_name = ''Mixed'', sl_fields = [Arg_I8, Arg_F64, Arg_I16, Arg_I16, Arg_I16], sl_fieldStructNames = [[], [], [], [], []],
     sl_fieldNames = [''tag'', ''value'', ''codes''], sl_fieldCounts = [1, 1, 3], sl_isUnion = False\<rparr>"


section \<open>The registry only grows\<close>

lemma register_all_grows:
  "register_all entry same what nvs m = (e, m') \<Longrightarrow> map_of m \<subseteq>\<^sub>m map_of m'"
proof (induction entry same what nvs m rule: register_all.induct)
  case (2 entry same what n v rest m)
  have snoc: "map_of m \<subseteq>\<^sub>m [n \<mapsto> w] ++ map_of m" for w by (auto simp: map_le_def map_add_def)
  show ?case using "2.prems" "2.IH" by (auto split: option.splits if_splits intro: map_le_trans [OF snoc])
qed simp

text \<open>What a registered entry is made from.\<close>

lemma register_all_entries:
  "register_all entry same what nvs m = (e, m') \<Longrightarrow> (n, w) \<in> set m' \<Longrightarrow> (n, w) \<in> set m \<or> (\<exists>v. (n, v) \<in> set nvs \<and> entry v = Some w)"
  by (induction entry same what nvs m rule: register_all.induct) (auto split: option.splits if_splits)

text \<open>C40. Declarations never change a registered type: an entry stays what it was, also when \<open>CDef\<close> raises half-way.\<close>

theorem cdef_types_stable:
  assumes "CDef win h registry source = (e, registry')"
  shows "map_of (reg_structs registry) \<subseteq>\<^sub>m map_of (reg_structs registry') \<and>
    map_of (reg_aliases registry) \<subseteq>\<^sub>m map_of (reg_aliases registry') \<and>
    map_of (reg_functionTypes registry) \<subseteq>\<^sub>m map_of (reg_functionTypes registry')"
  using assms by (auto simp: CDef_def Let_def split: sum.splits prod.splits if_splits dest!: register_all_grows)

theorem cdef_types_stable_witness:
  "\<exists>e registry. CDef False \<lparr>visit_aliases = (\<lambda>m. m), visit_functions = (\<lambda>m. m)\<rparr>
      \<lparr>reg_structs = [], reg_functionTypes = [], reg_aliases = [(''T'', Arg_I32)]\<rparr> ''typedef int U; struct P { int x };'' = (e, registry) \<and>
    map_of (reg_aliases registry) ''T'' = Some Arg_I32"
proof -
  let ?h = "\<lparr>visit_aliases = (\<lambda>m. m), visit_functions = (\<lambda>m. m)\<rparr>"
  let ?r = "\<lparr>reg_structs = [], reg_functionTypes = [], reg_aliases = [(''T'', Arg_I32)]\<rparr>"
  obtain e registry where cdef: "CDef False ?h ?r ''typedef int U; struct P { int x };'' = (e, registry)" by (metis surj_pair)
  then have "map_of [(''T'', Arg_I32)] \<subseteq>\<^sub>m map_of (reg_aliases registry)" using cdef_types_stable by fastforce
  then have "map_of (reg_aliases registry) ''T'' = Some Arg_I32" by (auto simp: map_le_def)
  then show ?thesis using cdef by blast
qed

end
