(* ===== verification/Lode_CdefText.thy ===== *)
theory Lode_CdefText
  imports Lode_FfiTypes
begin

text \<open>
  From texts to tokens to types: what the declaration parser makes of the words of a C type, and what later
  declarations see of the types a state has registered, through the preamble of declarations
  that \<open>RegistryPreamble\<close> writes in front of them.
\<close>

section \<open>Tokens of declarations\<close>

definition word_token :: "string \<Rightarrow> bool" where
  "word_token w \<longleftrightarrow> w \<noteq> [] \<and> (is_alpha (hd w) \<or> hd w = CHR ''_'') \<and> list_all is_word_char w"

lemma is_alpha_word: "is_alpha c \<or> c = CHR ''_'' \<Longrightarrow> c \<noteq> LF \<and> \<not> is_space c \<and> c \<noteq> CHR ''/'' \<and> \<not> is_digit c"
  by (auto simp: char_class_defs)

lemma tokenize_word:
  assumes "word_token w" "s = [] \<or> \<not> is_word_char (hd s)"
  shows "tokenize line (w @ s) = map_sum id (Cons \<lparr>t_text = w, t_line = line\<rparr>) (tokenize line s)"
proof -
  obtain c v where w: "w = c # v" using assms(1) by (cases w) (auto simp: word_token_def)
  have c: "is_alpha c \<or> c = CHR ''_''" using assms(1) w by (simp add: word_token_def)
  have tw: "takeWhile is_word_char (w @ s) = w" "dropWhile is_word_char (w @ s) = s"
    using assms takeWhile_digits [of is_word_char w s] by (auto simp: word_token_def)
  show ?thesis using is_alpha_word [OF c] c tw unfolding w by (simp add: tokenize.simps(2))
qed

lemma tokenize_blank: "tokenize line (CHR '' '' # s) = tokenize line s"
  by (simp add: tokenize.simps(2) char_class_defs)

lemma tokenize_newline: "tokenize line (LF # s) = tokenize (Suc line) s"
  by (simp add: tokenize.simps(2))

lemma is_punctuation_other:
  "is_punctuation c \<Longrightarrow> c \<noteq> LF \<and> \<not> is_space c \<and> c \<noteq> CHR ''/'' \<and> \<not> is_alpha c \<and> c \<noteq> CHR ''_'' \<and> \<not> is_digit c"
  by (auto simp: is_punctuation_def char_class_defs)

lemma tokenize_punctuation:
  "is_punctuation c \<Longrightarrow> tokenize line (c # s) = map_sum id (Cons \<lparr>t_text = [c], t_line = line\<rparr>) (tokenize line s)"
  using is_punctuation_other [of c] by (simp add: tokenize.simps(2))

lemma map_sum_id_comp: "map_sum id f (map_sum id g r) = map_sum id (\<lambda>x. f (g x)) r"
  by (cases r) auto

text \<open>Texts with the tokens they start with, on one line.\<close>

definition lexes :: "string \<Rightarrow> string list \<Rightarrow> bool" where
  "lexes s ws \<longleftrightarrow> (\<forall>line r. r = [] \<or> \<not> is_word_char (hd r) \<longrightarrow>
     tokenize line (s @ r) = map_sum id (\<lambda>ts. map (\<lambda>w. \<lparr>t_text = w, t_line = line\<rparr>) ws @ ts) (tokenize line r))"

lemma lexes_word: "word_token w \<Longrightarrow> lexes w [w]"
  by (auto simp: lexes_def tokenize_word)

lemma not_word_char: "\<not> is_word_char (CHR '' '')" "\<not> is_word_char LF" "is_punctuation c \<Longrightarrow> \<not> is_word_char c"
  by (auto simp: is_word_char_def char_class_defs is_punctuation_def)

text \<open>The same where any text may follow.\<close>

definition lexes_any :: "string \<Rightarrow> string list \<Rightarrow> bool" where
  "lexes_any s ws \<longleftrightarrow> (\<forall>line r. tokenize line (s @ r) = map_sum id (\<lambda>ts. map (\<lambda>w. \<lparr>t_text = w, t_line = line\<rparr>) ws @ ts) (tokenize line r))"

lemma lexes_punctuation: "is_punctuation c \<Longrightarrow> lexes_any [c] [[c]]"
  by (simp add: lexes_any_def tokenize_punctuation)

lemma lexes_blank: "lexes_any '' '' []"
  by (simp add: lexes_any_def tokenize_blank map_sum.identity [unfolded id_def] id_def)

lemma lexes_any_append: "lexes_any s ws \<Longrightarrow> lexes_any t vs \<Longrightarrow> lexes_any (s @ t) (ws @ vs)"
  by (simp add: lexes_any_def map_sum_id_comp)

lemma lexes_append: "lexes_any s ws \<Longrightarrow> lexes t vs \<Longrightarrow> lexes (s @ t) (ws @ vs)"
  by (simp add: lexes_any_def lexes_def map_sum_id_comp)

lemma lexes_ends: "lexes s ws \<Longrightarrow> lexes_any t vs \<Longrightarrow> t \<noteq> [] \<Longrightarrow> \<not> is_word_char (hd t) \<Longrightarrow> lexes_any (s @ t) (ws @ vs)"
  by (simp add: lexes_any_def lexes_def map_sum_id_comp)

lemma lexes_any_lexes: "lexes_any s ws \<Longrightarrow> lexes s ws"
  by (simp add: lexes_any_def lexes_def)

definition toks :: "nat \<Rightarrow> string list \<Rightarrow> Token list" where
  "toks line ws = map (\<lambda>w. \<lparr>t_text = w, t_line = line\<rparr>) ws"

lemma toks_simps [simp]: "toks line [] = []" "toks line (w # ws) = \<lparr>t_text = w, t_line = line\<rparr> # toks line ws"
  "toks line (ws @ vs) = toks line ws @ toks line vs"
  by (simp_all add: toks_def)

fun canon_tokens :: "ArgClass \<Rightarrow> string list" where
  "canon_tokens Arg_Bool = [''bool'']" | "canon_tokens Arg_I8 = [''int8_t'']"
| "canon_tokens Arg_U8 = [''uint8_t'']" | "canon_tokens Arg_I16 = [''int16_t'']"
| "canon_tokens Arg_U16 = [''uint16_t'']" | "canon_tokens Arg_I32 = [''int32_t'']"
| "canon_tokens Arg_U32 = [''uint32_t'']" | "canon_tokens Arg_I64 = [''int64_t'']"
| "canon_tokens Arg_U64 = [''uint64_t'']" | "canon_tokens Arg_Ptr = [''void'', ''*'']"
| "canon_tokens Arg_F32 = [''float'']" | "canon_tokens Arg_F64 = [''double'']"
| "canon_tokens Arg_Struct = []"

definition plain_name :: "string \<Rightarrow> bool" where
  "plain_name n \<longleftrightarrow> word_token n \<and> \<not> IsBaseTypeWord n \<and> n \<notin> {''typedef'', ''struct'', ''union'', ''enum''}"

definition plain_scope :: "cdef_scope \<Rightarrow> bool" where
  "plain_scope sc \<longleftrightarrow> (\<forall>n. is_alias sc n \<longrightarrow> plain_name n)"

lemma plain_scope_None: "plain_scope sc \<Longrightarrow> \<not> plain_name w \<Longrightarrow> map_of (aliases sc) w = None"
  unfolding plain_scope_def is_alias_def by blast

lemma base_words_not_plain: "IsBaseTypeWord w \<Longrightarrow> \<not> plain_name w"
  by (simp add: plain_name_def)

lemma integer_class_canonical:
  "integer_class win ''bool'' = Arg_Bool" "integer_class win ''int8_t'' = Arg_I8" "integer_class win ''uint8_t'' = Arg_U8"
  "integer_class win ''int16_t'' = Arg_I16" "integer_class win ''uint16_t'' = Arg_U16" "integer_class win ''int32_t'' = Arg_I32"
  "integer_class win ''uint32_t'' = Arg_U32" "integer_class win ''int64_t'' = Arg_I64" "integer_class win ''uint64_t'' = Arg_U64"
  by (simp_all add: integer_class_def Contains_def)

text \<open>A canonical type is read back, whatever follows that no type goes on with.\<close>

definition type_stops :: "cdef_scope \<Rightarrow> Token list \<Rightarrow> bool" where
  "type_stops sc ts \<longleftrightarrow> (case ts of [] \<Rightarrow> True | t # _ \<Rightarrow> \<not> IsBaseTypeWord (t_text t) \<and> \<not> is_alias sc (t_text t) \<and> t_text t \<noteq> ''*'')"

lemma ParseType_canonical:
  assumes "plain_scope sc" "type_stops sc ts" "cls \<noteq> Arg_Struct"
  shows "ParseType win sc r0 v \<lparr>LastLine = l0, c_rest = toks l (canon_tokens cls) @ ts\<rparr> =
    Inr (cls, the (class_ret cls), [], \<lparr>LastLine = l, c_rest = ts\<rparr>)"
proof -
  have none: "map_of (aliases sc) w = None" if "IsBaseTypeWord w" for w
    using plain_scope_None [OF assms(1)] base_words_not_plain that by blast
  have words: "\<forall>w \<in> {''bool'', ''int8_t'', ''uint8_t'', ''int16_t'', ''uint16_t'', ''int32_t'', ''uint32_t'', ''int64_t'', ''uint64_t'',
      ''float'', ''double'', ''void''}. IsBaseTypeWord w \<and> map_of (aliases sc) w = None"
    using none by (simp add: IsBaseTypeWord_def base_type_words_def)
  have star: "\<not> IsBaseTypeWord ''*''" "map_of (aliases sc) ''*'' = None"
    using plain_scope_None [OF assms(1), of "''*''"] by (simp_all add: IsBaseTypeWord_def base_type_words_def plain_name_def word_token_def char_class_defs)
  have stop: "scan_words sc ws l ts = Scan_Words ws \<lparr>LastLine = l, c_rest = ts\<rparr>" "skip_tokens (\<lambda>w. w = ''*'') l ts = \<lparr>LastLine = l, c_rest = ts\<rparr>"
    "\<not> peeks (\<lambda>w. w = ''*'') \<lparr>LastLine = l, c_rest = ts\<rparr>" for ws
    using assms(2) by (cases ts; auto simp: type_stops_def is_alias_def peeks_def)+
  show ?thesis using assms(3) words star stop
    by (cases cls) (simp_all add: ParseType_def skip_while_def is_qualifier_def peeks_def word_type_def integer_class_canonical)
qed

section \<open>Words of types\<close>

lemma scan_words_all:
  "\<forall>w \<in> set vs. IsBaseTypeWord w \<and> map_of (aliases sc) w = None \<Longrightarrow>
     scan_words sc ws l0 (toks l vs @ ts) = scan_words sc (ws @ vs) (if vs = [] then l0 else l) ts"
  by (induction vs arbitrary: ws l0) auto

lemma skip_qualifiers:
  "\<forall>w \<in> set qs. is_qualifier w \<Longrightarrow> skip_tokens is_qualifier l0 (toks l qs @ ts) = skip_tokens is_qualifier (if qs = [] then l0 else l) ts"
  by (induction qs arbitrary: l0) auto

definition no_words :: "cdef_scope \<Rightarrow> bool" where
  "no_words sc \<longleftrightarrow> (\<forall>w. IsBaseTypeWord w \<longrightarrow> map_of (aliases sc) w = None)"

lemma ParseType_words:
  assumes "no_words sc" "type_stops sc ts" "\<forall>w \<in> set qs. is_qualifier w" "vs \<noteq> []" "\<not> is_qualifier (hd vs)" "\<forall>w \<in> set vs. IsBaseTypeWord w"
  shows "ParseType win sc r0 v \<lparr>LastLine = l0, c_rest = toks l (qs @ vs) @ ts\<rparr> = word_type win v vs \<lparr>LastLine = l, c_rest = ts\<rparr>"
proof -
  obtain w ws where vs: "vs = w # ws" using assms(4) by (cases vs) auto
  have w: "w \<noteq> ''struct'' \<and> w \<noteq> ''union'' \<and> w \<noteq> ''enum''" using assms(6) vs by (auto simp: IsBaseTypeWord_def base_type_words_def)
  have none: "\<forall>w \<in> set vs. IsBaseTypeWord w \<and> map_of (aliases sc) w = None" using assms(1,6) by (auto simp: no_words_def)
  have stop: "scan_words sc us l ts = Scan_Words us \<lparr>LastLine = l, c_rest = ts\<rparr>" for us
    using assms(2) by (cases ts) (auto simp: type_stops_def is_alias_def)
  have skip: "skip_while is_qualifier \<lparr>LastLine = l0, c_rest = toks l (qs @ vs) @ ts\<rparr> =
      \<lparr>LastLine = if qs = [] then l0 else l, c_rest = toks l vs @ ts\<rparr>"
    using assms(5) vs skip_qualifiers [OF assms(3), of l0 l "toks l vs @ ts"] by (simp add: skip_while_def)
  show ?thesis unfolding ParseType_def skip Let_def
    using scan_words_all [OF none, of "[]" "if qs = [] then l0 else l" l ts] w stop [of vs] vs by (simp add: peeks_def)
qed

text \<open>The spellings of the arithmetic types on a 64-bit Unix, with their classes.\<close>

definition c_types :: "(string list \<times> ArgClass) list" where
  "c_types = [([''bool''], Arg_Bool), ([''_Bool''], Arg_Bool), ([''char''], Arg_I8), ([''signed'', ''char''], Arg_I8),
     ([''unsigned'', ''char''], Arg_U8), ([''short''], Arg_I16), ([''short'', ''int''], Arg_I16), ([''signed'', ''short''], Arg_I16),
     ([''unsigned'', ''short''], Arg_U16), ([''unsigned'', ''short'', ''int''], Arg_U16), ([''int''], Arg_I32), ([''signed''], Arg_I32),
     ([''signed'', ''int''], Arg_I32), ([''unsigned''], Arg_U32), ([''unsigned'', ''int''], Arg_U32), ([''long''], Arg_I64),
     ([''long'', ''int''], Arg_I64), ([''unsigned'', ''long''], Arg_U64), ([''unsigned'', ''long'', ''int''], Arg_U64),
     ([''long'', ''unsigned'', ''int''], Arg_U64), ([''long'', ''long''], Arg_I64), ([''long'', ''long'', ''int''], Arg_I64),
     ([''unsigned'', ''long'', ''long''], Arg_U64), ([''unsigned'', ''long'', ''long'', ''int''], Arg_U64), ([''float''], Arg_F32),
     ([''double''], Arg_F64), ([''int8_t''], Arg_I8), ([''int16_t''], Arg_I16), ([''int32_t''], Arg_I32), ([''int64_t''], Arg_I64),
     ([''uint8_t''], Arg_U8), ([''uint16_t''], Arg_U16), ([''uint32_t''], Arg_U32), ([''uint64_t''], Arg_U64),
     ([''uintptr_t''], Arg_U64), ([''size_t''], Arg_U64), ([''ssize_t''], Arg_I64), ([''ptrdiff_t''], Arg_I64)]"

definition word_class :: "string list \<Rightarrow> ArgClass" where
  "word_class ws = (if ''double'' \<in> set ws then Arg_F64 else if ''float'' \<in> set ws then Arg_F32 else integer_class False (join_words ws))"

lemma word_type_class:
  assumes "type_stops sc ts" "vs \<noteq> []" "''void'' \<notin> set vs"
  shows "word_type False v vs \<lparr>LastLine = l, c_rest = ts\<rparr> = Inr (word_class vs, the (class_ret (word_class vs)), [], \<lparr>LastLine = l, c_rest = ts\<rparr>)"
proof -
  have "skip_while (\<lambda>w. w = ''*'') \<lparr>LastLine = l, c_rest = ts\<rparr> = \<lparr>LastLine = l, c_rest = ts\<rparr>" "\<not> peeks (\<lambda>w. w = ''*'') \<lparr>LastLine = l, c_rest = ts\<rparr>"
    using assms(1) by (cases ts; auto simp: type_stops_def skip_while_def peeks_def)+
  then show ?thesis using assms(2,3) by (simp add: word_type_def Let_def word_class_def)
qed

lemma c_types_words:
  "list_all (\<lambda>(ws, c). ws \<noteq> [] \<and> \<not> is_qualifier (hd ws) \<and> list_all IsBaseTypeWord ws \<and> ''void'' \<notin> set ws \<and> word_class ws = c) c_types"
  by code_simp



text \<open>What falls outside the table: fixed-width types with a qualifier behind them, and the integers that hold a pointer or a wide character.\<close>

lemma narrow_words:
  "list_all (\<lambda>(ws, c). ws \<noteq> [] \<and> \<not> is_qualifier (hd ws) \<and> list_all IsBaseTypeWord ws \<and> ''void'' \<notin> set ws \<and> word_class ws = c)
     [([''intptr_t''], Arg_I32), ([''wchar_t''], Arg_I8), ([''bool'', ''const''], Arg_I32), ([''uint16_t'', ''const''], Arg_I32),
      ([''size_t'', ''const''], Arg_I32), ([''uint64_t'', ''const''], Arg_I64)]"
  by code_simp

text \<open>\<open>intptr_t\<close> is taken for a 32-bit integer and \<open>wchar_t\<close> for a byte, and \<open>const\<close> behind a fixed-width type changes its
  class: the value that is passed is cut.\<close>

theorem narrow_types:
  assumes sc: "no_words sc" "type_stops sc ts"
    and w: "(ws, c) \<in> {([''intptr_t''], Arg_I32), ([''wchar_t''], Arg_I8), ([''bool'', ''const''], Arg_I32), ([''uint16_t'', ''const''], Arg_I32),
      ([''size_t'', ''const''], Arg_I32), ([''uint64_t'', ''const''], Arg_I64)}"
  shows "ParseType False sc r0 v \<lparr>LastLine = l0, c_rest = toks l ws @ ts\<rparr> = Inr (c, the (class_ret c), [], \<lparr>LastLine = l, c_rest = ts\<rparr>)"
proof -
  have ws: "ws \<noteq> []" "\<not> is_qualifier (hd ws)" "\<forall>w \<in> set ws. IsBaseTypeWord w" "''void'' \<notin> set ws" "word_class ws = c"
    using narrow_words w by (auto simp: list_all_iff)
  show ?thesis using ParseType_words [OF sc, of "[]", OF _ ws(1-3)] word_type_class [OF sc(2) ws(1,4)] ws(5) by simp
qed

theorem narrow_types_witness:
  "ParseType False \<lparr>aliases = [], opaqueAggregateAliases = {}, definedAggregateAliases = {}\<rparr> Ret_I32 False
     \<lparr>LastLine = 1, c_rest = toks 1 [''size_t'', ''const''] @ toks 1 [''n'']\<rparr> =
   Inr (Arg_I32, the (class_ret Arg_I32), [], \<lparr>LastLine = 1, c_rest = toks 1 [''n'']\<rparr>)"
  by (rule narrow_types)
    (simp_all add: no_words_def type_stops_def is_alias_def IsBaseTypeWord_def base_type_words_def)

section \<open>Canonical declarations\<close>

lemma plain_name_punctuation: "plain_name n \<Longrightarrow> n \<notin> {''('', '')'', '';'', ''*'', '','', ''['', '']'', ''{'', ''}''}"
  by (intro notI, elim insertE emptyE) (simp_all add: plain_name_def word_token_def is_word_char_def char_class_defs)

lemma type_stops_name: "plain_name n \<Longrightarrow> \<not> is_alias sc n \<Longrightarrow> type_stops sc (\<lparr>t_text = n, t_line = l\<rparr> # ts)"
  using plain_name_punctuation [of n] by (simp add: type_stops_def plain_name_def)

lemma type_stops_punctuation: "plain_scope sc \<Longrightarrow> w \<in> {''('', '')'', '','', '';''} \<Longrightarrow> type_stops sc (\<lparr>t_text = w, t_line = l\<rparr> # ts)"
proof -
  assume sc: "plain_scope sc" and w: "w \<in> {''('', '')'', '','', '';''}"
  have "\<not> plain_name w" using plain_name_punctuation [of w] w by blast
  then have "\<not> is_alias sc w" using sc by (auto simp: plain_scope_def)
  moreover have "\<not> IsBaseTypeWord w \<and> w \<noteq> ''*''" using w by (elim insertE emptyE) (simp_all add: IsBaseTypeWord_def base_type_words_def)
  ultimately show ?thesis by (simp add: type_stops_def)
qed

lemma canon_tokens_first:
  "cls \<noteq> Arg_Struct \<Longrightarrow> \<exists>w ws. canon_tokens cls = w # ws \<and> IsBaseTypeWord w \<and> w \<notin> {''typedef'', ''struct'', ''union'', ''enum''}"
  by (cases cls) (simp_all add: IsBaseTypeWord_def base_type_words_def)

lemma alias_step:
  assumes sc: "plain_scope (scope st)" and n: "plain_name n" "\<not> is_alias (scope st) n" and cls: "cls \<noteq> Arg_Struct"
  shows "cdef_declaration win st \<lparr>LastLine = l0, c_rest = toks l (''typedef'' # canon_tokens cls @ [n, '';'']) @ ts\<rparr> =
    Inr (st\<lparr>scope := set_alias n cls (scope st)\<rparr>, \<lparr>LastLine = l, c_rest = ts\<rparr>)"
proof -
  let ?name = "\<lparr>t_text = n, t_line = l\<rparr>" and ?semi = "\<lparr>t_text = '';'', t_line = l\<rparr>"
  have type: "ParseType win (scope st) r0 v \<lparr>LastLine = l, c_rest = toks l (canon_tokens cls) @ ?name # ?semi # ts\<rparr> =
      Inr (cls, the (class_ret cls), [], \<lparr>LastLine = l, c_rest = ?name # ?semi # ts\<rparr>)" for r0 v
    by (rule ParseType_canonical [OF sc type_stops_name [OF n] cls])
  obtain w ws where w: "canon_tokens cls = w # ws" "w \<notin> {''typedef'', ''struct'', ''union'', ''enum''}" using canon_tokens_first [OF cls] by blast
  have "TryParseFunctionTypedef win (scope st) \<lparr>LastLine = l, c_rest = toks l (canon_tokens cls) @ ?name # ?semi # ts\<rparr> = Inr None"
    using plain_name_punctuation [OF n(1)] by (simp add: TryParseFunctionTypedef_def type peeks_def)
  moreover have "typedef_name (\<lambda>w. IsBaseTypeWord w \<or> w = ''*'' \<or> w = '';'') ''typedef'' \<lparr>LastLine = l, c_rest = ?name # ?semi # ts\<rparr> =
      Inr (n, \<lparr>LastLine = l, c_rest = ts\<rparr>)"
    using n(1) plain_name_punctuation [OF n(1)] by (simp add: typedef_name_def Eof_def peeks_def Next_def expect_def plain_name_def)
  ultimately show ?thesis using w type
    by (simp add: cdef_declaration_def peeks_def Next_def typedef_declaration_def)
qed

text \<open>The types of a parameter list as the preamble writes them: by-value aggregates become pointers.\<close>

definition degrade :: "ArgClass \<Rightarrow> ArgClass" where
  "degrade cls = (if cls = Arg_Struct then Arg_Ptr else cls)"

fun arg_tokens :: "ArgClass list \<Rightarrow> string list" where
  "arg_tokens [] = [''void'', '')'']"
| "arg_tokens [c] = canon_tokens (degrade c) @ ['')'']"
| "arg_tokens (c # cs) = canon_tokens (degrade c) @ '','' # arg_tokens cs"

lemma degrade_not_Struct [simp]: "degrade c \<noteq> Arg_Struct"
  by (simp add: degrade_def)

lemma parameter_canonical:
  assumes sc: "plain_scope sc" and w: "w = '','' \<or> w = '')''"
  shows "parameter outer win sc first \<lparr>LastLine = l0, c_rest = toks l (canon_tokens (degrade c)) @ \<lparr>t_text = w, t_line = l\<rparr> # ts\<rparr> =
    Inr (degrade c, [], w = '','', \<lparr>LastLine = l, c_rest = ts\<rparr>)"
proof -
  have stops: "type_stops sc (\<lparr>t_text = w, t_line = l\<rparr> # ts)" using type_stops_punctuation [OF sc] w by blast
  have "the (class_ret (degrade c)) \<noteq> Ret_Void" by (cases "degrade c") auto
  then show ?thesis using w ParseType_canonical [OF sc stops degrade_not_Struct]
    by (auto simp: parameter_def parameter_name_def parameter_array_def parameter_end_def peeks_def Eof_def Next_def IsBaseTypeWord_def base_type_words_def)
qed

lemma parameter_loop_canonical:
  "plain_scope sc \<Longrightarrow> cs \<noteq> [] \<Longrightarrow>
     parameter_loop outer win sc first \<lparr>LastLine = l0, c_rest = toks l (arg_tokens cs) @ ts\<rparr> =
       Inr (map (\<lambda>c. (degrade c, [])) cs, \<lparr>LastLine = l, c_rest = ts\<rparr>)"
proof (induction cs arbitrary: first l0 rule: arg_tokens.induct)
  case (2 c)
  then show ?case using parameter_canonical [OF "2.prems"(1), of "'')''"] by (subst parameter_loop.simps) simp
next
  case (3 c c2 cs)
  then show ?case using parameter_canonical [OF "3.prems"(1), of "'',''"] by (subst parameter_loop.simps) simp
qed simp

lemma arg_tokens_start:
  "cs \<noteq> [] \<Longrightarrow> \<not> is_void_list \<lparr>LastLine = l0, c_rest = toks l (arg_tokens cs) @ ts\<rparr> \<and> \<not> Eof \<lparr>LastLine = l0, c_rest = toks l (arg_tokens cs) @ ts\<rparr> \<and>
     \<not> peeks (\<lambda>w. w = '')'') \<lparr>LastLine = l0, c_rest = toks l (arg_tokens cs) @ ts\<rparr>"
proof (cases cs rule: arg_tokens.cases)
  case (2 c)
  then show ?thesis by (cases "degrade c") (auto simp: is_void_list_def Eof_def peeks_def degrade_def split: if_splits)
next
  case (3 c d cs')
  then show ?thesis by (cases "degrade c") (auto simp: is_void_list_def Eof_def peeks_def degrade_def split: if_splits)
qed simp

lemma function_parameters_canonical:
  assumes "plain_scope sc" "length cs \<le> kMaxArity" "p_args p = []" "p_argStructNames p = []"
  shows "ParseFunctionParameters win sc p \<lparr>LastLine = l0, c_rest = toks l (arg_tokens cs) @ ts\<rparr> =
    Inr (p\<lparr>p_args := map degrade cs, p_argStructNames := map (\<lambda>_. []) cs\<rparr>, \<lparr>LastLine = l, c_rest = ts\<rparr>)"
proof (cases "cs = []")
  case True
  then show ?thesis using assms(3,4) by (cases p) (simp add: ParseFunctionParameters_def is_void_list_def skip_two_def Next_def)
next
  case False
  then show ?thesis using arg_tokens_start [OF False, of l0 l ts] parameter_loop_canonical [OF assms(1) False] assms(2-4)
    by (simp add: ParseFunctionParameters_def Let_def comp_def)
qed

fun ret_class :: "RetKind \<Rightarrow> ArgClass" where
  "ret_class Ret_Bool = Arg_Bool" | "ret_class Ret_I8 = Arg_I8" | "ret_class Ret_U8 = Arg_U8"
| "ret_class Ret_I16 = Arg_I16" | "ret_class Ret_U16 = Arg_U16" | "ret_class Ret_I32 = Arg_I32"
| "ret_class Ret_U32 = Arg_U32" | "ret_class Ret_I64 = Arg_I64" | "ret_class Ret_U64 = Arg_U64"
| "ret_class Ret_Ptr = Arg_Ptr" | "ret_class Ret_F32 = Arg_F32" | "ret_class Ret_F64 = Arg_F64"
| "ret_class Ret_Void = Arg_I32" | "ret_class Ret_Struct = Arg_Struct"

definition ret_tokens :: "RetKind \<Rightarrow> string list" where
  "ret_tokens r = (if r = Ret_Void then [''void''] else canon_tokens (ret_class r))"

lemma ret_class_canonical: "r \<noteq> Ret_Void \<Longrightarrow> r \<noteq> Ret_Struct \<Longrightarrow> ret_class r \<noteq> Arg_Struct \<and> the (class_ret (ret_class r)) = r"
  by (cases r) auto

lemma ParseType_return:
  assumes "plain_scope sc" "type_stops sc ts" "r \<noteq> Ret_Struct"
  shows "ParseType win sc r0 True \<lparr>LastLine = l0, c_rest = toks l (ret_tokens r) @ ts\<rparr> = Inr (ret_class r, r, [], \<lparr>LastLine = l, c_rest = ts\<rparr>)"
proof (cases "r = Ret_Void")
  case True
  have v: "IsBaseTypeWord ''void''" by (simp add: IsBaseTypeWord_def base_type_words_def)
  then have "map_of (aliases sc) ''void'' = None" using plain_scope_None [OF assms(1)] base_words_not_plain by blast
  then show ?thesis using True assms(2) v
    by (cases ts) (auto simp: ret_tokens_def ParseType_def skip_while_def is_qualifier_def peeks_def word_type_def type_stops_def is_alias_def)
next
  case False
  then show ?thesis using ParseType_canonical [OF assms(1,2)] ret_class_canonical [OF False assms(3)] by (simp add: ret_tokens_def)
qed

definition convention_tokens :: "CallingConvention \<Rightarrow> string list" where
  "convention_tokens c = (if c = Conv_Stdcall then [''__stdcall''] else [])"

definition restored :: "string \<Rightarrow> Prototype \<Rightarrow> Prototype" where
  "restored n p = \<lparr>p_name = n, p_args = map degrade (p_args p), p_argStructNames = map (\<lambda>_. []) (p_args p), p_ret = p_ret p,
     p_retStructName = [], p_convention = (if p_convention p = Conv_Stdcall then Conv_Stdcall else Conv_Default)\<rparr>"

definition function_tokens :: "string \<Rightarrow> Prototype \<Rightarrow> string list" where
  "function_tokens n p = ''typedef'' # ret_tokens (p_ret p) @ ''('' # convention_tokens (p_convention p) @ ''*'' # n # '')'' # ''('' #
     arg_tokens (p_args p) @ ['';'']"

lemma ret_tokens_first: "r \<noteq> Ret_Struct \<Longrightarrow> \<exists>w ws. ret_tokens r = w # ws \<and> w \<notin> {''typedef'', ''struct'', ''union'', ''enum''}"
  using canon_tokens_first [of "ret_class r"] ret_class_canonical [of r] by (cases "r = Ret_Void") (auto simp: ret_tokens_def)

lemma function_step:
  assumes sc: "plain_scope (scope st)" and n: "plain_name n" and p: "p_ret p \<noteq> Ret_Struct" "length (p_args p) \<le> kMaxArity"
    "p_convention p = Conv_Stdcall \<longrightarrow> win"
  shows "cdef_declaration win st \<lparr>LastLine = l0, c_rest = toks l (function_tokens n p) @ ts\<rparr> =
    Inr (st\<lparr>scope := set_alias n Arg_Ptr (scope st), functionTypes := AList.update n (restored n p) (functionTypes st)\<rparr>, \<lparr>LastLine = l, c_rest = ts\<rparr>)"
proof -
  define mid where "mid = toks l (arg_tokens (p_args p)) @ \<lparr>t_text = '';'', t_line = l\<rparr> # ts"
  define name where "name = \<lparr>t_text = ''*'', t_line = l\<rparr> # \<lparr>t_text = n, t_line = l\<rparr> # \<lparr>t_text = '')'', t_line = l\<rparr> # \<lparr>t_text = ''('', t_line = l\<rparr> # mid"
  define rest where "rest = \<lparr>t_text = ''('', t_line = l\<rparr> # toks l (convention_tokens (p_convention p)) @ name"
  have "type_stops (scope st) rest" unfolding rest_def by (rule type_stops_punctuation [OF sc]) simp
  then have type: "ParseType win (scope st) Ret_I32 True \<lparr>LastLine = l, c_rest = toks l (ret_tokens (p_ret p)) @ rest\<rparr> =
      Inr (ret_class (p_ret p), p_ret p, [], \<lparr>LastLine = l, c_rest = rest\<rparr>)" using ParseType_return [OF sc _ p(1)] by blast
  have cls: "ret_class (p_ret p) \<noteq> Arg_Struct" using ret_class_canonical [of "p_ret p"] p(1) by (cases "p_ret p = Ret_Void") auto
  have head: "\<not> (\<not> is_alpha (hd n) \<and> hd n \<noteq> CHR ''_'')" using n by (auto simp: plain_name_def word_token_def)
  have conv: "pointer_convention win \<lparr>LastLine = l, c_rest = toks l (convention_tokens (p_convention p)) @ name\<rparr> =
      Inr (if p_convention p = Conv_Stdcall then Conv_Stdcall else Conv_Default, \<lparr>LastLine = l, c_rest = name\<rparr>)"
    using p(3) by (auto simp: name_def pointer_convention_def optional_convention_def convention_tokens_def peeks_def IsCallingConvention_def
        Next_def ValidateConvention_def ParseConvention_def IsUnsupportedCallingConvention_def)
  have params: "ParseFunctionParameters win (scope st) q \<lparr>LastLine = l, c_rest = mid\<rparr> =
      Inr (q\<lparr>p_args := map degrade (p_args p), p_argStructNames := map (\<lambda>_. []) (p_args p)\<rparr>, \<lparr>LastLine = l, c_rest = \<lparr>t_text = '';'', t_line = l\<rparr> # ts\<rparr>)"
    if "p_args q = []" "p_argStructNames q = []" for q
    unfolding mid_def by (rule function_parameters_canonical [OF sc p(2) that])
  have "TryParseFunctionTypedef win (scope st) \<lparr>LastLine = l, c_rest = toks l (ret_tokens (p_ret p)) @ rest\<rparr> =
      Inr (Some (restored n p, \<lparr>LastLine = l, c_rest = ts\<rparr>))"
    unfolding TryParseFunctionTypedef_def type
    by (simp add: peeks_def Next_def rest_def conv)
      (use head in \<open>auto simp: name_def peeks_def Next_def expect_def Eof_def params Prototype_new_def skip_semicolon_def ret_kind_def cls restored_def\<close>)
  moreover have "toks l (function_tokens n p) @ ts = \<lparr>t_text = ''typedef'', t_line = l\<rparr> # toks l (ret_tokens (p_ret p)) @ rest"
    by (simp add: function_tokens_def rest_def name_def mid_def)
  moreover obtain w ws where "ret_tokens (p_ret p) = w # ws" "w \<notin> {''typedef'', ''struct'', ''union'', ''enum''}"
    using ret_tokens_first [OF p(1)] by blast
  ultimately show ?thesis
    by (simp add: cdef_declaration_def peeks_def Next_def typedef_declaration_def restored_def)
qed

section \<open>The preamble\<close>

fun preamble_toks :: "nat \<Rightarrow> string list list \<Rightarrow> Token list" where
  "preamble_toks l [] = []"
| "preamble_toks l (ws # wss) = toks l ws @ preamble_toks (Suc l) wss"

lemma word_token_base: "IsBaseTypeWord w \<Longrightarrow> word_token w"
  by (auto simp: IsBaseTypeWord_def base_type_words_def word_token_def is_word_char_def char_class_defs)

lemma lexes_canonical: "cls \<noteq> Arg_Struct \<Longrightarrow> \<exists>c. CanonicalTypeName cls = Some c \<and> lexes c (canon_tokens cls)"
proof (cases "cls = Arg_Ptr")
  case True
  have "lexes_any (''void'' @ ''*'') ([''void''] @ [''*''])"
    by (intro lexes_ends lexes_word word_token_base lexes_punctuation)
      (auto simp: IsBaseTypeWord_def base_type_words_def is_punctuation_def not_word_char)
  then show ?thesis using True lexes_any_lexes by simp
next
  assume "cls \<noteq> Arg_Struct"
  case False
  then show ?thesis using \<open>cls \<noteq> Arg_Struct\<close>
    by (cases cls) (auto intro!: lexes_word word_token_base simp: IsBaseTypeWord_def base_type_words_def)
qed

lemma lexes_line:
  assumes "lexes_any s ws"
  shows "tokenize l (s @ LF # r) = map_sum id (\<lambda>ts. toks l ws @ ts) (tokenize (Suc l) r)"
  using assms by (simp add: lexes_any_def tokenize_newline toks_def)

text \<open>A blank before a text, a blank-separated text behind a word-like one, and single characters.\<close>

lemma lexes_blank_before: "lexes_any t vs \<Longrightarrow> lexes_any (CHR '' '' # t) vs"
  using lexes_any_append [OF lexes_blank, of t vs] by simp

lemma lexes_then_blank: "lexes s ws \<Longrightarrow> lexes_any t vs \<Longrightarrow> lexes_any (s @ CHR '' '' # t) (ws @ vs)"
  by (rule lexes_ends [OF _ lexes_blank_before]) (simp_all add: not_word_char)

lemma lexes_then_punctuation: "lexes s ws \<Longrightarrow> is_punctuation c \<Longrightarrow> lexes_any t vs \<Longrightarrow> lexes_any (s @ c # t) (ws @ [c] # vs)"
  using lexes_ends [of s ws "[c] @ t" "[[c]] @ vs"] lexes_any_append [OF lexes_punctuation, of c t vs] by (simp add: not_word_char)

lemma lexes_punctuation_before: "is_punctuation c \<Longrightarrow> lexes_any t vs \<Longrightarrow> lexes_any (c # t) ([c] # vs)"
  using lexes_any_append [OF lexes_punctuation, of c t vs] by simp

lemma lexes_empty: "lexes_any [] []"
  by (simp add: lexes_any_def map_sum.identity [unfolded id_def] id_def)

lemma punctuation [simp]: "is_punctuation (CHR ''('')" "is_punctuation (CHR '')'')" "is_punctuation (CHR '';'')"
  "is_punctuation (CHR '','')" "is_punctuation (CHR ''*'')"
  by (simp_all add: is_punctuation_def)

lemma word_tokens [simp]: "word_token ''typedef''" "word_token ''__stdcall''" "word_token ''void''" "plain_name n \<Longrightarrow> word_token n"
  by (auto simp: plain_name_def word_token_def is_word_char_def char_class_defs)

lemma lexes_alias:
  assumes "plain_name n" "lexes c cs"
  shows "lexes_any (''typedef '' @ c @ '' '' @ n @ '';'') (''typedef'' # cs @ [n, '';''])"
proof -
  have "lexes_any (''typedef'' @ CHR '' '' # c @ CHR '' '' # n @ CHR '';'' # []) ([''typedef''] @ cs @ [n] @ '';'' # [])"
    by (intro lexes_then_blank lexes_then_punctuation lexes_empty lexes_word assms) (simp_all add: assms)
  then show ?thesis by simp
qed

lemma lexes_args: "lexes (if cs = [] then ''void'' else join_comma (map canonical_arg cs)) (butlast (arg_tokens cs))"
proof (induction cs rule: arg_tokens.induct)
  case 1
  then show ?case using lexes_word [of "''void''"] by simp
next
  have canon: "lexes (canonical_arg c) (canon_tokens (degrade c))" for c
    using lexes_canonical [of "degrade c"] lexes_canonical [of Arg_Ptr] by (cases "c = Arg_Struct") (auto simp: canonical_arg_def degrade_def)
  { case (2 c)
    then show ?case using canon [of c] by (simp add: butlast_append) }
  { case (3 c d cs)
    have ne: "arg_tokens (d # cs) \<noteq> []" by (cases cs) auto
    have "lexes_any (canonical_arg c @ CHR '','' # [CHR '' '']) (canon_tokens (degrade c) @ '','' # [])"
      by (intro lexes_then_punctuation canon lexes_blank) simp
    then have "lexes ((canonical_arg c @ CHR '','' # [CHR '' '']) @ join_comma (map canonical_arg (d # cs)))
        ((canon_tokens (degrade c) @ '','' # []) @ butlast (arg_tokens (d # cs)))"
      using 3 by (intro lexes_append) simp_all
    then show ?case using ne by (simp add: butlast_append) }
qed

lemma arg_tokens_last: "arg_tokens cs = butlast (arg_tokens cs) @ ['')'']"
proof (induction cs rule: arg_tokens.induct)
  case (3 c d cs)
  have ne: "arg_tokens (d # cs) \<noteq> []" by (cases cs) auto
  then show ?case using 3 by (simp add: butlast_append)
qed (simp_all add: butlast_append)

lemma lexes_function:
  assumes "plain_name n" "retName (p_ret p) = Some ret" "lexes ret (ret_tokens (p_ret p))"
  shows "lexes_any (''typedef '' @ ret @ '' ('' @ (if p_convention p = Conv_Stdcall then ''__stdcall '' else []) @ ''*'' @ n @ '')( '' @
    (if p_args p = [] then ''void'' else join_comma (map canonical_arg (p_args p))) @ '');'') (function_tokens n p)"
proof -
  define a where "a = (if p_args p = [] then ''void'' else join_comma (map canonical_arg (p_args p)))"
  have args: "lexes a (butlast (arg_tokens (p_args p)))" unfolding a_def by (rule lexes_args)
  have tail: "lexes_any (CHR ''*'' # n @ CHR '')'' # CHR ''('' # CHR '' '' # a @ CHR '')'' # CHR '';'' # [])
      (''*'' # [n] @ '')'' # ''('' # butlast (arg_tokens (p_args p)) @ '')'' # '';'' # [])"
    by (intro lexes_punctuation_before lexes_then_punctuation lexes_blank_before lexes_empty lexes_word args) (simp_all add: assms(1))
  have mid: "lexes_any ((if p_convention p = Conv_Stdcall then ''__stdcall '' else []) @ CHR ''*'' # n @ CHR '')'' # CHR ''('' # CHR '' '' # a @ CHR '')'' # CHR '';'' # [])
      (convention_tokens (p_convention p) @ ''*'' # [n] @ '')'' # ''('' # butlast (arg_tokens (p_args p)) @ '')'' # '';'' # [])"
    using lexes_then_blank [OF lexes_word [OF word_tokens(2)] tail] tail by (simp add: convention_tokens_def)
  have "lexes_any (''typedef'' @ CHR '' '' # ret @ CHR '' '' # CHR ''('' # (if p_convention p = Conv_Stdcall then ''__stdcall '' else []) @
      CHR ''*'' # n @ CHR '')'' # CHR ''('' # CHR '' '' # a @ CHR '')'' # CHR '';'' # [])
      ([''typedef''] @ ret_tokens (p_ret p) @ ''('' # convention_tokens (p_convention p) @ ''*'' # [n] @ '')'' # ''('' #
        butlast (arg_tokens (p_args p)) @ '')'' # '';'' # [])"
    by (intro lexes_then_blank lexes_punctuation_before lexes_word assms(3) mid) simp_all
  moreover have "function_tokens n p = [''typedef''] @ ret_tokens (p_ret p) @ ''('' # convention_tokens (p_convention p) @ ''*'' # [n] @ '')'' # ''('' #
        butlast (arg_tokens (p_args p)) @ '')'' # '';'' # []"
    unfolding function_tokens_def by (subst arg_tokens_last) simp
  ultimately show ?thesis by (simp add: a_def)
qed

lemma lexes_return: "r \<noteq> Ret_Struct \<Longrightarrow> \<exists>ret. retName r = Some ret \<and> lexes ret (ret_tokens r)"
  using lexes_canonical [of "ret_class r"] lexes_word [of "''void''"] by (cases r) (auto simp: ret_tokens_def)

definition kept_aliases :: "(string \<times> ArgClass) list \<Rightarrow> (string \<times> ArgClass) list" where
  "kept_aliases as = filter (\<lambda>a. snd a \<noteq> Arg_Struct) as"

definition kept_functions :: "(string \<times> Prototype) list \<Rightarrow> (string \<times> Prototype) list" where
  "kept_functions fs = filter (\<lambda>f. p_ret (snd f) \<noteq> Ret_Struct) fs"

lemma tokenize_aliases:
  "\<forall>a \<in> set as. plain_name (fst a) \<Longrightarrow>
     tokenize l (concat (map alias_line as) @ r) =
       map_sum id (\<lambda>ts. preamble_toks l (map (\<lambda>(n, c). ''typedef'' # canon_tokens c @ [n, '';'']) (kept_aliases as)) @ ts)
         (tokenize (l + length (kept_aliases as)) r)"
proof (induction as arbitrary: l)
  case Nil
  then show ?case by (simp add: kept_aliases_def map_sum.identity [unfolded id_def] id_def)
next
  case (Cons a as)
  obtain n c where a: "a = (n, c)" by (cases a)
  show ?case
  proof (cases "c = Arg_Struct")
    case True
    then show ?thesis using Cons by (simp add: a alias_line_def kept_aliases_def)
  next
    case False
    obtain t where t: "CanonicalTypeName c = Some t" "lexes t (canon_tokens c)" using lexes_canonical [OF False] by blast
    have n: "plain_name n" using Cons.prems a by simp
    show ?thesis using lexes_line [OF lexes_alias [OF n t(2)]] Cons False
      by (simp add: a alias_line_def t kept_aliases_def map_sum_id_comp [unfolded id_def] id_def)
  qed
qed

lemma tokenize_functions:
  "\<forall>f \<in> set fs. plain_name (fst f) \<Longrightarrow>
     tokenize l (concat (map function_line fs) @ r) =
       map_sum id (\<lambda>ts. preamble_toks l (map (\<lambda>(n, p). function_tokens n p) (kept_functions fs)) @ ts)
         (tokenize (l + length (kept_functions fs)) r)"
proof (induction fs arbitrary: l)
  case Nil
  then show ?case by (simp add: kept_functions_def map_sum.identity [unfolded id_def] id_def)
next
  case (Cons f fs)
  obtain n p where f: "f = (n, p)" by (cases f)
  show ?case
  proof (cases "p_ret p = Ret_Struct")
    case True
    then show ?thesis using Cons by (simp add: f function_line_def kept_functions_def)
  next
    case False
    obtain t where t: "retName (p_ret p) = Some t" "lexes t (ret_tokens (p_ret p))" using lexes_return [OF False] by blast
    have n: "plain_name n" using Cons.prems f by simp
    obtain body where body: "function_line (n, p) = body @ [LF]" "lexes_any body (function_tokens n p)"
      by (rule that [OF _ lexes_function [OF n t]]) (simp add: function_line_def t cong: if_cong)
    have "tokenize l (concat (map function_line (f # fs)) @ r) = tokenize l (body @ LF # (concat (map function_line fs) @ r))"
      by (simp add: f body)
    also have "\<dots> = map_sum id (\<lambda>ts. toks l (function_tokens n p) @ ts) (tokenize (Suc l) (concat (map function_line fs) @ r))"
      by (rule lexes_line [OF body(2)])
    finally show ?thesis using Cons False by (simp add: f kept_functions_def map_sum_id_comp [unfolded id_def] id_def)
  qed
qed

lemma is_alias_set_alias: "is_alias (set_alias n c sc) w \<longleftrightarrow> w = n \<or> is_alias sc w"
  by (auto simp: is_alias_keys set_alias_def dom_update)

lemma plain_scope_set_alias: "plain_scope sc \<Longrightarrow> plain_name n \<Longrightarrow> plain_scope (set_alias n c sc)"
  by (auto simp: plain_scope_def is_alias_set_alias)

lemma loop_step:
  "cdef_declaration win st \<lparr>LastLine = l0, c_rest = toks l (w # ws) @ ts\<rparr> = Inr (st', cur') \<Longrightarrow>
     declaration_loop win st \<lparr>LastLine = l0, c_rest = toks l (w # ws) @ ts\<rparr> = declaration_loop win st' cur'"
  by (subst declaration_loop.simps) (simp add: Eof_def)

lemma loop_aliases:
  assumes "plain_scope (scope st)" "\<forall>(n, c) \<in> set as. plain_name n \<and> c \<noteq> Arg_Struct \<and> \<not> is_alias (scope st) n" "distinct (map fst as)"
  shows "\<exists>l'. declaration_loop win st \<lparr>LastLine = l0, c_rest = preamble_toks l (map (\<lambda>(n, c). ''typedef'' # canon_tokens c @ [n, '';'']) as) @ ts\<rparr> =
    declaration_loop win (st\<lparr>scope := fold (\<lambda>(n, c). set_alias n c) as (scope st)\<rparr>) \<lparr>LastLine = l', c_rest = ts\<rparr>"
  using assms
proof (induction as arbitrary: st l0 l)
  case (Cons a as)
  obtain n c where a: "a = (n, c)" by (cases a)
  have st: "\<forall>(m, d) \<in> set as. plain_name m \<and> d \<noteq> Arg_Struct \<and> \<not> is_alias (set_alias n c (scope st)) m"
    using Cons.prems a by (force simp: is_alias_set_alias)
  have "cdef_declaration win st \<lparr>LastLine = l0, c_rest = toks l (''typedef'' # canon_tokens c @ [n, '';'']) @ r\<rparr> =
      Inr (st\<lparr>scope := set_alias n c (scope st)\<rparr>, \<lparr>LastLine = l, c_rest = r\<rparr>)" for r
    by (rule alias_step) (use Cons.prems a in auto)
  note step = loop_step [OF this]
  show ?case using Cons.IH [of "st\<lparr>scope := set_alias n c (scope st)\<rparr>" l "Suc l"] Cons.prems st a step plain_scope_set_alias
    by simp
qed auto

lemma loop_functions:
  assumes "plain_scope (scope st)"
    "\<forall>(n, p) \<in> set fs. plain_name n \<and> p_ret p \<noteq> Ret_Struct \<and> length (p_args p) \<le> kMaxArity \<and> (p_convention p = Conv_Stdcall \<longrightarrow> win)"
  shows "\<exists>l'. declaration_loop win st \<lparr>LastLine = l0, c_rest = preamble_toks l (map (\<lambda>(n, p). function_tokens n p) fs) @ ts\<rparr> =
    declaration_loop win (st\<lparr>scope := fold (\<lambda>(n, p). set_alias n Arg_Ptr) fs (scope st),
      functionTypes := fold (\<lambda>(n, p). AList.update n (restored n p)) fs (functionTypes st)\<rparr>) \<lparr>LastLine = l', c_rest = ts\<rparr>"
  using assms
proof (induction fs arbitrary: st l0 l)
  case (Cons f fs)
  obtain n p where f: "f = (n, p)" by (cases f)
  let ?st = "st\<lparr>scope := set_alias n Arg_Ptr (scope st), functionTypes := AList.update n (restored n p) (functionTypes st)\<rparr>"
  have "cdef_declaration win st \<lparr>LastLine = l0, c_rest = toks l (function_tokens n p) @ r\<rparr> = Inr (?st, \<lparr>LastLine = l, c_rest = r\<rparr>)" for r
    by (rule function_step) (use Cons.prems f in auto)
  note step = loop_step [OF this [unfolded function_tokens_def], folded function_tokens_def]
  show ?case using Cons.IH [of ?st l "Suc l"] Cons.prems f step plain_scope_set_alias by simp
qed auto

section \<open>What a preamble restores\<close>

text \<open>A registry whose names are identifiers, as the declarations of C programs make it.\<close>

definition registry_ok :: "bool \<Rightarrow> TypeRegistry \<Rightarrow> bool" where
  "registry_ok win r \<longleftrightarrow>
     (\<forall>(n, c) \<in> set (reg_aliases r). plain_name n) \<and>
     (\<forall>(n, p) \<in> set (reg_functionTypes r). plain_name n \<and> length (p_args p) \<le> kMaxArity \<and> (p_convention p = Conv_Stdcall \<longrightarrow> win)) \<and>
     distinct (map fst (reg_aliases r)) \<and> distinct (map fst (reg_functionTypes r))"

text \<open>An order in which a hash table may be visited.\<close>

definition visits :: "hash_order \<Rightarrow> TypeRegistry \<Rightarrow> bool" where
  "visits h r \<longleftrightarrow>
     set (visit_aliases h (reg_aliases r)) = set (reg_aliases r) \<and> distinct (map fst (visit_aliases h (reg_aliases r))) \<and>
     set (visit_functions h (reg_functionTypes r)) = set (reg_functionTypes r) \<and> distinct (map fst (visit_functions h (reg_functionTypes r)))"

definition restored_scope :: "hash_order \<Rightarrow> TypeRegistry \<Rightarrow> cdef_state" where
  "restored_scope h r =
     (let as = kept_aliases (visit_aliases h (reg_aliases r)); fs = kept_functions (visit_functions h (reg_functionTypes r))
      in cdef_state_new\<lparr>scope := fold (\<lambda>(n, p). set_alias n Arg_Ptr) fs (fold (\<lambda>(n, c). set_alias n c) as (scope cdef_state_new)),
           functionTypes := fold (\<lambda>(n, p). AList.update n (restored n p)) fs []\<rparr>)"

lemma plain_scope_fold:
  "plain_scope sc \<Longrightarrow> \<forall>(n, c) \<in> set as. plain_name n \<Longrightarrow> plain_scope (fold (\<lambda>(n, c). set_alias n (f c)) as sc)"
  by (induction as arbitrary: sc) (auto intro: plain_scope_set_alias)

text \<open>Declarations after a preamble are parsed from the scope it restores.\<close>

lemma ParseCdef_preamble:
  assumes r: "registry_ok win r" and h: "visits h r"
  shows "\<exists>l'. ParseCdef win (RegistryPreamble h r @ source) =
    andThen (tokenize (Suc (length (kept_aliases (visit_aliases h (reg_aliases r))) + length (kept_functions (visit_functions h (reg_functionTypes r))))) source)
      (\<lambda>ts. declaration_loop win (restored_scope h r) \<lparr>LastLine = l' ts, c_rest = ts\<rparr>)"
proof -
  let ?as = "visit_aliases h (reg_aliases r)" and ?fs = "visit_functions h (reg_functionTypes r)"
  have names: "\<forall>a \<in> set ?as. plain_name (fst a)" "\<forall>f \<in> set ?fs. plain_name (fst f)" using r h by (auto simp: registry_ok_def visits_def)
  have sc0: "plain_scope (scope cdef_state_new)" "\<not> is_alias (scope cdef_state_new) n" for n
    by (simp_all add: plain_scope_def is_alias_def cdef_state_new_def)
  have as: "\<forall>(n, c) \<in> set (kept_aliases ?as). plain_name n \<and> c \<noteq> Arg_Struct \<and> \<not> is_alias (scope cdef_state_new) n" "distinct (map fst (kept_aliases ?as))"
    using names(1) h sc0(2) by (auto simp: kept_aliases_def visits_def distinct_map_filter)
  have fs: "\<forall>(n, p) \<in> set (kept_functions ?fs). plain_name n \<and> p_ret p \<noteq> Ret_Struct \<and> length (p_args p) \<le> kMaxArity \<and> (p_convention p = Conv_Stdcall \<longrightarrow> win)"
    using r h by (auto simp: kept_functions_def visits_def registry_ok_def)
  let ?st = "cdef_state_new\<lparr>scope := fold (\<lambda>(n, c). set_alias n c) (kept_aliases ?as) (scope cdef_state_new)\<rparr>"
  have sc1: "plain_scope (scope ?st)" using plain_scope_fold [OF sc0(1), of "kept_aliases ?as" "\<lambda>c. c"] as(1) by auto
  have loop: "\<exists>l'. declaration_loop win cdef_state_new
      \<lparr>LastLine = 1, c_rest = preamble_toks 1 (map (\<lambda>(n, c). ''typedef'' # canon_tokens c @ [n, '';'']) (kept_aliases ?as)) @
         preamble_toks (1 + length (kept_aliases ?as)) (map (\<lambda>(n, p). function_tokens n p) (kept_functions ?fs)) @ ts\<rparr> =
      declaration_loop win (restored_scope h r) \<lparr>LastLine = l', c_rest = ts\<rparr>" for ts
  proof -
    obtain l1 where "declaration_loop win cdef_state_new
      \<lparr>LastLine = 1, c_rest = preamble_toks 1 (map (\<lambda>(n, c). ''typedef'' # canon_tokens c @ [n, '';'']) (kept_aliases ?as)) @
         preamble_toks (1 + length (kept_aliases ?as)) (map (\<lambda>(n, p). function_tokens n p) (kept_functions ?fs)) @ ts\<rparr> =
      declaration_loop win ?st \<lparr>LastLine = l1, c_rest = preamble_toks (1 + length (kept_aliases ?as)) (map (\<lambda>(n, p). function_tokens n p) (kept_functions ?fs)) @ ts\<rparr>"
      using loop_aliases [OF sc0(1) as] by blast
    moreover obtain l2 where "declaration_loop win ?st \<lparr>LastLine = l1, c_rest = preamble_toks (1 + length (kept_aliases ?as)) (map (\<lambda>(n, p). function_tokens n p) (kept_functions ?fs)) @ ts\<rparr> =
      declaration_loop win (restored_scope h r) \<lparr>LastLine = l2, c_rest = ts\<rparr>"
      using loop_functions [OF sc1 fs, of l1 "1 + length (kept_aliases ?as)" ts] by (auto simp: restored_scope_def Let_def cdef_state_new_def)
    ultimately show ?thesis by auto
  qed
  then obtain l' where l': "\<And>ts. declaration_loop win cdef_state_new
      \<lparr>LastLine = 1, c_rest = preamble_toks 1 (map (\<lambda>(n, c). ''typedef'' # canon_tokens c @ [n, '';'']) (kept_aliases ?as)) @
         preamble_toks (1 + length (kept_aliases ?as)) (map (\<lambda>(n, p). function_tokens n p) (kept_functions ?fs)) @ ts\<rparr> =
      declaration_loop win (restored_scope h r) \<lparr>LastLine = l' ts, c_rest = ts\<rparr>" by metis
  show ?thesis
    unfolding ParseCdef_def Tokenize_def RegistryPreamble_def append_assoc tokenize_aliases [OF names(1)] tokenize_functions [OF names(2)]
    by (rule exI [of _ l'], cases "tokenize (1 + length (kept_aliases ?as) + length (kept_functions ?fs)) source") (use l' in auto)
qed

lemma in_fst: "(a, b) \<in> S \<Longrightarrow> a \<in> fst ` S"
  by force

lemma map_of_fold_alias:
  "distinct (map fst as) \<Longrightarrow> map_of (aliases (fold (\<lambda>(n, c). set_alias n (f c)) as sc)) m =
     (case map_of as m of None \<Rightarrow> map_of (aliases sc) m | Some c \<Rightarrow> Some (f c))"
  by (induction as arbitrary: sc) (auto simp: set_alias_def update_conv' split: option.splits dest: map_of_SomeD in_fst)

lemma map_of_fold_function:
  "distinct (map fst fs) \<Longrightarrow> map_of (fold (\<lambda>(n, p). AList.update n (restored n p)) fs gs) m =
     (case map_of fs m of None \<Rightarrow> map_of gs m | Some p \<Rightarrow> Some (restored m p))"
  by (induction fs arbitrary: gs) (auto simp: update_conv' split: option.splits dest: map_of_SomeD in_fst)

lemma fold_set_alias_other:
  "definedAggregateAliases (fold (\<lambda>(n, c). set_alias n (f c)) as sc) = definedAggregateAliases sc \<and>
   opaqueAggregateAliases (fold (\<lambda>(n, c). set_alias n (f c)) as sc) = opaqueAggregateAliases sc"
  by (induction as arbitrary: sc) (auto simp: set_alias_def)

lemma map_of_kept:
  assumes "distinct (map fst xs)" "set ys = set xs" "distinct (map fst ys)"
  shows "map_of (filter P ys) n = (case map_of xs n of None \<Rightarrow> None | Some v \<Rightarrow> if P (n, v) then Some v else None)"
proof -
  have "distinct (map fst (filter P ys))" using assms(3) by (simp add: distinct_map_filter)
  then have iff: "map_of (filter P ys) n = Some v \<longleftrightarrow> (n, v) \<in> set xs \<and> P (n, v)" for v using assms(2) by (auto simp: map_of_eq_Some_iff)
  show ?thesis
  proof (cases "map_of xs n")
    case None
    then have "(n, v) \<notin> set xs" for v using None map_of_eq_Some_iff [OF assms(1), of n v] by auto
    then have "map_of (filter P ys) n = None" using iff by (cases "map_of (filter P ys) n") auto
    then show ?thesis using None by simp
  next
    case (Some v)
    then have v: "(n, w) \<in> set xs \<longleftrightarrow> w = v" for w using map_of_eq_Some_iff [OF assms(1), of n w] by auto
    show ?thesis using Some iff v by (cases "map_of (filter P ys) n") auto
  qed
qed

lemma restored_scope_maps:
  assumes r: "registry_ok win r" and h: "visits h r"
    and f: "\<forall>(n, p) \<in> set (reg_functionTypes r). map_of (reg_aliases r) n = Some Arg_Ptr"
  shows "map_of (aliases (scope (restored_scope h r))) n = (case map_of (reg_aliases r) n of Some Arg_Struct \<Rightarrow> None | x \<Rightarrow> x)"
    and "map_of (functionTypes (restored_scope h r)) n =
      (case map_of (reg_functionTypes r) n of None \<Rightarrow> None | Some p \<Rightarrow> if p_ret p = Ret_Struct then None else Some (restored n p))"
proof -
  let ?as = "visit_aliases h (reg_aliases r)" and ?fs = "visit_functions h (reg_functionTypes r)"
  have d: "distinct (map fst (kept_aliases ?as))" "distinct (map fst (kept_functions ?fs))"
    using h by (auto simp: kept_aliases_def kept_functions_def visits_def distinct_map_filter)
  have as: "map_of (kept_aliases ?as) n = (case map_of (reg_aliases r) n of None \<Rightarrow> None | Some v \<Rightarrow> if v \<noteq> Arg_Struct then Some v else None)" for n
    unfolding kept_aliases_def using map_of_kept [of "reg_aliases r" ?as] r h by (simp add: registry_ok_def visits_def cong: if_cong option.case_cong)
  have fs: "map_of (kept_functions ?fs) n = (case map_of (reg_functionTypes r) n of None \<Rightarrow> None | Some p \<Rightarrow> if p_ret p \<noteq> Ret_Struct then Some p else None)" for n
    unfolding kept_functions_def using map_of_kept [of "reg_functionTypes r" ?fs] r h by (simp add: registry_ok_def visits_def cong: if_cong option.case_cong)
  have ptr: "map_of (reg_aliases r) n = Some Arg_Ptr" if "map_of (kept_functions ?fs) n = Some p" for p
    using that fs [of n] f by (auto split: option.splits if_splits dest: map_of_SomeD)
  show "map_of (aliases (scope (restored_scope h r))) n = (case map_of (reg_aliases r) n of Some Arg_Struct \<Rightarrow> None | x \<Rightarrow> x)"
    using map_of_fold_alias [OF d(2), of "\<lambda>_. Arg_Ptr"] map_of_fold_alias [OF d(1), of "\<lambda>c. c"] as [of n] ptr
    by (auto simp: restored_scope_def Let_def cdef_state_new_def split: option.splits ArgClass.splits)
  show "map_of (functionTypes (restored_scope h r)) n =
      (case map_of (reg_functionTypes r) n of None \<Rightarrow> None | Some p \<Rightarrow> if p_ret p = Ret_Struct then None else Some (restored n p))"
    using map_of_fold_function [OF d(2)] fs [of n] by (auto simp: restored_scope_def Let_def split: option.splits)
qed

text \<open>C11. The preamble round trip: parsing the declarations written for a registry, in whatever order its tables are visited, gives back every
  scalar and pointer typedef with its class and every function type, in which aggregates by value have become pointers
  and \<open>__cdecl\<close> the default convention. Typedefs of aggregates by value and functions that return one are missing.\<close>

theorem preamble_restores:
  assumes "registry_ok win r" "visits h r" "\<forall>(n, p) \<in> set (reg_functionTypes r). map_of (reg_aliases r) n = Some Arg_Ptr"
  shows "\<exists>st. ParseForState win h r [] = Inr st \<and>
    (\<forall>n. map_of (aliases (scope st)) n = (case map_of (reg_aliases r) n of Some Arg_Struct \<Rightarrow> None | x \<Rightarrow> x)) \<and>
    (\<forall>n. map_of (functionTypes st) n =
       (case map_of (reg_functionTypes r) n of None \<Rightarrow> None | Some p \<Rightarrow> if p_ret p = Ret_Struct then None else Some (restored n p)))"
proof -
  have "ParseForState win h r [] = Inr (restored_scope h r)"
    using ParseCdef_preamble [OF assms(1,2), of "[]"]
    by (auto simp: ParseForState_def parse_cdef_def declaration_loop.simps Eof_def)
  then show ?thesis using restored_scope_maps [OF assms] by auto
qed

text \<open>The registry after \<open>typedef struct { int x; } P; typedef unsigned Count; typedef int (*Cb)(P, char);\<close>.\<close>

definition demo_order :: hash_order where
  "demo_order = \<lparr>visit_aliases = rev, visit_functions = rev\<rparr>"

definition demo_struct :: StructLayout where
  "demo_struct = \<lparr>sl_name = ''P'', sl_fields = [Arg_I32], sl_fieldStructNames = [[]], sl_fieldNames = [''x''], sl_fieldCounts = [1], sl_isUnion = False\<rparr>"

definition demo_registry :: TypeRegistry where
  "demo_registry = \<lparr>reg_structs = [(''P'', \<lparr>rs_layout = demo_struct, rs_raw = \<lparr>raw_size = 4, raw_alignment = 4, raw_offsets = [(''x'', 0)]\<rparr>\<rparr>)],
     reg_functionTypes = [(''Cb'', \<lparr>p_name = ''Cb'', p_args = [Arg_Struct, Arg_I8], p_argStructNames = [''P'', []], p_ret = Ret_I32,
       p_retStructName = [], p_convention = Conv_Default\<rparr>)],
     reg_aliases = [(''P'', Arg_Ptr), (''Count'', Arg_U32), (''Cb'', Arg_Ptr)]\<rparr>"

lemma demo_names: "plain_name ''P''" "plain_name ''Count''" "plain_name ''Cb''"
  by (simp_all add: plain_name_def word_token_def is_word_char_def char_class_defs IsBaseTypeWord_def base_type_words_def)

lemma demo_registry_ok: "registry_ok False demo_registry" "visits demo_order demo_registry"
    "\<forall>(n, p) \<in> set (reg_functionTypes demo_registry). map_of (reg_aliases demo_registry) n = Some Arg_Ptr"
  by (auto simp: registry_ok_def visits_def demo_registry_def demo_order_def demo_names kMaxArity_def)

theorem preamble_restores_witness:
  "\<exists>st. ParseForState False demo_order demo_registry [] = Inr st \<and>
    (\<forall>n. map_of (aliases (scope st)) n = (case map_of (reg_aliases demo_registry) n of Some Arg_Struct \<Rightarrow> None | x \<Rightarrow> x)) \<and>
    (\<forall>n. map_of (functionTypes st) n =
       (case map_of (reg_functionTypes demo_registry) n of None \<Rightarrow> None | Some p \<Rightarrow> if p_ret p = Ret_Struct then None else Some (restored n p)))"
  by (rule preamble_restores [OF demo_registry_ok])

lemma restored_scope_blank:
  "definedAggregateAliases (scope (restored_scope h r)) = {} \<and> opaqueAggregateAliases (scope (restored_scope h r)) = {} \<and>
   protos (restored_scope h r) = []"
  using fold_set_alias_other [of "\<lambda>_ :: Prototype. Arg_Ptr"] fold_set_alias_other [of "\<lambda>c. c"]
  by (simp add: restored_scope_def Let_def cdef_state_new_def)

lemma lexes_call: "plain_name n \<Longrightarrow> lexes_any (''void f('' @ n @ '' x);'') [''void'', ''f'', ''('', n, ''x'', '')'', '';'']"
proof -
  assume n: "plain_name n"
  have t: "word_token ''f''" "word_token ''x''" by (simp_all add: word_token_def is_word_char_def char_class_defs)
  have "lexes_any (''void'' @ CHR '' '' # ''f'' @ CHR ''('' # n @ CHR '' '' # ''x'' @ CHR '')'' # CHR '';'' # [])
      ([''void''] @ [''f''] @ ''('' # [n] @ [''x''] @ '')'' # '';'' # [])"
    by (intro lexes_then_blank lexes_then_punctuation lexes_punctuation_before lexes_empty lexes_word t) (simp_all add: n)
  then show ?thesis by simp
qed

text \<open>An aggregate that is registered is a plain pointer to later declarations: a parameter of its type by value is
  bound as a pointer.\<close>

theorem struct_by_value_lost:
  assumes r: "registry_ok win r" "visits h r" "\<forall>(m, p) \<in> set (reg_functionTypes r). map_of (reg_aliases r) m = Some Arg_Ptr"
    and n: "map_of (reg_aliases r) n = Some Arg_Ptr" and f: "map_of (reg_aliases r) ''f'' = None"
  shows "\<exists>st p. ParseForState win h r (''void f('' @ n @ '' x);'') = Inr st \<and> protos st = [p] \<and> p_args p = [Arg_Ptr]"
proof -
  have name: "plain_name n" using n r by (auto simp: registry_ok_def dest!: map_of_SomeD)
  let ?st = "restored_scope h r" and ?sc = "scope (restored_scope h r)"
  note maps = restored_scope_maps(1) [OF r]
  have al: "map_of (aliases ?sc) n = Some Arg_Ptr" "map_of (aliases ?sc) ''f'' = None" using maps n f by simp_all
  have plain: "plain_scope ?sc"
    using r(1) by (auto simp: plain_scope_def is_alias_def maps registry_ok_def split: option.splits ArgClass.splits dest!: map_of_SomeD)
  have void: "ParseType win ?sc Ret_I32 True \<lparr>LastLine = l0, c_rest = \<lparr>t_text = ''void'', t_line = l\<rparr> # \<lparr>t_text = ''f'', t_line = l\<rparr> # ts\<rparr> =
      Inr (Arg_I32, Ret_Void, [], \<lparr>LastLine = l, c_rest = \<lparr>t_text = ''f'', t_line = l\<rparr> # ts\<rparr>)" for l0 l ts
    using ParseType_return [OF plain, of "\<lparr>t_text = ''f'', t_line = l\<rparr> # ts" Ret_Void win Ret_I32 l0 l] al(2)
    by (simp add: ret_tokens_def type_stops_def is_alias_def IsBaseTypeWord_def base_type_words_def)
  have byval: "ParseType win ?sc Ret_I32 True \<lparr>LastLine = l0, c_rest = \<lparr>t_text = n, t_line = l\<rparr> # \<lparr>t_text = ''x'', t_line = l\<rparr> # ts\<rparr> =
      Inr (Arg_Ptr, Ret_Ptr, [], \<lparr>LastLine = l, c_rest = \<lparr>t_text = ''x'', t_line = l\<rparr> # ts\<rparr>)" for l0 l ts
    using name al(1) restored_scope_blank [of h r]
    by (simp add: ParseType_def skip_while_def is_qualifier_def plain_name_def IsBaseTypeWord_def base_type_words_def peeks_def alias_type_def Let_def)
  have params: "prototype_parameters win ?sc \<lparr>LastLine = l, c_rest = toks l [n, ''x'', '')'', '';'']\<rparr> =
      Inr ([(Arg_Ptr, [])], \<lparr>LastLine = l, c_rest = toks l ['';'']\<rparr>)" for l
    using name plain_name_punctuation [OF name]
    by (subst prototype_parameters_def, subst parameter_loop.simps)
      (simp add: is_void_list_def peeks_def parameter_def byval parameter_name_def parameter_array_def parameter_end_def Eof_def Next_def
        IsBaseTypeWord_def base_type_words_def)
  have proto: "\<exists>p. cdef_declaration win ?st \<lparr>LastLine = l0, c_rest = toks l [''void'', ''f'', ''('', n, ''x'', '')'', '';'']\<rparr> =
      Inr (?st\<lparr>protos := [p]\<rparr>, \<lparr>LastLine = l, c_rest = []\<rparr>) \<and> p_args p = [Arg_Ptr]" for l0 l
    using params [of l] restored_scope_blank [of h r]
    by (intro exI [of _ "\<lparr>p_name = ''f'', p_args = [Arg_Ptr], p_argStructNames = [[]], p_ret = ret_kind Arg_I32 Ret_Void,
        p_retStructName = [], p_convention = Conv_Default\<rparr>"])
      (simp add: cdef_declaration_def prototype_declaration_def peeks_def void optional_convention_def IsCallingConvention_def
        IsUnsupportedCallingConvention_def Eof_def Next_def kMaxArity_def skip_semicolon_def)
  obtain l' where "ParseCdef win (RegistryPreamble h r @ ''void f('' @ n @ '' x);'') =
    andThen (tokenize (Suc (length (kept_aliases (visit_aliases h (reg_aliases r))) + length (kept_functions (visit_functions h (reg_functionTypes r))))) (''void f('' @ n @ '' x);''))
      (\<lambda>ts. declaration_loop win ?st \<lparr>LastLine = l' ts, c_rest = ts\<rparr>)" using ParseCdef_preamble [OF r(1,2)] by blast
  then obtain l0 l where parsed: "ParseCdef win (RegistryPreamble h r @ ''void f('' @ n @ '' x);'') =
      declaration_loop win ?st \<lparr>LastLine = l0, c_rest = toks l [''void'', ''f'', ''('', n, ''x'', '')'', '';'']\<rparr>"
    using lexes_call [OF name, unfolded lexes_any_def, rule_format, of _ "[]"] by (auto simp: toks_def)
  obtain p where p: "cdef_declaration win ?st \<lparr>LastLine = l0, c_rest = toks l [''void'', ''f'', ''('', n, ''x'', '')'', '';'']\<rparr> =
      Inr (?st\<lparr>protos := [p]\<rparr>, \<lparr>LastLine = l, c_rest = []\<rparr>)" "p_args p = [Arg_Ptr]" using proto by blast
  have "declaration_loop win ?st \<lparr>LastLine = l0, c_rest = toks l [''void'', ''f'', ''('', n, ''x'', '')'', '';'']\<rparr> = Inr (?st\<lparr>protos := [p]\<rparr>)"
    using loop_step [of win ?st l0 l "''void''" "[''f'', ''('', n, ''x'', '')'', '';'']" "[]"] p(1)
    by (simp add: declaration_loop.simps [of win _ "\<lparr>LastLine = l, c_rest = []\<rparr>"] Eof_def)
  then show ?thesis using parsed p(2) by (simp add: ParseForState_def parse_cdef_def)
qed

theorem struct_by_value_lost_witness:
  "\<exists>st p. ParseForState False demo_order demo_registry (''void f('' @ ''P'' @ '' x);'') = Inr st \<and> protos st = [p] \<and> p_args p = [Arg_Ptr]"
  by (rule struct_by_value_lost [OF demo_registry_ok]) (simp_all add: demo_registry_def)

end
