(* ===== verification/Lode_HttpUrl.thy ===== *)
theory Lode_HttpUrl
  imports Lode_Text Lode_Value
begin

text \<open>
  The helpers of the http module, \<open>HttpHelpers.cpp\<close>: \<open>ParseUrl\<close>, \<open>ResolveRedirect\<close> and the options of a
  request. A refused URL is the record with its error; a raised error of the options is \<^const>\<open>Inl\<close>, and a
  conversion of a number that C++ leaves undefined is \<^const>\<open>None\<close>.
\<close>

section \<open>URLs\<close>

record ParsedUrl =
  u_valid :: bool
  u_error :: string
  u_scheme :: string
  u_host :: string
  u_port :: int
  u_path :: string
  u_authority :: string

definition ParsedUrl_new :: ParsedUrl where
  "ParsedUrl_new = \<lparr>u_valid = False, u_error = [], u_scheme = [], u_host = [], u_port = -1, u_path = [], u_authority = []\<rparr>"

definition IsSchemeChar :: "char \<Rightarrow> bool" where
  "IsSchemeChar c \<longleftrightarrow> is_alnum c \<or> c = CHR ''+'' \<or> c = CHR ''-'' \<or> c = CHR ''.''"

text \<open>Host and port text of an authority without user information; \<^const>\<open>Inl\<close> is the error.\<close>

definition split_authority :: "string \<Rightarrow> string + string \<times> string" where
  "split_authority authority =
     (if authority \<noteq> [] \<and> hd authority = CHR ''[''
      then case find_idx (\<lambda>c. c = CHR '']'') authority of
             None \<Rightarrow> Inl ''invalid IPv6 host''
           | Some close \<Rightarrow>
             (let host = take (close - 1) (drop 1 authority); rest = drop (close + 1) authority
              in if rest = [] then Inr (host, [])
                 else if hd rest \<noteq> CHR '':'' then Inl ''invalid host''
                 else Inr (host, tl rest))
      else case rfind_idx (\<lambda>c. c = CHR '':'') authority of
             Some colon \<Rightarrow> Inr (take colon authority, drop (colon + 1) authority)
           | None \<Rightarrow> Inr (authority, []))"

text \<open>The port text; what follows the digits is ignored. The port of an empty text is \<open>-1\<close>.\<close>

definition url_port_text :: "string \<Rightarrow> int option" where
  "url_port_text portStr =
     (if portStr = [] then Some (-1)
      else case from_chars 32 10 portStr of
             None \<Rightarrow> None
           | Some (v, _) \<Rightarrow> if v < 1 \<or> 65535 < v then None else Some v)"

definition path_query :: "string \<Rightarrow> string" where
  "path_query sfx = (let p = fst (cut_at sfx (find_idx (\<lambda>c. c = CHR ''#'') sfx)) in if p = [] then ''/'' else p)"

definition make_authority :: "string \<Rightarrow> string \<Rightarrow> int \<Rightarrow> string" where
  "make_authority scheme host port =
     (if scheme = ''http'' \<and> port = 80 then host else host @ '':'' @ nat_string (nat port))"

definition strip_userinfo :: "string \<Rightarrow> string" where
  "strip_userinfo authority =
     (case rfind_idx (\<lambda>c. c = CHR ''@'') authority of Some i \<Rightarrow> drop (i + 1) authority | None \<Rightarrow> authority)"

definition url_finish :: "ParsedUrl \<Rightarrow> string \<Rightarrow> string \<Rightarrow> string \<Rightarrow> ParsedUrl" where
  "url_finish out0 sfx host portStr =
     (if host = [] then out0\<lparr>u_error := ''URL must include a host''\<rparr>
      else
        let out = out0\<lparr>u_host := map to_lower host\<rparr>; scheme = u_scheme out0 in
        case url_port_text portStr of
          None \<Rightarrow> out\<lparr>u_error := ''invalid port''\<rparr>
        | Some port0 \<Rightarrow>
          if scheme \<noteq> ''http'' \<and> scheme \<noteq> ''https'' then out\<lparr>u_error := ''unsupported URL scheme: '' @ scheme\<rparr>
          else
            let port = (if port0 < 0 then if scheme = ''https'' then 443 else 80 else port0)
            in out\<lparr>u_port := port, u_path := path_query sfx,
                   u_authority := make_authority scheme (map to_lower host) port, u_valid := True\<rparr>)"

definition url_rest :: "ParsedUrl \<Rightarrow> string \<Rightarrow> ParsedUrl" where
  "url_rest out rest =
     (let (authority, sfx) = cut_at rest (find_idx (\<lambda>c. c = CHR ''/'' \<or> c = CHR ''?'' \<or> c = CHR ''#'') rest)
      in if authority = [] then out\<lparr>u_error := ''URL must include a host''\<rparr>
         else case split_authority (strip_userinfo authority) of
                Inl e \<Rightarrow> out\<lparr>u_error := e\<rparr>
              | Inr (host, portStr) \<Rightarrow> url_finish out sfx host portStr)"

definition ParseUrl :: "string \<Rightarrow> ParsedUrl" where
  "ParseUrl raw =
     (let out = ParsedUrl_new in
      case find_sub ''://'' raw of
        None \<Rightarrow> out\<lparr>u_error := ''URL must include a scheme (e.g. http://example.com)''\<rparr>
      | Some schemeEnd \<Rightarrow>
        if schemeEnd = 0 then out\<lparr>u_error := ''URL must include a scheme name''\<rparr>
        else
          let scheme = map to_lower (take schemeEnd raw) in
          if \<not> list_all IsSchemeChar scheme then out\<lparr>u_error := ''invalid URL scheme''\<rparr>
          else url_rest (out\<lparr>u_scheme := scheme\<rparr>) (drop (schemeEnd + 3) raw))"

definition ResolveRedirect :: "string \<Rightarrow> string \<Rightarrow> string" where
  "ResolveRedirect baseUrl location =
     (if location = [] then []
      else if find_sub ''://'' location \<noteq> None then location
      else
        let base = ParseUrl baseUrl; pre = u_scheme base @ ''://'' @ u_authority base in
        if \<not> u_valid base then location
        else if hd location = CHR ''/'' then pre @ location
        else
          let dir = (case rfind_idx (\<lambda>c. c = CHR ''/'') (u_path base) of Some slash \<Rightarrow> take (slash + 1) (u_path base) | None \<Rightarrow> ''/'')
          in pre @ dir @ location)"

section \<open>Request options\<close>

definition NormalizeMethod :: "string \<Rightarrow> string" where
  "NormalizeMethod method = map to_upper method"

record HttpRequestOptions =
  o_method :: string
  o_headers :: "(string \<times> string) list"
  o_body :: string
  o_timeoutMs :: nat
  o_followRedirects :: bool
  o_maxRedirects :: int
  o_chunkedUpload :: bool
  o_keepAlive :: bool
  o_onData :: lvalue

definition HttpRequestOptions_new :: HttpRequestOptions where
  "HttpRequestOptions_new = \<lparr>o_method = ''GET'', o_headers = [], o_body = [], o_timeoutMs = 0, o_followRedirects = True,
     o_maxRedirects = 10, o_chunkedUpload = False, o_keepAlive = True, o_onData = LNil\<rparr>"

text \<open>\<open>static_cast\<close> of a number to an integer type with the given range truncates; outside it is undefined.\<close>

definition cast_double :: "int \<Rightarrow> int \<Rightarrow> double \<Rightarrow> int option" where
  "cast_double lo hi d =
     (case d of
        Finite r \<Rightarrow> (let v = (if r < 0 then \<lceil>r\<rceil> else \<lfloor>r\<rfloor>) in if lo \<le> v \<and> v \<le> hi then Some v else None)
      | _ \<Rightarrow> None)"

type_synonym option_step = "HttpRequestOptions \<Rightarrow> (string + HttpRequestOptions) option"

definition then_option :: "(string + HttpRequestOptions) option \<Rightarrow> option_step \<Rightarrow> (string + HttpRequestOptions) option" where
  "then_option r f = (case r of Some (Inr s) \<Rightarrow> f s | _ \<Rightarrow> r)"

definition option_method :: "(string \<times> lvalue) list \<Rightarrow> option_step" where
  "option_method t s =
     (case table_get t ''method'' of
        LNil \<Rightarrow> Some (Inr s)
      | LString m \<Rightarrow> Some (Inr (s\<lparr>o_method := NormalizeMethod m\<rparr>))
      | _ \<Rightarrow> Some (Inl ''fetch options 'method' must be a string''))"

definition option_body :: "(string \<times> lvalue) list \<Rightarrow> option_step" where
  "option_body t s =
     (case table_get t ''body'' of
        LNil \<Rightarrow> Some (Inr s)
      | LString b \<Rightarrow> Some (Inr (s\<lparr>o_body := b\<rparr>))
      | LBuffer b \<Rightarrow> Some (Inr (s\<lparr>o_body := string_of b\<rparr>))
      | _ \<Rightarrow> Some (Inl ''fetch options 'body' must be a string or buffer''))"

definition option_timeout :: "(string \<times> lvalue) list \<Rightarrow> option_step" where
  "option_timeout t s =
     (case table_get t ''timeout'' of
        LNil \<Rightarrow> Some (Inr s)
      | LNumber d \<Rightarrow> map_option (\<lambda>v. Inr (s\<lparr>o_timeoutMs := nat v\<rparr>)) (cast_double 0 (2 ^ 64 - 1) d)
      | _ \<Rightarrow> Some (Inl ''fetch options 'timeout' must be a number''))"

definition option_redirects :: "(string \<times> lvalue) list \<Rightarrow> option_step" where
  "option_redirects t s =
     (case table_get t ''maxRedirects'' of
        LNil \<Rightarrow> Some (Inr s)
      | LNumber d \<Rightarrow> map_option (\<lambda>v. Inr (s\<lparr>o_maxRedirects := v\<rparr>)) (cast_double (- (2 ^ 63)) (2 ^ 63 - 1) d)
      | _ \<Rightarrow> Some (Inl ''fetch options 'maxRedirects' must be a number''))"

fun add_headers :: "(string \<times> lvalue) list \<Rightarrow> option_step" where
  "add_headers [] s = Some (Inr s)"
| "add_headers ((key, v) # hs) s =
     (case v of
        LNil \<Rightarrow> add_headers hs s
      | LString x \<Rightarrow> add_headers hs (s\<lparr>o_headers := o_headers s @ [(key, x)]\<rparr>)
      | _ \<Rightarrow> Some (Inl (''fetch options header '' @ [CHR 0x27] @ key @ CHR 0x27 # '' must be a string'')))"

definition option_headers :: "(string \<times> lvalue) list \<Rightarrow> option_step" where
  "option_headers t s =
     (case table_get t ''headers'' of
        LNil \<Rightarrow> Some (Inr s)
      | LTable h \<Rightarrow> add_headers h s
      | _ \<Rightarrow> Some (Inl ''fetch options 'headers' must be a table''))"

definition has_key :: "(string \<times> lvalue) list \<Rightarrow> string \<Rightarrow> bool" where
  "has_key t k \<longleftrightarrow> table_get t k \<noteq> LNil"

definition option_chunked :: "(string \<times> lvalue) list \<Rightarrow> option_step" where
  "option_chunked t s =
     (case (if has_key t ''chunked'' then table_get t ''chunked'' else table_get t ''chunkedUpload'') of
        LBool b \<Rightarrow> Some (Inr (s\<lparr>o_chunkedUpload := b\<rparr>))
      | _ \<Rightarrow> Some (Inr s))"

definition option_onData :: "(lvalue \<Rightarrow> bool) \<Rightarrow> (string \<times> lvalue) list \<Rightarrow> option_step" where
  "option_onData is_function t s =
     (let cb = (if has_key t ''onData'' then table_get t ''onData'' else table_get t ''onChunk'')
      in Some (Inr (if is_function cb then s\<lparr>o_onData := cb\<rparr> else s)))"

definition option_keepAlive :: "(string \<times> lvalue) list \<Rightarrow> option_step" where
  "option_keepAlive t s =
     (case table_get t ''keepAlive'' of
        LNil \<Rightarrow> Some (Inr s)
      | LBool b \<Rightarrow> Some (Inr (s\<lparr>o_keepAlive := b\<rparr>))
      | _ \<Rightarrow> Some (Inl ''fetch options 'keepAlive' must be a boolean''))"

definition ParseFetchOptions :: "(lvalue \<Rightarrow> bool) \<Rightarrow> lvalue \<Rightarrow> option_step" where
  "ParseFetchOptions is_function val s =
     (case val of
        LNil \<Rightarrow> Some (Inr s)
      | LTable t \<Rightarrow>
          foldl then_option (Some (Inr s))
            [option_method t, option_body t, option_timeout t, option_redirects t, option_headers t, option_chunked t,
             option_onData is_function t, option_keepAlive t]
      | _ \<Rightarrow> Some (Inl ''fetch options must be a table''))"

section \<open>Lemmas on URLs\<close>

lemma to_lower_special: "\<not> is_lower c \<Longrightarrow> to_lower d = c \<longleftrightarrow> d = c \<and> \<not> is_upper d"
proof -
  assume c: "\<not> is_lower c"
  have "is_upper d \<Longrightarrow> is_lower (to_lower d)" by (auto simp: is_upper_def is_lower_def ascii_to_lower)
  then show ?thesis using c by (auto simp: to_lower_def)
qed

lemma in_map_to_lower: "\<not> is_lower c \<Longrightarrow> c \<in> set (map to_lower s) \<Longrightarrow> c \<in> set s"
  using to_lower_special [of c] unfolding set_map by (metis imageE)

lemma hd_map_to_lower: "s \<noteq> [] \<Longrightarrow> hd (map to_lower s) = CHR ''['' \<Longrightarrow> hd s = CHR ''[''"
  using to_lower_special [of "CHR ''[''" "hd s"] by (cases s) (auto simp: is_lower_def)

lemma scheme_no_colon: "list_all IsSchemeChar s \<Longrightarrow> CHR '':'' \<notin> set s"
  by (auto simp: list_all_iff IsSchemeChar_def char_class_defs)

lemma find_scheme: "CHR '':'' \<notin> set s \<Longrightarrow> find_sub ''://'' (s @ ''://'' @ r) = Some (length s)"
  by (induction s) (auto simp: prefix_def)

lemma path_query_shape:
  assumes "s = [] \<or> hd s \<in> {CHR ''/'', CHR ''?'', CHR ''#''}"
  shows "CHR ''#'' \<notin> set (path_query s) \<and> path_query s \<noteq> [] \<and> hd (path_query s) \<in> {CHR ''/'', CHR ''?''}"
proof -
  obtain a b where ab: "cut_at s (find_idx (\<lambda>c. c = CHR ''#'') s) = (a, b)" by fastforce
  from cut_at_find [OF this] have "s = a @ b" "CHR ''#'' \<notin> set a" by auto
  with assms ab show ?thesis by (cases a) (auto simp: path_query_def)
qed

lemma path_query_id: "CHR ''#'' \<notin> set s \<Longrightarrow> s \<noteq> [] \<Longrightarrow> path_query s = s"
proof -
  assume s: "CHR ''#'' \<notin> set s" "s \<noteq> []"
  then have "find_idx (\<lambda>c. c = CHR ''#'') s = None" by (intro find_idx_absent) auto
  then show ?thesis using s(2) by (simp only: path_query_def cut_at_def Let_def) simp
qed

lemma split_authority_set: "split_authority a = Inr (h, p) \<Longrightarrow> set h \<subseteq> set a"
  by (auto simp: split_authority_def Let_def split: if_splits option.splits dest: in_set_takeD in_set_dropD)

lemma strip_userinfo_set: "set (strip_userinfo a) \<subseteq> set a \<and> CHR ''@'' \<notin> set (strip_userinfo a)"
  by (auto simp: strip_userinfo_def rfind_idx_None split: option.splits dest: in_set_dropD rfind_idx_SomeD)

lemma url_port_range: "url_port_text s = Some p \<Longrightarrow> p = -1 \<or> 1 \<le> p \<and> p \<le> 65535"
  by (auto simp: url_port_text_def split: if_splits option.splits)

text \<open>What an accepted URL was made of.\<close>

definition url_parts :: "string \<Rightarrow> string \<Rightarrow> string \<Rightarrow> int \<Rightarrow> bool" where
  "url_parts scheme host sfx port \<longleftrightarrow>
     (scheme = ''http'' \<or> scheme = ''https'') \<and> host \<noteq> [] \<and> 1 \<le> port \<and> port \<le> 65535 \<and>
     (\<forall>c \<in> set host. c \<notin> {CHR ''/'', CHR ''?'', CHR ''#'', CHR ''@''}) \<and>
     (sfx = [] \<or> hd sfx \<in> {CHR ''/'', CHR ''?'', CHR ''#''})"

definition accepted_url :: "string \<Rightarrow> string \<Rightarrow> string \<Rightarrow> int \<Rightarrow> ParsedUrl" where
  "accepted_url scheme host path port =
     \<lparr>u_valid = True, u_error = [], u_scheme = scheme, u_host = host, u_port = port, u_path = path, u_authority = make_authority scheme host port\<rparr>"

lemma url_finish_accepts:
  assumes "u_valid (url_finish (ParsedUrl_new\<lparr>u_scheme := scheme\<rparr>) sfx host portStr)"
  obtains port where "scheme = ''http'' \<or> scheme = ''https''" "host \<noteq> []" "1 \<le> port" "port \<le> 65535"
    "url_finish (ParsedUrl_new\<lparr>u_scheme := scheme\<rparr>) sfx host portStr = accepted_url scheme (map to_lower host) (path_query sfx) port"
proof -
  from assms have h: "host \<noteq> []" by (auto simp: url_finish_def ParsedUrl_new_def)
  from assms h obtain p0 where p0: "url_port_text portStr = Some p0"
    by (cases "url_port_text portStr") (simp_all add: url_finish_def ParsedUrl_new_def Let_def)
  from assms h p0 have s: "scheme = ''http'' \<or> scheme = ''https''"
    by (simp add: url_finish_def ParsedUrl_new_def Let_def split: if_splits)
  define port :: int where "port = (if p0 < 0 then if scheme = ''https'' then 443 else 80 else p0)"
  have "1 \<le> port" "port \<le> 65535" using url_port_range [OF p0] by (auto simp: port_def)
  moreover have "url_finish (ParsedUrl_new\<lparr>u_scheme := scheme\<rparr>) sfx host portStr = accepted_url scheme (map to_lower host) (path_query sfx) port"
    using h p0 s by (simp add: url_finish_def ParsedUrl_new_def accepted_url_def Let_def port_def)
  ultimately show thesis using s h that by blast
qed

lemma ParseUrl_accepts:
  assumes "u_valid (ParseUrl raw)"
  obtains scheme host sfx port where "url_parts scheme host sfx port"
    "ParseUrl raw = accepted_url scheme (map to_lower host) (path_query sfx) port"
proof -
  obtain i where i: "find_sub ''://'' raw = Some i" using assms by (cases "find_sub ''://'' raw") (auto simp: ParseUrl_def ParsedUrl_new_def)
  define rest where "rest = drop (i + 3) raw"
  define scheme where "scheme = map to_lower (take i raw)"
  let ?out = "ParsedUrl_new\<lparr>u_scheme := scheme\<rparr>"
  have eq: "ParseUrl raw = url_rest ?out rest"
    using assms i by (auto simp: ParseUrl_def ParsedUrl_new_def Let_def scheme_def rest_def split: if_splits)
  obtain a sfx where cut: "cut_at rest (find_idx (\<lambda>c. c = CHR ''/'' \<or> c = CHR ''?'' \<or> c = CHR ''#'') rest) = (a, sfx)" by fastforce
  from assms eq cut obtain host portStr where hp: "split_authority (strip_userinfo a) = Inr (host, portStr)" "ParseUrl raw = url_finish ?out sfx host portStr"
    by (cases "split_authority (strip_userinfo a)") (auto simp: url_rest_def ParsedUrl_new_def split: if_splits)
  from assms [unfolded hp(2)] obtain port where port: "scheme = ''http'' \<or> scheme = ''https''" "host \<noteq> []" "1 \<le> port" "port \<le> 65535"
      "url_finish ?out sfx host portStr = accepted_url scheme (map to_lower host) (path_query sfx) port" by (rule url_finish_accepts)
  from cut_at_find [OF cut] have "\<forall>c \<in> set a. c \<notin> {CHR ''/'', CHR ''?'', CHR ''#''}" "sfx = [] \<or> hd sfx \<in> {CHR ''/'', CHR ''?'', CHR ''#''}" by auto
  then have "url_parts scheme host sfx port"
    using port(1-4) split_authority_set [OF hp(1)] strip_userinfo_set [of a] unfolding url_parts_def by blast
  then show thesis using that hp(2) port(5) by simp
qed

text \<open>Reading a URL made of its parts.\<close>

lemma rfind_colon: "CHR '':'' \<notin> set d \<Longrightarrow> rfind_idx (\<lambda>c. c = CHR '':'') (h @ CHR '':'' # d) = Some (length h)"
proof -
  assume "CHR '':'' \<notin> set d"
  then have "find_idx (\<lambda>c. c = CHR '':'') (rev d @ CHR '':'' # rev h) = Some (length (rev d))" by (intro find_idx_first) auto
  then show ?thesis by (simp add: rfind_idx_def)
qed

lemma split_make_authority:
  assumes "h \<noteq> []" "CHR '':'' \<notin> set h" "hd h \<noteq> CHR ''[''" "1 \<le> port" "port \<le> 65535" "scheme = ''http'' \<or> scheme = ''https''"
  shows "\<exists>portStr. split_authority (make_authority scheme h port) = Inr (h, portStr) \<and>
    (portStr = [] \<and> scheme = ''http'' \<and> port = 80 \<or> url_port_text portStr = Some port)"
proof (cases "scheme = ''http'' \<and> port = 80")
  case True
  have "rfind_idx (\<lambda>c. c = CHR '':'') h = None" using assms(2) by (intro rfind_idx_absent) auto
  with True assms(1,3) show ?thesis by (simp add: make_authority_def split_authority_def)
next
  case False
  let ?d = "nat_string (nat port)"
  have "rfind_idx (\<lambda>c. c = CHR '':'') (h @ CHR '':'' # ?d) = Some (length h)" by (rule rfind_colon) (simp add: nat_string_no is_digit_def)
  then have "split_authority (make_authority scheme h port) = Inr (h, ?d)"
    using False assms(1,3) by (auto simp: make_authority_def split_authority_def)
  moreover have "from_chars 32 10 ?d = Some (port, [])" using from_chars_nat_string [of "nat port" 32 "[]"] assms(4,5) by simp
  then have "url_port_text ?d = Some port" using assms(4,5) by (simp add: url_port_text_def)
  ultimately show ?thesis by blast
qed

lemma authority_set: "c \<in> set (make_authority scheme h port) \<Longrightarrow> c \<in> set h \<or> c = CHR '':'' \<or> is_digit c"
  using nat_string_digits [of "nat port"] by (auto simp: make_authority_def list_all_iff split: if_splits)

lemma ParseUrl_render:
  assumes "scheme = ''http'' \<or> scheme = ''https''" "h \<noteq> []" "map to_lower h = h" "1 \<le> port" "port \<le> 65535"
    and "\<forall>c \<in> set h. c \<notin> {CHR ''/'', CHR ''?'', CHR ''#'', CHR ''@'', CHR '':''}" "hd h \<noteq> CHR ''[''"
    and "sfx = [] \<or> hd sfx \<in> {CHR ''/'', CHR ''?'', CHR ''#''}"
  shows "ParseUrl (scheme @ ''://'' @ make_authority scheme h port @ sfx) = accepted_url scheme h (path_query sfx) port"
proof -
  let ?a = "make_authority scheme h port"
  let ?out = "ParsedUrl_new\<lparr>u_scheme := scheme\<rparr>"
  have low: "map to_lower scheme = scheme" "list_all IsSchemeChar scheme" "scheme \<noteq> []"
    using assms(1) by (auto simp: to_lower_def is_upper_def IsSchemeChar_def char_class_defs)
  have "find_sub ''://'' (scheme @ ''://'' @ ?a @ sfx) = Some (length scheme)" by (rule find_scheme [OF scheme_no_colon [OF low(2)]])
  then have eq: "ParseUrl (scheme @ ''://'' @ ?a @ sfx) = url_rest ?out (?a @ sfx)" using low by (simp add: ParseUrl_def Let_def)
  have a: "\<forall>c \<in> set ?a. c \<noteq> CHR ''/'' \<and> c \<noteq> CHR ''?'' \<and> c \<noteq> CHR ''#'' \<and> c \<noteq> CHR ''@''"
    using assms(6) authority_set [of _ scheme h port] by (fastforce simp: is_digit_def)
  have a0: "?a \<noteq> []" using assms(2) by (simp add: make_authority_def)
  have cut: "cut_at (?a @ sfx) (find_idx (\<lambda>c. c = CHR ''/'' \<or> c = CHR ''?'' \<or> c = CHR ''#'') (?a @ sfx)) = (?a, sfx)"
  proof (cases "sfx = []")
    case True
    have "find_idx (\<lambda>c. c = CHR ''/'' \<or> c = CHR ''?'' \<or> c = CHR ''#'') ?a = None" using a by (intro find_idx_absent) auto
    then show ?thesis by (simp only: True cut_at_def) simp
  next
    case False
    then have "find_idx (\<lambda>c. c = CHR ''/'' \<or> c = CHR ''?'' \<or> c = CHR ''#'') (?a @ sfx) = Some (length ?a)"
      using assms(8) a by (intro find_idx_at) auto
    then show ?thesis by (simp only: cut_at_def) simp
  qed
  have user: "strip_userinfo ?a = ?a" using a by (simp add: strip_userinfo_def rfind_idx_absent)
  obtain portStr where ps: "split_authority ?a = Inr (h, portStr)" "portStr = [] \<and> scheme = ''http'' \<and> port = 80 \<or> url_port_text portStr = Some port"
    using split_make_authority [OF assms(2) _ assms(7,4,5,1)] assms(6) by blast
  have "url_rest ?out (?a @ sfx) = url_finish ?out sfx h portStr" using cut a0 user ps(1) by (simp add: url_rest_def)
  moreover have "url_finish ?out sfx h portStr = accepted_url scheme h (path_query sfx) port"
    using ps(2) assms(1-5) by (auto simp: url_finish_def accepted_url_def ParsedUrl_new_def Let_def url_port_text_def)
  ultimately show ?thesis using eq by simp
qed

lemma accepted_host:
  assumes p: "url_parts scheme host sfx port" and colon: "CHR '':'' \<notin> set (map to_lower host)"
  shows "\<forall>c \<in> set (map to_lower host). c \<notin> {CHR ''/'', CHR ''?'', CHR ''#'', CHR ''@'', CHR '':''}"
proof
  fix c assume c: "c \<in> set (map to_lower host)"
  have d: "\<not> is_lower d \<Longrightarrow> d \<notin> set host \<Longrightarrow> c \<noteq> d" for d using in_map_to_lower [of d host] c by blast
  have out: "CHR ''/'' \<notin> set host" "CHR ''?'' \<notin> set host" "CHR ''#'' \<notin> set host" "CHR ''@'' \<notin> set host"
    using p unfolding url_parts_def by blast+
  have "c \<noteq> CHR ''/''" "c \<noteq> CHR ''?''" "c \<noteq> CHR ''#''" "c \<noteq> CHR ''@''"
    by (rule d [OF _ out(1)] d [OF _ out(2)] d [OF _ out(3)] d [OF _ out(4)], simp add: is_lower_def)+
  moreover have "c \<noteq> CHR '':''" using c colon by metis
  ultimately show "c \<notin> {CHR ''/'', CHR ''?'', CHR ''#'', CHR ''@'', CHR '':''}" by simp
qed

text \<open>Another path at the origin of an accepted URL.\<close>

lemma ParseUrl_same_origin:
  assumes "u_valid (ParseUrl raw)" "CHR '':'' \<notin> set (u_host (ParseUrl raw))" "hd (u_host (ParseUrl raw)) \<noteq> CHR ''[''"
    and "sfx = [] \<or> hd sfx \<in> {CHR ''/'', CHR ''?'', CHR ''#''}"
  shows "ParseUrl (u_scheme (ParseUrl raw) @ ''://'' @ u_authority (ParseUrl raw) @ sfx) = (ParseUrl raw)\<lparr>u_path := path_query sfx\<rparr>"
  using assms(1)
proof (rule ParseUrl_accepts)
  fix scheme host sfx0 port
  assume p: "url_parts scheme host sfx0 port" and eq: "ParseUrl raw = accepted_url scheme (map to_lower host) (path_query sfx0) port"
  have "CHR '':'' \<notin> set (map to_lower host)" using assms(2) unfolding eq by (simp add: accepted_url_def)
  note h = accepted_host [OF p this]
  have "ParseUrl (scheme @ ''://'' @ make_authority scheme (map to_lower host) port @ sfx) = accepted_url scheme (map to_lower host) (path_query sfx) port"
    using p h assms(3,4) by (intro ParseUrl_render) (auto simp: url_parts_def eq accepted_url_def)
  then show ?thesis unfolding eq by (simp add: accepted_url_def)
qed

lemma demo_url: "ParseUrl ''http://h:81?b#c'' = accepted_url ''http'' ''h'' ''?b'' 81"
proof -
  have "nat_string 81 = ''81''" by code_simp
  moreover have "path_query ''?b#c'' = ''?b''" by (simp add: path_query_def cut_at_def Let_def)
  ultimately show ?thesis using ParseUrl_render [of "''http''" "''h''" 81 "''?b#c''"] by (simp add: make_authority_def to_lower_def is_upper_def)
qed

section \<open>Properties\<close>

text \<open>C1. An accepted URL has scheme http or https, a host, a port in range, and a path without fragment.\<close>

theorem http_url_wf:
  assumes "u_valid (ParseUrl raw)"
  shows "u_scheme (ParseUrl raw) \<in> {''http'', ''https''} \<and> u_host (ParseUrl raw) \<noteq> [] \<and>
    1 \<le> u_port (ParseUrl raw) \<and> u_port (ParseUrl raw) \<le> 65535 \<and> u_path (ParseUrl raw) \<noteq> [] \<and> CHR ''#'' \<notin> set (u_path (ParseUrl raw))"
  using assms
proof (rule ParseUrl_accepts)
  fix scheme host sfx port
  assume p: "url_parts scheme host sfx port" and eq: "ParseUrl raw = accepted_url scheme (map to_lower host) (path_query sfx) port"
  from p have "sfx = [] \<or> hd sfx \<in> {CHR ''/'', CHR ''?'', CHR ''#''}" by (simp add: url_parts_def)
  from path_query_shape [OF this] p show ?thesis unfolding eq by (auto simp: accepted_url_def url_parts_def)
qed

theorem http_url_wf_witness:
  "u_valid (ParseUrl ''http://h:81?b#c'') \<and> u_path (ParseUrl ''http://h:81?b#c'') \<noteq> []"
proof
  show v: "u_valid (ParseUrl ''http://h:81?b#c'')" by (simp add: demo_url accepted_url_def)
  show "u_path (ParseUrl ''http://h:81?b#c'') \<noteq> []" using http_url_wf [OF v] by blast
qed



text \<open>C3. A redirect whose location holds no scheme stays at the origin of the request.\<close>

theorem redirect_same_origin:
  assumes "u_valid (ParseUrl base)" "CHR '':'' \<notin> set (u_host (ParseUrl base))" "hd (u_host (ParseUrl base)) \<noteq> CHR ''[''"
    and "location \<noteq> []" "find_sub ''://'' location = None"
  shows "u_valid (ParseUrl (ResolveRedirect base location)) \<and> u_scheme (ParseUrl (ResolveRedirect base location)) = u_scheme (ParseUrl base) \<and>
    u_host (ParseUrl (ResolveRedirect base location)) = u_host (ParseUrl base) \<and>
    u_port (ParseUrl (ResolveRedirect base location)) = u_port (ParseUrl base)"
proof -
  let ?b = "ParseUrl base"
  define dir where "dir = (if hd location = CHR ''/'' then [] else case rfind_idx (\<lambda>c. c = CHR ''/'') (u_path ?b) of Some slash \<Rightarrow> take (slash + 1) (u_path ?b) | None \<Rightarrow> ''/'')"
  obtain scheme host sfx port where "url_parts scheme host sfx port" "?b = accepted_url scheme (map to_lower host) (path_query sfx) port"
    using assms(1) by (rule ParseUrl_accepts)
  then have path: "u_path ?b \<noteq> [] \<and> hd (u_path ?b) \<in> {CHR ''/'', CHR ''?''}"
    using path_query_shape [of sfx] by (simp add: url_parts_def accepted_url_def)
  have "hd (dir @ location) \<in> {CHR ''/'', CHR ''?'', CHR ''#''}"
    using path assms(4) by (cases "u_path ?b") (auto simp: dir_def split: option.split)
  moreover have "ResolveRedirect base location = u_scheme ?b @ ''://'' @ u_authority ?b @ dir @ location"
    using assms(1,4,5) by (simp add: ResolveRedirect_def Let_def dir_def split: option.split)
  ultimately show ?thesis using ParseUrl_same_origin [OF assms(1,2,3), of "dir @ location"] assms(1) by simp
qed

theorem redirect_same_origin_witness:
  "u_host (ParseUrl (ResolveRedirect ''http://h:81?b#c'' ''//x'')) = ''h''"
proof -
  have "u_host (ParseUrl (ResolveRedirect ''http://h:81?b#c'' ''//x'')) = u_host (ParseUrl ''http://h:81?b#c'')"
    using redirect_same_origin [of "''http://h:81?b#c''" "''//x''"] by (simp add: demo_url accepted_url_def prefix_def)
  then show ?thesis by (simp add: demo_url accepted_url_def)
qed

text \<open>A location that is an absolute path is taken for an absolute URL as soon as it holds \<open>://\<close> anywhere, for
  instance in its query, and then always ends in an error.\<close>

theorem redirect_url_in_query:
  assumes "location \<noteq> []" "hd location = CHR ''/''" "find_sub ''://'' location = Some i"
  shows "\<not> u_valid (ParseUrl (ResolveRedirect base location))"
proof -
  have "ResolveRedirect base location = location" using assms by (simp add: ResolveRedirect_def)
  moreover have "\<not> list_all IsSchemeChar (map to_lower (take i location))" if "i \<noteq> 0"
  proof -
    have "take i location = CHR ''/'' # take (i - 1) (tl location)" using that assms(1,2) by (cases location; cases i) auto
    then show ?thesis by (simp add: IsSchemeChar_def char_class_defs to_lower_def)
  qed
  ultimately show ?thesis using assms(3) by (auto simp: ParseUrl_def ParsedUrl_new_def Let_def)
qed

theorem redirect_url_in_query_witness:
  "\<not> u_valid (ParseUrl (ResolveRedirect ''http://h:81?b#c'' ''/login?next=http://x''))"
  by (rule redirect_url_in_query [where i = 16]) (simp_all add: prefix_def)

end
