(* ===== verification/Lode_HttpServer.thy ===== *)
theory Lode_HttpServer
  imports Lode_HttpUrl
begin

text \<open>
  The server side of the http module, \<open>HttpServer.cpp\<close> without the Windows TLS context: the request parser of a
  connection, the response object, and connection and server on libuv. The parser works on the bytes received
  so far (\<open>rawBuffer\<close>) and is run again after each read. An exception that nobody catches is \<^const>\<open>None\<close>.
\<close>

section \<open>Responses\<close>

definition StatusReason :: "int \<Rightarrow> string" where
  "StatusReason code =
     (case map_of [(200, ''OK''), (201, ''Created''), (202, ''Accepted''), (204, ''No Content''), (301, ''Moved Permanently''),
        (302, ''Found''), (304, ''Not Modified''), (400, ''Bad Request''), (401, ''Unauthorized''), (403, ''Forbidden''),
        (404, ''Not Found''), (405, ''Method Not Allowed''), (409, ''Conflict''), (500, ''Internal Server Error''),
        (502, ''Bad Gateway''), (503, ''Service Unavailable'')] code of
        Some reason \<Rightarrow> reason
      | None \<Rightarrow> ''Unknown'')"

record HttpServerResponse =
  statusCode :: int
  statusText :: string
  resp_headers :: "(string \<times> string) list"
  bodyBuffer :: string
  finished :: bool

definition HttpServerResponse_new :: HttpServerResponse where
  "HttpServerResponse_new = \<lparr>statusCode = 200, statusText = ''OK'', resp_headers = [], bodyBuffer = [], finished = False\<rparr>"

definition SetStatus :: "int \<Rightarrow> string \<Rightarrow> HttpServerResponse \<Rightarrow> HttpServerResponse" where
  "SetStatus code txt r = r\<lparr>statusCode := code, statusText := (if txt = [] then StatusReason code else txt)\<rparr>"

fun set_header :: "string \<Rightarrow> string \<Rightarrow> (string \<times> string) list \<Rightarrow> (string \<times> string) list" where
  "set_header name value [] = [(name, value)]"
| "set_header name value ((n, v) # hs) =
     (if map to_lower n = map to_lower name then (n, value) # hs else (n, v) # set_header name value hs)"

definition SetHeader :: "string \<Rightarrow> string \<Rightarrow> HttpServerResponse \<Rightarrow> HttpServerResponse" where
  "SetHeader name value r = r\<lparr>resp_headers := set_header name value (resp_headers r)\<rparr>"

definition Response_Write :: "string \<Rightarrow> HttpServerResponse \<Rightarrow> HttpServerResponse" where
  "Response_Write data r = (if finished r \<or> data = [] then r else r\<lparr>bodyBuffer := bodyBuffer r @ data\<rparr>)"

definition has_header :: "string \<Rightarrow> (string \<times> string) list \<Rightarrow> bool" where
  "has_header name hs = list_ex (\<lambda>h. map to_lower (fst h) = name) hs"

definition status_string :: "int \<Rightarrow> string" where
  "status_string i = (if i < 0 then CHR ''-'' # nat_string (nat (- i)) else nat_string (nat i))"

definition render_response :: "HttpServerResponse \<Rightarrow> string" where
  "render_response r =
     ''HTTP/1.1 '' @ status_string (statusCode r) @ '' '' @ statusText r @ CRLF @
     concat (map field_line (resp_headers r)) @ CRLF @ bodyBuffer r"

definition complete_headers :: "HttpServerResponse \<Rightarrow> HttpServerResponse" where
  "complete_headers r =
     (let hasContentLength = has_header ''content-length'' (resp_headers r);
          hasConnection = has_header ''connection'' (resp_headers r);
          r1 = (if hasContentLength then r else SetHeader ''Content-Length'' (nat_string (length (bodyBuffer r))) r)
      in if hasConnection then r1 else SetHeader ''Connection'' ''close'' r1)"

text \<open>\<open>End\<close> gives the bytes for the connection, unless the response had ended before.\<close>

definition Response_End :: "string \<Rightarrow> HttpServerResponse \<Rightarrow> string option \<times> HttpServerResponse" where
  "Response_End data r =
     (if finished r then (None, r)
      else let r1 = complete_headers (r\<lparr>finished := True, bodyBuffer := bodyBuffer r @ data\<rparr>) in (Some (render_response r1), r1))"

text \<open>The methods that Luau calls on a response, with their arguments after the object.\<close>

definition Method_SetStatus :: "lvalue list \<Rightarrow> HttpServerResponse \<Rightarrow> HttpServerResponse option" where
  "Method_SetStatus args r =
     (case arg args 0 of
        LNumber d \<Rightarrow>
          map_option (\<lambda>code. SetStatus code (case arg args 1 of LString t \<Rightarrow> t | _ \<Rightarrow> []) r) (cast_double (- (2 ^ 31)) (2 ^ 31 - 1) d)
      | _ \<Rightarrow> Some r)"

definition Method_SetHeader :: "lvalue list \<Rightarrow> HttpServerResponse \<Rightarrow> HttpServerResponse" where
  "Method_SetHeader args r =
     (case (arg args 0, arg args 1) of (LString n, LString v) \<Rightarrow> SetHeader n v r | _ \<Rightarrow> r)"

definition Method_Write :: "lvalue list \<Rightarrow> HttpServerResponse \<Rightarrow> HttpServerResponse" where
  "Method_Write args r =
     (case arg args 0 of LString s \<Rightarrow> Response_Write s r | LBuffer b \<Rightarrow> Response_Write (string_of b) r | _ \<Rightarrow> r)"

definition Method_End :: "lvalue list \<Rightarrow> HttpServerResponse \<Rightarrow> string option \<times> HttpServerResponse" where
  "Method_End args r =
     (case arg args 0 of LString s \<Rightarrow> Response_End s r | LBuffer b \<Rightarrow> Response_End (string_of b) r | _ \<Rightarrow> Response_End [] r)"

definition Method_Json :: "lvalue list \<Rightarrow> HttpServerResponse \<Rightarrow> string option \<times> HttpServerResponse" where
  "Method_Json args r =
     Response_End (case arg args 0 of LString s \<Rightarrow> s | _ \<Rightarrow> ''{}'') (SetHeader ''Content-Type'' ''application/json'' r)"

section \<open>Parsing requests\<close>

record HttpServerConnection =
  clientInited :: bool
  clientClosed :: bool
  rawBuffer :: string
  headersParsed :: bool
  headerEndPos :: nat
  expectedContentLength :: nat
  hasContentLength :: bool
  req_method :: string
  req_url :: string
  req_path :: string
  req_query :: string
  req_version :: string
  requestHeaders :: "(string \<times> string) list"
  req_body :: string
  conn_reading :: bool
  conn_guard :: bool

definition HttpServerConnection_new :: HttpServerConnection where
  "HttpServerConnection_new = \<lparr>clientInited = False, clientClosed = False, rawBuffer = [], headersParsed = False, headerEndPos = 0,
     expectedContentLength = 0, hasContentLength = False, req_method = [], req_url = [], req_path = [], req_query = [],
     req_version = [], requestHeaders = [], req_body = [], conn_reading = False, conn_guard = False\<rparr>"

text \<open>A search for one delimiter and, if that is absent, for another, with the length of the one found.\<close>

definition find_either :: "string \<Rightarrow> string \<Rightarrow> string \<Rightarrow> (nat \<times> nat) option" where
  "find_either p q s =
     (case find_sub p s of
        Some i \<Rightarrow> Some (i, length p)
      | None \<Rightarrow> map_option (\<lambda>i. (i, length q)) (find_sub q s))"

lemma find_either_range: "find_either p q s = Some (i, d) \<Longrightarrow> p \<noteq> [] \<Longrightarrow> q \<noteq> [] \<Longrightarrow> 0 < d \<and> i + d \<le> length s"
  by (auto simp: find_either_def split: option.splits dest: find_sub_length)

definition strip_blanks :: "string \<Rightarrow> string" where
  "strip_blanks v = rev (dropWhile is_blank (rev (dropWhile is_blank v)))"

function header_lines :: "string \<Rightarrow> (string \<times> string) list" where
  "header_lines rest =
     (if rest = [] then []
      else
        let nl = find_either CRLF [LF] rest;
            line = (case nl of None \<Rightarrow> rest | Some (e, _) \<Rightarrow> take e rest);
            here = (case find_idx (\<lambda>c. c = CHR '':'') line of
                      None \<Rightarrow> []
                    | Some colon \<Rightarrow> [(take colon line, strip_blanks (drop (colon + 1) line))])
        in case nl of None \<Rightarrow> here | Some (e, d) \<Rightarrow> here @ header_lines (drop (e + d) rest))"
  by pat_completeness auto
termination
proof (relation "measure length")
  fix rest e d and nl :: "(nat \<times> nat) option" and x :: "nat \<times> nat"
  assume "rest \<noteq> []" "nl = find_either CRLF [LF] rest" "nl = Some x" "(e, d) = x"
  then have "0 < d" using find_either_range [of CRLF "[LF]" rest e d] by simp
  then show "(drop (e + d) rest, rest) \<in> measure length" using \<open>rest \<noteq> []\<close> by simp
qed simp

declare header_lines.simps [simp del]

definition note_length :: "string \<times> string \<Rightarrow> HttpServerConnection \<Rightarrow> HttpServerConnection" where
  "note_length h c =
     (if map to_lower (fst h) = ''content-length''
      then case stoull 10 (snd h) of
             Some n \<Rightarrow> c\<lparr>expectedContentLength := n, hasContentLength := True\<rparr>
           | None \<Rightarrow> c
      else c)"

definition split_target :: "string \<Rightarrow> string \<times> string" where
  "split_target rest =
     (case find_idx (\<lambda>x. x = CHR '' '') rest of None \<Rightarrow> (rest, ''HTTP/1.1'') | Some i \<Rightarrow> (take i rest, drop (i + 1) rest))"

definition split_query :: "string \<Rightarrow> string \<times> string" where
  "split_query url =
     (case find_idx (\<lambda>x. x = CHR ''?'') url of None \<Rightarrow> (url, []) | Some q \<Rightarrow> (take q url, drop (q + 1) url))"

definition request_line :: "string \<Rightarrow> nat \<Rightarrow> HttpServerConnection \<Rightarrow> HttpServerConnection" where
  "request_line reqLine sp1 c =
     (let (url, version) = split_target (drop (sp1 + 1) reqLine); (path, query) = split_query url
      in c\<lparr>req_method := take sp1 reqLine, req_url := url, req_version := version, req_path := path, req_query := query\<rparr>)"

text \<open>The first half of \<open>TryParseRequest\<close>: the header block.\<close>

definition parse_head :: "HttpServerConnection \<Rightarrow> HttpServerConnection" where
  "parse_head c =
     (case find_either (CRLF @ CRLF) [LF, LF] (rawBuffer c) of
        None \<Rightarrow> c
      | Some (idx, delimLen) \<Rightarrow>
        (let headerStr = take idx (rawBuffer c); c1 = c\<lparr>headerEndPos := idx + delimLen\<rparr>
         in case find_either CRLF [LF] headerStr of
              None \<Rightarrow> c1
            | Some (lineEnd, lineDelim) \<Rightarrow>
              (let reqLine = take lineEnd headerStr
               in case find_idx (\<lambda>x. x = CHR '' '') reqLine of
                    None \<Rightarrow> c1
                  | Some sp1 \<Rightarrow>
                    (let fields = header_lines (drop (lineEnd + lineDelim) headerStr);
                         c2 = request_line reqLine sp1 c1
                     in (fold note_length fields c2)\<lparr>requestHeaders := requestHeaders c2 @ fields, headersParsed := True\<rparr>))))"

text \<open>The chunks of a body. Positions are \<open>size_t\<close>; the sum that is compared with the size of the buffer wraps, and
  appending past the end of the buffer then throws.\<close>

function chunk_loop :: "string \<Rightarrow> nat \<Rightarrow> nat \<Rightarrow> string \<Rightarrow> string option" where
  "chunk_loop raw endChunk cpos acc =
     (if endChunk \<le> cpos then Some acc
      else
        case find_either CRLF [LF] (drop cpos raw) of
          None \<Rightarrow> Some acc
        | Some (len, delim) \<Rightarrow>
          let sizeStr = take len (drop cpos raw) in
          if sizeStr = [] then Some acc
          else case stoull 16 sizeStr of
                 None \<Rightarrow> Some acc
               | Some n \<Rightarrow>
                 let c1 = cpos + len + delim in
                 if n = 0 then Some acc
                 else if length raw < (c1 + n) mod 2 ^ 64 then Some acc
                 else if length raw < c1 + n then None
                 else chunk_loop raw endChunk (c1 + n + delim) (acc @ take n (drop c1 raw)))"
  by pat_completeness auto
termination
  by (relation "measure (\<lambda>(raw, endChunk, cpos, acc). endChunk - cpos)") auto

declare chunk_loop.simps [simp del]

definition is_chunked :: "(string \<times> string) list \<Rightarrow> bool" where
  "is_chunked hs = list_ex (\<lambda>h. map to_lower (fst h) = ''transfer-encoding'' \<and> find_sub ''chunked'' (map to_lower (snd h)) \<noteq> None) hs"

definition find_last_chunk :: "string \<Rightarrow> nat \<Rightarrow> nat option" where
  "find_last_chunk raw pos =
     (case find_from (''0'' @ CRLF @ CRLF) raw pos of Some i \<Rightarrow> Some i | None \<Rightarrow> find_from (''0'' @ [LF, LF]) raw pos)"

text \<open>The second half: the body.\<close>

definition parse_body :: "HttpServerConnection \<Rightarrow> (bool \<times> HttpServerConnection) option" where
  "parse_body c =
     (if is_chunked (requestHeaders c)
      then case find_last_chunk (rawBuffer c) (headerEndPos c) of
             None \<Rightarrow> Some (False, c)
           | Some endChunk \<Rightarrow>
             map_option (\<lambda>b. (True, c\<lparr>req_body := b\<rparr>)) (chunk_loop (rawBuffer c) endChunk (headerEndPos c) [])
      else if hasContentLength c
      then if expectedContentLength c \<le> length (rawBuffer c) - headerEndPos c
           then Some (True, c\<lparr>req_body := take (expectedContentLength c) (drop (headerEndPos c) (rawBuffer c))\<rparr>)
           else Some (False, c)
      else Some (True, c\<lparr>req_body := drop (headerEndPos c) (rawBuffer c)\<rparr>))"

definition TryParseRequest :: "HttpServerConnection \<Rightarrow> (bool \<times> HttpServerConnection) option" where
  "TryParseRequest c =
     (let c1 = (if headersParsed c then c else parse_head c)
      in if headersParsed c1 then parse_body c1 else Some (False, c1))"

section \<open>Messages as lines\<close>

text \<open>A head is its lines with a line end between them; the lines of a proper head are not empty and hold no line
  end characters.\<close>

fun join_crlf :: "string list \<Rightarrow> string" where
  "join_crlf [] = []"
| "join_crlf [l] = l"
| "join_crlf (l # m # ls) = l @ CRLF @ join_crlf (m # ls)"

definition proper_line :: "string \<Rightarrow> bool" where
  "proper_line l \<longleftrightarrow> l \<noteq> [] \<and> CR \<notin> set l \<and> LF \<notin> set l"

lemma join_crlf_Cons: "ls \<noteq> [] \<Longrightarrow> join_crlf (l # ls) = l @ CRLF @ join_crlf ls"
  by (cases ls) auto

lemma join_crlf_head: "ls \<noteq> [] \<Longrightarrow> list_all proper_line ls \<Longrightarrow> \<exists>x xs. join_crlf ls = x # xs \<and> x \<noteq> CR \<and> x \<noteq> LF"
proof (cases ls)
  case (Cons l ms)
  assume "list_all proper_line ls"
  with Cons obtain x xs where "l = x # xs" "x \<noteq> CR" "x \<noteq> LF" by (cases l) (auto simp: proper_line_def)
  with Cons show ?thesis by (cases ms) auto
qed simp

lemma find_sub_skip: "\<not> prefix p (x # xs) \<Longrightarrow> find_sub p (x # xs) = map_option Suc (find_sub p xs)"
  by simp

lemma find_sub_skip_list: "c \<notin> set l \<Longrightarrow> find_sub (c # p) (l @ xs) = map_option (\<lambda>i. length l + i) (find_sub (c # p) xs)"
  by (induction l) (cases "find_sub (c # p) xs"; simp)+

lemma find_blank_line:
  "ls \<noteq> [] \<Longrightarrow> list_all proper_line ls \<Longrightarrow> find_sub (CRLF @ CRLF) (join_crlf ls @ CRLF @ CRLF @ rest) = Some (length (join_crlf ls))"
proof (induction ls)
  case (Cons l ls)
  have l: "CR \<notin> set l" using Cons.prems by (simp add: proper_line_def)
  show ?case
  proof (cases "ls = []")
    case True
    then show ?thesis using find_sub_skip_list [OF l, of "[LF, CR, LF]" "CR # LF # CR # LF # rest"] by simp
  next
    case False
    with Cons.prems obtain x xs where x: "join_crlf ls = x # xs" "x \<noteq> CR" using join_crlf_head [of ls] by auto
    let ?r = "join_crlf ls @ CRLF @ CRLF @ rest"
    have "find_sub (CRLF @ CRLF) (CR # LF # ?r) = map_option (Suc \<circ> Suc) (find_sub (CRLF @ CRLF) ?r)"
      using x by (simp add: option.map_comp comp_def)
    then show ?thesis using Cons False find_sub_skip_list [OF l, of "[LF, CR, LF]" "CR # LF # ?r"] by (simp add: join_crlf_Cons)
  qed
qed simp

lemma no_blank_lf: "ls \<noteq> [] \<Longrightarrow> list_all proper_line ls \<Longrightarrow> find_sub [LF, LF] (join_crlf ls @ CRLF) = None"
proof (induction ls)
  case (Cons l ls)
  have l: "LF \<notin> set l" using Cons.prems by (simp add: proper_line_def)
  show ?case
  proof (cases "ls = []")
    case True
    then show ?thesis using find_sub_skip_list [OF l, of "[LF]" "[CR, LF]"] by simp
  next
    case False
    with Cons.prems obtain x xs where x: "join_crlf ls = x # xs" "x \<noteq> LF" using join_crlf_head [of ls] by auto
    have "find_sub [LF, LF] (CR # LF # join_crlf ls @ CRLF) = None" using Cons False x by simp
    then show ?thesis using False find_sub_skip_list [OF l, of "[LF]" "CR # LF # join_crlf ls @ CRLF"] by (simp add: join_crlf_Cons)
  qed
qed simp

text \<open>Header lines are read one by one.\<close>

definition line_field :: "string \<Rightarrow> (string \<times> string) list" where
  "line_field line =
     (case find_idx (\<lambda>c. c = CHR '':'') line of
        None \<Rightarrow> []
      | Some colon \<Rightarrow> [(take colon line, strip_blanks (drop (colon + 1) line))])"

lemma header_lines_last: "l \<noteq> [] \<Longrightarrow> CR \<notin> set l \<Longrightarrow> LF \<notin> set l \<Longrightarrow> header_lines l = line_field l"
  by (simp add: header_lines.simps [of l] find_either_def find_sub_absent [of CR] find_sub_absent [of LF] line_field_def Let_def split: option.split)

lemma header_lines_step: "CR \<notin> set l \<Longrightarrow> header_lines (l @ CRLF @ rest) = line_field l @ header_lines rest"
  unfolding header_lines.simps [of "l @ CRLF @ rest"] find_either_def find_sub_line
  by (simp add: line_field_def Let_def split: option.split)

lemma header_lines_join_crlf: "ls \<noteq> [] \<Longrightarrow> list_all proper_line ls \<Longrightarrow> header_lines (join_crlf ls) = concat (map line_field ls)"
proof (induction ls rule: join_crlf.induct)
  case (2 l)
  then show ?case by (simp add: header_lines_last proper_line_def)
next
  case (3 l m ls)
  then show ?case using header_lines_step [of l "join_crlf (m # ls)"] by (simp add: proper_line_def)
qed simp

lemma strip_blanks_trimmed: "trimmed v \<Longrightarrow> strip_blanks v = v"
proof (cases "v = []")
  case False
  assume "trimmed v"
  with False have "\<not> is_blank (hd v)" "\<not> is_blank (hd (rev v))" by (simp_all add: trimmed_def hd_rev)
  with False have "dropWhile is_blank v = v" "dropWhile is_blank (rev v) = rev v" by (simp_all add: dropWhile_eq_self_iff)
  then show ?thesis by (simp add: strip_blanks_def)
qed (simp add: strip_blanks_def)

lemma strip_blanks_blank: "is_blank c \<Longrightarrow> strip_blanks (c # v) = strip_blanks v"
  by (simp add: strip_blanks_def)

definition header_text :: "string \<times> string \<Rightarrow> string" where
  "header_text kv = fst kv @ '': '' @ snd kv"

definition proper_field :: "string \<times> string \<Rightarrow> bool" where
  "proper_field kv \<longleftrightarrow> CHR '':'' \<notin> set (fst kv) \<and> CR \<notin> set (fst kv @ snd kv) \<and> LF \<notin> set (fst kv @ snd kv) \<and> trimmed (snd kv)"

lemma line_field_header: "proper_field kv \<Longrightarrow> line_field (header_text kv) = [kv]"
proof -
  assume kv: "proper_field kv"
  then have "find_idx (\<lambda>c. c = CHR '':'') (fst kv @ CHR '':'' # CHR '' '' # snd kv) = Some (length (fst kv))"
    by (intro find_idx_first) (auto simp: proper_field_def)
  then show ?thesis using kv
    by (simp add: line_field_def header_text_def strip_blanks_blank is_blank_def strip_blanks_trimmed proper_field_def)
qed

lemma proper_header_line: "proper_field kv \<Longrightarrow> proper_line (header_text kv)"
  by (auto simp: proper_field_def proper_line_def header_text_def)

lemma header_lines_fields:
  assumes "hs \<noteq> []" "list_all proper_field hs"
  shows "header_lines (join_crlf (map header_text hs)) = hs"
proof -
  have "header_lines (join_crlf (map header_text hs)) = concat (map line_field (map header_text hs))"
    using assms by (intro header_lines_join_crlf) (auto simp: list_all_iff proper_header_line)
  also have "\<dots> = hs" using assms(2) by (induction hs) (simp_all add: line_field_header)
  finally show ?thesis .
qed

lemma fields_join_crlf: "hs \<noteq> [] \<Longrightarrow> concat (map field_line hs) = join_crlf (map header_text hs) @ CRLF"
proof (induction hs)
  case (Cons h hs)
  then show ?case by (cases "hs = []") (simp_all add: field_line_def header_text_def join_crlf_Cons)
qed simp

section \<open>Requests in pieces\<close>

text \<open>A request as a client writes it: a request line, at least one header field, a blank line and a body.\<close>

record http_request =
  rq_method :: string
  rq_url :: string
  rq_version :: string
  rq_headers :: "(string \<times> string) list"
  rq_body :: string

definition request_head :: "http_request \<Rightarrow> string list" where
  "request_head q = (rq_method q @ '' '' @ rq_url q @ '' '' @ rq_version q) # map header_text (rq_headers q)"

definition request_text :: "http_request \<Rightarrow> string" where
  "request_text q = join_crlf (request_head q) @ CRLF @ CRLF @ rq_body q"

definition proper_request :: "http_request \<Rightarrow> bool" where
  "proper_request q \<longleftrightarrow>
     rq_headers q \<noteq> [] \<and> list_all proper_field (rq_headers q) \<and> proper_line (rq_method q @ rq_url q @ rq_version q) \<and>
     CHR '' '' \<notin> set (rq_method q) \<and> CHR '' '' \<notin> set (rq_url q)"

definition head_end :: "http_request \<Rightarrow> nat" where
  "head_end q = length (join_crlf (request_head q)) + 4"

lemma drop_head: "drop (head_end q) (join_crlf (request_head q) @ CRLF @ CRLF @ rest) = rest"
  by (simp add: head_end_def eval_nat_numeral)

lemma request_head_lines: "proper_request q \<Longrightarrow> request_head q \<noteq> [] \<and> list_all proper_line (request_head q)"
  by (auto simp: request_head_def proper_request_def list_all_iff proper_header_line) (auto simp: proper_line_def)

lemma find_head: "proper_request q \<Longrightarrow> find_sub (CRLF @ CRLF) (request_text q) = Some (head_end q - 4)"
  using request_head_lines [of q] find_blank_line [of "request_head q" "rq_body q"] by (simp add: request_text_def head_end_def)

lemma take_line: "take (length l) (l @ CRLF @ r) = l"
  by simp

lemma drop_line: "drop (length l + 2) (l @ CRLF @ r) = r"
  by simp

lemma take_all_but: "n \<le> length xs \<Longrightarrow> take n (xs @ ys) = take n xs"
  by simp

text \<open>Before the blank line is complete, the parser waits.\<close>

lemma parse_head_wait:
  assumes "proper_request q" "request_text q = rawBuffer c @ rest" "length (rawBuffer c) < head_end q"
  shows "parse_head c = c"
proof -
  let ?h = "join_crlf (request_head q) @ CRLF"
  have "find_sub (CRLF @ CRLF) (rawBuffer c @ rest) = Some (head_end q - 4)" using find_head [OF assms(1)] assms(2) by simp
  from find_sub_less [OF this] assms(3) have 1: "find_sub (CRLF @ CRLF) (rawBuffer c) = None" by (simp add: head_end_def)
  have none: "find_sub [LF, LF] ?h = None" using no_blank_lf request_head_lines [OF assms(1)] by blast
  have len: "length ?h = head_end q - 2" by (simp add: head_end_def)
  have "find_sub [LF, LF] (rawBuffer c) = None"
  proof (cases "length (rawBuffer c) \<le> length ?h")
    case True
    have "rawBuffer c = take (length (rawBuffer c)) (request_text q)" using assms(2) by simp
    also have "request_text q = ?h @ CRLF @ rq_body q" by (simp add: request_text_def)
    also have "take (length (rawBuffer c)) (?h @ CRLF @ rq_body q) = take (length (rawBuffer c)) ?h"
      using True by (rule take_all_but)
    finally obtain ys where "?h = rawBuffer c @ ys" by (metis append_take_drop_id)
    with none find_sub_more [of "[LF, LF]" "rawBuffer c" _ ys] show ?thesis by (cases "find_sub [LF, LF] (rawBuffer c)") simp_all
  next
    case False
    then have "length (rawBuffer c) = length ?h + 1" using assms(3) len by simp
    then have "rawBuffer c = take (length ?h + 1) (request_text q)" using assms(2) by simp
    then have raw: "rawBuffer c = ?h @ [CR]" by (simp add: request_text_def)
    have "find_sub [LF, LF] (?h @ [CR]) = None"
    proof (rule ccontr)
      assume "find_sub [LF, LF] (?h @ [CR]) \<noteq> None"
      then obtain i where i: "find_sub [LF, LF] (?h @ [CR]) = Some i" by blast
      from find_sub_less [OF i] none find_sub_SomeD [OF i] have "i + 2 = length (?h @ [CR])" by (simp split: if_splits)
      then have eq: "drop i (?h @ [CR]) = [LF, CR]" by (simp add: drop_append)
      from conjunct2 [OF find_sub_SomeD [OF i], unfolded eq] show False by simp
    qed
    then show ?thesis using raw by simp
  qed
  with 1 show ?thesis by (simp add: parse_head_def find_either_def)
qed

text \<open>Once it is complete, the header block is read, whatever follows.\<close>

definition request_fields_of :: "http_request \<Rightarrow> HttpServerConnection \<Rightarrow> HttpServerConnection" where
  "request_fields_of q c =
     (fold note_length (rq_headers q)
        (c\<lparr>headerEndPos := head_end q, req_method := rq_method q, req_url := rq_url q, req_version := rq_version q,
           req_path := fst (split_query (rq_url q)), req_query := snd (split_query (rq_url q))\<rparr>))
     \<lparr>requestHeaders := rq_headers q, headersParsed := True\<rparr>"

lemma request_line_eq:
  assumes "CHR '' '' \<notin> set u"
  shows "request_line (m @ '' '' @ u @ '' '' @ v) (length m) c =
    c\<lparr>req_method := m, req_url := u, req_version := v, req_path := fst (split_query u), req_query := snd (split_query u)\<rparr>"
proof -
  have "find_idx (\<lambda>x. x = CHR '' '') (u @ CHR '' '' # v) = Some (length u)" using assms by (intro find_idx_first) auto
  then have "split_target (u @ CHR '' '' # v) = (u, v)" by (simp add: split_target_def)
  then show ?thesis by (simp add: request_line_def split_beta Let_def)
qed

lemma note_length_headers: "requestHeaders (fold note_length hs c) = requestHeaders c"
  by (induction hs arbitrary: c) (auto simp: note_length_def split: option.split)

lemma parse_head_done:
  assumes "proper_request q" "rawBuffer c = join_crlf (request_head q) @ CRLF @ CRLF @ rest" "requestHeaders c = []"
  shows "parse_head c = request_fields_of q c"
proof -
  let ?line = "rq_method q @ '' '' @ rq_url q @ '' '' @ rq_version q" and ?ms = "map header_text (rq_headers q)"
  note lines = request_head_lines [OF assms(1)]
  have hs: "?ms \<noteq> []" using assms(1) by (simp add: proper_request_def)
  have idx: "find_either (CRLF @ CRLF) [LF, LF] (rawBuffer c) = Some (head_end q - 4, 4)"
    using find_blank_line [of "request_head q" rest] lines assms(2) by (simp add: find_either_def head_end_def)
  have "take (head_end q - 4) (rawBuffer c) = join_crlf (request_head q)" by (simp add: assms(2) head_end_def)
  also have "\<dots> = ?line @ CRLF @ join_crlf ?ms" using hs by (simp add: request_head_def join_crlf_Cons)
  finally have str: "take (head_end q - 4) (rawBuffer c) = ?line @ CRLF @ join_crlf ?ms" .
  have "CR \<notin> set ?line" using assms(1) by (auto simp: proper_request_def proper_line_def)
  then have eol: "find_either CRLF [LF] (?line @ CRLF @ join_crlf ?ms) = Some (length ?line, 2)"
    using find_sub_line [of ?line "join_crlf ?ms"] by (simp add: find_either_def)
  have sp: "find_idx (\<lambda>x. x = CHR '' '') ?line = Some (length (rq_method q))"
    using assms(1) find_idx_first [of "rq_method q" "\<lambda>x. x = CHR '' ''" "CHR '' ''" "rq_url q @ '' '' @ rq_version q"]
    by (auto simp: proper_request_def)
  have fields: "header_lines (join_crlf ?ms) = rq_headers q"
    using assms(1) by (intro header_lines_fields) (simp_all add: proper_request_def)
  show ?thesis
    unfolding parse_head_def idx option.case prod.case Let_def str eol take_line drop_line sp
    using request_line_eq [of "rq_url q" "rq_method q" "rq_version q"] assms(1,3) fields
    by (simp add: request_fields_of_def proper_request_def split_beta Let_def head_end_def)
qed

text \<open>Reads until a request is complete; reading stops there.\<close>

fun receive :: "HttpServerConnection \<Rightarrow> string list \<Rightarrow> (bool \<times> HttpServerConnection) option" where
  "receive c [] = Some (False, c)"
| "receive c (p # ps) =
     (case TryParseRequest (c\<lparr>rawBuffer := rawBuffer c @ p\<rparr>) of
        None \<Rightarrow> None
      | Some (True, c1) \<Rightarrow> Some (True, c1)
      | Some (False, c1) \<Rightarrow> receive c1 ps)"

text \<open>The end of the message is known: a length that is right, or no body at all.\<close>

definition framed :: "http_request \<Rightarrow> bool" where
  "framed q \<longleftrightarrow>
     \<not> is_chunked (rq_headers q) \<and>
     (let c = fold note_length (rq_headers q) HttpServerConnection_new
      in if hasContentLength c then expectedContentLength c = length (rq_body q) else rq_body q = [])"

definition fresh_connection :: "HttpServerConnection \<Rightarrow> bool" where
  "fresh_connection c \<longleftrightarrow> \<not> headersParsed c \<and> requestHeaders c = [] \<and> \<not> hasContentLength c \<and> rawBuffer c = []"

definition parsed_request :: "http_request \<Rightarrow> string \<Rightarrow> HttpServerConnection \<Rightarrow> HttpServerConnection" where
  "parsed_request q b c = (request_fields_of q (c\<lparr>rawBuffer := request_text q\<rparr>))\<lparr>req_body := b\<rparr>"

text \<open>The body parser waits until the message is complete and then gives the body \<open>b\<close>.\<close>

definition settles :: "http_request \<Rightarrow> string \<Rightarrow> bool" where
  "settles q b \<longleftrightarrow>
     (\<forall>c rest. \<not> hasContentLength c \<longrightarrow> request_text q = rawBuffer c @ rest \<longrightarrow> head_end q \<le> length (rawBuffer c) \<longrightarrow>
        parse_body (request_fields_of q c) =
          Some (rest = [], if rest = [] then (request_fields_of q c)\<lparr>req_body := b\<rparr> else request_fields_of q c))"

lemma fold_note_length:
  "fold note_length hs c =
    (let d = fold note_length hs HttpServerConnection_new
     in if hasContentLength d then c\<lparr>expectedContentLength := expectedContentLength d, hasContentLength := True\<rparr> else c)"
proof (induction hs rule: rev_induct)
  case Nil
  then show ?case by (simp add: HttpServerConnection_new_def)
next
  case (snoc h hs)
  then show ?case by (auto simp: note_length_def Let_def split: option.split)
qed

lemma request_fields_raw:
  "rawBuffer (request_fields_of q c) = rawBuffer c" "(request_fields_of q c)\<lparr>rawBuffer := r\<rparr> = request_fields_of q (c\<lparr>rawBuffer := r\<rparr>)"
  "headersParsed (request_fields_of q c)" "headerEndPos (request_fields_of q c) = head_end q" "requestHeaders (request_fields_of q c) = rq_headers q"
  by (simp_all add: request_fields_of_def fold_note_length [of "rq_headers q" "_ \<lparr>req_query := _\<rparr>"] Let_def)

lemma request_fields_length:
  assumes "framed q" "\<not> hasContentLength c"
  shows "(hasContentLength (request_fields_of q c) \<longrightarrow> expectedContentLength (request_fields_of q c) = length (rq_body q)) \<and>
    (\<not> hasContentLength (request_fields_of q c) \<longrightarrow> rq_body q = [])"
  using assms by (auto simp: request_fields_of_def fold_note_length [of "rq_headers q" "_ \<lparr>req_query := _\<rparr>"] Let_def framed_def split: if_splits)

text \<open>What the connection holds after a part of the request.\<close>

definition partly :: "http_request \<Rightarrow> HttpServerConnection \<Rightarrow> string \<Rightarrow> HttpServerConnection" where
  "partly q c0 pre = (if length pre < head_end q then c0\<lparr>rawBuffer := pre\<rparr> else request_fields_of q (c0\<lparr>rawBuffer := pre\<rparr>))"

lemma body_part:
  assumes "request_text q = raw @ rest" "head_end q \<le> length raw"
  shows "drop (head_end q) raw @ rest = rq_body q"
proof -
  have "drop (head_end q) (request_text q) = rq_body q" by (simp add: request_text_def head_end_def)
  then show ?thesis using assms by simp
qed

lemma framed_settles:
  assumes "framed q"
  shows "settles q (rq_body q)"
  unfolding settles_def
proof (intro allI impI)
  fix c :: HttpServerConnection and rest
  assume c: "\<not> hasContentLength c" and whole: "request_text q = rawBuffer c @ rest" "head_end q \<le> length (rawBuffer c)"
  let ?d = "request_fields_of q c"
  note body = body_part [OF whole]
  note len = request_fields_length [OF assms c]
  have nc: "\<not> is_chunked (rq_headers q)" using assms by (simp add: framed_def)
  show "parse_body ?d = Some (rest = [], if rest = [] then ?d\<lparr>req_body := rq_body q\<rparr> else ?d)"
  proof (cases "hasContentLength ?d")
    case True
    with len have e: "expectedContentLength ?d = length (rq_body q)" by simp
    have "length (rq_body q) = length (rawBuffer c) - head_end q + length rest" using arg_cong [OF body, of length] by simp
    then have "expectedContentLength ?d \<le> length (rawBuffer c) - head_end q \<longleftrightarrow> rest = []" using e by auto
    moreover have "rest = [] \<Longrightarrow> take (length (rq_body q)) (drop (head_end q) (rawBuffer c)) = rq_body q" using body by simp
    ultimately show ?thesis using True e nc by (simp add: parse_body_def request_fields_raw)
  next
    case False
    with len body have "rest = []" "drop (head_end q) (rawBuffer c) = rq_body q" by auto
    then show ?thesis using False nc by (simp add: parse_body_def request_fields_raw)
  qed
qed

lemma TryParse_partly:
  assumes "proper_request q" "settles q b" "fresh_connection c0" "request_text q = (pre @ p) @ rest" 
  shows "TryParseRequest ((partly q c0 pre)\<lparr>rawBuffer := pre @ p\<rparr>) =
    Some (rest = [], if rest = [] then parsed_request q b c0 else partly q c0 (pre @ p))"
proof -
  have total: "length (pre @ p) + length rest = head_end q + length (rq_body q)"
    using arg_cong [OF assms(4), of length] by (simp add: request_text_def head_end_def)
  show ?thesis
  proof (cases "length (pre @ p) < head_end q")
    case True
    then have "parse_head (c0\<lparr>rawBuffer := pre @ p\<rparr>) = c0\<lparr>rawBuffer := pre @ p\<rparr>"
      using assms(1,4) by (intro parse_head_wait) simp_all
    moreover have "rest \<noteq> []" using total True by auto
    ultimately show ?thesis using True assms(3) by (simp add: TryParseRequest_def partly_def fresh_connection_def Let_def)
  next
    case False
    let ?c = "c0\<lparr>rawBuffer := pre @ p\<rparr>"
    have "parse_head ?c = request_fields_of q ?c"
    proof (rule parse_head_done)
      have "rawBuffer ?c = take (length (pre @ p)) (request_text q)" using assms(4) by simp
      also have "\<dots> = join_crlf (request_head q) @ CRLF @ CRLF @ take (length (pre @ p) - head_end q) (rq_body q)"
        using False by (simp add: request_text_def head_end_def take_Cons' numeral_eq_Suc)
      finally show "rawBuffer ?c = join_crlf (request_head q) @ CRLF @ CRLF @ take (length (pre @ p) - head_end q) (rq_body q)" .
    qed (use assms(1,3) in \<open>simp_all add: fresh_connection_def\<close>)
    then have "TryParseRequest ((partly q c0 pre)\<lparr>rawBuffer := pre @ p\<rparr>) = parse_body (request_fields_of q ?c)"
      using assms(3) by (simp add: TryParseRequest_def partly_def request_fields_raw fresh_connection_def Let_def)
    also have "\<dots> = Some (rest = [], if rest = [] then (request_fields_of q ?c)\<lparr>req_body := b\<rparr> else request_fields_of q ?c)"
      using assms False unfolding settles_def by (simp add: fresh_connection_def)
    finally show ?thesis using False assms(4) by (simp add: partly_def parsed_request_def)
  qed
qed

lemma receive_partly:
  assumes "proper_request q" "settles q b" "fresh_connection c0" "request_text q = pre @ concat ps" "ps \<noteq> []" "list_all (\<lambda>p. p \<noteq> []) ps"
  shows "receive (partly q c0 pre) ps = Some (True, parsed_request q b c0)"
  using assms(4-)
proof (induction ps arbitrary: pre)
  case (Cons p ps)
  have raw: "rawBuffer (partly q c0 pre) = pre" by (simp add: partly_def request_fields_raw)
  have "request_text q = (pre @ p) @ concat ps" using Cons.prems(1) by simp
  note step = TryParse_partly [OF assms(1-3) this]
  show ?case
  proof (cases "ps = []")
    case True
    with step raw show ?thesis by simp
  next
    case False
    then have more: "concat ps \<noteq> []" using Cons.prems(3) by (cases ps) auto
    have "TryParseRequest ((partly q c0 pre)\<lparr>rawBuffer := pre @ p\<rparr>) = Some (False, partly q c0 (pre @ p))"
      using step by (simp only: more if_False)
    with raw Cons False show ?thesis by simp
  qed
qed simp

section \<open>Chunked bodies\<close>

lemma ascii_hex_char: "d < 16 \<Longrightarrow> ascii (hex_char d) = (if d < 10 then 48 + d else 87 + d)"
  by (simp add: hex_char_def of_char_of)

lemma is_xdigit_hex_char: "d < 16 \<Longrightarrow> is_xdigit (hex_char d)"
  by (simp add: is_xdigit_def is_digit_def ascii_hex_char)

lemma hex_digit_hex_char: "d < 16 \<Longrightarrow> hex_digit (hex_char d) = d"
  by (auto simp: hex_digit_def is_digit_def is_upper_def ascii_hex_char)

lemma hex_string_induct [case_names small big]:
  assumes "\<And>n. n < 16 \<Longrightarrow> P n" "\<And>n. 16 \<le> n \<Longrightarrow> P (n div 16) \<Longrightarrow> P n"
  shows "P (n::nat)"
proof (induction n rule: less_induct)
  case (less n)
  then show ?case using assms by (cases "n < 16") (auto simp: not_less)
qed

lemma hex_string_props:
  "list_all is_xdigit (hex_string n)" "base_value 16 (hex_string n) = n" "hex_string n \<noteq> []"
proof (induction n rule: hex_string_induct)
  case (small n)
  { case 1 show ?case using small by (simp add: hex_string.simps [of n] is_xdigit_hex_char) }
  { case 2 show ?case using small by (simp add: hex_string.simps [of n] base_value_def hex_digit_hex_char) }
  { case 3 show ?case using small by (simp add: hex_string.simps [of n]) }
next
  case (big n)
  { case 1 show ?case using big by (simp add: hex_string.simps [of n] is_xdigit_hex_char) }
  { case 2 show ?case using big by (simp add: hex_string.simps [of n] base_value_def hex_digit_hex_char) }
  { case 3 show ?case using big by (simp add: hex_string.simps [of n]) }
qed

lemma xdigit_props: "is_xdigit c \<Longrightarrow> c \<noteq> CR \<and> c \<noteq> LF \<and> \<not> is_space c \<and> c \<noteq> CHR ''-'' \<and> c \<noteq> CHR ''+'' \<and> c \<noteq> CHR ''x'' \<and> c \<noteq> CHR ''X'' \<and> c \<noteq> CHR '';'' \<and> \<not> is_blank c"
  by (auto simp: is_xdigit_def is_digit_def is_space_def is_blank_def)

lemma stoull_hex_string:
  assumes "n < 2 ^ 64"
  shows "stoull 16 (hex_string n) = Some n"
proof -
  note h = hex_string_props [of n]
  then have all: "\<forall>c \<in> set (hex_string n). is_xdigit c" by (simp add: list_all_iff)
  have hd: "is_xdigit (hd (hex_string n))" using all h(3) by simp
  have start: "dropWhile is_space (hex_string n) = hex_string n" using xdigit_props [OF hd] by (simp add: dropWhile_eq_self_iff)
  have x: "1 < length (hex_string n) \<Longrightarrow> hex_string n ! 1 \<noteq> CHR ''x'' \<and> hex_string n ! 1 \<noteq> CHR ''X''"
    using all xdigit_props [of "hex_string n ! 1"] nth_mem [of 1 "hex_string n"] by blast
  have digits: "takeWhile is_xdigit (hex_string n) = hex_string n" using all by simp
  show ?thesis using assms x xdigit_props [OF hd] h(2,3)
    by (auto simp: stoull_def start digits base_digit_16 Let_def)
qed

text \<open>One chunk as the client sends it.\<close>

lemma chunk_loop_end: "e \<le> p \<Longrightarrow> chunk_loop raw e p acc = Some acc"
  by (simp add: chunk_loop.simps)

lemma chunk_loop_first:
  assumes "raw = pre @ hex_string n @ CRLF @ rest" "0 < n" "n < 2 ^ 64" "length pre < e"
  shows "chunk_loop raw e (length pre) acc =
    (let c1 = length pre + length (hex_string n) + 2
     in if length raw < (c1 + n) mod 2 ^ 64 then Some acc
        else if length raw < c1 + n then None
        else chunk_loop raw e (c1 + n + 2) (acc @ take n rest))"
proof -
  let ?h = "hex_string n"
  note h = hex_string_props [of n]
  have cr: "CR \<notin> set ?h" using h(1) xdigit_props by (auto simp: list_all_iff)
  have d: "drop (length pre) raw = ?h @ CRLF @ rest" by (simp add: assms(1))
  have f: "find_either CRLF [LF] (drop (length pre) raw) = Some (length ?h, 2)"
    unfolding d find_either_def find_sub_line [OF cr] by simp
  have tk: "take (length ?h) (drop (length pre) raw) = ?h" by (simp add: d)
  have rest: "drop (Suc (Suc (length pre + length ?h))) raw = rest" by (simp add: assms(1))
  show ?thesis using assms(2-4) h(3)
    by (simp add: chunk_loop.simps [of raw e "length pre"] f tk stoull_hex_string rest Let_def del: take_eq_Nil)
qed

lemma chunk_loop_one:
  assumes "raw = pre @ hex_string (length b) @ CRLF @ b @ CRLF @ ''0'' @ CRLF @ CRLF" "b \<noteq> []" "length raw < 2 ^ 64"
  shows "chunk_loop raw (length raw - 5) (length pre) [] = Some b"
proof -
  let ?h = "hex_string (length b)"
  have len: "length raw = length pre + length ?h + 2 + length b + 2 + 5" by (simp add: assms(1))
  have "chunk_loop raw (length raw - 5) (length pre) [] = chunk_loop raw (length raw - 5) (length pre + length ?h + 2 + length b + 2) b"
    using assms(2,3) len by (simp add: chunk_loop_first [OF assms(1)] Let_def)
  also have "\<dots> = Some b" using len by (intro chunk_loop_end) simp
  finally show ?thesis .
qed

definition chunk_text :: "string \<Rightarrow> string" where
  "chunk_text b = (if b = [] then [] else hex_string (length b) @ CRLF @ b @ CRLF) @ ''0'' @ CRLF @ CRLF"

definition marker_free :: "string \<Rightarrow> bool" where
  "marker_free b \<longleftrightarrow> find_sub (''0'' @ CRLF @ CRLF) (chunk_text b) = Some (length (chunk_text b) - 5) \<and> find_sub (''0'' @ [LF, LF]) (chunk_text b) = None"

lemma chunked_settles:
  assumes "is_chunked (rq_headers q)" "rq_body q = chunk_text b" "marker_free b" "length (request_text q) < 2 ^ 64"
  shows "settles q b"
  unfolding settles_def
proof (intro allI impI)
  fix c :: HttpServerConnection and rest
  assume whole: "request_text q = rawBuffer c @ rest" "head_end q \<le> length (rawBuffer c)"
  let ?d = "request_fields_of q c" and ?raw = "rawBuffer c"
  define w where "w = drop (head_end q) ?raw"
  have w: "w @ rest = chunk_text b" using body_part [OF whole] assms(2) by (simp add: w_def)
  have five: "5 \<le> length (chunk_text b)" by (simp add: chunk_text_def)
  have from1: "find_from p ?raw (head_end q) = map_option ((+) (head_end q)) (find_sub p w)" for p using whole(2) by (simp add: find_from_def w_def)
  have fits: "length (chunk_text b) - 5 + 5 \<le> length w \<longleftrightarrow> rest = []"
    using five arg_cong [OF w, of length] by (cases rest) (simp_all del: Suc_le_eq)
  have "find_sub (''0'' @ CRLF @ CRLF) (w @ rest) = Some (length (chunk_text b) - 5)" using assms(3) w by (simp add: marker_free_def)
  from find_sub_less [OF this] have m: "find_sub (''0'' @ CRLF @ CRLF) w = (if rest = [] then Some (length (chunk_text b) - 5) else None)"
    using fits by (simp add: numeral_eq_Suc)
  have "find_sub (''0'' @ [LF, LF]) w = None"
    using assms(3) find_sub_more [of "''0'' @ [LF, LF]" w _ rest] w by (cases "find_sub (''0'' @ [LF, LF]) w") (simp_all add: marker_free_def)
  with m have last: "find_last_chunk ?raw (head_end q) = (if rest = [] then Some (head_end q + (length (chunk_text b) - 5)) else None)"
    by (simp add: find_last_chunk_def from1)
  have fin: "chunk_loop ?raw (head_end q + (length (chunk_text b) - 5)) (head_end q) [] = Some b" if "rest = []"
  proof (cases "b = []")
    case True
    then show ?thesis by (simp add: chunk_text_def chunk_loop_end)
  next
    case False
    have raw: "?raw = take (head_end q) ?raw @ hex_string (length b) @ CRLF @ b @ CRLF @ ''0'' @ CRLF @ CRLF"
      using w that False append_take_drop_id [of "head_end q" ?raw] by (simp add: w_def chunk_text_def)
    have "length (chunk_text b) = length ?raw - head_end q" using that arg_cong [OF w, of length] by (simp only: w_def length_append length_drop) simp
    then have "head_end q + (length (chunk_text b) - 5) = length ?raw - 5" using five whole(2) by simp
    moreover have "length ?raw < 2 ^ 64" using assms(4) whole(1) by simp
    ultimately show ?thesis using chunk_loop_one [OF raw False] whole(2) by simp
  qed
  show "parse_body ?d = Some (rest = [], if rest = [] then ?d\<lparr>req_body := b\<rparr> else ?d)"
    using assms(1) last fin by (simp add: parse_body_def request_fields_raw)
qed

text \<open>The bodies that a request carries in a way the parser recovers.\<close>

definition carries :: "http_request \<Rightarrow> string \<Rightarrow> bool" where
  "carries q b \<longleftrightarrow>
     framed q \<and> b = rq_body q \<or>
     is_chunked (rq_headers q) \<and> rq_body q = chunk_text b \<and> marker_free b \<and> length (request_text q) < 2 ^ 64"

lemma carries_settles: "carries q b \<Longrightarrow> settles q b"
  using framed_settles chunked_settles by (auto simp: carries_def)

text \<open>A request whose header block is in the buffer is decided by the body parser.\<close>

lemma TryParse_head:
  assumes "proper_request q" "rawBuffer c = join_crlf (request_head q) @ CRLF @ CRLF @ rest" "requestHeaders c = []" "\<not> headersParsed c"
  shows "TryParseRequest c = parse_body (request_fields_of q c)"
  using parse_head_done [OF assms(1-3)] assms(4) by (simp add: TryParseRequest_def request_fields_raw)

section \<open>Properties of the request parser\<close>


definition example_request :: http_request where
  "example_request = \<lparr>rq_method = ''POST'', rq_url = ''/a?b'', rq_version = ''HTTP/1.1'',
     rq_headers = [(''Host'', ''x''), (''Transfer-Encoding'', ''chunked'')], rq_body = chunk_text ''hey''\<rparr>"

lemma hex_string_3: "hex_string (Suc (Suc (Suc 0))) = ''3''"
  by code_simp

lemma example_request_ok: "proper_request example_request" "carries example_request ''hey''"
proof -
  show "proper_request example_request"
    by (simp add: example_request_def proper_request_def proper_field_def trimmed_def is_blank_def proper_line_def)
  have "marker_free ''hey''" by code_simp
  moreover have "is_chunked (rq_headers example_request)" by (simp add: example_request_def is_chunked_def) code_simp
  moreover have "length (request_text example_request) < 2 ^ 64"
    by (simp add: example_request_def request_text_def request_head_def header_text_def chunk_text_def hex_string_3)
  ultimately show "carries example_request ''hey''" by (simp add: carries_def) (simp add: example_request_def)
qed


text \<open>The parser looks for the end of a chunked body before it reads the chunks: a body that holds the text of the
  last chunk is taken for complete when that text has arrived, the chunk that holds it does not fit, and the
  request is given to the program with an empty body.\<close>

theorem chunk_marker_in_body:
  assumes "proper_request q" "is_chunked (rq_headers q)" "x = p @ ''0'' @ CRLF @ CRLF" "y \<noteq> []"
    "rq_body q = hex_string (length (x @ y)) @ CRLF @ x" "length (request_text q) + length y < 2 ^ 64"
  shows "receive HttpServerConnection_new (request_text q # ps) = Some (True, parsed_request q [] HttpServerConnection_new)"
proof -
  let ?c = "HttpServerConnection_new\<lparr>rawBuffer := request_text q\<rparr>" and ?n = "length (x @ y)"
  let ?pre = "join_crlf (request_head q) @ CRLF @ CRLF"
  have raw: "request_text q = ?pre @ hex_string ?n @ CRLF @ x" by (simp add: request_text_def assms(5))
  have pre: "length ?pre = head_end q" by (simp add: head_end_def)
  have body: "drop (head_end q) (request_text q) = (hex_string ?n @ CRLF @ p) @ (''0'' @ CRLF @ CRLF) @ []"
    unfolding request_text_def drop_head assms(5) by (simp add: assms(3))
  have "find_sub (''0'' @ CRLF @ CRLF) (drop (head_end q) (request_text q)) \<noteq> None" unfolding body by (rule find_sub_inside)
  then obtain e where e: "find_last_chunk (request_text q) (head_end q) = Some e"
    using pre by (auto simp: find_last_chunk_def find_from_def raw)
  have "chunk_loop (request_text q) e (head_end q) [] = Some []"
  proof (cases "head_end q < e")
    case True
    then show ?thesis using chunk_loop_first [OF raw, of e "[]"] assms(4,6) pre by (simp add: Let_def raw)
  qed (simp add: chunk_loop_end)
  moreover have "TryParseRequest ?c = parse_body (request_fields_of q ?c)"
    using assms(1) by (intro TryParse_head) (simp_all add: request_text_def HttpServerConnection_new_def)
  ultimately show ?thesis using e assms(2)
    by (simp add: parse_body_def request_fields_raw parsed_request_def) (simp add: HttpServerConnection_new_def)
qed

theorem chunk_marker_in_body_witness:
  "receive HttpServerConnection_new
     (request_text (example_request\<lparr>rq_body := hex_string (length (''a0'' @ CRLF @ CRLF @ ''b'')) @ CRLF @ ''a0'' @ CRLF @ CRLF\<rparr>) # [''b'']) =
   Some (True, parsed_request (example_request\<lparr>rq_body := hex_string (length (''a0'' @ CRLF @ CRLF @ ''b'')) @ CRLF @ ''a0'' @ CRLF @ CRLF\<rparr>) []
     HttpServerConnection_new)"
proof -
  let ?q = "example_request\<lparr>rq_body := hex_string (length (''a0'' @ CRLF @ CRLF @ ''b'')) @ CRLF @ ''a0'' @ CRLF @ CRLF\<rparr>"
  have "proper_request ?q" using example_request_ok(1) by (simp add: proper_request_def)
  moreover have "is_chunked (rq_headers ?q)" by (simp add: example_request_def is_chunked_def) code_simp
  moreover have "length (request_text ?q) + length ''b'' < 2 ^ 64"
  proof -
    have "hex_string (length (''a0'' @ CRLF @ CRLF @ ''b'')) = ''7''" by code_simp
    then show ?thesis by (simp add: example_request_def request_text_def request_head_def header_text_def del: length_append)
  qed
  ultimately show ?thesis
    using chunk_marker_in_body [of ?q "''a0'' @ CRLF @ CRLF" "''a''" "''b''" "[''b'']"] by simp
qed

text \<open>The sum that compares the size of a chunk with the buffer wraps: a first chunk of the largest size a request
  can name passes the comparison, and the exception of the append is nobody's to catch.\<close>

theorem chunk_size_exception:
  assumes "proper_request q" "is_chunked (rq_headers q)" "rq_body q = hex_string (2 ^ 64 - 1) @ CRLF @ p @ ''0'' @ CRLF @ CRLF"
    "length (request_text q) < 2 ^ 63" "CHR ''0'' \<notin> set p"
  shows "receive HttpServerConnection_new (request_text q # ps) = None"
proof -
  let ?c = "HttpServerConnection_new\<lparr>rawBuffer := request_text q\<rparr>" and ?n = "2 ^ 64 - 1 :: nat"
  let ?pre = "join_crlf (request_head q) @ CRLF @ CRLF" and ?m = "''0'' @ CRLF @ CRLF"
  have raw: "request_text q = ?pre @ hex_string ?n @ CRLF @ p @ ?m" by (simp only: request_text_def assms(3) append_assoc)
  have pre: "length ?pre = head_end q" by (simp add: head_end_def)
  have "hex_char 15 = CHR ''f''" by code_simp
  then have hex: "hex_string ?n = ''ffffffffffffffff''" by (simp add: hex_string.simps)
  have "CHR ''0'' \<notin> set (hex_string ?n @ CRLF @ p)" using assms(5) unfolding hex by simp
  from find_sub_skip_list [OF this, of "CRLF @ CRLF" ?m]
  have "find_sub ?m (drop (head_end q) (request_text q)) = Some (length (hex_string ?n @ CRLF @ p))"
    unfolding request_text_def drop_head assms(3) by simp
  then have e: "find_last_chunk (request_text q) (head_end q) = Some (head_end q + length (hex_string ?n @ CRLF @ p))"
    using pre by (simp add: find_last_chunk_def find_from_def raw)
  have "chunk_loop (request_text q) (head_end q + length (hex_string ?n @ CRLF @ p)) (head_end q) [] = None"
    using chunk_loop_first [OF raw, of "head_end q + length (hex_string ?n @ CRLF @ p)" "[]"] assms(4) pre
    by (simp add: Let_def raw hex mod_if)
  moreover have "TryParseRequest ?c = parse_body (request_fields_of q ?c)"
    using assms(1) by (intro TryParse_head) (simp_all add: request_text_def HttpServerConnection_new_def)
  ultimately show ?thesis using e assms(2)
    by (simp add: parse_body_def request_fields_raw) (simp add: HttpServerConnection_new_def)
qed

theorem chunk_size_exception_witness:
  "receive HttpServerConnection_new
     (request_text (example_request\<lparr>rq_body := hex_string (2 ^ 64 - 1) @ CRLF @ ''x'' @ ''0'' @ CRLF @ CRLF\<rparr>) # []) = None"
proof -
  let ?q = "example_request\<lparr>rq_body := hex_string (2 ^ 64 - 1) @ CRLF @ ''x'' @ ''0'' @ CRLF @ CRLF\<rparr>"
  have "hex_char 15 = CHR ''f''" by code_simp
  then have hex: "hex_string (2 ^ 64 - 1) = ''ffffffffffffffff''" by (simp add: hex_string.simps)
  have "proper_request ?q" using example_request_ok(1) by (simp add: proper_request_def)
  moreover have "is_chunked (rq_headers ?q)" by (simp add: example_request_def is_chunked_def) code_simp
  moreover have "length (request_text ?q) < 2 ^ 63" 
    unfolding hex by (simp add: example_request_def request_text_def request_head_def header_text_def)
  ultimately show ?thesis by (intro chunk_size_exception [of ?q "''x''" "[]"]) simp_all
qed

text \<open>A request that has a request line and no header field at all is never parsed, whatever follows it: the request
  line is looked for before the blank line, where it has no end.\<close>

lemma headerless_head:
  assumes "proper_line l" "rawBuffer c = l @ CRLF @ CRLF @ rest" "\<not> headersParsed c"
  shows "TryParseRequest c = Some (False, c\<lparr>headerEndPos := length l + 4\<rparr>)"
proof -
  have cr: "CR \<notin> set l" "LF \<notin> set l" using assms(1) by (auto simp: proper_line_def)
  have "find_sub (CRLF @ CRLF) (rawBuffer c) = Some (length l)"
    using find_blank_line [of "[l]" rest] assms(1,2) by simp
  then have idx: "find_either (CRLF @ CRLF) [LF, LF] (rawBuffer c) = Some (length l, 4)" by (simp add: find_either_def)
  have "take (length l) (rawBuffer c) = l" by (simp add: assms(2))
  moreover have "find_either CRLF [LF] l = None" using cr by (simp add: find_either_def find_sub_absent [of CR] find_sub_absent [of LF])
  ultimately have "parse_head c = c\<lparr>headerEndPos := length l + 4\<rparr>"
    unfolding parse_head_def idx option.case prod.case Let_def by simp
  then show ?thesis using assms(3) by (simp add: TryParseRequest_def)
qed

lemma headerless_waits:
  assumes "proper_line l"
  shows "rawBuffer c = l @ CRLF @ CRLF @ rest \<Longrightarrow> \<not> headersParsed c \<Longrightarrow> \<exists>d. receive c ps = Some (False, d)"
proof (induction ps arbitrary: c rest)
  case (Cons p ps)
  let ?c = "c\<lparr>rawBuffer := rawBuffer c @ p\<rparr>"
  have "TryParseRequest ?c = Some (False, ?c\<lparr>headerEndPos := length l + 4\<rparr>)"
    using Cons.prems by (intro headerless_head [OF assms, of _ "rest @ p"]) simp_all
  then show ?case using Cons.IH [of "?c\<lparr>headerEndPos := length l + 4\<rparr>" "rest @ p"] Cons.prems by simp
qed simp

theorem headerless_request_ignored:
  assumes "proper_line l"
  shows "\<exists>c. receive HttpServerConnection_new ((l @ CRLF @ CRLF) # ps) = Some (False, c)"
proof -
  let ?c = "HttpServerConnection_new\<lparr>rawBuffer := l @ CRLF @ CRLF\<rparr>"
  have "TryParseRequest ?c = Some (False, ?c\<lparr>headerEndPos := length l + 4\<rparr>)"
    using assms by (intro headerless_head [of _ _ "[]"]) (simp_all add: HttpServerConnection_new_def)
  then show ?thesis using headerless_waits [OF assms, of "?c\<lparr>headerEndPos := length l + 4\<rparr>" "[]" ps]
    by (simp add: HttpServerConnection_new_def)
qed

end
