(* ===== verification/Lode_HttpConn.thy ===== *)
theory Lode_HttpConn
  imports Lode_HttpServer
begin

text \<open>
  The http server on libuv, the second half of \<open>HttpServer.cpp\<close>: connections and the listening socket, with the
  entries of \<open>BuildServerMethods\<close> and \<open>BuildResponseMethods\<close>. One record holds the server and everything that
  hangs on it: \<open>heap\<close> has every connection object by its number, \<open>responses\<close> every response object with the number
  of its connection. Calls of libuv, signals and callbacks are a trace; what libuv answers, and the Luau code that
  a signal runs, are parameters (\<open>http_env\<close>).
\<close>

section \<open>State\<close>

datatype http_effect =
    HsError string
  | HsRequest nat nat lvalue
  | HsWrite nat string
  | HsWriteCb nat
  | HsConnClose nat
  | HsConnClosed nat
  | HsTcpInit
  | HsBind "string \<times> int"
  | HsListen nat
  | HsClose
  | HsClosedCb
  | HsRemoveServer
  | HsTerminate
  | HsReleased

record HttpServer =
  hs_tcpInited :: bool
  hs_tcpClosed :: bool
  hs_listening :: bool
  hs_closing :: bool
  hs_closed :: bool
  hs_isTls :: bool
  hs_local :: "string \<times> int"
  hs_shuttingDown :: bool
  hs_selfGuard :: bool
  hs_luau :: bool
  heap :: "HttpServerConnection list"
  connections :: "nat list"
  responses :: "(nat \<times> HttpServerResponse) list"
  hs_trace :: "http_effect list"

datatype http_uv_call = hs_uv_tcp_init | hs_uv_tcp_bind | hs_uv_listen | hs_uv_accept | hs_uv_read_start nat | hs_uv_write nat string

record http_env =
  hs_code :: "http_effect \<Rightarrow> HttpServer \<Rightarrow> HttpServer"
  hs_result :: "http_uv_call \<Rightarrow> HttpServer \<Rightarrow> int"
  hs_strerror :: "int \<Rightarrow> string"
  hs_ip4_addr :: "string \<Rightarrow> int \<Rightarrow> int + string \<times> int"
  hs_ip6_addr :: "string \<Rightarrow> int \<Rightarrow> int + string \<times> int"
  hs_getsockname :: "HttpServer \<Rightarrow> (string \<times> int) option"
  hs_eof :: int
  hs_einval :: int

datatype http_result = HReturned lvalue | HRaised string | HUndefined

text \<open>\<open>Server.Create\<close>: any argument that is a table may ask for TLS.\<close>

definition HttpServer_Create :: "bool \<Rightarrow> lvalue list \<Rightarrow> string + HttpServer" where
  "HttpServer_Create shutting args =
     (if shutting then Inl ''http: runtime is shutting down''
      else Inr \<lparr>hs_tcpInited = False, hs_tcpClosed = False, hs_listening = False, hs_closing = False, hs_closed = False,
        hs_isTls = list_ex (\<lambda>a. case a of LTable t \<Rightarrow> table_get t ''tls'' = LBool True \<or> table_get t ''ssl'' = LBool True | _ \<Rightarrow> False) args,
        hs_local = ([], 0), hs_shuttingDown = False, hs_selfGuard = True, hs_luau = True, heap = [], connections = [],
        responses = [], hs_trace = []\<rparr>)"

definition hs :: "http_effect \<Rightarrow> HttpServer \<Rightarrow> HttpServer" where
  "hs e s = s\<lparr>hs_trace := hs_trace s @ [e]\<rparr>"

definition hs_call_out :: "http_env \<Rightarrow> http_effect \<Rightarrow> HttpServer \<Rightarrow> HttpServer" where
  "hs_call_out env e s = hs_code env e (hs e s)"

definition conn_update :: "nat \<Rightarrow> (HttpServerConnection \<Rightarrow> HttpServerConnection) \<Rightarrow> HttpServer \<Rightarrow> HttpServer" where
  "conn_update i f s = s\<lparr>heap := (heap s)[i := f (heap s ! i)]\<rparr>"

text \<open>What keeps the objects alive: their guards, the lists that hold them, and Luau values.\<close>

definition conn_alive :: "nat \<Rightarrow> HttpServer \<Rightarrow> bool" where
  "conn_alive i s \<longleftrightarrow> conn_guard (heap s ! i) \<or> i \<in> set (connections s)"

definition server_alive :: "HttpServer \<Rightarrow> bool" where
  "server_alive s \<longleftrightarrow> hs_selfGuard s \<or> \<not> hs_closed s \<or> hs_luau s"

section \<open>Connections\<close>

definition Conn_StartReading :: "http_env \<Rightarrow> nat \<Rightarrow> HttpServer \<Rightarrow> HttpServer" where
  "Conn_StartReading env i s =
     (if clientClosed (heap s ! i) \<or> \<not> clientInited (heap s ! i) then s
      else if hs_result env (hs_uv_read_start i) s = 0 then conn_update i (\<lambda>c. c\<lparr>conn_reading := True\<rparr>) s else s)"

definition Conn_StopReading :: "nat \<Rightarrow> HttpServer \<Rightarrow> HttpServer" where
  "Conn_StopReading i s =
     (if clientClosed (heap s ! i) \<or> \<not> clientInited (heap s ! i) then s else conn_update i (\<lambda>c. c\<lparr>conn_reading := False\<rparr>) s)"

text \<open>\<open>uv_close\<close> ends reading, too.\<close>

definition uv_close_conn :: "nat \<Rightarrow> HttpServer \<Rightarrow> HttpServer" where
  "uv_close_conn i s = hs (HsConnClose i) (conn_update i (\<lambda>c. c\<lparr>conn_reading := False\<rparr>) s)"

definition Conn_Close :: "nat \<Rightarrow> HttpServer \<Rightarrow> HttpServer" where
  "Conn_Close i s =
     (if clientClosed (heap s ! i) then s
      else
        let s1 = Conn_StopReading i (conn_update i (\<lambda>c. c\<lparr>clientClosed := True\<rparr>) s)
        in if clientInited (heap s1 ! i) then uv_close_conn i s1 else s1)"

definition SendRawResponse :: "http_env \<Rightarrow> nat \<Rightarrow> string \<Rightarrow> HttpServer \<Rightarrow> HttpServer" where
  "SendRawResponse env i raw s =
     (if clientClosed (heap s ! i) \<or> \<not> clientInited (heap s ! i) then s
      else if hs_result env (hs_uv_write i raw) s \<noteq> 0 then Conn_Close i s
      else hs (HsWrite i raw) s)"

definition table_put :: "string \<Rightarrow> lvalue \<Rightarrow> (string \<times> lvalue) list \<Rightarrow> (string \<times> lvalue) list" where
  "table_put k v t = (k, v) # filter (\<lambda>e. fst e \<noteq> k) t"

definition request_headers_table :: "(string \<times> string) list \<Rightarrow> (string \<times> lvalue) list" where
  "request_headers_table hdrs = fold (\<lambda>(n, v) t. table_put (map to_lower n) (LString v) (table_put n (LString v) t)) hdrs []"

definition request_table :: "HttpServerConnection \<Rightarrow> lvalue" where
  "request_table c =
     LTable [(''method'', LString (req_method c)), (''url'', LString (req_url c)), (''path'', LString (req_path c)),
       (''query'', LString (req_query c)), (''version'', LString (req_version c)), (''body'', LString (req_body c)),
       (''headers'', LTable (request_headers_table (requestHeaders c)))]"

definition DispatchRequest :: "http_env \<Rightarrow> nat \<Rightarrow> HttpServer \<Rightarrow> HttpServer" where
  "DispatchRequest env i s =
     (if hs_closed s \<or> hs_closing s then s
      else hs_call_out env (HsRequest i (length (responses s)) (request_table (heap s ! i)))
             (s\<lparr>responses := responses s @ [(i, HttpServerResponse_new)]\<rparr>))"

text \<open>An exception of the parser leaves a libuv callback: the process ends.\<close>

definition OnData :: "http_env \<Rightarrow> nat \<Rightarrow> string \<Rightarrow> HttpServer \<Rightarrow> HttpServer" where
  "OnData env i data s =
     (let c = (heap s ! i)\<lparr>rawBuffer := rawBuffer (heap s ! i) @ data\<rparr>
      in case TryParseRequest c of
           None \<Rightarrow> hs HsTerminate s
         | Some (ready, c1) \<Rightarrow>
             (let s1 = conn_update i (\<lambda>_. c1) s in if ready then DispatchRequest env i (Conn_StopReading i s1) else s1))"

text \<open>\<open>OnRead\<close>, with the bytes read or a negative result. libuv has ended reading when it reports the end of the stream.\<close>

definition Conn_OnRead :: "http_env \<Rightarrow> nat \<Rightarrow> int + string \<Rightarrow> HttpServer \<Rightarrow> HttpServer" where
  "Conn_OnRead env i r s =
     (if clientClosed (heap s ! i) then s
      else case r of
        Inr data \<Rightarrow> if data = [] then s else OnData env i data s
      | Inl e \<Rightarrow>
          (let c = heap s ! i;
               s1 = (if e = hs_eof env \<and> headersParsed c \<and> (\<not> hasContentLength c \<or> expectedContentLength c \<le> length (req_body c))
                     then DispatchRequest env i s else s)
           in Conn_Close i s1))"

definition RemoveConnection :: "nat \<Rightarrow> HttpServer \<Rightarrow> HttpServer" where
  "RemoveConnection i s = s\<lparr>connections := remove1 i (connections s)\<rparr>"

text \<open>The close callback goes through the server; one that is gone is undefined behaviour (\<^const>\<open>HsReleased\<close>).\<close>

definition Conn_OnClose :: "nat \<Rightarrow> HttpServer \<Rightarrow> HttpServer" where
  "Conn_OnClose i s =
     (let s1 = hs (HsConnClosed i) s
      in if \<not> server_alive s1 \<or> \<not> conn_alive i s1 then hs HsReleased s1
         else conn_update i (\<lambda>c. c\<lparr>conn_guard := False\<rparr>) (RemoveConnection i s1))"

section \<open>Responses\<close>

definition response_update :: "nat \<Rightarrow> (HttpServerResponse \<Rightarrow> HttpServerResponse) \<Rightarrow> HttpServer \<Rightarrow> HttpServer" where
  "response_update r f s = s\<lparr>responses := (responses s)[r := map_prod id f (responses s ! r)]\<rparr>"

text \<open>\<open>End\<close> hands its bytes to the connection if that still exists.\<close>

definition response_send :: "http_env \<Rightarrow> nat \<Rightarrow> string option \<times> HttpServerResponse \<Rightarrow> HttpServer \<Rightarrow> HttpServer" where
  "response_send env r out s =
     (let i = fst (responses s ! r); s1 = response_update r (\<lambda>_. snd out) s
      in case fst out of
           None \<Rightarrow> s1
         | Some raw \<Rightarrow> if conn_alive i s1 then SendRawResponse env i raw s1 else s1)"

section \<open>The server\<close>

definition Http_FireError :: "http_env \<Rightarrow> string \<Rightarrow> HttpServer \<Rightarrow> HttpServer" where
  "Http_FireError env message s =
     (if hs_shuttingDown s \<or> hs_closed s \<or> hs_closing s then s else hs_call_out env (HsError message) s)"

definition Http_UpdateAddresses :: "http_env \<Rightarrow> HttpServer \<Rightarrow> HttpServer" where
  "Http_UpdateAddresses env s = (case hs_getsockname env s of Some a \<Rightarrow> s\<lparr>hs_local := a\<rparr> | None \<Rightarrow> s)"

definition Http_BindFail :: "string \<Rightarrow> http_result" where
  "Http_BindFail message = HRaised (''HttpServer Listen: '' @ message)"

definition Http_AddConnection :: "nat \<Rightarrow> HttpServer \<Rightarrow> HttpServer" where
  "Http_AddConnection i s = s\<lparr>connections := connections s @ [i]\<rparr>"

definition Http_MakeSockAddr :: "http_env \<Rightarrow> string \<Rightarrow> int \<Rightarrow> int + string \<times> int" where
  "Http_MakeSockAddr env host port =
     (if host = [] \<or> host = ''0.0.0.0'' then hs_ip4_addr env ''0.0.0.0'' port
      else if host = ''::'' \<or> host = ''::0'' then hs_ip6_addr env ''::'' port
      else case hs_ip4_addr env host port of
             Inr a \<Rightarrow> Inr a
           | Inl _ \<Rightarrow> (case hs_ip6_addr env host port of Inr a \<Rightarrow> Inr a | Inl _ \<Rightarrow> Inl (hs_einval env)))"

text \<open>\<open>RaiseError\<close> does not return: the \<open>RequestClose\<close> behind a failure is not reached.\<close>

definition http_bind :: "http_env \<Rightarrow> string \<times> int \<Rightarrow> HttpServer \<Rightarrow> http_result \<times> HttpServer" where
  "http_bind env addr s =
     (let s1 = s\<lparr>hs_tcpInited := True\<rparr>; r = hs_result env hs_uv_tcp_init s1
      in if r \<noteq> 0 then (Http_BindFail (hs_strerror env r), s1)
         else
           let s2 = hs HsTcpInit s1; r = hs_result env hs_uv_tcp_bind s2
           in if r \<noteq> 0 then (Http_BindFail (''bind: '' @ hs_strerror env r), s2)
              else
                let s3 = hs (HsBind addr) s2; r = hs_result env hs_uv_listen s3
                in if r \<noteq> 0 then (Http_BindFail (''listen: '' @ hs_strerror env r), s3)
                   else (HReturned LNil, Http_UpdateAddresses env ((hs (HsListen 511) s3)\<lparr>hs_listening := True\<rparr>)))"

definition wants_tls :: "lvalue \<Rightarrow> bool" where
  "wants_tls v = (case v of LTable t \<Rightarrow> table_get t ''tls'' = LBool True \<or> table_get t ''ssl'' = LBool True | _ \<Rightarrow> False)"

definition Http_MethodListen :: "http_env \<Rightarrow> lvalue list \<Rightarrow> HttpServer \<Rightarrow> http_result \<times> HttpServer" where
  "Http_MethodListen env args s =
     (if hs_listening s then (Http_BindFail ''already listening'', s)
      else if hs_closing s \<or> hs_closed s then (Http_BindFail ''server is closed'', s)
      else case arg args 1 of
        LNumber d \<Rightarrow>
          (case cast_double (- (2 ^ 31)) (2 ^ 31 - 1) d of
             None \<Rightarrow> (HUndefined, s)
           | Some port \<Rightarrow>
               if (case arg args 2 of LNil \<Rightarrow> False | LString _ \<Rightarrow> False | _ \<Rightarrow> True)
               then (Http_BindFail ''expected host as string'', s)
               else
                 let host = (case arg args 2 of LString h \<Rightarrow> h | _ \<Rightarrow> ''0.0.0.0'');
                     s1 = (if wants_tls (arg args 3) then s\<lparr>hs_isTls := True\<rparr> else s)
                 in (case Http_MakeSockAddr env host port of
                       Inl r \<Rightarrow> (Http_BindFail (hs_strerror env r), s1)
                     | Inr addr \<Rightarrow> http_bind env addr s1))
      | _ \<Rightarrow> (Http_BindFail ''expected port as number'', s))"

definition Http_MethodLocalAddress :: "HttpServer \<Rightarrow> http_result" where
  "Http_MethodLocalAddress s =
     (if \<not> hs_listening s \<or> hs_closed s then HRaised ''Server LocalAddress: not listening''
      else HReturned (LTable [(''host'', LString (fst (hs_local s))), (''port'', LNumber (Finite (of_int (snd (hs_local s)))))]))"

definition Http_FinishClosed :: "HttpServer \<Rightarrow> HttpServer" where
  "Http_FinishClosed s =
     (if hs_closed s then s
      else (hs HsRemoveServer (s\<lparr>hs_closed := True, hs_listening := False\<rparr>))\<lparr>hs_selfGuard := False\<rparr>)"

definition Http_RequestClose :: "HttpServer \<Rightarrow> HttpServer" where
  "Http_RequestClose s =
     (if hs_closing s then s
      else
        let s1 = s\<lparr>hs_closing := True, hs_listening := False\<rparr>;
            s2 = (fold Conn_Close (connections s1) s1)\<lparr>connections := []\<rparr>
        in if hs_tcpInited s2 \<and> \<not> hs_tcpClosed s2 then hs HsClose (s2\<lparr>hs_tcpClosed := True\<rparr>) else Http_FinishClosed s2)"

definition Http_OnHandleClosed :: "HttpServer \<Rightarrow> HttpServer" where
  "Http_OnHandleClosed s = Http_FinishClosed (hs HsClosedCb s)"

text \<open>A new connection; its number is the next of the heap.\<close>

definition Http_OnConnection :: "http_env \<Rightarrow> int \<Rightarrow> HttpServer \<Rightarrow> HttpServer" where
  "Http_OnConnection env status s =
     (if hs_closing s \<or> hs_closed s then s
      else if status \<noteq> 0 then Http_FireError env (''accept: '' @ hs_strerror env status) s
      else
        let i = length (heap s); s1 = s\<lparr>heap := heap s @ [HttpServerConnection_new\<lparr>clientInited := True\<rparr>]\<rparr>
        in if hs_result env hs_uv_accept s1 = 0
           then Conn_StartReading env i (conn_update i (\<lambda>c. c\<lparr>conn_guard := True\<rparr>) (Http_AddConnection i s1))
           else Conn_Close i s1)"

section \<open>Methods and steps\<close>

datatype http_call =
    HcListen "lvalue list"
  | HcClose
  | HcLocalAddress
  | HcSetStatus nat "lvalue list"
  | HcSetHeader nat "lvalue list"
  | HcWrite nat "lvalue list"
  | HcEnd nat "lvalue list"
  | HcJson nat "lvalue list"
  | HcForget

text \<open>The methods of servers and responses, and Luau dropping its last reference to the server. A response that
  was never handed out cannot be named.\<close>

definition HttpMethods :: "http_env \<Rightarrow> http_call \<Rightarrow> HttpServer \<Rightarrow> http_result \<times> HttpServer" where
  "HttpMethods env call s =
     (let on = (\<lambda>r f. if r < length (responses s) then (HReturned LNil, f r) else (HReturned LNil, s))
      in case call of
        HcListen args \<Rightarrow>
          if hs_shuttingDown s then (HRaised ''Server Listen: runtime is shutting down'', s) else Http_MethodListen env args s
      | HcClose \<Rightarrow> (HReturned LNil, Http_RequestClose s)
      | HcLocalAddress \<Rightarrow> (Http_MethodLocalAddress s, s)
      | HcSetStatus r args \<Rightarrow>
          if r < length (responses s)
          then case Method_SetStatus args (snd (responses s ! r)) of
                 None \<Rightarrow> (HUndefined, s)
               | Some x \<Rightarrow> (HReturned LNil, response_update r (\<lambda>_. x) s)
          else (HReturned LNil, s)
      | HcSetHeader r args \<Rightarrow> on r (\<lambda>r. response_update r (Method_SetHeader args) s)
      | HcWrite r args \<Rightarrow> on r (\<lambda>r. response_update r (Method_Write args) s)
      | HcEnd r args \<Rightarrow> on r (\<lambda>r. response_send env r (Method_End args (snd (responses s ! r))) s)
      | HcJson r args \<Rightarrow> on r (\<lambda>r. response_send env r (Method_Json args (snd (responses s ! r))) s)
      | HcForget \<Rightarrow> (HReturned LNil, s\<lparr>hs_luau := False\<rparr>))"

definition hs_count :: "http_effect \<Rightarrow> HttpServer \<Rightarrow> nat" where
  "hs_count e s = count_list (hs_trace s) e"

definition wrote :: "nat \<Rightarrow> HttpServer \<Rightarrow> nat" where
  "wrote i s = length (filter (\<lambda>e. case e of HsWrite j _ \<Rightarrow> j = i | _ \<Rightarrow> False) (hs_trace s))"

definition dispatched :: "nat \<Rightarrow> HttpServer \<Rightarrow> nat" where
  "dispatched i s = length (filter (\<lambda>e. case e of HsRequest j _ _ \<Rightarrow> j = i | _ \<Rightarrow> False) (hs_trace s))"

text \<open>What the event loop does. libuv reports writes as done, or as cancelled, before it reports a handle as closed.\<close>

inductive http_reach :: "http_env \<Rightarrow> HttpServer \<Rightarrow> bool" for env where
  create: "HttpServer_Create False args = Inr s \<Longrightarrow> http_reach env s"
| call: "http_reach env s \<Longrightarrow> http_reach env (snd (HttpMethods env call s))"
| connection: "http_reach env s \<Longrightarrow> hs_listening s \<Longrightarrow> http_reach env (Http_OnConnection env status s)"
| read: "http_reach env s \<Longrightarrow> i < length (heap s) \<Longrightarrow> conn_reading (heap s ! i) \<Longrightarrow>
    http_reach env (Conn_OnRead env i (Inr data) s)"
| read_end: "http_reach env s \<Longrightarrow> i < length (heap s) \<Longrightarrow> conn_reading (heap s ! i) \<Longrightarrow>
    http_reach env (Conn_OnRead env i (Inl e) (conn_update i (\<lambda>c. c\<lparr>conn_reading := False\<rparr>) s))"
| written: "http_reach env s \<Longrightarrow> i < length (heap s) \<Longrightarrow> hs_count (HsWriteCb i) s < wrote i s \<Longrightarrow>
    http_reach env (Conn_Close i (hs (HsWriteCb i) s))"
| conn_closed: "http_reach env s \<Longrightarrow> i < length (heap s) \<Longrightarrow> hs_count (HsConnClosed i) s < hs_count (HsConnClose i) s \<Longrightarrow>
    hs_count (HsWriteCb i) s = wrote i s \<Longrightarrow> http_reach env (Conn_OnClose i s)"
| handle_closed: "http_reach env s \<Longrightarrow> hs_count HsClosedCb s < hs_count HsClose s \<Longrightarrow> http_reach env (Http_OnHandleClosed s)"
| shutdown: "http_reach env s \<Longrightarrow> http_reach env (Http_RequestClose (s\<lparr>hs_shuttingDown := True\<rparr>))"

text \<open>Handlers as scripts of method calls, nested to a depth.\<close>

primrec http_nested :: "nat \<Rightarrow> (http_effect \<Rightarrow> HttpServer \<Rightarrow> http_call list) \<Rightarrow> http_env \<Rightarrow> http_env" where
  "http_nested 0 script base = base\<lparr>hs_code := \<lambda>e s. s\<rparr>"
| "http_nested (Suc n) script base =
     base\<lparr>hs_code := \<lambda>e s. fold (\<lambda>call s. snd (HttpMethods (http_nested n script base) call s)) (script e s) s\<rparr>"

section \<open>Invariant\<close>

definition opened :: "nat \<Rightarrow> HttpServer \<Rightarrow> nat" where
  "opened i s = length (filter (\<lambda>r. fst r = i) (responses s))"

definition answered :: "nat \<Rightarrow> HttpServer \<Rightarrow> nat" where
  "answered i s = length (filter (\<lambda>r. fst r = i \<and> finished (snd r)) (responses s))"

text \<open>A connection that reads has not given a request to Luau; it gives at most one, with one response object, and
  only a response that ends writes.\<close>

definition http_conn_inv :: "HttpServer \<Rightarrow> nat \<Rightarrow> bool" where
  "http_conn_inv s i \<longleftrightarrow>
     dispatched i s = opened i s \<and> opened i s \<le> 1 \<and> wrote i s \<le> answered i s \<and>
     (if i < length (heap s)
      then clientInited (heap s ! i) \<and> hs_count (HsConnClose i) s = of_bool (clientClosed (heap s ! i)) \<and>
           (conn_reading (heap s ! i) \<longrightarrow> \<not> clientClosed (heap s ! i) \<and> opened i s = 0)
      else opened i s = 0 \<and> hs_count (HsConnClose i) s = 0)"

definition http_inv :: "HttpServer \<Rightarrow> bool" where
  "http_inv s \<longleftrightarrow>
     (\<forall>i. http_conn_inv s i) \<and> (\<forall>i \<in> set (connections s). i < length (heap s)) \<and>
     hs_count HsClose s = of_bool (hs_tcpClosed s) \<and> hs_count HsRemoveServer s = of_bool (hs_closed s)"

lemma hs_fields [simp]:
  "heap (hs e s) = heap s" "connections (hs e s) = connections s" "responses (hs e s) = responses s"
  "hs_closing (hs e s) = hs_closing s" "hs_closed (hs e s) = hs_closed s" "hs_tcpClosed (hs e s) = hs_tcpClosed s"
  "hs_listening (hs e s) = hs_listening s" "hs_tcpInited (hs e s) = hs_tcpInited s" "hs_shuttingDown (hs e s) = hs_shuttingDown s"
  "hs_count f (hs e s) = hs_count f s + of_bool (e = f)"
  "opened i (hs e s) = opened i s" "answered i (hs e s) = answered i s"
  by (simp_all add: hs_def hs_count_def opened_def answered_def)

lemma wrote_hs [simp]: "wrote i (hs e s) = wrote i s + (case e of HsWrite j _ \<Rightarrow> of_bool (j = i) | _ \<Rightarrow> 0)"
  by (cases e) (simp_all add: hs_def wrote_def)

lemma dispatched_hs [simp]: "dispatched i (hs e s) = dispatched i s + (case e of HsRequest j _ _ \<Rightarrow> of_bool (j = i) | _ \<Rightarrow> 0)"
  by (cases e) (simp_all add: hs_def dispatched_def)

lemma trace_update [simp]:
  "hs_count e (s\<lparr>heap := h\<rparr>) = hs_count e s" "wrote i (s\<lparr>heap := h\<rparr>) = wrote i s" "dispatched i (s\<lparr>heap := h\<rparr>) = dispatched i s"
  "hs_count e (s\<lparr>responses := r\<rparr>) = hs_count e s" "wrote i (s\<lparr>responses := r\<rparr>) = wrote i s" "dispatched i (s\<lparr>responses := r\<rparr>) = dispatched i s"
  "hs_count e (s\<lparr>connections := k\<rparr>) = hs_count e s" "wrote i (s\<lparr>connections := k\<rparr>) = wrote i s"
  "dispatched i (s\<lparr>connections := k\<rparr>) = dispatched i s" "opened i (s\<lparr>heap := h\<rparr>) = opened i s" "answered i (s\<lparr>heap := h\<rparr>) = answered i s"
  "opened i (s\<lparr>connections := k\<rparr>) = opened i s" "answered i (s\<lparr>connections := k\<rparr>) = answered i s"
  by (simp_all add: hs_count_def wrote_def dispatched_def opened_def answered_def)

lemma conn_update_fields [simp]:
  "length (heap (conn_update i f s)) = length (heap s)" "responses (conn_update i f s) = responses s"
  "hs_count e (conn_update i f s) = hs_count e s" "wrote j (conn_update i f s) = wrote j s" "dispatched j (conn_update i f s) = dispatched j s"
  "opened j (conn_update i f s) = opened j s" "answered j (conn_update i f s) = answered j s"
  "connections (conn_update i f s) = connections s" "hs_closed (conn_update i f s) = hs_closed s" "hs_closing (conn_update i f s) = hs_closing s"
  "hs_tcpClosed (conn_update i f s) = hs_tcpClosed s" "hs_tcpInited (conn_update i f s) = hs_tcpInited s"
  "i < length (heap s) \<Longrightarrow> heap (conn_update i f s) ! j = (if j = i then f (heap s ! i) else heap s ! j)"
  by (simp_all add: conn_update_def nth_list_update)

lemma http_inv_update [simp]:
  "http_inv (s\<lparr>hs_closing := b\<rparr>) = http_inv s" "http_inv (s\<lparr>hs_listening := b\<rparr>) = http_inv s" "http_inv (s\<lparr>hs_tcpInited := b\<rparr>) = http_inv s"
  "http_inv (s\<lparr>hs_isTls := b\<rparr>) = http_inv s" "http_inv (s\<lparr>hs_local := a\<rparr>) = http_inv s" "http_inv (s\<lparr>hs_shuttingDown := b\<rparr>) = http_inv s"
  "http_inv (s\<lparr>hs_selfGuard := b\<rparr>) = http_inv s" "http_inv (s\<lparr>hs_luau := b\<rparr>) = http_inv s"
  by (simp_all add: http_inv_def http_conn_inv_def hs_count_def wrote_def dispatched_def opened_def answered_def)

lemma trace_update_closed [simp]:
  "hs_count e (s\<lparr>hs_tcpClosed := b\<rparr>) = hs_count e s" "wrote i (s\<lparr>hs_tcpClosed := b\<rparr>) = wrote i s"
  "dispatched i (s\<lparr>hs_tcpClosed := b\<rparr>) = dispatched i s" "opened i (s\<lparr>hs_tcpClosed := b\<rparr>) = opened i s"
  "answered i (s\<lparr>hs_tcpClosed := b\<rparr>) = answered i s" "hs_count e (s\<lparr>hs_closed := b\<rparr>) = hs_count e s"
  "wrote i (s\<lparr>hs_closed := b\<rparr>) = wrote i s" "dispatched i (s\<lparr>hs_closed := b\<rparr>) = dispatched i s"
  "opened i (s\<lparr>hs_closed := b\<rparr>) = opened i s" "answered i (s\<lparr>hs_closed := b\<rparr>) = answered i s"
  by (simp_all add: hs_count_def wrote_def dispatched_def opened_def answered_def)

lemma http_inv_close:
  "http_inv s \<Longrightarrow> \<not> hs_tcpClosed s \<Longrightarrow> http_inv (hs HsClose (s\<lparr>hs_tcpClosed := True\<rparr>))"
  "http_inv s \<Longrightarrow> \<not> hs_closed s \<Longrightarrow> http_inv (hs HsRemoveServer (s\<lparr>hs_closed := True\<rparr>))"
  by (simp_all add: http_inv_def http_conn_inv_def)

lemma http_inv_connections: "http_inv s \<Longrightarrow> \<forall>i \<in> set k. i < length (heap s) \<Longrightarrow> http_inv (s\<lparr>connections := k\<rparr>)"
  by (simp add: http_inv_def http_conn_inv_def)

text \<open>The effects that the invariant counts.\<close>

definition hs_plain :: "http_effect \<Rightarrow> bool" where
  "hs_plain e \<longleftrightarrow> (case e of HsWrite _ _ \<Rightarrow> False | HsRequest _ _ _ \<Rightarrow> False | HsConnClose _ \<Rightarrow> False | HsClose \<Rightarrow> False | HsRemoveServer \<Rightarrow> False | _ \<Rightarrow> True)"

lemma http_inv_plain: "hs_plain e \<Longrightarrow> http_inv (hs e s) = http_inv s"
  by (cases e) (simp_all add: hs_plain_def http_inv_def http_conn_inv_def)

text \<open>A change of one connection that keeps its handle and does not start to read.\<close>

lemma conn_update_inv:
  assumes "http_inv s" "i < length (heap s)" "clientInited (f (heap s ! i)) = clientInited (heap s ! i)"
    "clientClosed (f (heap s ! i)) = clientClosed (heap s ! i)" "conn_reading (f (heap s ! i)) \<Longrightarrow> conn_reading (heap s ! i)"
  shows "http_inv (conn_update i f s)"
  using assms by (auto simp: http_inv_def http_conn_inv_def)

lemma Conn_Close_inv:
  assumes "http_inv s" "i < length (heap s)"
  shows "http_inv (Conn_Close i s) \<and> length (heap (Conn_Close i s)) = length (heap s)"
proof (cases "clientClosed (heap s ! i)")
  case False
  have "clientInited (heap s ! i)" using assms by (simp add: http_inv_def http_conn_inv_def)
  then show ?thesis using assms False
    by (auto simp: Conn_Close_def Conn_StopReading_def uv_close_conn_def Let_def http_inv_def http_conn_inv_def)
qed (simp add: Conn_Close_def assms)

lemma Conn_Close_fields [simp]:
  "responses (Conn_Close i s) = responses s" "connections (Conn_Close i s) = connections s" "hs_closed (Conn_Close i s) = hs_closed s"
  "hs_closing (Conn_Close i s) = hs_closing s" "hs_tcpClosed (Conn_Close i s) = hs_tcpClosed s" "hs_tcpInited (Conn_Close i s) = hs_tcpInited s"
  by (simp_all add: Conn_Close_def Conn_StopReading_def uv_close_conn_def Let_def)

text \<open>The parser does not touch the handle.\<close>

definition handle_kept :: "HttpServerConnection \<Rightarrow> HttpServerConnection \<Rightarrow> bool" where
  "handle_kept c d \<longleftrightarrow> clientInited d = clientInited c \<and> clientClosed d = clientClosed c \<and> conn_reading d = conn_reading c \<and> conn_guard d = conn_guard c"

lemma note_length_handle: "handle_kept c (fold note_length fs c)"
  by (simp add: handle_kept_def fold_note_length [of fs c] Let_def)

lemma parse_head_handle: "handle_kept c (parse_head c)"
proof -
  have "handle_kept c ((fold note_length fs (request_line l k (c\<lparr>headerEndPos := n\<rparr>)))\<lparr>requestHeaders := h, headersParsed := True\<rparr>)" for fs l k n h
    using note_length_handle [of "request_line l k (c\<lparr>headerEndPos := n\<rparr>)" fs] by (simp add: handle_kept_def request_line_def split_beta Let_def)
  then show ?thesis by (simp add: parse_head_def handle_kept_def split_beta Let_def split: option.split)
qed

lemma parse_body_handle: "parse_body c = Some (b, d) \<Longrightarrow> handle_kept c d"
  by (auto simp: parse_body_def handle_kept_def split: if_splits option.splits)

lemma TryParse_handle: "TryParseRequest c = Some (b, d) \<Longrightarrow> handle_kept c d"
proof -
  assume r: "TryParseRequest c = Some (b, d)"
  define e where "e = (if headersParsed c then c else parse_head c)"
  have e: "handle_kept c e" using parse_head_handle [of c] by (simp add: e_def handle_kept_def)
  have "e = d \<or> parse_body e = Some (b, d)" using r by (simp add: TryParseRequest_def e_def Let_def split: if_splits)
  then have "handle_kept e d" using parse_body_handle by (auto simp: handle_kept_def)
  with e show ?thesis by (simp add: handle_kept_def)
qed

lemma SendRawResponse_inv:
  assumes "http_inv s" "i < length (heap s)" "wrote i s < answered i s"
  shows "http_inv (SendRawResponse env i raw s) \<and> length (heap (SendRawResponse env i raw s)) = length (heap s)"
  using assms Conn_Close_inv [OF assms(1,2)] by (auto simp: SendRawResponse_def http_inv_def http_conn_inv_def)

lemma response_update_fields [simp]:
  "heap (response_update r f s) = heap s" "connections (response_update r f s) = connections s"
  "hs_count e (response_update r f s) = hs_count e s" "wrote i (response_update r f s) = wrote i s" "dispatched i (response_update r f s) = dispatched i s"
  "hs_closed (response_update r f s) = hs_closed s" "hs_closing (response_update r f s) = hs_closing s" "hs_tcpClosed (response_update r f s) = hs_tcpClosed s"
  "length (responses (response_update r f s)) = length (responses s)"
  by (simp_all add: response_update_def)

lemma opened_response_update [simp]: "opened i (response_update r f s) = opened i s"
  using length_filter_update [of r "responses s" "\<lambda>x. fst x = i" "map_prod id f (responses s ! r)"]
  by (cases "r < length (responses s)") (simp_all add: opened_def response_update_def list_update_beyond)

lemma answered_response_update:
  assumes "r < length (responses s)"
  shows "answered i (response_update r f s) + of_bool (fst (responses s ! r) = i \<and> finished (snd (responses s ! r))) =
    answered i s + of_bool (fst (responses s ! r) = i \<and> finished (f (snd (responses s ! r))))"
  using length_filter_update [OF assms, of "\<lambda>x. fst x = i \<and> finished (snd x)" "map_prod id f (responses s ! r)"]
  by (simp add: answered_def response_update_def)

lemma response_update_inv:
  assumes "http_inv s" "r < length (responses s)" "finished (snd (responses s ! r)) \<Longrightarrow> finished (f (snd (responses s ! r)))"
  shows "http_inv (response_update r f s)"
proof -
  have "answered i s \<le> answered i (response_update r f s)" for i
    using answered_response_update [OF assms(2), of i f] assms(3)
    by (cases "fst (responses s ! r) = i"; cases "finished (snd (responses s ! r))"; cases "finished (f (snd (responses s ! r)))") simp_all
  then show ?thesis using assms(1) by (auto simp: http_inv_def http_conn_inv_def intro: order_trans)
qed

text \<open>Response objects are those of existing connections.\<close>

lemma response_owner: "http_inv s \<Longrightarrow> r < length (responses s) \<Longrightarrow> fst (responses s ! r) < length (heap s)"
proof -
  assume inv: "http_inv s" and r: "r < length (responses s)"
  have "filter (\<lambda>x. fst x = fst (responses s ! r)) (responses s) \<noteq> []" using r by (auto simp: filter_empty_conv intro: nth_mem)
  then have "0 < opened (fst (responses s ! r)) s" by (simp add: opened_def)
  then show ?thesis using inv by (auto simp: http_inv_def http_conn_inv_def split: if_splits dest: spec [of _ "fst (responses s ! r)"])
qed

lemma Response_End_cases:
  "Response_End data x = (out, y) \<Longrightarrow> out = None \<and> y = x \<and> finished x \<or> out \<noteq> None \<and> finished y \<and> \<not> finished x"
  by (auto simp: Response_End_def complete_headers_def SetHeader_def Let_def split: if_splits)

lemma Method_End_cases:
  "Method_End args x = (out, y) \<Longrightarrow> out = None \<and> y = x \<and> finished x \<or> out \<noteq> None \<and> finished y \<and> \<not> finished x"
  by (auto simp: Method_End_def split: lvalue.splits dest: Response_End_cases)

lemma Method_Json_cases:
  "Method_Json args x = (out, y) \<Longrightarrow> out = None \<and> finished y \<and> finished x \<or> out \<noteq> None \<and> finished y \<and> \<not> finished x"
  by (auto simp: Method_Json_def SetHeader_def dest!: Response_End_cases)

lemma response_send_inv:
  assumes "http_inv s" "r < length (responses s)" "out = (o1, y)"
    "o1 = None \<and> finished y \<and> finished (snd (responses s ! r)) \<or> o1 \<noteq> None \<and> finished y \<and> \<not> finished (snd (responses s ! r))"
  shows "http_inv (response_send env r out s) \<and> length (heap (response_send env r out s)) = length (heap s)"
proof (cases o1)
  case None
  then show ?thesis using assms response_update_inv [OF assms(1,2)] by (simp add: response_send_def Let_def)
next
  case (Some raw)
  let ?i = "fst (responses s ! r)" and ?s = "response_update r (\<lambda>_. y) s"
  have inv: "http_inv ?s" using assms Some by (intro response_update_inv) auto
  have "answered ?i ?s = Suc (answered ?i s)" using answered_response_update [OF assms(2), of ?i "\<lambda>_. y"] assms(4) Some by simp
  moreover have "wrote ?i s \<le> answered ?i s" using assms(1) by (simp add: http_inv_def http_conn_inv_def)
  ultimately have "wrote ?i ?s < answered ?i ?s" by simp
  from SendRawResponse_inv [OF inv _ this, of env raw] response_owner [OF assms(1,2)] inv show ?thesis
    using assms(3) Some by (simp add: response_send_def Let_def)
qed

lemma OnData_cases:
  assumes "i < length (heap s)"
  shows "OnData env i data s = hs HsTerminate s \<or>
    (\<exists>c. handle_kept (heap s ! i) c \<and>
       (OnData env i data s = conn_update i (\<lambda>_. c) s \<or>
        OnData env i data s = DispatchRequest env i (Conn_StopReading i (conn_update i (\<lambda>_. c) s))))"
proof (cases "TryParseRequest ((heap s ! i)\<lparr>rawBuffer := rawBuffer (heap s ! i) @ data\<rparr>)")
  case (Some r)
  obtain b c where r: "r = (b, c)" by (cases r)
  then have "handle_kept (heap s ! i) c" using TryParse_handle Some by (fastforce simp: handle_kept_def)
  then show ?thesis using Some r by (cases b) (auto simp: OnData_def Let_def)
qed (simp add: OnData_def Let_def)

lemma Conn_StopReading_inv: "http_inv s \<Longrightarrow> i < length (heap s) \<Longrightarrow> http_inv (Conn_StopReading i s)"
  using conn_update_inv [of s i "\<lambda>c. c\<lparr>conn_reading := False\<rparr>"] by (simp add: Conn_StopReading_def)

lemma Conn_StopReading_fields [simp]:
  "length (heap (Conn_StopReading i s)) = length (heap s)" "opened j (Conn_StopReading i s) = opened j s"
  by (simp_all add: Conn_StopReading_def)

lemma http_inv_closed: "http_inv s \<Longrightarrow> \<not> hs_closed s \<Longrightarrow> http_inv (hs HsRemoveServer (s\<lparr>hs_closed := True, hs_listening := False\<rparr>))"
proof -
  assume "http_inv s" "\<not> hs_closed s"
  then have "http_inv (hs HsRemoveServer (s\<lparr>hs_listening := False, hs_closed := True\<rparr>))" by (intro http_inv_close(2)) simp_all
  moreover have "s\<lparr>hs_listening := False, hs_closed := True\<rparr> = s\<lparr>hs_closed := True, hs_listening := False\<rparr>" by simp
  ultimately show ?thesis by argo
qed

lemma Http_FinishClosed_inv: "http_inv s \<Longrightarrow> http_inv (Http_FinishClosed s)"
  by (simp add: Http_FinishClosed_def http_inv_closed)

lemma fold_Close_inv:
  "http_inv s \<Longrightarrow> \<forall>i \<in> set is. i < length (heap s) \<Longrightarrow>
    http_inv (fold Conn_Close is s) \<and> length (heap (fold Conn_Close is s)) = length (heap s) \<and>
    connections (fold Conn_Close is s) = connections s \<and> hs_closed (fold Conn_Close is s) = hs_closed s \<and>
    hs_closing (fold Conn_Close is s) = hs_closing s"
  by (induction "is" arbitrary: s) (simp_all add: Conn_Close_inv)

lemma Http_FinishClosed_fields [simp]: "heap (Http_FinishClosed s) = heap s" "responses (Http_FinishClosed s) = responses s"
  by (simp_all add: Http_FinishClosed_def)

lemma Http_RequestClose_inv:
  assumes "http_inv s"
  shows "http_inv (Http_RequestClose s) \<and> length (heap (Http_RequestClose s)) = length (heap s)"
proof (cases "hs_closing s")
  case False
  let ?s = "s\<lparr>hs_closing := True, hs_listening := False\<rparr>"
  define t where "t = (fold Conn_Close (connections ?s) ?s)\<lparr>connections := []\<rparr>"
  have "\<forall>i \<in> set (connections ?s). i < length (heap ?s)" using assms by (simp add: http_inv_def)
  with fold_Close_inv [of ?s "connections ?s"] assms have t: "http_inv t" "length (heap t) = length (heap s)"
    by (simp_all add: t_def http_inv_connections)
  have "Http_RequestClose s = (if hs_tcpInited t \<and> \<not> hs_tcpClosed t then hs HsClose (t\<lparr>hs_tcpClosed := True\<rparr>) else Http_FinishClosed t)"
    using False by (simp add: Http_RequestClose_def t_def Let_def)
  with t show ?thesis by (simp add: http_inv_close Http_FinishClosed_inv)
qed (simp add: Http_RequestClose_def assms)

lemma http_bind_inv: "http_inv s \<Longrightarrow> http_inv (snd (http_bind env addr s)) \<and> heap (snd (http_bind env addr s)) = heap s"
  by (auto simp: http_bind_def Let_def Http_UpdateAddresses_def http_inv_plain hs_plain_def split: option.split)

lemma Http_MethodListen_inv:
  "http_inv s \<Longrightarrow> http_inv (snd (Http_MethodListen env args s)) \<and> heap (snd (Http_MethodListen env args s)) = heap s"
  by (simp add: Http_MethodListen_def Let_def http_bind_inv split: lvalue.split option.split sum.split)

text \<open>The contract of the Luau code that signals run, and what every step needs of it.\<close>

locale http_handlers =
  fixes env :: http_env
  assumes code_inv: "http_inv s \<Longrightarrow> http_inv (hs_code env e s) \<and> length (heap (hs_code env e s)) = length (heap s)"
begin

lemma FireError_inv:
  "http_inv s \<Longrightarrow> http_inv (Http_FireError env message s) \<and> length (heap (Http_FireError env message s)) = length (heap s)"
  using code_inv [of "hs (HsError message) s" "HsError message"]
  by (simp add: Http_FireError_def hs_call_out_def http_inv_plain hs_plain_def)

lemma DispatchRequest_inv:
  assumes "http_inv s" "i < length (heap s)" "opened i s = 0" "\<not> conn_reading (heap s ! i)"
  shows "http_inv (DispatchRequest env i s) \<and> length (heap (DispatchRequest env i s)) = length (heap s)"
proof -
  let ?e = "HsRequest i (length (responses s)) (request_table (heap s ! i))"
  let ?s = "hs ?e (s\<lparr>responses := responses s @ [(i, HttpServerResponse_new)]\<rparr>)"
  have opened: "opened j ?s = opened j s + of_bool (j = i)" for j by (simp add: opened_def)
  have answered: "answered j ?s = answered j s" for j by (simp add: answered_def HttpServerResponse_new_def)
  have "http_conn_inv ?s j" for j
    using assms spec [OF conjunct1 [OF assms(1) [unfolded http_inv_def]], of j]
    unfolding http_conn_inv_def opened answered by (auto split: if_splits)
  then have "http_inv ?s" using assms(1) by (simp add: http_inv_def)
  from code_inv [OF this, of ?e] assms(1) show ?thesis by (simp add: DispatchRequest_def hs_call_out_def)
qed

lemma OnData_inv:
  assumes "http_inv s" "i < length (heap s)" "conn_reading (heap s ! i)"
  shows "http_inv (OnData env i data s) \<and> length (heap (OnData env i data s)) = length (heap s)"
proof -
  have s: "clientInited (heap s ! i)" "\<not> clientClosed (heap s ! i)" "opened i s = 0"
    using assms spec [OF conjunct1 [OF assms(1) [unfolded http_inv_def]], of i] by (auto simp: http_conn_inv_def)
  have "http_inv (conn_update i (\<lambda>_. c) s) \<and>
      http_inv (DispatchRequest env i (Conn_StopReading i (conn_update i (\<lambda>_. c) s))) \<and>
      length (heap (DispatchRequest env i (Conn_StopReading i (conn_update i (\<lambda>_. c) s)))) = length (heap s)"
    if c: "handle_kept (heap s ! i) c" for c
  proof -
    let ?s = "conn_update i (\<lambda>_. c) s"
    have inv: "http_inv ?s" using assms c by (intro conn_update_inv) (simp_all add: handle_kept_def)
    have stop: "\<not> conn_reading (heap (Conn_StopReading i ?s) ! i)"
      using s c assms(2) by (simp add: Conn_StopReading_def handle_kept_def)
    have "http_inv (Conn_StopReading i ?s)" using inv assms(2) by (simp add: Conn_StopReading_inv)
    from DispatchRequest_inv [OF this, of i] inv s assms(2) stop show ?thesis by simp
  qed
  with OnData_cases [OF assms(2), of env data] assms(1) show ?thesis by (auto simp: http_inv_plain hs_plain_def)
qed

lemma Conn_OnRead_inv:
  assumes "http_inv s" "i < length (heap s)" "case r of Inr data \<Rightarrow> conn_reading (heap s ! i) | Inl e \<Rightarrow> \<not> conn_reading (heap s ! i) \<and> opened i s = 0"
  shows "http_inv (Conn_OnRead env i r s)"
proof (cases r)
  case (Inl e)
  with assms(3) have "http_inv (DispatchRequest env i s) \<and> length (heap (DispatchRequest env i s)) = length (heap s)"
    by (intro DispatchRequest_inv assms) simp_all
  with Inl assms(1,2) show ?thesis by (simp add: Conn_OnRead_def Let_def Conn_Close_inv)
next
  case (Inr data)
  with assms OnData_inv [of s i data] show ?thesis by (simp add: Conn_OnRead_def)
qed

lemma HttpMethods_inv:
  assumes "http_inv s"
  shows "http_inv (snd (HttpMethods env call s)) \<and> length (heap (snd (HttpMethods env call s))) = length (heap s)"
proof (cases call)
  case (HcListen args)
  then show ?thesis using assms Http_MethodListen_inv [OF assms, of env args] by (simp add: HttpMethods_def Let_def)
next
  case (HcSetStatus r args)
  have "finished x = finished (snd (responses s ! r))" if "Method_SetStatus args (snd (responses s ! r)) = Some x" for x
    using that by (auto simp: Method_SetStatus_def SetStatus_def split: lvalue.splits)
  then show ?thesis using assms HcSetStatus by (simp add: HttpMethods_def Let_def response_update_inv split: option.split)
next
  case (HcSetHeader r args)
  then show ?thesis using assms
    by (simp add: HttpMethods_def Let_def response_update_inv Method_SetHeader_def SetHeader_def split: lvalue.split)
next
  case (HcWrite r args)
  then show ?thesis using assms
    by (simp add: HttpMethods_def Let_def response_update_inv Method_Write_def Response_Write_def split: lvalue.split)
next
  case (HcEnd r args)
  obtain x y where m: "Method_End args (snd (responses s ! r)) = (x, y)" by (cases "Method_End args (snd (responses s ! r))")
  from HcEnd assms response_send_inv [OF assms _ m, of r env] Method_End_cases [OF m] show ?thesis
    by (auto simp: HttpMethods_def Let_def m)
next
  case (HcJson r args)
  obtain x y where m: "Method_Json args (snd (responses s ! r)) = (x, y)" by (cases "Method_Json args (snd (responses s ! r))")
  from HcJson assms response_send_inv [OF assms _ m, of r env] Method_Json_cases [OF m] show ?thesis
    by (auto simp: HttpMethods_def Let_def m)
qed (simp_all add: HttpMethods_def assms Http_RequestClose_inv)

lemma calls_inv:
  "http_inv s \<Longrightarrow> http_inv (fold (\<lambda>call s. snd (HttpMethods env call s)) calls s) \<and>
    length (heap (fold (\<lambda>call s. snd (HttpMethods env call s)) calls s)) = length (heap s)"
  by (induction calls arbitrary: s) (simp_all add: HttpMethods_inv)

lemma OnConnection_inv: "http_inv s \<Longrightarrow> http_inv (Http_OnConnection env status s)"
proof -
  assume inv: "http_inv s"
  let ?i = "length (heap s)" and ?s = "s\<lparr>heap := heap s @ [HttpServerConnection_new\<lparr>clientInited := True\<rparr>]\<rparr>"
  have "http_conn_inv ?s j" for j
    using spec [OF conjunct1 [OF inv [unfolded http_inv_def]], of j]
    by (auto simp: http_conn_inv_def nth_append HttpServerConnection_new_def split: if_splits)
  then have new: "http_inv ?s" using inv by (auto simp: http_inv_def)
  have "http_inv (Http_AddConnection ?i ?s)" unfolding Http_AddConnection_def
    using inv by (intro http_inv_connections new) (auto simp: http_inv_def)
  then have added: "http_inv (conn_update ?i (\<lambda>c. c\<lparr>conn_guard := True\<rparr>) (Http_AddConnection ?i ?s))"
    by (rule conn_update_inv) (simp_all add: Http_AddConnection_def)
  have reads: "http_inv (Conn_StartReading env i t)" if "http_inv t" "i < length (heap t)" "opened i t = 0" for t i
    using that by (auto simp: Conn_StartReading_def http_inv_def http_conn_inv_def)
  have "opened ?i s = 0" using spec [OF conjunct1 [OF inv [unfolded http_inv_def]], of ?i] by (simp add: http_conn_inv_def)
  then have "http_inv (Conn_StartReading env ?i (conn_update ?i (\<lambda>c. c\<lparr>conn_guard := True\<rparr>) (Http_AddConnection ?i ?s)))"
    by (intro reads added) (simp_all add: Http_AddConnection_def)
  with new FireError_inv [OF inv] Conn_Close_inv [OF new] inv show ?thesis by (simp add: Http_OnConnection_def Let_def)
qed

lemma http_reach_inv: "http_reach env s \<Longrightarrow> http_inv s"
proof (induction rule: http_reach.induct)
  case (create args s)
  then have "heap s = [] \<and> responses s = [] \<and> hs_trace s = [] \<and> connections s = [] \<and> \<not> hs_tcpClosed s \<and> \<not> hs_closed s"
    by (auto simp: HttpServer_Create_def)
  then show ?case by (simp add: http_inv_def http_conn_inv_def hs_count_def wrote_def dispatched_def opened_def answered_def)
next
  case (read s i data)
  then show ?case by (intro Conn_OnRead_inv) simp_all
next
  case (read_end s i e)
  let ?s = "conn_update i (\<lambda>c. c\<lparr>conn_reading := False\<rparr>) s"
  have "opened i s = 0" using read_end spec [OF conjunct1 [OF read_end.IH [unfolded http_inv_def]], of i] by (simp add: http_conn_inv_def)
  then show ?case using read_end by (intro Conn_OnRead_inv conn_update_inv) simp_all
next
  case (written s i)
  then show ?case by (simp add: Conn_Close_inv http_inv_plain hs_plain_def)
next
  case (conn_closed s i)
  let ?s = "hs (HsConnClosed i) s"
  have inv: "http_inv ?s" using conn_closed by (simp add: http_inv_plain hs_plain_def)
  then have "http_inv (RemoveConnection i ?s)"
    using set_remove1_subset [of i "connections s"] unfolding RemoveConnection_def
    by (intro http_inv_connections) (auto simp: http_inv_def)
  then have "http_inv (conn_update i (\<lambda>c. c\<lparr>conn_guard := False\<rparr>) (RemoveConnection i ?s))"
    using conn_closed by (intro conn_update_inv) (simp_all add: RemoveConnection_def)
  with inv show ?case by (simp add: Conn_OnClose_def Let_def http_inv_plain hs_plain_def)
next
  case (handle_closed s)
  then show ?case by (simp add: Http_OnHandleClosed_def Http_FinishClosed_inv http_inv_plain hs_plain_def)
qed (simp_all add: HttpMethods_inv OnConnection_inv Http_RequestClose_inv)

lemma reach_one_response: "http_reach env s \<Longrightarrow> dispatched i s \<le> 1 \<and> wrote i s \<le> dispatched i s"
proof -
  assume "http_reach env s"
  then have "http_conn_inv s i" using http_reach_inv by (simp add: http_inv_def)
  moreover have "length (filter (\<lambda>r. fst r = i \<and> finished (snd r)) xs) \<le> length (filter (\<lambda>r. fst r = i) xs)"
    for xs :: "(nat \<times> HttpServerResponse) list" by (induction xs) auto
  then have "answered i s \<le> opened i s" by (simp add: answered_def opened_def)
  ultimately show ?thesis by (simp add: http_conn_inv_def)
qed

end

lemma http_nested_handlers: "http_handlers (http_nested n script base)"
proof (induction n)
  case 0
  show ?case by unfold_locales simp
next
  case (Suc n)
  show ?case by unfold_locales (simp add: http_handlers.calls_inv [OF Suc.IH])
qed

interpretation nested_handlers: http_handlers "http_nested n script base" for n script base
  by (rule http_nested_handlers)

section \<open>Properties\<close>

definition feed_connection :: "http_env \<Rightarrow> nat \<Rightarrow> string list \<Rightarrow> HttpServer \<Rightarrow> HttpServer" where
  "feed_connection env i ps s = fold (\<lambda>p. Conn_OnRead env i (Inr p)) ps s"

definition accepted_connection :: HttpServerConnection where
  "accepted_connection = HttpServerConnection_new\<lparr>clientInited := True, conn_reading := True, conn_guard := True\<rparr>"

lemma conn_update_twice: "i < length (heap s) \<Longrightarrow> conn_update i f (conn_update i g s) = conn_update i (f \<circ> g) s"
  by (simp add: conn_update_def)

lemma partly_handle: "handle_kept c (partly q c pre)"
  by (simp add: partly_def handle_kept_def request_fields_of_def fold_note_length [of "rq_headers q" "_ \<lparr>req_query := _\<rparr>"] Let_def)

lemma parsed_request_handle: "handle_kept c (parsed_request q b c)"
  by (simp add: parsed_request_def handle_kept_def request_fields_of_def fold_note_length [of "rq_headers q" "_ \<lparr>req_query := _\<rparr>"] Let_def)

lemma feed_partly:
  assumes "proper_request q" "carries q b" "fresh_connection c" "\<not> clientClosed c" "clientInited c"
  shows "request_text q = pre @ concat ps \<Longrightarrow> ps \<noteq> [] \<Longrightarrow> list_all (\<lambda>p. p \<noteq> []) ps \<Longrightarrow> i < length (heap s) \<Longrightarrow> heap s ! i = partly q c pre \<Longrightarrow>
    feed_connection env i ps s = DispatchRequest env i (conn_update i (\<lambda>_. (parsed_request q b c)\<lparr>conn_reading := False\<rparr>) s)"
proof (induction ps arbitrary: pre s)
  case (Cons p ps)
  have raw: "rawBuffer (partly q c pre) = pre" by (simp add: partly_def request_fields_raw)
  have whole: "request_text q = (pre @ p) @ concat ps" using Cons.prems(1) by simp
  note parse = TryParse_partly [OF assms(1) carries_settles [OF assms(2)] assms(3) whole]
  have open1: "\<not> clientClosed (heap s ! i)" using Cons.prems(5) partly_handle [of c q pre] assms(4) by (simp add: handle_kept_def)
  have p: "p \<noteq> []" using Cons.prems(3) by simp
  show ?case
  proof (cases "ps = []")
    case True
    then have "TryParseRequest ((heap s ! i)\<lparr>rawBuffer := rawBuffer (heap s ! i) @ p\<rparr>) = Some (True, parsed_request q b c)"
      using parse Cons.prems(5) raw by simp
    then have "Conn_OnRead env i (Inr p) s = DispatchRequest env i (Conn_StopReading i (conn_update i (\<lambda>_. parsed_request q b c) s))"
      using open1 p by (simp add: Conn_OnRead_def OnData_def)
    also have "Conn_StopReading i (conn_update i (\<lambda>_. parsed_request q b c) s) = conn_update i (\<lambda>_. (parsed_request q b c)\<lparr>conn_reading := False\<rparr>) s"
      using assms(4,5) Cons.prems(4) parsed_request_handle [of c q b]
      by (simp add: Conn_StopReading_def handle_kept_def conn_update_twice comp_def)
    finally show ?thesis using True by (simp add: feed_connection_def)
  next
    case False
    then have more: "concat ps \<noteq> []" using Cons.prems(3) by (cases ps) auto
    let ?s = "conn_update i (\<lambda>_. partly q c (pre @ p)) s"
    have "TryParseRequest ((heap s ! i)\<lparr>rawBuffer := rawBuffer (heap s ! i) @ p\<rparr>) = Some (False, partly q c (pre @ p))"
      using parse Cons.prems(5) raw by (simp only: more if_False)
    then have "Conn_OnRead env i (Inr p) s = ?s" using open1 p by (simp add: Conn_OnRead_def OnData_def)
    then have "feed_connection env i (p # ps) s = feed_connection env i ps ?s" by (simp add: feed_connection_def)
    also have "\<dots> = DispatchRequest env i (conn_update i (\<lambda>_. (parsed_request q b c)\<lparr>conn_reading := False\<rparr>) ?s)"
      using Cons.IH [OF whole False, of ?s] Cons.prems(3,4) by simp
    finally show ?thesis using Cons.prems(4) by (simp add: conn_update_twice comp_def)
  qed
qed simp

text \<open>C6. Whatever the Luau handlers do and whatever arrives, a connection hands at most one request to the program and
  writes at most one response, and none without a request.\<close>

theorem http_one_response:
  assumes "http_reach (http_nested n script base) s"
  shows "wrote i s \<le> dispatched i s \<and> dispatched i s \<le> 1"
  using nested_handlers.reach_one_response [OF assms, of i] by simp


text \<open>A failed \<open>bind\<close> raises before the cleanup behind it: the server keeps its open handle, and a second \<open>Listen\<close>
  initialises the same handle again while libuv still has it.\<close>

theorem listen_after_failure:
  assumes "\<not> hs_listening s" "\<not> hs_closing s" "\<not> hs_closed s" "\<And>t. hs_result env hs_uv_tcp_init t = 0" "\<And>t. hs_result env hs_uv_tcp_bind t \<noteq> 0"
    "hs_ip4_addr env ''0.0.0.0'' 80 = Inr addr"
  shows "hs_trace (snd (Http_MethodListen env [v, LNumber (Finite 80)] (snd (Http_MethodListen env [v, LNumber (Finite 80)] s)))) =
    hs_trace s @ [HsTcpInit, HsTcpInit]"
proof -
  have listen: "snd (Http_MethodListen env [v, LNumber (Finite 80)] t) = hs HsTcpInit (t\<lparr>hs_tcpInited := True\<rparr>)"
    if "\<not> hs_listening t" "\<not> hs_closing t" "\<not> hs_closed t" for t
    using that assms(4-6) by (simp add: Http_MethodListen_def arg_def cast_double_def wants_tls_def Http_MakeSockAddr_def http_bind_def Let_def)
  show ?thesis using assms(1-3) by (simp add: listen) (simp add: hs_def)
qed

definition quiet_env :: http_env where
  "quiet_env = \<lparr>hs_code = \<lambda>e s. s, hs_result = \<lambda>_ _. 0, hs_strerror = \<lambda>_. [], hs_ip4_addr = \<lambda>h p. Inr (h, p),
     hs_ip6_addr = \<lambda>h p. Inl (- 22), hs_getsockname = \<lambda>_. None, hs_eof = - 4095, hs_einval = - 22\<rparr>"

definition busy_env :: http_env where
  "busy_env = quiet_env\<lparr>hs_result := \<lambda>c _. if c = hs_uv_tcp_bind then - 98 else 0\<rparr>"

definition new_server :: HttpServer where
  "new_server = projr (HttpServer_Create False [])"

theorem listen_after_failure_witness:
  "hs_trace (snd (Http_MethodListen busy_env [LNil, LNumber (Finite 80)]
     (snd (Http_MethodListen busy_env [LNil, LNumber (Finite 80)] new_server)))) = [HsTcpInit, HsTcpInit]"
  using listen_after_failure [of new_server busy_env "(''0.0.0.0'', 80)" LNil]
  by (simp add: new_server_def HttpServer_Create_def busy_env_def quiet_env_def)

text \<open>Luau drops a server that it has closed; the close callback of a connection may come after that of the listener
  (libuv runs them in the reverse of the order in which \<open>RequestClose\<close> closes), and then uses the freed server.\<close>

definition served_state :: HttpServer where
  "served_state = Http_OnConnection quiet_env 0 (snd (HttpMethods quiet_env (HcListen [LNil, LNumber (Finite 80)]) new_server))"

lemma served_state_eq:
  "served_state = new_server\<lparr>hs_tcpInited := True, hs_listening := True, heap := [accepted_connection], connections := [0],
     hs_trace := [HsTcpInit, HsBind (''0.0.0.0'', 80), HsListen 511]\<rparr>"
  by (simp add: served_state_def new_server_def HttpServer_Create_def HttpMethods_def Http_MethodListen_def arg_def cast_double_def wants_tls_def
      Http_MakeSockAddr_def http_bind_def Http_UpdateAddresses_def Http_OnConnection_def Conn_StartReading_def conn_update_def Http_AddConnection_def
      HttpServerConnection_new_def accepted_connection_def hs_def quiet_env_def Let_def)

lemma served_state_reach: "http_reach quiet_env served_state"
proof -
  have "http_reach quiet_env new_server" by (rule http_reach.create [of "[]"]) (simp add: new_server_def HttpServer_Create_def)
  then have "http_reach quiet_env (snd (HttpMethods quiet_env (HcListen [LNil, LNumber (Finite 80)]) new_server))" by (rule http_reach.call)
  then show ?thesis unfolding served_state_def
    by (rule http_reach.connection)
      (simp add: new_server_def HttpServer_Create_def HttpMethods_def Http_MethodListen_def arg_def cast_double_def wants_tls_def
      Http_MakeSockAddr_def http_bind_def Http_UpdateAddresses_def hs_def quiet_env_def Let_def)
qed

theorem server_freed_under_connection:
  "\<exists>s. http_reach quiet_env s \<and> HsReleased \<in> set (hs_trace s)"
proof -
  let ?a = "snd (HttpMethods quiet_env HcClose served_state)"
  let ?b = "snd (HttpMethods quiet_env HcForget ?a)" and ?c = "Http_OnHandleClosed (snd (HttpMethods quiet_env HcForget ?a))"
  have "http_reach quiet_env ?b" by (intro http_reach.call served_state_reach)
  note defs = HttpMethods_def Http_RequestClose_def Conn_Close_def Conn_StopReading_def uv_close_conn_def conn_update_def Http_OnHandleClosed_def
    Http_FinishClosed_def new_server_def HttpServer_Create_def accepted_connection_def HttpServerConnection_new_def hs_def hs_count_def wrote_def Let_def
  have b: "hs_trace ?b = [HsTcpInit, HsBind (''0.0.0.0'', 80), HsListen 511, HsConnClose 0, HsClose]" unfolding served_state_eq by (simp add: defs)
  have "http_reach quiet_env ?c" by (rule http_reach.handle_closed) (fact, simp add: hs_count_def b)
  moreover have "length (heap ?c) = 1" "hs_trace ?c = hs_trace ?b @ [HsClosedCb, HsRemoveServer]" "\<not> server_alive ?c"
    unfolding served_state_eq by (simp_all add: defs server_alive_def)
  ultimately have "http_reach quiet_env (Conn_OnClose 0 ?c)" by (intro http_reach.conn_closed) (simp_all add: hs_count_def wrote_def b)
  moreover have "HsReleased \<in> set (hs_trace (Conn_OnClose 0 ?c))" using \<open>\<not> server_alive ?c\<close>
    by (simp add: Conn_OnClose_def Let_def server_alive_def hs_def)
  ultimately show ?thesis by blast
qed

lemma quiet_env_nested: "http_nested 0 script quiet_env = quiet_env"
  by (simp add: quiet_env_def)

lemma served_connection: "0 < length (heap served_state)" "heap served_state ! 0 = accepted_connection" "\<not> hs_closing served_state"
  "\<not> hs_closed served_state" "responses served_state = []"
  by (simp_all add: served_state_eq new_server_def HttpServer_Create_def)

theorem http_one_response_witness:
  "wrote 0 (Conn_OnRead quiet_env 0 (Inr (request_text example_request)) served_state)
     \<le> dispatched 0 (Conn_OnRead quiet_env 0 (Inr (request_text example_request)) served_state) \<and>
   dispatched 0 (Conn_OnRead quiet_env 0 (Inr (request_text example_request)) served_state) \<le> 1"
proof (rule http_one_response)
  show "http_reach (http_nested 0 (\<lambda>_ _. []) quiet_env) (Conn_OnRead quiet_env 0 (Inr (request_text example_request)) served_state)"
    unfolding quiet_env_nested
    by (rule http_reach.read [OF served_state_reach served_connection(1)]) (simp only: served_connection(2), simp add: accepted_connection_def)
qed


end
