(* ===== verification/Lode_HttpMessage.thy ===== *)
theory Lode_HttpMessage
  imports Lode_HttpServer
begin

text \<open>
  The messages of the http client, \<open>HttpClient.cpp\<close>: the request text it sends and the response parser, over the
  fields of \<open>HttpRequestContext\<close>. The parser is run after each read on all bytes received so far and keeps its
  position; one round of its loop is \<open>chunk_step\<close>. The effects of a context are in \<open>Lode_HttpClient\<close>.
\<close>

section \<open>Request contexts\<close>

record HttpResponseData =
  r_status :: int
  r_statusText :: string
  r_version :: string
  r_headers :: "(string \<times> string) list"
  r_body :: string
  r_finalUrl :: string
  r_errorKind :: string
  r_errorMessage :: string

definition HttpResponseData_new :: HttpResponseData where
  "HttpResponseData_new = \<lparr>r_status = 0, r_statusText = [], r_version = [], r_headers = [], r_body = [], r_finalUrl = [],
     r_errorKind = [], r_errorMessage = []\<rparr>"

datatype BodyMode = Body_None | Body_ContentLength | Body_Chunked
datatype BodyState = State_Idle | State_SizeLine | State_ChunkData | State_ChunkCrlf | State_Trailers

text \<open>\<open>x_ticket\<close> is the number of the call of \<open>Request\<close> or \<open>RequestAsync\<close> that the context serves; the code has no
  such field, it names the waiting coroutine.\<close>

record HttpRequestContext =
  x_url :: ParsedUrl
  x_opts :: HttpRequestOptions
  x_result :: HttpResponseData
  x_dnsDone :: bool
  x_tcpInited :: bool
  x_timerInited :: bool
  x_tcpClosed :: bool
  x_timerClosed :: bool
  x_closed :: bool
  x_reading :: bool
  x_requestComplete :: bool
  x_idle :: bool
  x_connectionReady :: bool
  x_reuseCount :: nat
  x_closeCount :: int
  x_requestText :: string
  x_raw :: string
  x_headerEnd :: "nat option"
  x_status :: int
  x_statusText :: string
  x_version :: string
  x_headers :: "(string \<times> string) list"
  x_bodyMode :: BodyMode
  x_bodyState :: BodyState
  x_pos :: nat
  x_chunkStart :: nat
  x_chunkRemaining :: nat
  x_contentLength :: nat
  x_redirectsDone :: int
  x_taskCtx :: bool
  x_isAsync :: bool
  x_selfGuard :: bool
  x_ticket :: nat

definition HttpRequestContext_new :: HttpRequestContext where
  "HttpRequestContext_new = \<lparr>x_url = ParsedUrl_new, x_opts = HttpRequestOptions_new, x_result = HttpResponseData_new, x_dnsDone = False,
     x_tcpInited = False, x_timerInited = False, x_tcpClosed = False, x_timerClosed = False, x_closed = False, x_reading = False,
     x_requestComplete = False, x_idle = False, x_connectionReady = False, x_reuseCount = 0, x_closeCount = 0, x_requestText = [],
     x_raw = [], x_headerEnd = None, x_status = 0, x_statusText = [], x_version = [], x_headers = [], x_bodyMode = Body_None,
     x_bodyState = State_Idle, x_pos = 0, x_chunkStart = 0, x_chunkRemaining = 0, x_contentLength = 0, x_redirectsDone = 0,
     x_taskCtx = False, x_isAsync = False, x_selfGuard = False, x_ticket = 0\<rparr>"

definition PrepareForReuse :: "HttpRequestContext \<Rightarrow> HttpRequestContext" where
  "PrepareForReuse c = c\<lparr>x_idle := False, x_connectionReady := True, x_requestComplete := False, x_closed := False,
     x_result := HttpResponseData_new, x_opts := HttpRequestOptions_new, x_requestText := [], x_raw := [], x_headerEnd := None,
     x_status := 0, x_statusText := [], x_version := [], x_headers := [], x_bodyMode := Body_None, x_bodyState := State_Idle,
     x_pos := 0, x_chunkStart := 0, x_chunkRemaining := 0, x_contentLength := 0, x_redirectsDone := 0, x_taskCtx := False,
     x_isAsync := False\<rparr>"

definition HeaderValue :: "string \<Rightarrow> (string \<times> string) list \<Rightarrow> string" where
  "HeaderValue name hdrs = (case map_of hdrs name of Some v \<Rightarrow> v | None \<Rightarrow> [])"

section \<open>Requests\<close>

definition kept_header :: "string \<times> string \<Rightarrow> bool" where
  "kept_header h \<longleftrightarrow> map to_lower (fst h) \<notin> {''host'', ''connection'', ''content-length'', ''transfer-encoding''}"

definition BuildRequestText :: "ParsedUrl \<Rightarrow> HttpRequestOptions \<Rightarrow> string" where
  "BuildRequestText url opts =
     (let method = map to_upper (if o_method opts = [] then ''GET'' else o_method opts);
          path = (if u_path url = [] then ''/'' else u_path url);
          head = method @ '' '' @ path @ '' HTTP/1.1'' @ CRLF @ concat (map field_line (filter kept_header (o_headers opts))) @
            (if has_header ''host'' (o_headers opts) then [] else ''Host: '' @ u_authority url @ CRLF) @
            (if has_header ''connection'' (o_headers opts) then []
             else if o_keepAlive opts then ''Connection: keep-alive'' @ CRLF else ''Connection: close'' @ CRLF)
      in if o_chunkedUpload opts
         then head @ ''Transfer-Encoding: chunked'' @ CRLF @ CRLF @
           (if o_body opts = [] then [] else hex_string (length (o_body opts)) @ CRLF @ o_body opts @ CRLF) @ ''0'' @ CRLF @ CRLF
         else head @ (if \<not> has_header ''content-length'' (o_headers opts) \<and> o_body opts \<noteq> []
                      then ''Content-Length: '' @ nat_string (length (o_body opts)) @ CRLF else []) @ CRLF @ o_body opts)"

section \<open>Numbers and redirects\<close>

definition ParseInt64Local :: "string \<Rightarrow> int option" where
  "ParseInt64Local s = (case from_chars 64 10 s of Some (v, []) \<Rightarrow> Some v | _ \<Rightarrow> None)"

definition ParseHexLocal :: "string \<Rightarrow> int" where
  "ParseHexLocal s = (case from_chars 64 16 s of Some (v, _) \<Rightarrow> v | None \<Rightarrow> - 1)"

definition Trim :: "string \<Rightarrow> string" where
  "Trim s = rev (dropWhile is_blank (rev (dropWhile is_blank s)))"

definition IsSameOrigin :: "ParsedUrl \<Rightarrow> ParsedUrl \<Rightarrow> bool" where
  "IsSameOrigin a b \<longleftrightarrow> u_scheme a = u_scheme b \<and> u_host a = u_host b \<and> u_port a = u_port b"

definition IsSensitiveRedirectHeader :: "string \<Rightarrow> bool" where
  "IsSensitiveRedirectHeader name \<longleftrightarrow> map to_lower name \<in> {''authorization'', ''proxy-authorization'', ''cookie''}"

definition RemoveSensitiveRedirectHeaders :: "HttpRequestOptions \<Rightarrow> HttpRequestOptions" where
  "RemoveSensitiveRedirectHeaders opts = opts\<lparr>o_headers := filter (\<lambda>h. \<not> IsSensitiveRedirectHeader (fst h)) (o_headers opts)\<rparr>"

section \<open>Response heads\<close>

text \<open>The loop over the header lines, which stops at the first line without a name.\<close>

function response_lines :: "string \<Rightarrow> nat \<Rightarrow> nat \<Rightarrow> (string \<times> string) list \<Rightarrow> bool \<times> (string \<times> string) list" where
  "response_lines raw headerEnd p acc =
     (if headerEnd \<le> p then (True, acc)
      else case find_from CRLF raw p of
             None \<Rightarrow> (True, acc)
           | Some e \<Rightarrow>
             if headerEnd < e then (True, acc)
             else
               let line = take (e - p) (drop p raw) in
               case find_idx (\<lambda>c. c = CHR '':'') line of
                 None \<Rightarrow> (False, acc)
               | Some colon \<Rightarrow>
                   let name = map to_lower (Trim (take colon line)); value = Trim (drop (colon + 1) line)
                   in if name = [] then (False, acc) else response_lines raw headerEnd (e + 2) (acc @ [(name, value)]))"
  by pat_completeness auto
termination
  by (relation "measure (\<lambda>(raw, headerEnd, p, acc). headerEnd - p)") (auto simp: find_from_def split: if_splits)

declare response_lines.simps [simp del]

definition join_codings :: "string list \<Rightarrow> string" where
  "join_codings vs = foldl (\<lambda>combined v. (if combined = [] then v else combined @ '','' @ v)) [] vs"

definition final_coding :: "string \<Rightarrow> string" where
  "final_coding combined = Trim (case rfind_idx (\<lambda>c. c = CHR '','') combined of None \<Rightarrow> combined | Some i \<Rightarrow> drop (i + 1) combined)"

text \<open>The lengths of a field that lists several.\<close>

fun split_commas :: "string \<Rightarrow> string list" where
  "split_commas [] = [[]]"
| "split_commas (c # cs) = (if c = CHR '','' then [] # split_commas cs else case split_commas cs of (p # ps) \<Rightarrow> (c # p) # ps | [] \<Rightarrow> [[c]])"

fun agree_lengths :: "int option \<Rightarrow> string list \<Rightarrow> string + int option" where
  "agree_lengths known [] = Inr known"
| "agree_lengths known (v # vs) =
     (case ParseInt64Local (Trim v) of
        None \<Rightarrow> Inl ''invalid content-length''
      | Some n \<Rightarrow>
          if n < 0 then Inl ''invalid content-length''
          else if known \<noteq> None \<and> known \<noteq> Some n then Inl ''conflicting content-length values''
          else agree_lengths (Some n) vs)"

definition body_framing :: "HttpRequestContext \<Rightarrow> string option \<times> HttpRequestContext" where
  "body_framing c =
     (let codings = map (map to_lower \<circ> snd) (filter (\<lambda>h. fst h = ''transfer-encoding'') (x_headers c));
          lengths = map snd (filter (\<lambda>h. fst h = ''content-length'') (x_headers c))
      in if codings \<noteq> [] \<and> lengths \<noteq> [] then (Some ''transfer-encoding conflicts with content-length'', c)
         else if codings \<noteq> []
         then if final_coding (join_codings codings) \<noteq> ''chunked'' then (Some ''unsupported transfer-encoding'', c)
              else (None, c\<lparr>x_bodyMode := Body_Chunked, x_bodyState := State_SizeLine\<rparr>)
         else if lengths \<noteq> []
         then case agree_lengths None (concat (map split_commas lengths)) of
                Inl e \<Rightarrow> (Some e, c)
              | Inr known \<Rightarrow>
                  (None, c\<lparr>x_contentLength := (case known of Some n \<Rightarrow> nat n | None \<Rightarrow> 0), x_bodyMode := Body_ContentLength\<rparr>)
         else (None, c))"

text \<open>\<open>ParseHeaders\<close>, with the kind and the detail of its failure.\<close>

definition status_line :: "string \<Rightarrow> HttpRequestContext \<Rightarrow> string option \<times> HttpRequestContext" where
  "status_line statusLine c =
     (if \<not> prefix ''HTTP/'' statusLine then (Some ''invalid status line'', c)
      else case find_idx (\<lambda>x. x = CHR '' '') statusLine of
             None \<Rightarrow> (Some ''invalid status line'', c)
           | Some sp1 \<Rightarrow>
             (let c1 = c\<lparr>x_version := take sp1 statusLine\<rparr>; rest = drop (sp1 + 1) statusLine;
                  sp2 = find_idx (\<lambda>x. x = CHR '' '') rest;
                  codeStr = (case sp2 of None \<Rightarrow> rest | Some i \<Rightarrow> take i rest)
              in case ParseInt64Local codeStr of
                   None \<Rightarrow> (Some ''invalid status code'', c1)
                 | Some code \<Rightarrow>
                   if code < 100 \<or> 999 < code then (Some ''invalid status code'', c1)
                   else (None, c1\<lparr>x_status := code, x_statusText := (case sp2 of None \<Rightarrow> [] | Some i \<Rightarrow> drop (i + 1) rest)\<rparr>)))"

definition ParseHeaders :: "nat \<Rightarrow> HttpRequestContext \<Rightarrow> (string \<times> string) option \<times> HttpRequestContext" where
  "ParseHeaders headerEnd c =
     (let raw = x_raw c; malformed = (\<lambda>m. Some (''malformed-response'', m))
      in if raw \<noteq> [] \<and> (hd raw = CHR 0x00 \<or> prefix ''PRI * HTTP/2.0'' raw)
         then (Some (''protocol-error'', ''server requires HTTP/2, HTTP/1.1 client fallback unsupported''), c)
         else case find_sub CRLF raw of
           None \<Rightarrow> (malformed ''invalid status line'', c)
         | Some lineEnd \<Rightarrow>
           if lineEnd = 0 then (malformed ''invalid status line'', c)
           else case status_line (take lineEnd raw) c of
             (Some m, c1) \<Rightarrow> (malformed m, c1)
           | (None, c1) \<Rightarrow>
             (case response_lines raw headerEnd (lineEnd + 2) (x_headers c1) of
                (False, hdrs) \<Rightarrow> (malformed ''invalid header line'', c1\<lparr>x_headers := hdrs\<rparr>)
              | (True, hdrs) \<Rightarrow>
                (case body_framing (c1\<lparr>x_headers := hdrs\<rparr>) of
                   (Some m, c2) \<Rightarrow> (malformed m, c2)
                 | (None, c2) \<Rightarrow> (None, c2))))"

section \<open>Chunked bodies\<close>

text \<open>One round of the loop in \<open>TryParse\<close>. A chunk is handed to the program before the position moves on.\<close>

datatype chunk_move =
    Chunk_Wait
  | Chunk_Fail string
  | Chunk_Next HttpRequestContext
  | Chunk_Data string HttpRequestContext
  | Chunk_Complete

definition chunk_size :: "string \<Rightarrow> int" where
  "chunk_size line = ParseHexLocal (Trim (case find_idx (\<lambda>c. c = CHR '';'') line of None \<Rightarrow> line | Some i \<Rightarrow> take i line))"

definition size_line :: "HttpRequestContext \<Rightarrow> chunk_move" where
  "size_line c =
     (case find_from CRLF (x_raw c) (x_pos c) of
        None \<Rightarrow> Chunk_Wait
      | Some crlf \<Rightarrow>
        (let size = chunk_size (take (crlf - x_pos c) (drop (x_pos c) (x_raw c)))
         in if size < 0 then Chunk_Fail ''invalid chunk size''
            else if size = 0 then Chunk_Next (c\<lparr>x_pos := crlf + 2, x_bodyState := State_Trailers\<rparr>)
            else Chunk_Next (c\<lparr>x_pos := crlf + 2, x_chunkStart := crlf + 2, x_chunkRemaining := nat size, x_bodyState := State_ChunkData\<rparr>)))"

definition chunk_data :: "HttpRequestContext \<Rightarrow> string" where
  "chunk_data c = take (x_chunkRemaining c) (drop (x_chunkStart c) (x_raw c))"

definition add_chunk :: "string \<Rightarrow> HttpRequestContext \<Rightarrow> HttpRequestContext" where
  "add_chunk chunk c = c\<lparr>x_result := (x_result c)\<lparr>r_body := r_body (x_result c) @ chunk\<rparr>\<rparr>"

definition after_chunk :: "HttpRequestContext \<Rightarrow> HttpRequestContext" where
  "after_chunk c = c\<lparr>x_pos := x_chunkStart c + x_chunkRemaining c, x_bodyState := State_ChunkCrlf\<rparr>"

definition kMaxHeaderSize :: nat where "kMaxHeaderSize = 64 * 1024"
definition kMaxResponseSize :: nat where "kMaxResponseSize = 512 * 1024 * 1024"
definition kMaxTrailersSize :: nat where "kMaxTrailersSize = 8 * 1024"

definition chunk_step :: "HttpRequestContext \<Rightarrow> chunk_move" where
  "chunk_step c =
     (case x_bodyState c of
        State_SizeLine \<Rightarrow> size_line c
      | State_ChunkData \<Rightarrow>
          if length (x_raw c) - x_chunkStart c < x_chunkRemaining c then Chunk_Wait else Chunk_Data (chunk_data c) (add_chunk (chunk_data c) c)
      | State_ChunkCrlf \<Rightarrow>
          if length (x_raw c) - x_pos c < 2 then Chunk_Wait
          else if take 2 (drop (x_pos c) (x_raw c)) \<noteq> CRLF then Chunk_Fail ''invalid chunk terminator''
          else Chunk_Next (c\<lparr>x_pos := x_pos c + 2, x_bodyState := State_SizeLine\<rparr>)
      | _ \<Rightarrow>
          if find_from CRLF (x_raw c) (x_pos c) \<noteq> None then Chunk_Complete
          else if kMaxTrailersSize < length (x_raw c) - x_pos c then Chunk_Fail ''trailers too large''
          else Chunk_Wait)"

section \<open>The parser without effects\<close>

text \<open>\<open>TryParse\<close> up to what it does to the connection and to Luau: wait, fail, or complete.\<close>

datatype parse_outcome = Parse_Wait | Parse_Fail string string | Parse_Complete

fun chunk_run :: "nat \<Rightarrow> HttpRequestContext \<Rightarrow> parse_outcome \<times> HttpRequestContext" where
  "chunk_run 0 c = (Parse_Wait, c)"
| "chunk_run (Suc n) c =
     (case chunk_step c of
        Chunk_Wait \<Rightarrow> (Parse_Wait, c)
      | Chunk_Fail m \<Rightarrow> (Parse_Fail ''malformed-response'' m, c)
      | Chunk_Next d \<Rightarrow> chunk_run n d
      | Chunk_Data x d \<Rightarrow> chunk_run n (after_chunk d)
      | Chunk_Complete \<Rightarrow> (Parse_Complete, c))"

definition body_parse :: "HttpRequestContext \<Rightarrow> parse_outcome \<times> HttpRequestContext" where
  "body_parse c =
     (let bodyEnd = the (x_headerEnd c) + 4 + x_contentLength c
      in case x_bodyMode c of
           Body_Chunked \<Rightarrow> chunk_run (Suc (length (x_raw c))) c
         | Body_ContentLength \<Rightarrow>
             if bodyEnd \<le> length (x_raw c) then (Parse_Complete, c\<lparr>x_raw := take bodyEnd (x_raw c)\<rparr>) else (Parse_Wait, c)
         | Body_None \<Rightarrow> (Parse_Wait, c))"

definition response_parse :: "HttpRequestContext \<Rightarrow> parse_outcome \<times> HttpRequestContext" where
  "response_parse c =
     (case x_headerEnd c of
        Some _ \<Rightarrow> body_parse c
      | None \<Rightarrow>
        (case find_sub (CRLF @ CRLF) (x_raw c) of
           None \<Rightarrow> (if kMaxHeaderSize < length (x_raw c) then Parse_Fail ''malformed-response'' ''headers too large'' else Parse_Wait, c)
         | Some idx \<Rightarrow>
           (case ParseHeaders idx (c\<lparr>x_headerEnd := Some idx\<rparr>) of
              (Some (kind, detail), d) \<Rightarrow> (Parse_Fail kind detail, d)
            | (None, d) \<Rightarrow> body_parse (d\<lparr>x_pos := idx + 4\<rparr>))))"

fun response_feed :: "HttpRequestContext \<Rightarrow> string list \<Rightarrow> parse_outcome \<times> HttpRequestContext" where
  "response_feed c [] = (Parse_Wait, c)"
| "response_feed c (p # ps) =
     (case response_parse (c\<lparr>x_raw := x_raw c @ p\<rparr>) of
        (Parse_Wait, d) \<Rightarrow> response_feed d ps
      | r \<Rightarrow> r)"

section \<open>Chunks and segmentation\<close>

text \<open>The position never passes the end of the buffer, and a round that goes on moves it forward.\<close>

definition chunk_ok :: "HttpRequestContext \<Rightarrow> bool" where
  "chunk_ok c \<longleftrightarrow> x_pos c \<le> length (x_raw c) \<and> (x_bodyState c = State_ChunkData \<longrightarrow> x_chunkStart c = x_pos c \<and> 0 < x_chunkRemaining c)"

definition next_ctx :: "HttpRequestContext \<Rightarrow> HttpRequestContext option" where
  "next_ctx c = (case chunk_step c of Chunk_Next d \<Rightarrow> Some d | Chunk_Data x d \<Rightarrow> Some (after_chunk d) | _ \<Rightarrow> None)"

lemma find_from_bound: "find_from p s k = Some e \<Longrightarrow> k \<le> e \<and> e + length p \<le> length s"
  by (auto simp: find_from_def split: if_splits dest: find_sub_length)

lemma find_from_more: "find_from p s k = Some e \<Longrightarrow> find_from p (s @ t) k = Some e"
  by (auto simp: find_from_def split: if_splits dest: find_sub_more)

lemma next_ctx_forward:
  assumes "next_ctx c = Some d" "chunk_ok c"
  shows "chunk_ok d \<and> x_pos c < x_pos d \<and> x_raw d = x_raw c"
proof (cases "x_bodyState c")
  case State_SizeLine
  then show ?thesis using assms
    by (auto simp: next_ctx_def chunk_step_def size_line_def chunk_ok_def Let_def split: option.splits if_splits dest!: find_from_bound)
next
  case State_ChunkData
  then show ?thesis using assms
    by (auto simp: next_ctx_def chunk_step_def add_chunk_def after_chunk_def chunk_ok_def split: if_splits)
next
  case State_ChunkCrlf
  then show ?thesis using assms by (auto simp: next_ctx_def chunk_step_def chunk_ok_def split: if_splits)
qed (use assms in \<open>simp_all add: next_ctx_def chunk_step_def split: if_splits\<close>)

text \<open>More bytes do not change what a round has done.\<close>

lemma next_ctx_more:
  assumes "next_ctx c = Some d" "chunk_ok c"
  shows "next_ctx (c\<lparr>x_raw := x_raw c @ t\<rparr>) = Some (d\<lparr>x_raw := x_raw c @ t\<rparr>)"
proof (cases "x_bodyState c")
  case State_SizeLine
  with assms obtain e where e: "find_from CRLF (x_raw c) (x_pos c) = Some e"
    by (auto simp: next_ctx_def chunk_step_def size_line_def split: option.splits)
  have "take (e - x_pos c) (drop (x_pos c) (x_raw c @ t)) = take (e - x_pos c) (drop (x_pos c) (x_raw c))"
    using find_from_bound [OF e] by simp
  with State_SizeLine assms(1) e find_from_more [OF e, of t] show ?thesis
    by (auto simp: next_ctx_def chunk_step_def size_line_def Let_def)
next
  case State_ChunkData
  with assms have len: "x_chunkStart c + x_chunkRemaining c \<le> length (x_raw c)" and d: "d = after_chunk (add_chunk (chunk_data c) c)"
    by (auto simp: next_ctx_def chunk_step_def chunk_ok_def split: if_splits)
  have "chunk_data (c\<lparr>x_raw := x_raw c @ t\<rparr>) = chunk_data c" using len by (simp add: chunk_data_def)
  with State_ChunkData len d show ?thesis by (simp add: next_ctx_def chunk_step_def add_chunk_def after_chunk_def)
next
  case State_ChunkCrlf
  with assms(1) have len: "x_pos c + 2 \<le> length (x_raw c)" "take 2 (drop (x_pos c) (x_raw c)) = CRLF" "d = c\<lparr>x_pos := x_pos c + 2, x_bodyState := State_SizeLine\<rparr>"
    by (auto simp: next_ctx_def chunk_step_def split: if_splits)
  then have "take 2 (drop (x_pos c) (x_raw c @ t)) = CRLF" by simp
  with State_ChunkCrlf len show ?thesis by (simp add: next_ctx_def chunk_step_def)
qed (use assms in \<open>simp_all add: next_ctx_def chunk_step_def split: if_splits\<close>)

abbreviation moves :: "HttpRequestContext \<Rightarrow> HttpRequestContext \<Rightarrow> bool" where
  "moves \<equiv> (\<lambda>c d. next_ctx c = Some d)\<^sup>*\<^sup>*"

definition stop_outcome :: "HttpRequestContext \<Rightarrow> parse_outcome" where
  "stop_outcome c = (case chunk_step c of Chunk_Fail m \<Rightarrow> Parse_Fail ''malformed-response'' m | Chunk_Complete \<Rightarrow> Parse_Complete | _ \<Rightarrow> Parse_Wait)"

lemma chunk_run_next: "next_ctx c = Some d \<Longrightarrow> chunk_run (Suc n) c = chunk_run n d"
  by (auto simp: next_ctx_def split: chunk_move.splits)

lemma chunk_run_stop: "next_ctx c = None \<Longrightarrow> chunk_run (Suc n) c = (stop_outcome c, c)"
  by (auto simp: next_ctx_def stop_outcome_def split: chunk_move.splits)

lemma moves_forward: "moves c d \<Longrightarrow> chunk_ok c \<Longrightarrow> chunk_ok d \<and> x_raw d = x_raw c"
  by (induction rule: rtranclp_induct) (auto dest: next_ctx_forward)

lemma chunk_run_moves:
  assumes "moves c d" "next_ctx d = None" "chunk_ok c" "length (x_raw c) - x_pos c < n"
  shows "chunk_run n c = (stop_outcome d, d)"
  using assms
proof (induction arbitrary: n rule: converse_rtranclp_induct)
  case base
  then obtain m where "n = Suc m" by (cases n) auto
  with base show ?case by (simp only: chunk_run_stop)
next
  case (step c e)
  then obtain m where n: "n = Suc m" by (cases n) auto
  from next_ctx_forward [OF step.hyps(1) step.prems(2)] have e: "chunk_ok e" "x_pos c < x_pos e" "x_raw e = x_raw c" by simp_all
  then have "length (x_raw e) - x_pos e < m" using step.prems(3) n by (auto simp: chunk_ok_def)
  with step.IH [OF step.prems(1) e(1)] show ?case using chunk_run_next [OF step.hyps(1)] n by simp
qed

lemma moves_stop: "chunk_ok c \<Longrightarrow> \<exists>d. moves c d \<and> next_ctx d = None"
proof (induction "length (x_raw c) - x_pos c" arbitrary: c rule: less_induct)
  case less
  show ?case
  proof (cases "next_ctx c")
    case (Some e)
    from next_ctx_forward [OF Some less.prems] have e: "chunk_ok e" "x_pos c < x_pos e" "x_raw e = x_raw c" by simp_all
    then have "length (x_raw e) - x_pos e < length (x_raw c) - x_pos c" by (auto simp: chunk_ok_def)
    from less.hyps [OF this e(1)] obtain d where "moves e d" "next_ctx d = None" by blast
    then show ?thesis using Some by (blast intro: converse_rtranclp_into_rtranclp)
  qed blast
qed

lemma moves_more: "moves c d \<Longrightarrow> chunk_ok c \<Longrightarrow> moves (c\<lparr>x_raw := x_raw c @ t\<rparr>) (d\<lparr>x_raw := x_raw c @ t\<rparr>)"
proof (induction rule: rtranclp_induct)
  case (step d e)
  from moves_forward [OF step.hyps(1) step.prems] have d: "chunk_ok d" "x_raw d = x_raw c" by simp_all
  from next_ctx_more [OF step.hyps(2) d(1), of t] d(2) step.IH [OF step.prems] show ?case by (auto intro: rtranclp.rtrancl_into_rtrancl)
qed simp

text \<open>Rounds are deterministic: a state on the way stays on the way to the end.\<close>

lemma moves_linear: "moves c d \<Longrightarrow> next_ctx d = None \<Longrightarrow> moves c e \<Longrightarrow> moves e d"
proof (induction rule: converse_rtranclp_induct)
  case base
  then show ?case by (auto elim: converse_rtranclpE)
next
  case (step c f)
  from step.prems(2) show ?case
  proof (cases rule: converse_rtranclpE)
    case base
    with step.hyps show ?thesis by (auto intro: converse_rtranclp_into_rtranclp)
  next
    case (step g)
    with step.hyps \<open>next_ctx c = Some f\<close> step.IH step.prems show ?thesis by simp
  qed
qed

text \<open>A state that has stopped on a part of the text is on the way to the end of the whole, so it waits or is complete.\<close>

lemma stopped_part:
  assumes "next_ctx e = None" "chunk_ok e" "moves (e\<lparr>x_raw := x_raw e @ t\<rparr>) d" "next_ctx d = None" "stop_outcome d = Parse_Complete"
    "length (x_raw e @ t) \<le> x_pos d + kMaxTrailersSize"
  shows "stop_outcome e = Parse_Wait \<or> stop_outcome e = Parse_Complete \<and> d = e\<lparr>x_raw := x_raw e @ t\<rparr>"
proof (cases "chunk_step e")
  case (Chunk_Fail m)
  let ?e = "e\<lparr>x_raw := x_raw e @ t\<rparr>"
  show ?thesis
  proof (cases "x_bodyState e")
    case State_SizeLine
    with Chunk_Fail obtain k where k: "find_from CRLF (x_raw e) (x_pos e) = Some k" "m = ''invalid chunk size''"
      by (auto simp: chunk_step_def size_line_def Let_def split: option.splits if_splits)
    have "take (k - x_pos e) (drop (x_pos e) (x_raw e @ t)) = take (k - x_pos e) (drop (x_pos e) (x_raw e))" using find_from_bound [OF k(1)] by simp
    then have "chunk_step ?e = Chunk_Fail m" using Chunk_Fail State_SizeLine k find_from_more [OF k(1), of t]
      by (auto simp: chunk_step_def size_line_def Let_def split: if_splits)
    then have "next_ctx ?e = None" "stop_outcome ?e \<noteq> Parse_Complete" by (simp_all add: next_ctx_def stop_outcome_def)
    with assms(3,5) show ?thesis by (auto elim: converse_rtranclpE)
  next
    case State_ChunkCrlf
    with Chunk_Fail have c: "x_pos e + 2 \<le> length (x_raw e)" "take 2 (drop (x_pos e) (x_raw e)) \<noteq> CRLF" "m = ''invalid chunk terminator''"
      by (auto simp: chunk_step_def split: if_splits)
    then have "take 2 (drop (x_pos e) (x_raw e @ t)) \<noteq> CRLF" by simp
    then have "chunk_step ?e = Chunk_Fail m" using c State_ChunkCrlf by (simp add: chunk_step_def)
    then have "next_ctx ?e = None" "stop_outcome ?e \<noteq> Parse_Complete" by (simp_all add: next_ctx_def stop_outcome_def)
    with assms(3,5) show ?thesis by (auto elim: converse_rtranclpE)
  next
    case State_ChunkData
    with Chunk_Fail show ?thesis by (simp add: chunk_step_def split: if_splits)
  qed (use Chunk_Fail assms(3,6) in \<open>auto simp: chunk_step_def next_ctx_def split: if_splits elim: converse_rtranclpE\<close>)
next
  case Chunk_Complete
  let ?e = "e\<lparr>x_raw := x_raw e @ t\<rparr>"
  have "find_from CRLF (x_raw e) (x_pos e) \<noteq> None \<and> x_bodyState e \<noteq> State_SizeLine \<and> x_bodyState e \<noteq> State_ChunkData \<and> x_bodyState e \<noteq> State_ChunkCrlf"
    using Chunk_Complete by (auto simp: chunk_step_def size_line_def Let_def split: BodyState.splits option.splits if_splits)
  then have "chunk_step ?e = Chunk_Complete" using find_from_more [of CRLF "x_raw e" "x_pos e" _ t] by (auto simp: chunk_step_def split: BodyState.splits)
  then have "next_ctx ?e = None" by (simp add: next_ctx_def)
  with assms(3) have "d = ?e" by (auto elim: converse_rtranclpE)
  then show ?thesis using Chunk_Complete by (simp add: stop_outcome_def)
qed (use assms(1) in \<open>simp_all add: next_ctx_def stop_outcome_def\<close>)

text \<open>What the client makes of the bytes that are there and the pieces to come.\<close>

definition arrival :: "HttpRequestContext \<Rightarrow> string list \<Rightarrow> parse_outcome \<times> HttpRequestContext" where
  "arrival c ps = (case body_parse c of (Parse_Wait, d) \<Rightarrow> response_feed d ps | r \<Rightarrow> r)"

lemma arrival_Cons: "body_parse c = (Parse_Wait, d) \<Longrightarrow> x_headerEnd d \<noteq> None \<Longrightarrow> arrival c (p # ps) = arrival (d\<lparr>x_raw := x_raw d @ p\<rparr>) ps"
  by (auto simp: arrival_def response_parse_def split: prod.split parse_outcome.split)

lemma moves_frame: "moves c d \<Longrightarrow> x_headerEnd d = x_headerEnd c \<and> x_bodyMode d = x_bodyMode c"
proof (induction rule: rtranclp_induct)
  case (step d e)
  then show ?case by (auto simp: next_ctx_def chunk_step_def size_line_def add_chunk_def after_chunk_def Let_def
      split: chunk_move.splits BodyState.splits option.splits if_splits)
qed simp

lemma chunk_arrival:
  assumes "x_bodyMode c = Body_Chunked" "x_headerEnd c \<noteq> None" "chunk_ok c" "moves (c\<lparr>x_raw := x_raw c @ concat ps\<rparr>) d" "next_ctx d = None"
    "stop_outcome d = Parse_Complete" "length (x_raw c @ concat ps) \<le> x_pos d + kMaxTrailersSize"
  shows "\<exists>e. arrival c ps = (Parse_Complete, e) \<and> e\<lparr>x_raw := x_raw c @ concat ps\<rparr> = d"
  using assms
proof (induction ps arbitrary: c)
  case Nil
  then have "chunk_run (Suc (length (x_raw c))) c = (stop_outcome d, d)" by (intro chunk_run_moves) auto
  moreover have "x_raw d = x_raw c" using Nil moves_forward [of c d] by simp
  ultimately show ?case using Nil by (simp add: arrival_def body_parse_def Let_def)
next
  case (Cons p ps)
  obtain e where e: "moves c e" "next_ctx e = None" using moves_stop [OF Cons.prems(3)] by blast
  then have run: "body_parse c = (stop_outcome e, e)"
    using chunk_run_moves [OF e Cons.prems(3), of "Suc (length (x_raw c))"] Cons.prems(1) by (simp add: body_parse_def Let_def)
  note fw = moves_forward [OF e(1) Cons.prems(3)] and fr = moves_frame [OF e(1)]
  let ?t = "concat (p # ps)"
  have "moves (c\<lparr>x_raw := x_raw c @ ?t\<rparr>) (e\<lparr>x_raw := x_raw c @ ?t\<rparr>)" by (rule moves_more [OF e(1) Cons.prems(3)])
  then have on: "moves (e\<lparr>x_raw := x_raw e @ ?t\<rparr>) d" using moves_linear [OF Cons.prems(4,5)] fw by simp
  have len: "length (x_raw e @ ?t) \<le> x_pos d + kMaxTrailersSize" using Cons.prems(7) fw by simp
  from stopped_part [OF e(2) _ on Cons.prems(5,6) len] fw
  consider "stop_outcome e = Parse_Wait" | "stop_outcome e = Parse_Complete" "d = e\<lparr>x_raw := x_raw e @ ?t\<rparr>" by auto
  then show ?case
  proof cases
    case 1
    let ?e = "e\<lparr>x_raw := x_raw e @ p\<rparr>"
    have "\<exists>f. arrival ?e ps = (Parse_Complete, f) \<and> f\<lparr>x_raw := x_raw ?e @ concat ps\<rparr> = d"
      using Cons.IH [of ?e] Cons.prems(1,2,5,6) on len fr fw by (auto simp: chunk_ok_def)
    then show ?thesis using arrival_Cons [of c e p ps] run 1 fr Cons.prems(2) fw by simp
  next
    case 2
    then show ?thesis using run fw by (simp add: arrival_def)
  qed
qed

text \<open>With a length, the body is complete at the length and not before.\<close>

lemma length_arrival:
  assumes "x_bodyMode c = Body_ContentLength" "x_headerEnd c = Some h" "h + 4 + x_contentLength c = length (x_raw c @ concat ps)"
  shows "arrival c ps = (Parse_Complete, c\<lparr>x_raw := x_raw c @ concat ps\<rparr>)"
  using assms
proof (induction ps arbitrary: c)
  case (Cons p ps)
  show ?case
  proof (cases "concat (p # ps) = []")
    case True
    then show ?thesis using Cons.prems by (simp add: arrival_def body_parse_def Let_def)
  next
    case False
    then have w: "body_parse c = (Parse_Wait, c)" using Cons.prems by (auto simp: body_parse_def Let_def)
    with Cons show ?thesis by (simp add: arrival_Cons)
  qed
qed (simp add: arrival_def body_parse_def)

section \<open>Well-formed responses\<close>

lemma from_chars_hex_string:
  assumes "n < 2 ^ 63"
  shows "from_chars 64 16 (hex_string n) = Some (int n, [])"
proof -
  note h = hex_string_props [of n]
  then have all: "\<forall>c \<in> set (hex_string n). is_xdigit c" by (simp add: list_all_iff)
  have hd: "hd (hex_string n) \<noteq> CHR ''-''" using xdigit_props [of "hd (hex_string n)"] all h(3) by auto
  have digits: "takeWhile is_xdigit (hex_string n) = hex_string n" "dropWhile is_xdigit (hex_string n) = []" using all by simp_all
  show ?thesis using assms hd h(2,3) by (simp add: from_chars_def digits base_digit_16 Let_def)
qed

lemma Trim_plain: "s \<noteq> [] \<Longrightarrow> \<not> is_blank (hd s) \<Longrightarrow> \<not> is_blank (last s) \<Longrightarrow> Trim s = s"
  using strip_blanks_trimmed [of s] by (simp add: Trim_def strip_blanks_def trimmed_def)

lemma chunk_size_hex:
  assumes "n < 2 ^ 63"
  shows "chunk_size (hex_string n) = int n"
proof -
  note h = hex_string_props [of n]
  then have all: "\<forall>c \<in> set (hex_string n). is_xdigit c" by (simp add: list_all_iff)
  have "find_idx (\<lambda>c. c = CHR '';'') (hex_string n) = None" using all xdigit_props by (auto simp: find_idx_None)
  moreover have "Trim (hex_string n) = hex_string n"
    using all h(3) xdigit_props [of "hd (hex_string n)"] xdigit_props [of "last (hex_string n)"] by (intro Trim_plain) auto
  ultimately show ?thesis using from_chars_hex_string [OF assms] by (simp add: chunk_size_def ParseHexLocal_def)
qed

definition chunk_line :: "string \<Rightarrow> string" where
  "chunk_line b = hex_string (length b) @ CRLF @ b @ CRLF"

definition chunks_text :: "string list \<Rightarrow> string" where
  "chunks_text bs = concat (map chunk_line bs) @ ''0'' @ CRLF @ CRLF"

lemma find_from_line:
  assumes "raw = pre @ l @ CRLF @ rest" "CR \<notin> set l"
  shows "find_from CRLF raw (length pre) = Some (length pre + length l)"
  unfolding assms(1) find_from_append using find_sub_line [OF assms(2), of rest] by simp

text \<open>One chunk takes three rounds.\<close>

lemma moves_chunk:
  assumes "x_bodyState c = State_SizeLine" "x_raw c = pre @ chunk_line b @ rest" "x_pos c = length pre" "b \<noteq> []" "length b < 2 ^ 63"
  shows "moves c (c\<lparr>x_pos := length (pre @ chunk_line b), x_chunkStart := length pre + length (hex_string (length b)) + 2, x_chunkRemaining := length b,
    x_result := (x_result c)\<lparr>r_body := r_body (x_result c) @ b\<rparr>\<rparr>)"
proof -
  let ?h = "hex_string (length b)" and ?a = "length pre + length (hex_string (length b)) + 2"
  have "CR \<notin> set ?h" using hex_string_props(1) [of "length b"] xdigit_props by (auto simp: list_all_iff)
  then have f: "find_from CRLF (x_raw c) (length pre) = Some (length pre + length ?h)"
    by (intro find_from_line [of _ _ _ "b @ CRLF @ rest"]) (simp_all add: assms(2) chunk_line_def)
  have l: "take (length ?h) (drop (length pre) (x_raw c)) = ?h" by (simp add: assms(2) chunk_line_def)
  let ?c1 = "c\<lparr>x_pos := ?a, x_chunkStart := ?a, x_chunkRemaining := length b, x_bodyState := State_ChunkData\<rparr>"
  have 1: "next_ctx c = Some ?c1"
    using assms(1,3,4) f l chunk_size_hex [OF assms(5)] by (simp add: next_ctx_def chunk_step_def size_line_def Let_def)
  have d: "take (length b) (drop ?a (x_raw c)) = b" "?a + length b + 2 \<le> length (x_raw c)" "take 2 (drop (?a + length b) (x_raw c)) = CRLF"
    by (simp_all add: assms(2) chunk_line_def)
  let ?c2 = "c\<lparr>x_pos := ?a + length b, x_chunkStart := ?a, x_chunkRemaining := length b, x_bodyState := State_ChunkCrlf,
    x_result := (x_result c)\<lparr>r_body := r_body (x_result c) @ b\<rparr>\<rparr>"
  have 2: "next_ctx ?c1 = Some ?c2" using d(1,2) by (simp add: next_ctx_def chunk_step_def chunk_data_def add_chunk_def after_chunk_def)
  let ?c3 = "c\<lparr>x_pos := ?a + length b + 2, x_chunkStart := ?a, x_chunkRemaining := length b, x_bodyState := State_SizeLine,
    x_result := (x_result c)\<lparr>r_body := r_body (x_result c) @ b\<rparr>\<rparr>"
  have 3: "next_ctx ?c2 = Some ?c3" using d(2,3) by (simp add: next_ctx_def chunk_step_def)
  have "moves c ?c3" using 1 2 3 by (blast intro: converse_rtranclp_into_rtranclp rtranclp.rtrancl_refl)
  moreover have "?c3 = c\<lparr>x_pos := length (pre @ chunk_line b), x_chunkStart := ?a, x_chunkRemaining := length b,
      x_result := (x_result c)\<lparr>r_body := r_body (x_result c) @ b\<rparr>\<rparr>"
    using assms(1) by (cases c) (simp add: chunk_line_def)
  ultimately show ?thesis by simp
qed

lemma moves_chunks:
  "x_bodyState c = State_SizeLine \<Longrightarrow> x_raw c = pre @ concat (map chunk_line bs) @ rest \<Longrightarrow> x_pos c = length pre \<Longrightarrow>
    list_all (\<lambda>b. b \<noteq> [] \<and> length b < 2 ^ 63) bs \<Longrightarrow>
    \<exists>a r. moves c (c\<lparr>x_pos := length (pre @ concat (map chunk_line bs)), x_chunkStart := a, x_chunkRemaining := r,
      x_result := (x_result c)\<lparr>r_body := r_body (x_result c) @ concat bs\<rparr>\<rparr>)"
proof (induction bs arbitrary: c pre)
  case Nil
  have "c = c\<lparr>x_pos := length pre, x_chunkStart := x_chunkStart c, x_chunkRemaining := x_chunkRemaining c,
      x_result := (x_result c)\<lparr>r_body := r_body (x_result c)\<rparr>\<rparr>" using Nil.prems(3) by simp
  then show ?case by (metis append_Nil2 concat.simps(1) list.map_disc_iff list.simps(8) rtranclp.rtrancl_refl)
next
  case (Cons b bs)
  let ?d = "c\<lparr>x_pos := length (pre @ chunk_line b), x_chunkStart := length pre + length (hex_string (length b)) + 2, x_chunkRemaining := length b,
    x_result := (x_result c)\<lparr>r_body := r_body (x_result c) @ b\<rparr>\<rparr>"
  have 1: "moves c ?d" using Cons.prems by (intro moves_chunk [of _ _ _ "concat (map chunk_line bs) @ rest"]) simp_all
  have "\<exists>a r. moves ?d (?d\<lparr>x_pos := length ((pre @ chunk_line b) @ concat (map chunk_line bs)), x_chunkStart := a, x_chunkRemaining := r,
      x_result := (x_result ?d)\<lparr>r_body := r_body (x_result ?d) @ concat bs\<rparr>\<rparr>)"
    using Cons.prems by (intro Cons.IH) simp_all
  then obtain a r where 2: "moves ?d (?d\<lparr>x_pos := length ((pre @ chunk_line b) @ concat (map chunk_line bs)), x_chunkStart := a, x_chunkRemaining := r,
      x_result := (x_result ?d)\<lparr>r_body := r_body (x_result ?d) @ concat bs\<rparr>\<rparr>)" by blast
  from rtranclp_trans [OF 1 2] show ?case by auto
qed

lemma hex_string_0: "hex_string 0 = ''0''"
  by code_simp

text \<open>The whole body: the chunks one after the other, then the last chunk.\<close>

lemma moves_body:
  assumes "x_bodyState c = State_SizeLine" "x_raw c = pre @ chunks_text bs" "x_pos c = length pre" "list_all (\<lambda>b. b \<noteq> [] \<and> length b < 2 ^ 63) bs"
  shows "\<exists>d a r. moves c d \<and> next_ctx d = None \<and> stop_outcome d = Parse_Complete \<and> length (x_raw c) = x_pos d + 2 \<and>
    d = c\<lparr>x_pos := x_pos d, x_chunkStart := a, x_chunkRemaining := r, x_bodyState := State_Trailers,
      x_result := (x_result c)\<lparr>r_body := r_body (x_result c) @ concat bs\<rparr>\<rparr>"
proof -
  let ?m = "pre @ concat (map chunk_line bs)"
  have raw: "x_raw c = ?m @ ''0'' @ CRLF @ CRLF" using assms(2) by (simp add: chunks_text_def)
  obtain a r where 1: "moves c (c\<lparr>x_pos := length ?m, x_chunkStart := a, x_chunkRemaining := r,
      x_result := (x_result c)\<lparr>r_body := r_body (x_result c) @ concat bs\<rparr>\<rparr>)" (is "moves c ?e")
    using moves_chunks [OF assms(1) _ assms(3,4), of "''0'' @ CRLF @ CRLF"] raw by auto
  let ?d = "c\<lparr>x_pos := length ?m + 3, x_chunkStart := a, x_chunkRemaining := r, x_bodyState := State_Trailers,
      x_result := (x_result c)\<lparr>r_body := r_body (x_result c) @ concat bs\<rparr>\<rparr>"
  have f: "find_from CRLF (x_raw c) (length ?m) = Some (length ?m + 1)" using find_from_line [OF raw] by simp
  have l: "take (Suc 0) (drop (length ?m) (x_raw c)) = ''0''" unfolding raw by simp
  have z: "chunk_size ''0'' = 0" using chunk_size_hex [of 0] hex_string_0 by simp
  have "next_ctx ?e = Some ?d" using assms(1) f l z by (simp add: next_ctx_def chunk_step_def size_line_def Let_def)
  with 1 have "moves c ?d" by (rule rtranclp.rtrancl_into_rtrancl)
  moreover have "find_from CRLF (x_raw c) (length ?m + 3) = Some (length ?m + 3)"
    using find_from_line [of "x_raw c" "?m @ ''0'' @ CRLF" "[]" "[]"] raw by (simp add: numeral_3_eq_3)
  then have "chunk_step ?d = Chunk_Complete" by (simp add: chunk_step_def)
  ultimately show ?thesis using raw by (intro exI [of _ ?d] exI [of _ a] exI [of _ r]) (simp add: next_ctx_def stop_outcome_def)
qed

text \<open>A response head: the status line and at least one field, with names that the client keeps in lower case.\<close>

definition proper_status :: "int \<Rightarrow> string \<Rightarrow> bool" where
  "proper_status code txt \<longleftrightarrow> 100 \<le> code \<and> code \<le> 999 \<and> CR \<notin> set txt \<and> LF \<notin> set txt"

definition proper_response_field :: "string \<times> string \<Rightarrow> bool" where
  "proper_response_field kv \<longleftrightarrow> proper_field kv \<and> fst kv \<noteq> [] \<and> trimmed (fst kv)"

definition status_text :: "int \<Rightarrow> string \<Rightarrow> string" where
  "status_text code txt = ''HTTP/1.1 '' @ status_string code @ '' '' @ txt"

definition lower_names :: "(string \<times> string) list \<Rightarrow> (string \<times> string) list" where
  "lower_names hdrs = map (\<lambda>(n, v). (map to_lower n, v)) hdrs"

lemma int_string_nat: "0 \<le> code \<Longrightarrow> status_string code = nat_string (nat code)"
  by (simp add: status_string_def)

lemma nat_string_no_space: "CHR '' '' \<notin> set (nat_string n)" "CR \<notin> set (nat_string n)" "LF \<notin> set (nat_string n)"
  using nat_string_digits [of n] by (auto simp: list_all_iff is_digit_def)

lemma status_line_text:
  assumes "proper_status code txt"
  shows "status_line (status_text code txt) c = (None, c\<lparr>x_version := ''HTTP/1.1'', x_status := code, x_statusText := txt\<rparr>)"
proof -
  have code: "status_string code = nat_string (nat code)" using assms by (intro int_string_nat) (simp add: proper_status_def)
  have sp: "find_idx (\<lambda>x. x = CHR '' '') (nat_string (nat code) @ CHR '' '' # txt) = Some (length (nat_string (nat code)))"
    using nat_string_no_space(1) [of "nat code"] by (intro find_idx_first) auto
  have n: "ParseInt64Local (nat_string (nat code)) = Some code"
  proof -
    have "nat code < 2 ^ (64 - 1)" using assms by (simp add: proper_status_def nat_less_iff)
    from from_chars_nat_string [OF this, of "[]"] assms show ?thesis by (simp add: ParseInt64Local_def proper_status_def)
  qed
  show ?thesis using assms by (simp add: status_line_def status_text_def code sp n Let_def proper_status_def)
qed

lemma Trim_trimmed: "trimmed s \<Longrightarrow> Trim s = s" "is_blank b \<Longrightarrow> Trim (b # s) = Trim s"
  using strip_blanks_trimmed [of s] strip_blanks_blank [of b s] by (simp_all add: Trim_def strip_blanks_def)

lemma response_lines_end: "e \<le> p \<Longrightarrow> response_lines raw e p acc = (True, acc)"
  by (simp add: response_lines.simps)

lemma response_lines_fields:
  assumes "list_all proper_response_field hdrs" "hdrs \<noteq> []"
  shows "raw = pre @ join_crlf (map header_text hdrs) @ CRLF @ rest \<Longrightarrow> e = length (pre @ join_crlf (map header_text hdrs)) \<Longrightarrow>
    response_lines raw e (length pre) acc = (True, acc @ lower_names hdrs)"
  using assms
proof (induction hdrs arbitrary: pre acc)
  case (Cons h hdrs)
  let ?l = "header_text h"
  have h: "proper_field h" "fst h \<noteq> []" "trimmed (fst h)" using Cons.prems by (simp_all add: proper_response_field_def)
  have cr: "CR \<notin> set ?l" using proper_header_line [OF h(1)] by (simp add: proper_line_def)
  obtain more where raw: "raw = pre @ ?l @ CRLF @ more" using Cons.prems(1) by (cases "hdrs = []") (auto simp: join_crlf_Cons)
  have f: "find_from CRLF raw (length pre) = Some (length pre + length ?l)" by (rule find_from_line [OF raw cr])
  have le: "length pre < e" "length pre + length ?l \<le> e" using Cons.prems(2) by (cases "hdrs = []"; simp add: join_crlf_Cons header_text_def)+
  have t: "take (length ?l) (drop (length pre) raw) = ?l" by (simp add: raw)
  have colon: "find_idx (\<lambda>c. c = CHR '':'') ?l = Some (length (fst h))"
    using h(1) find_idx_first [of "fst h" "\<lambda>c. c = CHR '':''" "CHR '':''" "CHR '' '' # snd h"] by (auto simp: header_text_def proper_field_def)
  have v: "Trim (drop (length (fst h) + 1) ?l) = snd h" using h(1) by (simp add: header_text_def Trim_trimmed is_blank_def proper_field_def)
  have n: "Trim (take (length (fst h)) ?l) = fst h" using h by (simp add: header_text_def Trim_trimmed)
  have "response_lines raw e (length pre) acc = response_lines raw e (length pre + length ?l + 2) (acc @ [(map to_lower (fst h), snd h)])"
    unfolding response_lines.simps [of raw e "length pre"] using le f t colon v n h(2) by simp
  also have "\<dots> = (True, acc @ lower_names (h # hdrs))"
  proof (cases "hdrs = []")
    case True
    then show ?thesis using Cons.prems(2) by (simp add: response_lines_end lower_names_def split_beta)
  next
    case False
    have "response_lines raw e (length (pre @ ?l @ CRLF)) (acc @ [(map to_lower (fst h), snd h)]) =
        (True, (acc @ [(map to_lower (fst h), snd h)]) @ lower_names hdrs)"
      using Cons.prems False by (intro Cons.IH) (simp_all add: join_crlf_Cons)
    then show ?thesis by (simp add: lower_names_def split_beta)
  qed
  finally show ?case .
qed simp

definition response_head :: "int \<Rightarrow> string \<Rightarrow> (string \<times> string) list \<Rightarrow> string" where
  "response_head code txt hdrs = join_crlf (status_text code txt # map header_text hdrs) @ CRLF @ CRLF"

definition headed :: "int \<Rightarrow> string \<Rightarrow> (string \<times> string) list \<Rightarrow> string \<Rightarrow> HttpRequestContext \<Rightarrow> HttpRequestContext" where
  "headed code txt hdrs raw c =
     c\<lparr>x_raw := raw, x_headerEnd := Some (length (response_head code txt hdrs) - 4), x_version := ''HTTP/1.1'', x_status := code,
       x_statusText := txt, x_headers := lower_names hdrs\<rparr>"

lemma status_text_line: "proper_status code txt \<Longrightarrow> proper_line (status_text code txt)"
  using nat_string_no_space [of "nat code"] by (auto simp: proper_line_def status_text_def proper_status_def int_string_nat)

lemma response_head_lines:
  "proper_status code txt \<Longrightarrow> list_all proper_response_field hdrs \<Longrightarrow> list_all proper_line (status_text code txt # map header_text hdrs)"
  by (auto simp: status_text_line list_all_iff proper_response_field_def proper_header_line)

lemma response_head_find:
  assumes "proper_status code txt" "list_all proper_response_field hdrs"
  shows "find_sub (CRLF @ CRLF) (response_head code txt hdrs @ rest) = Some (length (response_head code txt hdrs) - 4)"
  using find_blank_line [of "status_text code txt # map header_text hdrs" rest] response_head_lines [OF assms] by (simp add: response_head_def)

lemma ParseHeaders_head:
  assumes "proper_status code txt" "list_all proper_response_field hdrs" "hdrs \<noteq> []" "x_headers c = []"
    "raw = response_head code txt hdrs @ rest" "body_framing (headed code txt hdrs raw c) = (None, g)"
  shows "ParseHeaders (length (response_head code txt hdrs) - 4) (c\<lparr>x_raw := raw, x_headerEnd := Some (length (response_head code txt hdrs) - 4)\<rparr>) = (None, g)"
proof -
  let ?l = "status_text code txt" and ?h = "length (response_head code txt hdrs) - 4"
  let ?c = "c\<lparr>x_raw := raw, x_headerEnd := Some ?h\<rparr>"
  have raw: "raw = (?l @ CRLF) @ join_crlf (map header_text hdrs) @ CRLF @ (CRLF @ rest)"
    using assms(3,5) by (simp add: response_head_def join_crlf_Cons)
  have h: "?h = length ((?l @ CRLF) @ join_crlf (map header_text hdrs))" using assms(3) by (simp add: response_head_def join_crlf_Cons)
  have cr: "CR \<notin> set ?l" using status_text_line [OF assms(1)] by (simp add: proper_line_def)
  have f: "find_sub CRLF raw = Some (length ?l)" using find_sub_line [OF cr, of "join_crlf (map header_text hdrs) @ CRLF @ CRLF @ rest"] raw by simp
  have start: "raw = CHR ''H'' # tl raw" unfolding raw by (simp add: status_text_def)
  have no: "\<not> (raw \<noteq> [] \<and> (hd raw = CHR 0x00 \<or> prefix ''PRI * HTTP/2.0'' raw))" by (subst (2 3) start) simp
  have t: "take (length ?l) raw = ?l" unfolding raw by simp
  have lines: "response_lines raw ?h (length ?l + 2) [] = (True, lower_names hdrs)"
    using response_lines_fields [OF assms(2,3) raw h, of "[]"] by simp
  have "length ?l \<noteq> 0" by (simp add: status_text_def)
  then show ?thesis unfolding ParseHeaders_def Let_def
    using no f t status_line_text [OF assms(1), of ?c] lines assms(4,6) by (simp add: headed_def)
qed

text \<open>The head in pieces: the client waits for the blank line, then goes on with the part of the body that came with it.\<close>

lemma head_feed:
  assumes "proper_status code txt" "list_all proper_response_field hdrs" "hdrs \<noteq> []" "x_headers c = []" "x_headerEnd c = None"
    "H = response_head code txt hdrs" "length H \<le> kMaxHeaderSize"
    "\<And>raw. body_framing (headed code txt hdrs raw c) = (None, g\<lparr>x_raw := raw\<rparr>)"
    "\<And>rest qs. rest @ concat qs = body \<Longrightarrow> \<exists>e. arrival (g\<lparr>x_raw := H @ rest, x_pos := length H\<rparr>) qs = (Parse_Complete, e) \<and> P e"
  shows "r @ concat ps = H @ body \<Longrightarrow> length r < length H \<Longrightarrow> \<exists>e. response_feed (c\<lparr>x_raw := r\<rparr>) ps = (Parse_Complete, e) \<and> P e"
proof (induction ps arbitrary: r)
  case Nil
  then have "length r = length H + length body" by (metis append_Nil2 concat.simps(1) length_append)
  with Nil.prems(2) show ?case by simp
next
  case (Cons p ps)
  have whole: "(r @ p) @ concat ps = H @ body" using Cons.prems(1) by simp
  have four: "4 \<le> length H" by (simp add: assms(6) response_head_def)
  have fH: "find_sub (CRLF @ CRLF) (H @ t) = Some (length H - 4)" for t using response_head_find [OF assms(1,2)] assms(6) by simp
  show ?case
  proof (cases "length (r @ p) < length H")
    case True
    have "find_sub (CRLF @ CRLF) (r @ p) = None"
      using find_sub_less [of "CRLF @ CRLF" "r @ p" "concat ps" "length H - 4"] fH [of body] whole four True by simp
    then have "response_parse (c\<lparr>x_raw := r @ p\<rparr>) = (Parse_Wait, c\<lparr>x_raw := r @ p\<rparr>)"
      using True assms(5,7) by (simp add: response_parse_def)
    with Cons.IH [OF whole True] show ?thesis by simp
  next
    case False
    define rest where "rest = drop (length H) (r @ p)"
    have "take (length H) ((r @ p) @ concat ps) = H" unfolding whole by simp
    then have "take (length H) (r @ p) = H" using False by (simp del: append_assoc)
    then have rest: "r @ p = H @ rest" unfolding rest_def by (metis append_take_drop_id)
    then have body: "rest @ concat ps = body" using whole by simp
    have "ParseHeaders (length H - 4) (c\<lparr>x_raw := r @ p, x_headerEnd := Some (length H - 4)\<rparr>) = (None, g\<lparr>x_raw := r @ p\<rparr>)"
      using ParseHeaders_head [OF assms(1-4) _ assms(8), of "r @ p" rest] rest assms(6) by simp
    then have "response_parse (c\<lparr>x_raw := r @ p\<rparr>) = body_parse (g\<lparr>x_raw := H @ rest, x_pos := length H\<rparr>)"
      using assms(5) fH [of rest] rest four by (simp add: response_parse_def)
    then have "response_feed (c\<lparr>x_raw := r\<rparr>) (p # ps) = arrival (g\<lparr>x_raw := H @ rest, x_pos := length H\<rparr>) ps"
      by (auto simp: arrival_def split: prod.split parse_outcome.split)
    with assms(9) [OF body] show ?thesis by simp
  qed
qed

definition body_of :: "HttpRequestContext \<Rightarrow> string" where
  "body_of c = (if x_bodyMode c \<noteq> Body_Chunked then drop (the (x_headerEnd c) + 4) (x_raw c) else r_body (x_result c))"

definition response_of :: "HttpRequestContext \<Rightarrow> int \<times> string \<times> (string \<times> string) list \<times> string" where
  "response_of c = (x_status c, x_statusText c, x_headers c, body_of c)"

lemma split_commas_plain: "CHR '','' \<notin> set v \<Longrightarrow> split_commas v = [v]"
  by (induction v) auto

lemma agree_one_length:
  assumes "n < 2 ^ 63"
  shows "agree_lengths None (split_commas (nat_string n)) = Inr (Some (int n))"
proof -
  have d: "list_all is_digit (nat_string n)" by (rule nat_string_digits)
  then have "CHR '','' \<notin> set (nat_string n)" by (auto simp: list_all_iff is_digit_def)
  moreover have "Trim (nat_string n) = nat_string n"
  proof -
    have "nat_string n \<noteq> []" by (rule nat_string_nonempty)
    moreover from this have "is_digit (hd (nat_string n))" "is_digit (last (nat_string n))" using d by (simp_all add: list_all_iff)
    moreover have "\<not> is_blank x" if "is_digit x" for x using that by (auto simp: is_blank_def is_digit_def)
    ultimately show ?thesis by (intro Trim_plain) simp_all
  qed
  ultimately show ?thesis using from_chars_nat_string [of n 64 "[]"] assms by (simp add: split_commas_plain ParseInt64Local_def)
qed

text \<open>A body of known length.\<close>

lemma sized_response:
  assumes "proper_status code txt" "list_all proper_response_field hdrs" "length (response_head code txt hdrs) \<le> kMaxHeaderSize" "length body < 2 ^ 63"
    "filter (\<lambda>h. fst h = ''content-length'') (lower_names hdrs) = [(''content-length'', nat_string (length body))]"
    "filter (\<lambda>h. fst h = ''transfer-encoding'') (lower_names hdrs) = []" "concat ps = response_head code txt hdrs @ body"
  shows "\<exists>e. response_feed HttpRequestContext_new ps = (Parse_Complete, e) \<and> response_of e = (code, txt, lower_names hdrs, body)"
proof -
  let ?c = HttpRequestContext_new and ?H = "response_head code txt hdrs"
  let ?g = "(headed code txt hdrs [] ?c)\<lparr>x_contentLength := length body, x_bodyMode := Body_ContentLength\<rparr>"
  have four: "4 \<le> length ?H" by (simp add: response_head_def)
  have framing: "body_framing (headed code txt hdrs raw ?c) = (None, ?g\<lparr>x_raw := raw\<rparr>)" for raw
    using assms(4-6) agree_one_length [OF assms(4)] by (simp add: body_framing_def headed_def Let_def)
  have arrives: "\<exists>e. arrival (?g\<lparr>x_raw := ?H @ rest, x_pos := length ?H\<rparr>) qs = (Parse_Complete, e) \<and> response_of e = (code, txt, lower_names hdrs, body)"
    if "rest @ concat qs = body" for rest qs
  proof -
    let ?a = "?g\<lparr>x_raw := ?H @ rest, x_pos := length ?H\<rparr>"
    have "length body = length rest + length (concat qs)" using that by (metis length_append)
    then have "arrival ?a qs = (Parse_Complete, ?a\<lparr>x_raw := x_raw ?a @ concat qs\<rparr>)"
      using four by (intro length_arrival [of _ "length ?H - 4"]) (simp_all add: headed_def)
    moreover have "response_of (?a\<lparr>x_raw := x_raw ?a @ concat qs\<rparr>) = (code, txt, lower_names hdrs, body)"
      using that four by (simp add: response_of_def body_of_def headed_def)
    ultimately show ?thesis by blast
  qed
  have ne: "hdrs \<noteq> []" using assms(5) by (auto simp: lower_names_def)
  have new: "x_headers ?c = []" "x_headerEnd ?c = None" "?c\<lparr>x_raw := []\<rparr> = ?c" by (simp_all add: HttpRequestContext_new_def)
  have "length ([] :: string) < length ?H" by (simp add: response_head_def)
  from head_feed [OF assms(1,2) ne new(1,2) refl assms(3) framing arrives _ this, where ps = ps] assms(7) show ?thesis by (simp add: new(3))
qed

text \<open>A chunked body.\<close>

lemma chunked_response:
  assumes "proper_status code txt" "list_all proper_response_field hdrs" "length (response_head code txt hdrs) \<le> kMaxHeaderSize"
    "filter (\<lambda>h. fst h = ''content-length'') (lower_names hdrs) = []"
    "filter (\<lambda>h. fst h = ''transfer-encoding'') (lower_names hdrs) = [(''transfer-encoding'', ''chunked'')]"
    "list_all (\<lambda>b. b \<noteq> [] \<and> length b < 2 ^ 63) bs" "concat ps = response_head code txt hdrs @ chunks_text bs"
  shows "\<exists>e. response_feed HttpRequestContext_new ps = (Parse_Complete, e) \<and> response_of e = (code, txt, lower_names hdrs, concat bs)"
proof -
  let ?c = HttpRequestContext_new and ?H = "response_head code txt hdrs"
  let ?g = "(headed code txt hdrs [] ?c)\<lparr>x_bodyMode := Body_Chunked, x_bodyState := State_SizeLine\<rparr>"
  have coding: "final_coding (join_codings [map to_lower ''chunked'']) = ''chunked''" by code_simp
  have framing: "body_framing (headed code txt hdrs raw ?c) = (None, ?g\<lparr>x_raw := raw\<rparr>)" for raw
    using assms(4,5) coding by (simp add: body_framing_def headed_def Let_def)
  have arrives: "\<exists>e. arrival (?g\<lparr>x_raw := ?H @ rest, x_pos := length ?H\<rparr>) qs = (Parse_Complete, e) \<and> response_of e = (code, txt, lower_names hdrs, concat bs)"
    if body: "rest @ concat qs = chunks_text bs" for rest qs
  proof -
    let ?a = "?g\<lparr>x_raw := ?H @ rest, x_pos := length ?H\<rparr>" and ?b = "?g\<lparr>x_raw := ?H @ chunks_text bs, x_pos := length ?H\<rparr>"
    obtain d p r where d: "moves ?b d" "next_ctx d = None" "stop_outcome d = Parse_Complete" "length (x_raw ?b) = x_pos d + 2"
      "d = ?b\<lparr>x_pos := x_pos d, x_chunkStart := p, x_chunkRemaining := r, x_bodyState := State_Trailers,
        x_result := (x_result ?b)\<lparr>r_body := r_body (x_result ?b) @ concat bs\<rparr>\<rparr>"
      using moves_body [of ?b ?H bs] assms(6) by auto
    have ab: "?a\<lparr>x_raw := x_raw ?a @ concat qs\<rparr> = ?b" using body by simp
    have "\<exists>e. arrival ?a qs = (Parse_Complete, e) \<and> e\<lparr>x_raw := x_raw ?a @ concat qs\<rparr> = d"
      using d(1-4) body unfolding ab [symmetric]
      by (intro chunk_arrival) (simp_all add: headed_def chunk_ok_def kMaxTrailersSize_def)
    then obtain e where e: "arrival ?a qs = (Parse_Complete, e)" "e\<lparr>x_raw := x_raw ?a @ concat qs\<rparr> = d" by blast
    have keep: "x_status e = x_status d \<and> x_statusText e = x_statusText d \<and> x_headers e = x_headers d \<and> x_bodyMode e = x_bodyMode d \<and> x_result e = x_result d"
      unfolding e(2) [symmetric] by simp
    have "x_status d = code" "x_statusText d = txt" "x_headers d = lower_names hdrs" "x_bodyMode d = Body_Chunked" "r_body (x_result d) = concat bs"
      by (subst d(5), simp add: headed_def HttpRequestContext_new_def HttpResponseData_new_def)+
    with keep e(1) show ?thesis by (simp add: response_of_def body_of_def)
  qed
  have ne: "hdrs \<noteq> []" using assms(5) by (auto simp: lower_names_def)
  have new: "x_headers ?c = []" "x_headerEnd ?c = None" "?c\<lparr>x_raw := []\<rparr> = ?c" by (simp_all add: HttpRequestContext_new_def)
  have "length ([] :: string) < length ?H" by (simp add: response_head_def)
  from head_feed [OF assms(1,2) ne new(1,2) refl assms(3) framing arrives _ this, where ps = ps] assms(7) show ?thesis by (simp add: new(3))
qed

end
