(* ===== verification/Lode_HttpClient.thy ===== *)
theory Lode_HttpClient
  imports Lode_HttpMessage
begin

text \<open>
  The http client on libuv, \<open>HttpClient.cpp\<close> in a build without TLS, with \<open>HttpClient.Create\<close> and \<open>fetch\<close> of
  \<open>Main.cpp\<close>. The record of a client holds its request contexts by number; \<open>cl_active\<close> and \<open>cl_idle\<close> are the lists
  of the code. Calls of libuv, resumed coroutines and signals are a trace; libuv's answers and the Luau code that runs
  inside a resumption, a signal or \<open>onData\<close> are parameters (\<open>client_env\<close>).
\<close>

section \<open>State\<close>

datatype client_effect =
    HcTimerInit nat
  | HcTimerStart nat nat
  | HcTimerStop nat
  | HcGetAddrInfo nat string int
  | HcTcpInit nat
  | HcConnect nat
  | HcUvWrite nat string
  | HcReadStart nat
  | HcReadStop nat
  | HcCloseTcp nat
  | HcCloseTimer nat
  | HcClosedCb nat
  | HcResume nat lvalue
  | HcResumeError nat string
  | HcFireResponse nat lvalue
  | HcFireError nat string
  | HcOnData nat string
  | HcRemoveClient

record HttpClient =
  cl_closed :: bool
  cl_active :: "nat list"
  cl_idle :: "nat list"
  cl_maxIdleConnections :: nat
  cl_maxConnectionUses :: nat
  cl_idleTimeoutMs :: nat
  cl_shuttingDown :: bool
  cl_ctxs :: "HttpRequestContext list"
  cl_tickets :: nat
  cl_trace :: "client_effect list"

record http_client_env =
  cl_code :: "client_effect \<Rightarrow> HttpClient \<Rightarrow> HttpClient"
  cl_getaddrinfo :: "nat \<Rightarrow> HttpClient \<Rightarrow> int"
  cl_strerror :: "int \<Rightarrow> string"
  cl_eof :: int
  cl_etimedout :: int
  cl_is_function :: "lvalue \<Rightarrow> bool"

datatype http_client_result = CReturned lvalue | CRaised string | CYielded | CUndefined

definition HttpClient_new :: HttpClient where
  "HttpClient_new = \<lparr>cl_closed = False, cl_active = [], cl_idle = [], cl_maxIdleConnections = 4, cl_maxConnectionUses = 100,
     cl_idleTimeoutMs = 30000, cl_shuttingDown = False, cl_ctxs = [], cl_tickets = 0, cl_trace = []\<rparr>"

definition read_size :: "(string \<times> lvalue) list \<Rightarrow> string \<Rightarrow> nat \<Rightarrow> nat \<Rightarrow> string + nat" where
  "read_size options key maximum current =
     (case table_get options key of
        LNil \<Rightarrow> Inr current
      | LNumber d \<Rightarrow>
          (case ToSize d key of
             Inr n \<Rightarrow> if maximum < n then Inl (''HttpClient.Create option '' @ [CHR 0x27] @ key @ [CHR 0x27] @ '' is out of range'') else Inr n
           | Inl _ \<Rightarrow> Inl (''HttpClient.Create option '' @ [CHR 0x27] @ key @ [CHR 0x27] @ '' is out of range''))
      | _ \<Rightarrow> Inl (''HttpClient.Create option '' @ [CHR 0x27] @ key @ [CHR 0x27] @ '' must be a number''))"

definition HttpClient_Create :: "bool \<Rightarrow> lvalue list \<Rightarrow> string + HttpClient" where
  "HttpClient_Create shutting args =
     (if shutting then Inl ''http: runtime is shutting down''
      else case (if 1 < length args then arg args 1 else arg args 0) of
        LNil \<Rightarrow> Inr HttpClient_new
      | LTable options \<Rightarrow>
          (case read_size options ''maxIdleConnections'' 64 4 of Inl e \<Rightarrow> Inl e | Inr idle \<Rightarrow>
           case read_size options ''maxConnectionUses'' 1000000 100 of Inl e \<Rightarrow> Inl e | Inr uses \<Rightarrow>
           case read_size options ''idleTimeout'' 3600000 30000 of Inl e \<Rightarrow> Inl e | Inr ms \<Rightarrow>
             Inr (HttpClient_new\<lparr>cl_maxIdleConnections := idle, cl_maxConnectionUses := (if uses = 0 then 1 else uses), cl_idleTimeoutMs := ms\<rparr>))
      | _ \<Rightarrow> Inl ''HttpClient.Create options must be a table'')"

definition hc :: "client_effect \<Rightarrow> HttpClient \<Rightarrow> HttpClient" where
  "hc e s = s\<lparr>cl_trace := cl_trace s @ [e]\<rparr>"

definition hc_call_out :: "http_client_env \<Rightarrow> client_effect \<Rightarrow> HttpClient \<Rightarrow> HttpClient" where
  "hc_call_out env e s = cl_code env e (hc e s)"

definition ctx_update :: "nat \<Rightarrow> (HttpRequestContext \<Rightarrow> HttpRequestContext) \<Rightarrow> HttpClient \<Rightarrow> HttpClient" where
  "ctx_update i f s = s\<lparr>cl_ctxs := (cl_ctxs s)[i := f (cl_ctxs s ! i)]\<rparr>"

abbreviation ctx :: "nat \<Rightarrow> HttpClient \<Rightarrow> HttpRequestContext" where
  "ctx i s \<equiv> cl_ctxs s ! i"

section \<open>Results\<close>

text \<open>The table of a response; its \<open>body\<close> is an object around the raw body, given here by that.\<close>

definition response_headers_table :: "(string \<times> string) list \<Rightarrow> (string \<times> lvalue) list" where
  "response_headers_table hdrs = fold (\<lambda>(n, v) t. (n, LString v) # filter (\<lambda>e. fst e \<noteq> n) t) hdrs []"

definition BuildResponseTable :: "HttpResponseData \<Rightarrow> lvalue" where
  "BuildResponseTable res =
     LTable [(''status'', LNumber (Finite (of_int (r_status res)))), (''statusText'', LString (r_statusText res)),
       (''version'', LString (r_version res)), (''url'', LString (r_finalUrl res)),
       (''headers'', LTable (response_headers_table (r_headers res))), (''body'', LString (r_body res))]"

definition Client_FireError :: "http_client_env \<Rightarrow> nat \<Rightarrow> string \<Rightarrow> HttpClient \<Rightarrow> HttpClient" where
  "Client_FireError env t message s = (if cl_closed s then s else hc_call_out env (HcFireError t message) s)"

definition FireResponse :: "http_client_env \<Rightarrow> nat \<Rightarrow> HttpResponseData \<Rightarrow> HttpClient \<Rightarrow> HttpClient" where
  "FireResponse env t res s = (if cl_closed s then s else hc_call_out env (HcFireResponse t (BuildResponseTable res)) s)"

definition DeliverResult :: "http_client_env \<Rightarrow> nat \<Rightarrow> HttpClient \<Rightarrow> HttpClient" where
  "DeliverResult env i s =
     (let c = ctx i s; res = x_result c; t = x_ticket c; message = r_errorKind res @ '': '' @ r_errorMessage res;
          s1 = (if x_taskCtx c
                then let s0 = ctx_update i (\<lambda>c. c\<lparr>x_taskCtx := False\<rparr>) s
                     in if r_errorKind res \<noteq> [] then hc_call_out env (HcResumeError t message) s0
                        else hc_call_out env (HcResume t (BuildResponseTable res)) s0
                else if x_isAsync c
                then if r_errorKind res \<noteq> [] then Client_FireError env t message s else FireResponse env t res s
                else s)
      in ctx_update i (\<lambda>c. c\<lparr>x_isAsync := False\<rparr>) s1)"

section \<open>Closing\<close>

definition RemoveRequest :: "nat \<Rightarrow> HttpClient \<Rightarrow> HttpClient" where
  "RemoveRequest i s = s\<lparr>cl_active := remove1 i (cl_active s)\<rparr>"

definition RemoveIdleRequest :: "nat \<Rightarrow> HttpClient \<Rightarrow> HttpClient" where
  "RemoveIdleRequest i s = s\<lparr>cl_idle := remove1 i (cl_idle s)\<rparr>"

definition OnAllClosed :: "http_client_env \<Rightarrow> nat \<Rightarrow> HttpClient \<Rightarrow> HttpClient" where
  "OnAllClosed env i s =
     ctx_update i (\<lambda>c. c\<lparr>x_selfGuard := False\<rparr>) (DeliverResult env i (RemoveIdleRequest i (RemoveRequest i s)))"

definition CheckAllClosed :: "http_client_env \<Rightarrow> nat \<Rightarrow> HttpClient \<Rightarrow> HttpClient" where
  "CheckAllClosed env i s =
     (if \<not> x_closed (ctx i s) \<or> x_closeCount (ctx i s) \<noteq> 0 \<or> \<not> x_dnsDone (ctx i s) then s else OnAllClosed env i s)"

definition ctx_close_tcp :: "nat \<Rightarrow> HttpClient \<Rightarrow> HttpClient" where
  "ctx_close_tcp i s =
     (if x_tcpInited (ctx i s) \<and> \<not> x_tcpClosed (ctx i s)
      then ctx_update i (\<lambda>c. c\<lparr>x_closeCount := x_closeCount c + 1\<rparr>) (hc (HcCloseTcp i) (ctx_update i (\<lambda>c. c\<lparr>x_tcpClosed := True\<rparr>) s))
      else s)"

definition ctx_close_timer :: "nat \<Rightarrow> HttpClient \<Rightarrow> HttpClient" where
  "ctx_close_timer i s =
     (if x_timerInited (ctx i s) \<and> \<not> x_timerClosed (ctx i s)
      then ctx_update i (\<lambda>c. c\<lparr>x_closeCount := x_closeCount c + 1\<rparr>)
             (hc (HcCloseTimer i) (hc (HcTimerStop i) (ctx_update i (\<lambda>c. c\<lparr>x_timerClosed := True\<rparr>) s)))
      else s)"

definition ctx_stop_reading :: "nat \<Rightarrow> HttpClient \<Rightarrow> HttpClient" where
  "ctx_stop_reading i s = (if x_reading (ctx i s) then ctx_update i (\<lambda>c. c\<lparr>x_reading := False\<rparr>) (hc (HcReadStop i) s) else s)"

definition Ctx_CloseHandles :: "http_client_env \<Rightarrow> nat \<Rightarrow> HttpClient \<Rightarrow> HttpClient" where
  "Ctx_CloseHandles env i s =
     (if x_closed (ctx i s) then s
      else CheckAllClosed env i (ctx_close_timer i (ctx_close_tcp i (ctx_stop_reading i (ctx_update i (\<lambda>c. c\<lparr>x_closed := True\<rparr>) s)))))"

definition Ctx_OnHandleClosed :: "http_client_env \<Rightarrow> nat \<Rightarrow> HttpClient \<Rightarrow> HttpClient" where
  "Ctx_OnHandleClosed env i s =
     CheckAllClosed env i (ctx_update i (\<lambda>c. c\<lparr>x_closeCount := x_closeCount c - 1\<rparr>) (hc (HcClosedCb i) s))"

definition FinishError :: "http_client_env \<Rightarrow> nat \<Rightarrow> string \<Rightarrow> string \<Rightarrow> HttpClient \<Rightarrow> HttpClient" where
  "FinishError env i kind detail s =
     (if x_requestComplete (ctx i s) then s
      else Ctx_CloseHandles env i
             (ctx_update i (\<lambda>c. c\<lparr>x_requestComplete := True, x_result := (x_result c)\<lparr>r_errorKind := kind, r_errorMessage := detail\<rparr>\<rparr>) s))"

section \<open>Connections that are kept\<close>

definition CanReuseConnection :: "nat \<Rightarrow> HttpClient \<Rightarrow> bool" where
  "CanReuseConnection i s \<longleftrightarrow>
     (let c = ctx i s
      in \<not> cl_closed s \<and> cl_maxIdleConnections s \<noteq> 0 \<and> o_keepAlive (x_opts c) \<and> x_tcpInited c \<and> \<not> x_tcpClosed c \<and>
         (x_bodyMode c = Body_ContentLength \<or> x_bodyMode c = Body_Chunked) \<and>
         map to_lower (HeaderValue ''connection'' (x_headers c)) \<noteq> ''close'' \<and> x_reuseCount c + 1 < cl_maxConnectionUses s)"

text \<open>Room for one more: the oldest connections are closed, at most as many as there are.\<close>

fun AddIdleRequest :: "http_client_env \<Rightarrow> nat \<Rightarrow> nat \<Rightarrow> HttpClient \<Rightarrow> HttpClient" where
  "AddIdleRequest env 0 i s = s\<lparr>cl_idle := cl_idle s @ [i]\<rparr>"
| "AddIdleRequest env (Suc n) i s =
     (case cl_idle s of
        oldest # others \<Rightarrow>
          if cl_maxIdleConnections s \<le> length (cl_idle s)
          then AddIdleRequest env n i (Ctx_CloseHandles env oldest (ctx_update oldest (\<lambda>c. c\<lparr>x_idle := False\<rparr>) (s\<lparr>cl_idle := others\<rparr>)))
          else s\<lparr>cl_idle := cl_idle s @ [i]\<rparr>
      | [] \<Rightarrow> s\<lparr>cl_idle := cl_idle s @ [i]\<rparr>)"

definition success_result :: "HttpRequestContext \<Rightarrow> HttpResponseData" where
  "success_result c =
     (x_result c)\<lparr>r_status := x_status c, r_statusText := x_statusText c, r_version := x_version c, r_headers := x_headers c,
       r_body := (if x_bodyMode c \<noteq> Body_Chunked then drop (the (x_headerEnd c) + 4) (x_raw c) else r_body (x_result c)),
       r_finalUrl := u_scheme (x_url c) @ ''://'' @ u_authority (x_url c) @ u_path (x_url c)\<rparr>"

definition keep_connection :: "http_client_env \<Rightarrow> nat \<Rightarrow> HttpClient \<Rightarrow> HttpClient" where
  "keep_connection env i s =
     (let s1 = ctx_stop_reading i s;
          s2 = (if x_timerInited (ctx i s1) \<and> \<not> x_timerClosed (ctx i s1)
                then hc (HcTimerStart i (cl_idleTimeoutMs s1)) (hc (HcTimerStop i) s1) else s1);
          s3 = RemoveRequest i (ctx_update i (\<lambda>c. c\<lparr>x_idle := True, x_reuseCount := x_reuseCount c + 1\<rparr>) s2)
      in DeliverResult env i (AddIdleRequest env (length (cl_idle s3)) i s3))"

definition FinishSuccess :: "http_client_env \<Rightarrow> nat \<Rightarrow> HttpClient \<Rightarrow> HttpClient" where
  "FinishSuccess env i s =
     (if x_requestComplete (ctx i s) then s
      else
        let s1 = ctx_update i (\<lambda>c. c\<lparr>x_requestComplete := True, x_result := success_result c\<rparr>) s
        in if CanReuseConnection i s1 then keep_connection env i s1 else Ctx_CloseHandles env i (DeliverResult env i s1))"

definition AcquireRequest :: "string \<Rightarrow> HttpClient \<Rightarrow> nat \<times> HttpClient" where
  "AcquireRequest targetUrl s =
     (let target = ParseUrl targetUrl;
          found = (if u_valid target then find (\<lambda>i. IsSameOrigin (x_url (ctx i s)) target) (cl_idle s) else None)
      in case found of
           Some i \<Rightarrow> (i, ctx_update i PrepareForReuse (RemoveIdleRequest i s))
         | None \<Rightarrow> (length (cl_ctxs s), s\<lparr>cl_ctxs := cl_ctxs s @ [HttpRequestContext_new\<lparr>x_selfGuard := True\<rparr>]\<rparr>))"

section \<open>Requests\<close>

text \<open>The result of \<open>uv_write\<close> is not looked at.\<close>

definition Ctx_OnConnected :: "http_client_env \<Rightarrow> nat \<Rightarrow> int \<Rightarrow> HttpClient \<Rightarrow> HttpClient" where
  "Ctx_OnConnected env i status s =
     (if x_requestComplete (ctx i s) then s
      else if status \<noteq> 0
      then FinishError env i (if status = cl_etimedout env then ''timeout'' else ''connection-refused'') (''connect '' @ cl_strerror env status) s
      else hc (HcUvWrite i (x_requestText (ctx i s))) s)"

definition start_timer :: "nat \<Rightarrow> HttpClient \<Rightarrow> HttpClient" where
  "start_timer i s =
     (let s1 = (if x_timerInited (ctx i s) \<and> \<not> x_timerClosed (ctx i s) then hc (HcTimerStop i) s
                else hc (HcTimerInit i) (ctx_update i (\<lambda>c. c\<lparr>x_timerInited := True\<rparr>) s))
      in if 0 < o_timeoutMs (x_opts (ctx i s1)) then hc (HcTimerStart i (o_timeoutMs (x_opts (ctx i s1)))) s1 else s1)"

definition build_request :: "nat \<Rightarrow> HttpClient \<Rightarrow> HttpClient" where
  "build_request i s = ctx_update i (\<lambda>c. c\<lparr>x_requestText := BuildRequestText (x_url c) (x_opts c)\<rparr>) s"

text \<open>\<open>Begin\<close>, with its error text, empty for success.\<close>

definition Begin :: "http_client_env \<Rightarrow> nat \<Rightarrow> string \<Rightarrow> HttpClient \<Rightarrow> string \<times> HttpClient" where
  "Begin env i targetUrl s =
     (let s1 = ctx_update i (\<lambda>c. c\<lparr>x_url := ParseUrl targetUrl\<rparr>) s; url = ParseUrl targetUrl; dns_done = ctx_update i (\<lambda>c. c\<lparr>x_dnsDone := True\<rparr>)
      in if \<not> u_valid url then (''invalid-url: '' @ u_error url, dns_done s1)
         else if u_scheme url = ''https'' then (''tls: HTTPS is not supported on this platform'', dns_done s1)
         else
           let s2 = start_timer i s1
           in if x_connectionReady (ctx i s2) then ([], Ctx_OnConnected env i 0 (build_request i s2))
              else
                let r = cl_getaddrinfo env i s2
                in if r \<noteq> 0 then (''dns: '' @ cl_strerror env r, dns_done s2) else ([], hc (HcGetAddrInfo i (u_host url) (u_port url)) s2))"

text \<open>\<open>OnResolved\<close>; the results of \<open>uv_tcp_init\<close> and \<open>uv_tcp_connect\<close> are not looked at.\<close>

definition Ctx_OnResolved :: "http_client_env \<Rightarrow> nat \<Rightarrow> int \<Rightarrow> HttpClient \<Rightarrow> HttpClient" where
  "Ctx_OnResolved env i status s =
     (let s1 = ctx_update i (\<lambda>c. c\<lparr>x_dnsDone := True\<rparr>) s
      in if x_requestComplete (ctx i s1) then CheckAllClosed env i s1
         else if status \<noteq> 0 then FinishError env i ''dns'' (cl_strerror env status) s1
         else hc (HcConnect i) (hc (HcTcpInit i) (ctx_update i (\<lambda>c. c\<lparr>x_tcpInited := True\<rparr>) (build_request i s1))))"

definition Ctx_OnWritten :: "http_client_env \<Rightarrow> nat \<Rightarrow> int \<Rightarrow> HttpClient \<Rightarrow> HttpClient" where
  "Ctx_OnWritten env i status s =
     (if x_requestComplete (ctx i s) then s
      else if status \<noteq> 0 then FinishError env i ''connection-refused'' (''write '' @ cl_strerror env status) s
      else hc (HcReadStart i) (ctx_update i (\<lambda>c. c\<lparr>x_reading := True\<rparr>) s))"

definition Ctx_OnTimeout :: "http_client_env \<Rightarrow> nat \<Rightarrow> HttpClient \<Rightarrow> HttpClient" where
  "Ctx_OnTimeout env i s =
     (if x_idle (ctx i s) then Ctx_CloseHandles env i (RemoveIdleRequest i (ctx_update i (\<lambda>c. c\<lparr>x_idle := False\<rparr>) s))
      else if x_requestComplete (ctx i s) then s
      else FinishError env i ''timeout'' ''request timed out'' s)"

text \<open>The options of the next hop of a redirect.\<close>

definition redirect_options :: "int \<Rightarrow> bool \<Rightarrow> HttpRequestOptions \<Rightarrow> HttpRequestOptions" where
  "redirect_options status same opts =
     (let o1 = (if same then opts else RemoveSensitiveRedirectHeaders opts)
      in if status = 303 \<or> (status = 301 \<or> status = 302) \<and> o_method o1 = ''POST''
         then o1\<lparr>o_method := ''GET'', o_body := [], o_chunkedUpload := False\<rparr> else o1)"

definition follow_redirect :: "http_client_env \<Rightarrow> nat \<Rightarrow> string \<Rightarrow> HttpClient \<Rightarrow> HttpClient" where
  "follow_redirect env i next s =
     (let s1 = ctx_update i (\<lambda>c. c\<lparr>x_redirectsDone := x_redirectsDone c + 1, x_taskCtx := False, x_isAsync := False\<rparr>) s;
          c = ctx i s; j = length (cl_ctxs s1);
          n = HttpRequestContext_new\<lparr>x_opts := redirect_options (x_status c) (IsSameOrigin (x_url c) (ParseUrl next)) (x_opts c),
                x_redirectsDone := x_redirectsDone c + 1, x_taskCtx := x_taskCtx c, x_isAsync := x_isAsync c, x_selfGuard := True, x_ticket := x_ticket c\<rparr>;
          s2 = Ctx_CloseHandles env i (s1\<lparr>cl_ctxs := cl_ctxs s1 @ [n], cl_active := cl_active s1 @ [j]\<rparr>);
          (err, s3) = Begin env j next s2
      in if err = [] then s3 else FinishError env j ''redirect'' err s3)"

definition CompleteResponse :: "http_client_env \<Rightarrow> nat \<Rightarrow> HttpClient \<Rightarrow> HttpClient" where
  "CompleteResponse env i s =
     (let c = ctx i s; isRedirect = (300 \<le> x_status c \<and> x_status c < 400); location = (if isRedirect then HeaderValue ''location'' (x_headers c) else []);
          next = ResolveRedirect (u_scheme (x_url c) @ ''://'' @ u_authority (x_url c) @ u_path (x_url c)) location
      in if x_requestComplete c then s
         else if isRedirect \<and> location \<noteq> [] \<and> o_followRedirects (x_opts c) \<and> x_redirectsDone c < o_maxRedirects (x_opts c) \<and> next \<noteq> []
         then if \<not> u_valid (ParseUrl next) then FinishError env i ''redirect'' (''invalid redirect URL: '' @ u_error (ParseUrl next)) s
              else if u_scheme (x_url c) = ''https'' \<and> u_scheme (ParseUrl next) = ''http''
              then FinishError env i ''redirect'' ''refusing HTTPS to HTTP downgrade'' s
              else follow_redirect env i next s
         else FinishSuccess env i s)"

definition call_onData :: "http_client_env \<Rightarrow> nat \<Rightarrow> string \<Rightarrow> HttpClient \<Rightarrow> HttpClient" where
  "call_onData env i data s = (if cl_is_function env (o_onData (x_opts (ctx i s))) then hc_call_out env (HcOnData i data) s else s)"

text \<open>The loop over the chunks. Each round that goes on moves the position forward, so a round for each byte and one
  more are enough.\<close>

fun chunk_rounds :: "http_client_env \<Rightarrow> nat \<Rightarrow> nat \<Rightarrow> HttpClient \<Rightarrow> HttpClient" where
  "chunk_rounds env i 0 s = s"
| "chunk_rounds env i (Suc n) s =
     (if x_requestComplete (ctx i s) then s
      else case chunk_step (ctx i s) of
             Chunk_Wait \<Rightarrow> s
           | Chunk_Fail m \<Rightarrow> FinishError env i ''malformed-response'' m s
           | Chunk_Next c \<Rightarrow> chunk_rounds env i n (ctx_update i (\<lambda>_. c) s)
           | Chunk_Data d c \<Rightarrow> chunk_rounds env i n (ctx_update i after_chunk (call_onData env i d (ctx_update i (\<lambda>_. c) s)))
           | Chunk_Complete \<Rightarrow> CompleteResponse env i s)"

definition parse_response_body :: "http_client_env \<Rightarrow> nat \<Rightarrow> HttpClient \<Rightarrow> HttpClient" where
  "parse_response_body env i s =
     (let c = ctx i s; bodyEnd = the (x_headerEnd c) + 4 + x_contentLength c
      in case x_bodyMode c of
           Body_Chunked \<Rightarrow> chunk_rounds env i (Suc (length (x_raw c))) s
         | Body_ContentLength \<Rightarrow>
             if bodyEnd \<le> length (x_raw c)
             then let s1 = ctx_update i (\<lambda>c. c\<lparr>x_raw := take bodyEnd (x_raw c)\<rparr>) s
                  in CompleteResponse env i (call_onData env i (drop (the (x_headerEnd c) + 4) (x_raw (ctx i s1))) s1)
             else s
         | Body_None \<Rightarrow> s)"

definition TryParse :: "http_client_env \<Rightarrow> nat \<Rightarrow> HttpClient \<Rightarrow> HttpClient" where
  "TryParse env i s =
     (if x_requestComplete (ctx i s) then s
      else case x_headerEnd (ctx i s) of
             Some _ \<Rightarrow> parse_response_body env i s
           | None \<Rightarrow>
             (case find_sub (CRLF @ CRLF) (x_raw (ctx i s)) of
                None \<Rightarrow>
                  if kMaxHeaderSize < length (x_raw (ctx i s)) then FinishError env i ''malformed-response'' ''headers too large'' s else s
              | Some idx \<Rightarrow>
                (case ParseHeaders idx ((ctx i s)\<lparr>x_headerEnd := Some idx\<rparr>) of
                   (Some (kind, detail), c) \<Rightarrow> FinishError env i kind detail (ctx_update i (\<lambda>_. c) s)
                 | (None, c) \<Rightarrow> parse_response_body env i (ctx_update i (\<lambda>_. c\<lparr>x_pos := idx + 4\<rparr>) s))))"

definition OnEof :: "http_client_env \<Rightarrow> nat \<Rightarrow> HttpClient \<Rightarrow> HttpClient" where
  "OnEof env i s =
     (let c = ctx i s
      in if x_requestComplete c then s
         else if x_headerEnd c = None then FinishError env i ''malformed-response'' ''connection closed before response headers'' s
         else if x_bodyMode c = Body_Chunked
         then FinishError env i ''malformed-response'' ''connection closed before chunked response completed'' s
         else if x_bodyMode c = Body_ContentLength \<and> length (x_raw c) < the (x_headerEnd c) + 4 + x_contentLength c
         then FinishError env i ''malformed-response'' ''connection closed before body completed'' s
         else CompleteResponse env i s)"

definition Ctx_OnRead :: "http_client_env \<Rightarrow> nat \<Rightarrow> int + string \<Rightarrow> HttpClient \<Rightarrow> HttpClient" where
  "Ctx_OnRead env i r s =
     (case r of
        Inr data \<Rightarrow>
          if data = [] then s
          else if kMaxResponseSize < length (x_raw (ctx i s)) + length data
          then FinishError env i ''malformed-response'' ''response exceeds max size'' s
          else TryParse env i (ctx_update i (\<lambda>c. c\<lparr>x_raw := x_raw c @ data\<rparr>) s)
      | Inl e \<Rightarrow> if e = cl_eof env then OnEof env i s else FinishError env i ''connection-refused'' (cl_strerror env e) s)"

section \<open>Methods\<close>

definition Client_RequestClose :: "http_client_env \<Rightarrow> HttpClient \<Rightarrow> HttpClient" where
  "Client_RequestClose env s =
     (if cl_closed s then s
      else
        let s1 = s\<lparr>cl_closed := True\<rparr>;
            s2 = fold (\<lambda>i. FinishError env i ''aborted'' ''client closed'') (cl_active s1) s1;
            s3 = fold (\<lambda>i s. Ctx_CloseHandles env i (ctx_update i (\<lambda>c. c\<lparr>x_idle := False\<rparr>) s)) (cl_idle s2) (s2\<lparr>cl_idle := []\<rparr>)
        in hc HcRemoveClient s3)"

text \<open>\<open>MethodRequest\<close> and \<open>MethodRequestAsync\<close>. A failure of the options raises an error, and the code behind it is not
  reached.\<close>

definition begin_call :: "http_client_env \<Rightarrow> bool \<Rightarrow> lvalue list \<Rightarrow> string \<Rightarrow> HttpClient \<Rightarrow> (string option \<times> nat \<times> HttpClient) option" where
  "begin_call env async args url s =
     (let t = cl_tickets s; (i, s1) = AcquireRequest url (s\<lparr>cl_tickets := t + 1\<rparr>);
          s2 = ctx_update i (\<lambda>c. c\<lparr>x_isAsync := async, x_ticket := t\<rparr>) s1
      in if 1 < length args
         then case ParseFetchOptions (cl_is_function env) (arg args 1) (x_opts (ctx i s2)) of
                None \<Rightarrow> None
              | Some (Inl e) \<Rightarrow> Some (Some e, i, s2)
              | Some (Inr opts) \<Rightarrow> Some (None, i, ctx_update i (\<lambda>c. c\<lparr>x_opts := opts\<rparr>) s2)
         else Some (None, i, s2))"

definition Client_MethodRequest :: "http_client_env \<Rightarrow> bool \<Rightarrow> lvalue list \<Rightarrow> HttpClient \<Rightarrow> http_client_result \<times> HttpClient" where
  "Client_MethodRequest env async args s =
     (if cl_shuttingDown s
      then (CRaised (if async then ''HttpClient RequestAsync: runtime is shutting down'' else ''HttpClient Request: runtime is shutting down''), s)
      else if cl_closed s then (CRaised ''HttpClient is closed'', s)
      else case arg args 0 of
        LString url \<Rightarrow>
          (case begin_call env async args url s of
             None \<Rightarrow> (CUndefined, s)
           | Some (Some e, i, s1) \<Rightarrow> (CRaised e, s1)
           | Some (None, i, s1) \<Rightarrow>
               (let s2 = ctx_update i (\<lambda>c. c\<lparr>x_taskCtx := \<not> async\<rparr>) (s1\<lparr>cl_active := cl_active s1 @ [i]\<rparr>); t = x_ticket (ctx i s2);
                    (err, s3) = Begin env i url s2;
                    s4 = (ctx_update i (\<lambda>c. c\<lparr>x_taskCtx := False\<rparr>) s3)\<lparr>cl_active := butlast (cl_active s3)\<rparr>
                in if err = [] then (if async then CReturned LNil else CYielded, s3)
                   else if async then (CReturned LNil, Client_FireError env t err s4) else (CRaised err, s4)))
      | _ \<Rightarrow> (CRaised ''Expected url as string'', s))"

text \<open>\<open>fetch\<close> makes a client for one request.\<close>

definition Fetch :: "http_client_env \<Rightarrow> bool \<Rightarrow> lvalue list \<Rightarrow> http_client_result \<times> HttpClient" where
  "Fetch env shutting args =
     (let s = HttpClient_new\<lparr>cl_tickets := 1, cl_active := [0], cl_ctxs := [HttpRequestContext_new\<lparr>x_selfGuard := True, x_taskCtx := True\<rparr>]\<rparr>;
          drop_call = (\<lambda>s. (ctx_update 0 (\<lambda>c. c\<lparr>x_taskCtx := False\<rparr>) s)\<lparr>cl_active := []\<rparr>)
      in if shutting then (CRaised ''http: runtime is shutting down'', HttpClient_new)
         else case arg args 0 of
           LString url \<Rightarrow>
             (case (if 1 < length args then ParseFetchOptions (cl_is_function env) (arg args 1) HttpRequestOptions_new else Some (Inr HttpRequestOptions_new)) of
                None \<Rightarrow> (CUndefined, s)
              | Some (Inl e) \<Rightarrow> (CRaised e, s)
              | Some (Inr opts) \<Rightarrow>
                (let (err, s1) = Begin env 0 url (ctx_update 0 (\<lambda>c. c\<lparr>x_opts := opts\<lparr>o_keepAlive := False\<rparr>\<rparr>) s)
                 in if err = [] then (CYielded, s1) else (CRaised err, drop_call s1)))
         | _ \<Rightarrow> (CRaised ''fetch: expected url string'', HttpClient_new))"

section \<open>Manager\<close>

text \<open>The lists of \<open>HttpManager\<close>, with clients and servers given by their identities. \<open>Shutdown\<close> gives the clients and then
  the servers that it closes, in this order.\<close>

record HttpManager =
  hm_clients :: "nat list"
  hm_servers :: "nat list"
  hm_shuttingDown :: bool

definition Http_AddClient :: "nat \<Rightarrow> HttpManager \<Rightarrow> HttpManager" where
  "Http_AddClient i m = m\<lparr>hm_clients := hm_clients m @ [i]\<rparr>"

definition Http_AddServer :: "nat \<Rightarrow> HttpManager \<Rightarrow> HttpManager" where
  "Http_AddServer i m = m\<lparr>hm_servers := hm_servers m @ [i]\<rparr>"

definition Http_RemoveClient :: "nat \<Rightarrow> HttpManager \<Rightarrow> HttpManager" where
  "Http_RemoveClient i m = m\<lparr>hm_clients := remove1 i (hm_clients m)\<rparr>"

definition Http_RemoveServer :: "nat \<Rightarrow> HttpManager \<Rightarrow> HttpManager" where
  "Http_RemoveServer i m = m\<lparr>hm_servers := remove1 i (hm_servers m)\<rparr>"

definition Http_Shutdown :: "HttpManager \<Rightarrow> (nat list \<times> nat list) \<times> HttpManager" where
  "Http_Shutdown m = ((hm_clients m, hm_servers m), m\<lparr>hm_shuttingDown := True\<rparr>)"

section \<open>Steps\<close>

text \<open>What libuv and Luau do with a client. A read comes while reading, a timeout while the timer is open, a close
  callback for a handle that is being closed, and the answer of the resolver once.\<close>

datatype client_call = CcRequest bool "lvalue list" | CcClose

definition HttpClientMethods :: "http_client_env \<Rightarrow> client_call \<Rightarrow> HttpClient \<Rightarrow> http_client_result \<times> HttpClient" where
  "HttpClientMethods env call s =
     (case call of CcRequest async args \<Rightarrow> Client_MethodRequest env async args s | CcClose \<Rightarrow> (CReturned LNil, Client_RequestClose env s))"

inductive client_reach :: "http_client_env \<Rightarrow> HttpClient \<Rightarrow> bool" for env where
  create: "HttpClient_Create False args = Inr s \<Longrightarrow> client_reach env s"
| fetch: "client_reach env (snd (Fetch env shutting args))"
| call: "client_reach env s \<Longrightarrow> client_reach env (snd (HttpClientMethods env call s))"
| shutdown: "client_reach env s \<Longrightarrow> client_reach env (Client_RequestClose env (s\<lparr>cl_shuttingDown := True\<rparr>))"
| resolved: "client_reach env s \<Longrightarrow> i < length (cl_ctxs s) \<Longrightarrow> \<not> x_dnsDone (ctx i s) \<Longrightarrow> client_reach env (Ctx_OnResolved env i status s)"
| connected: "client_reach env s \<Longrightarrow> i < length (cl_ctxs s) \<Longrightarrow> HcConnect i \<in> set (cl_trace s) \<Longrightarrow> client_reach env (Ctx_OnConnected env i status s)"
| written: "client_reach env s \<Longrightarrow> i < length (cl_ctxs s) \<Longrightarrow> HcUvWrite i d \<in> set (cl_trace s) \<Longrightarrow> client_reach env (Ctx_OnWritten env i status s)"
| read: "client_reach env s \<Longrightarrow> i < length (cl_ctxs s) \<Longrightarrow> x_reading (ctx i s) \<Longrightarrow> client_reach env (Ctx_OnRead env i r s)"
| timeout: "client_reach env s \<Longrightarrow> i < length (cl_ctxs s) \<Longrightarrow> x_timerInited (ctx i s) \<Longrightarrow> \<not> x_timerClosed (ctx i s) \<Longrightarrow>
    client_reach env (Ctx_OnTimeout env i s)"
| handle_closed: "client_reach env s \<Longrightarrow> i < length (cl_ctxs s) \<Longrightarrow> 0 < x_closeCount (ctx i s) \<Longrightarrow> client_reach env (Ctx_OnHandleClosed env i s)"

primrec client_nested :: "nat \<Rightarrow> (client_effect \<Rightarrow> HttpClient \<Rightarrow> client_call list) \<Rightarrow> http_client_env \<Rightarrow> http_client_env" where
  "client_nested 0 script base = base\<lparr>cl_code := \<lambda>e s. s\<rparr>"
| "client_nested (Suc n) script base =
     base\<lparr>cl_code := \<lambda>e s. fold (\<lambda>call s. snd (HttpClientMethods (client_nested n script base) call s)) (script e s) s\<rparr>"

section \<open>Invariant\<close>

text \<open>How many contexts hold the coroutine of a call, and how often it was resumed.\<close>

definition held :: "nat \<Rightarrow> HttpClient \<Rightarrow> nat" where
  "held t s = length (filter (\<lambda>c. x_taskCtx c \<and> x_ticket c = t) (cl_ctxs s))"

definition resumed :: "nat \<Rightarrow> HttpClient \<Rightarrow> nat" where
  "resumed t s = length (filter (\<lambda>e. case e of HcResume u _ \<Rightarrow> u = t | HcResumeError u _ \<Rightarrow> u = t | _ \<Rightarrow> False) (cl_trace s))"

definition client_inv :: "HttpClient \<Rightarrow> bool" where
  "client_inv s \<longleftrightarrow>
     (\<forall>t. held t s + resumed t s \<le> of_bool (t < cl_tickets s)) \<and>
     (\<forall>i \<in> set (cl_active s). i < length (cl_ctxs s)) \<and> (\<forall>i \<in> set (cl_idle s). i < length (cl_ctxs s))"

text \<open>A state that comes after another: the invariant holds and no context is gone.\<close>

definition later :: "HttpClient \<Rightarrow> HttpClient \<Rightarrow> bool" where
  "later s s' \<longleftrightarrow> client_inv s' \<and> length (cl_ctxs s) \<le> length (cl_ctxs s')"

lemma laterD: "later s s' \<Longrightarrow> i < length (cl_ctxs s) \<Longrightarrow> client_inv s' \<and> i < length (cl_ctxs s')"
  by (simp add: later_def)

lemma later_trans: "later s t \<Longrightarrow> later t u \<Longrightarrow> later s u"
  by (simp add: later_def)

lemma later_refl: "client_inv s \<Longrightarrow> later s s"
  by (simp add: later_def)

lemma hc_fields [simp]:
  "cl_ctxs (hc e s) = cl_ctxs s" "cl_active (hc e s) = cl_active s" "cl_idle (hc e s) = cl_idle s" "cl_closed (hc e s) = cl_closed s"
  "cl_tickets (hc e s) = cl_tickets s" "held t (hc e s) = held t s" "cl_maxIdleConnections (hc e s) = cl_maxIdleConnections s"
  by (simp_all add: hc_def held_def)

lemma resumed_hc [simp]:
  "resumed t (hc e s) = resumed t s + (case e of HcResume u _ \<Rightarrow> of_bool (u = t) | HcResumeError u _ \<Rightarrow> of_bool (u = t) | _ \<Rightarrow> 0)"
  by (cases e) (simp_all add: hc_def resumed_def)

lemma ctx_update_fields [simp]:
  "length (cl_ctxs (ctx_update i f s)) = length (cl_ctxs s)" "cl_active (ctx_update i f s) = cl_active s" "cl_idle (ctx_update i f s) = cl_idle s"
  "cl_closed (ctx_update i f s) = cl_closed s" "cl_tickets (ctx_update i f s) = cl_tickets s" "resumed t (ctx_update i f s) = resumed t s"
  "cl_trace (ctx_update i f s) = cl_trace s" "cl_maxIdleConnections (ctx_update i f s) = cl_maxIdleConnections s"
  "i < length (cl_ctxs s) \<Longrightarrow> ctx j (ctx_update i f s) = (if j = i then f (ctx i s) else ctx j s)"
  by (simp_all add: ctx_update_def resumed_def nth_list_update)

lemma held_ctx_update:
  assumes "i < length (cl_ctxs s)"
  shows "held t (ctx_update i f s) + of_bool (x_taskCtx (ctx i s) \<and> x_ticket (ctx i s) = t) =
    held t s + of_bool (x_taskCtx (f (ctx i s)) \<and> x_ticket (f (ctx i s)) = t)"
  using length_filter_update [OF assms, of "\<lambda>c. x_taskCtx c \<and> x_ticket c = t" "f (ctx i s)"] by (simp add: held_def ctx_update_def)

lemma ctx_update_later:
  assumes "client_inv s" "i < length (cl_ctxs s)"
    "x_taskCtx (f (ctx i s)) \<Longrightarrow> x_taskCtx (ctx i s) \<and> x_ticket (f (ctx i s)) = x_ticket (ctx i s)"
  shows "later s (ctx_update i f s)"
proof -
  have "held t (ctx_update i f s) \<le> held t s" for t
    using held_ctx_update [OF assms(2), of t f] assms(3) by (cases "x_taskCtx (f (ctx i s))") simp_all
  then have "held t (ctx_update i f s) + resumed t s \<le> of_bool (t < cl_tickets s)" for t
    using assms(1) by (metis add_right_mono client_inv_def order_trans)
  then show ?thesis using assms(1) by (simp add: later_def client_inv_def)
qed

definition hc_plain :: "client_effect \<Rightarrow> bool" where
  "hc_plain e \<longleftrightarrow> (case e of HcResume _ _ \<Rightarrow> False | HcResumeError _ _ \<Rightarrow> False | _ \<Rightarrow> True)"

lemma client_inv_plain: "hc_plain e \<Longrightarrow> client_inv (hc e s) = client_inv s"
  by (cases e) (simp_all add: hc_plain_def client_inv_def)

lemma hc_later: "client_inv s \<Longrightarrow> hc_plain e \<Longrightarrow> later s (hc e s)"
  by (simp add: later_def client_inv_plain)

lemma client_lists [simp]:
  "held t (s\<lparr>cl_active := l\<rparr>) = held t s" "held t (s\<lparr>cl_idle := l\<rparr>) = held t s" "resumed t (s\<lparr>cl_active := l\<rparr>) = resumed t s"
  "resumed t (s\<lparr>cl_idle := l\<rparr>) = resumed t s" "held t (s\<lparr>cl_closed := b\<rparr>) = held t s" "resumed t (s\<lparr>cl_closed := b\<rparr>) = resumed t s"
  "held t (s\<lparr>cl_shuttingDown := b\<rparr>) = held t s" "resumed t (s\<lparr>cl_shuttingDown := b\<rparr>) = resumed t s"
  "held t (s\<lparr>cl_tickets := k\<rparr>) = held t s" "resumed t (s\<lparr>cl_tickets := k\<rparr>) = resumed t s"
  "resumed t (s\<lparr>cl_ctxs := cs\<rparr>) = resumed t s"
  by (simp_all add: held_def resumed_def)

lemma client_inv_lists:
  "client_inv s \<Longrightarrow> (\<And>i. i \<in> set l \<Longrightarrow> i < length (cl_ctxs s)) \<Longrightarrow> later s (s\<lparr>cl_active := l\<rparr>)"
  "client_inv s \<Longrightarrow> (\<And>i. i \<in> set l \<Longrightarrow> i < length (cl_ctxs s)) \<Longrightarrow> later s (s\<lparr>cl_idle := l\<rparr>)"
  by (simp_all add: later_def client_inv_def)

lemma client_inv_flags [simp]: "client_inv (s\<lparr>cl_closed := b\<rparr>) = client_inv s" "client_inv (s\<lparr>cl_shuttingDown := b\<rparr>) = client_inv s"
  by (simp_all add: client_inv_def)

lemma Remove_later: "client_inv s \<Longrightarrow> later s (RemoveRequest i s)" "client_inv s \<Longrightarrow> later s (RemoveIdleRequest i s)"
  using set_remove1_subset [of i "cl_active s"] set_remove1_subset [of i "cl_idle s"]
  unfolding RemoveRequest_def RemoveIdleRequest_def by (intro client_inv_lists; auto simp: client_inv_def)+

text \<open>The rules that carry the proofs: updates that give no coroutine to a context, and effects that resume none.\<close>

lemma later_update:
  assumes "later s t" "i < length (cl_ctxs s)" "\<And>c. x_taskCtx (f c) \<Longrightarrow> x_taskCtx c \<and> x_ticket (f c) = x_ticket c"
  shows "later s (ctx_update i f t)"
  using ctx_update_later [of t i f] later_trans [OF assms(1)] laterD [OF assms(1,2)] assms(3) by simp

lemma later_hc: "later s t \<Longrightarrow> hc_plain e \<Longrightarrow> later s (hc e t)"
  by (simp add: later_def client_inv_plain)

lemma later_remove: "later s t \<Longrightarrow> later s (RemoveRequest i t)" "later s t \<Longrightarrow> later s (RemoveIdleRequest i t)"
  using Remove_later [of t i] later_trans [of s t] by (auto simp: later_def)

lemma later_active: "later s t \<Longrightarrow> (\<And>i. i \<in> set l \<Longrightarrow> i < length (cl_ctxs t)) \<Longrightarrow> later s (t\<lparr>cl_active := l\<rparr>)"
  by (simp add: later_def client_inv_def)

lemma later_idle: "later s t \<Longrightarrow> (\<And>i. i \<in> set l \<Longrightarrow> i < length (cl_ctxs t)) \<Longrightarrow> later s (t\<lparr>cl_idle := l\<rparr>)"
  by (simp add: later_def client_inv_def)

lemma later_close:
  assumes "later s t" "i < length (cl_ctxs s)"
  shows "later s (ctx_stop_reading i t)" "later s (ctx_close_tcp i t)" "later s (ctx_close_timer i t)"
  using assms by (auto simp: ctx_stop_reading_def ctx_close_tcp_def ctx_close_timer_def hc_plain_def intro!: later_update later_hc)

lemma resume_inv:
  assumes "client_inv s" "i < length (cl_ctxs s)" "x_taskCtx (ctx i s)" "x_ticket (ctx i s) = t" "e = HcResume t v \<or> e = HcResumeError t m"
  shows "client_inv (hc e (ctx_update i (\<lambda>c. c\<lparr>x_taskCtx := False\<rparr>) s))"
proof -
  let ?s = "ctx_update i (\<lambda>c. c\<lparr>x_taskCtx := False\<rparr>) s"
  have h: "held u ?s + of_bool (t = u) = held u s" for u
    using held_ctx_update [OF assms(2), of u "\<lambda>c. c\<lparr>x_taskCtx := False\<rparr>"] assms(3,4) by simp
  have "resumed u (hc e ?s) = resumed u s + of_bool (t = u)" for u using assms(5) by auto
  then have "held u (hc e ?s) + resumed u (hc e ?s) = held u s + resumed u s" for u using h [of u] by simp
  then have "\<forall>u. held u (hc e ?s) + resumed u (hc e ?s) \<le> of_bool (u < cl_tickets (hc e ?s))" using assms(1) by (simp only: client_inv_def) simp
  then show ?thesis using assms(1) unfolding client_inv_def by simp
qed

text \<open>The parser does not touch the coroutine of a context.\<close>

definition task_kept :: "HttpRequestContext \<Rightarrow> HttpRequestContext \<Rightarrow> bool" where
  "task_kept c d \<longleftrightarrow> x_taskCtx d = x_taskCtx c \<and> x_ticket d = x_ticket c"

lemma chunk_step_task: "chunk_step c = Chunk_Next d \<or> chunk_step c = Chunk_Data x d \<Longrightarrow> task_kept c d"
  by (auto simp: chunk_step_def size_line_def add_chunk_def task_kept_def Let_def split: BodyState.splits option.splits if_splits)

lemma status_line_task: "status_line l c = (m, d) \<Longrightarrow> task_kept c d"
  by (auto simp: status_line_def task_kept_def Let_def split: option.splits if_splits)

lemma body_framing_task: "body_framing c = (m, d) \<Longrightarrow> task_kept c d"
  by (auto simp: body_framing_def task_kept_def Let_def split: sum.splits if_splits)

lemma ParseHeaders_task: "ParseHeaders e c = (m, d) \<Longrightarrow> task_kept c d"
  by (auto simp: ParseHeaders_def Let_def split: option.splits if_splits prod.splits bool.splits dest!: status_line_task body_framing_task)
    (auto simp: task_kept_def)

lemma later_set:
  assumes "later s t" "i < length (cl_ctxs s)" "task_kept (ctx i t) d"
  shows "later s (ctx_update i (\<lambda>_. d) t)"
  using ctx_update_later [of t i "\<lambda>_. d"] later_trans [OF assms(1)] laterD [OF assms(1,2)] assms(3) by (simp add: task_kept_def)

text \<open>A call takes a new number, and its context holds no coroutine before it is given the caller's.\<close>

definition call_kept :: "HttpClient \<Rightarrow> HttpClient \<Rightarrow> bool" where
  "call_kept s s' \<longleftrightarrow>
     (\<forall>t. held t s' \<le> held t s) \<and> (\<forall>t. resumed t s' = resumed t s) \<and> length (cl_ctxs s) \<le> length (cl_ctxs s') \<and>
     (\<forall>i \<in> set (cl_active s'). i < length (cl_ctxs s')) \<and> (\<forall>i \<in> set (cl_idle s'). i < length (cl_ctxs s'))"

lemma kept_clear:
  assumes "call_kept s t" "i < length (cl_ctxs t)" "\<not> x_taskCtx (f (ctx i t))"
  shows "call_kept s (ctx_update i f t)"
proof -
  have "held u (ctx_update i f t) \<le> held u t" for u using held_ctx_update [OF assms(2), of u f] assms(3) by simp
  then show ?thesis using assms(1) by (auto simp: call_kept_def intro: order_trans)
qed

lemma AcquireRequest_kept:
  assumes "client_inv s" "AcquireRequest url (s\<lparr>cl_tickets := n\<rparr>) = (i, s1)"
  shows "call_kept s s1 \<and> i < length (cl_ctxs s1) \<and> \<not> x_taskCtx (ctx i s1) \<and> cl_tickets s1 = n"
proof -
  let ?s = "s\<lparr>cl_tickets := n\<rparr>"
  have new: "call_kept s (?s\<lparr>cl_ctxs := cl_ctxs s @ [HttpRequestContext_new\<lparr>x_selfGuard := True\<rparr>]\<rparr>)"
    using assms(1) by (auto simp: call_kept_def client_inv_def held_def HttpRequestContext_new_def)
  have "call_kept s (RemoveIdleRequest j ?s)" for j
    using assms(1) set_remove1_subset [of j "cl_idle s"] by (auto simp: call_kept_def client_inv_def RemoveIdleRequest_def)
  then have reuse: "call_kept s (ctx_update j PrepareForReuse (RemoveIdleRequest j ?s)) \<and> j < length (cl_ctxs s)"
    if "find P (cl_idle s) = Some j" for j P
    using that assms(1) by (auto simp: find_Some_iff client_inv_def RemoveIdleRequest_def PrepareForReuse_def intro!: kept_clear)
  show ?thesis
  proof (cases "u_valid (ParseUrl url) \<and> find (\<lambda>i. IsSameOrigin (x_url (ctx i s)) (ParseUrl url)) (cl_idle s) \<noteq> None")
    case True
    then obtain j where j: "find (\<lambda>i. IsSameOrigin (x_url (ctx i s)) (ParseUrl url)) (cl_idle s) = Some j" by blast
    with True assms(2) have "i = j \<and> s1 = ctx_update j PrepareForReuse (RemoveIdleRequest j ?s)" by (auto simp: AcquireRequest_def)
    with reuse [OF j] show ?thesis by (simp add: RemoveIdleRequest_def PrepareForReuse_def)
  next
    case False
    then have "i = length (cl_ctxs s) \<and> s1 = ?s\<lparr>cl_ctxs := cl_ctxs s @ [HttpRequestContext_new\<lparr>x_selfGuard := True\<rparr>]\<rparr>"
      using assms(2) by (auto simp: AcquireRequest_def Let_def split: if_splits)
    with new show ?thesis by (simp add: HttpRequestContext_new_def)
  qed
qed

lemma begin_call_kept:
  assumes "client_inv s" "begin_call env async args url s = Some (e, i, s')"
  shows "call_kept s s' \<and> i < length (cl_ctxs s') \<and> \<not> x_taskCtx (ctx i s') \<and> x_ticket (ctx i s') = cl_tickets s \<and> cl_tickets s' = Suc (cl_tickets s)"
proof -
  obtain j s1 where a: "AcquireRequest url (s\<lparr>cl_tickets := Suc (cl_tickets s)\<rparr>) = (j, s1)"
    by (cases "AcquireRequest url (s\<lparr>cl_tickets := Suc (cl_tickets s)\<rparr>)")
  note s1 = AcquireRequest_kept [OF assms(1) a]
  let ?s = "ctx_update j (\<lambda>c. c\<lparr>x_isAsync := async, x_ticket := cl_tickets s\<rparr>) s1"
  have 2: "call_kept s ?s" using s1 by (intro kept_clear) simp_all
  have "i = j \<and> (s' = ?s \<or> (\<exists>opts. s' = ctx_update j (\<lambda>c. c\<lparr>x_opts := opts\<rparr>) ?s))"
    using assms(2) a by (auto simp: begin_call_def Let_def split: option.splits sum.splits if_splits)
  moreover have "call_kept s (ctx_update j (\<lambda>c. c\<lparr>x_opts := opts\<rparr>) ?s)" for opts using 2 s1 by (intro kept_clear) simp_all
  ultimately show ?thesis using 2 s1 by auto
qed

lemma begin_call_later:
  assumes "client_inv s" "begin_call env async args url s = Some (e, i, s')"
  shows "later s s'"
proof -
  note k = begin_call_kept [OF assms]
  have "held t s' + resumed t s' \<le> held t s + resumed t s" for t using k by (simp add: call_kept_def)
  moreover have "held t s + resumed t s \<le> of_bool (t < cl_tickets s)" for t using assms(1) by (simp add: client_inv_def)
  moreover have "of_bool (t < cl_tickets s) \<le> (of_bool (t < cl_tickets s') :: nat)" for t using k by auto
  ultimately have "held t s' + resumed t s' \<le> of_bool (t < cl_tickets s')" for t by (meson order_trans)
  then show ?thesis using k by (simp add: later_def client_inv_def call_kept_def)
qed

lemma begin_call_taken:
  fixes b :: bool
  assumes "client_inv s" "begin_call env async args url s = Some (e, i, s1)"
  defines "s2 \<equiv> ctx_update i (\<lambda>c. c\<lparr>x_taskCtx := b\<rparr>) (s1\<lparr>cl_active := cl_active s1 @ [i]\<rparr>)"
  shows "client_inv s2 \<and> i < length (cl_ctxs s2) \<and> length (cl_ctxs s) \<le> length (cl_ctxs s2)"
proof -
  note k = begin_call_kept [OF assms(1,2)] and l = begin_call_later [OF assms(1,2)]
  let ?t = "cl_tickets s"
  have i: "i < length (cl_ctxs (s1\<lparr>cl_active := cl_active s1 @ [i]\<rparr>))" using k by simp
  have "held u s2 = held u s1 + of_bool (b \<and> ?t = u)" for u
    using held_ctx_update [OF i, of u "\<lambda>c. c\<lparr>x_taskCtx := b\<rparr>"] k by (simp add: s2_def)
  moreover have "resumed u s2 = resumed u s1" for u by (simp add: s2_def)
  moreover have "held ?t s1 \<le> held ?t s" "resumed ?t s1 = resumed ?t s" using k by (simp_all add: call_kept_def)
  then have "held ?t s1 + resumed ?t s1 = 0"
    using spec [OF conjunct1 [OF assms(1) [unfolded client_inv_def]], of ?t] by simp
  moreover have "held u s1 + resumed u s1 \<le> of_bool (u < cl_tickets s1)" for u using l by (simp add: later_def client_inv_def)
  ultimately have "held u s2 + resumed u s2 \<le> of_bool (u < cl_tickets s2)" for u
    using k by (cases "u = ?t") (auto simp: s2_def)
  then show ?thesis using k l by (auto simp: client_inv_def later_def s2_def)
qed

lemma MethodRequest_refused:
  "snd (Client_MethodRequest env async args s) = s \<or>
   (\<exists>url e i. begin_call env async args url s = Some (Some e, i, snd (Client_MethodRequest env async args s))) \<or>
   (\<exists>url i s1. begin_call env async args url s = Some (None, i, s1) \<and> \<not> cl_shuttingDown s \<and> \<not> cl_closed s \<and> arg args 0 = LString url)"
proof (cases "arg args 0")
  case (LString url)
  show ?thesis
  proof (cases "begin_call env async args url s")
    case (Some r)
    obtain e i s1 where "r = (e, i, s1)" by (cases r)
    with Some LString show ?thesis by (cases e) (auto simp: Client_MethodRequest_def)
  qed (simp add: Client_MethodRequest_def LString)
qed (simp_all add: Client_MethodRequest_def)

text \<open>The contract of the Luau code that runs inside the client.\<close>

locale client_handlers =
  fixes env :: http_client_env
  assumes code_later: "client_inv s \<Longrightarrow> later s (cl_code env e s)"
begin

lemma call_out_later: "later s t \<Longrightarrow> hc_plain e \<Longrightarrow> later s (hc_call_out env e t)"
  using code_later [of "hc e t" e] later_hc [of s t e] later_trans [of s "hc e t"] by (simp add: hc_call_out_def later_def)

lemma fire_later: "later s t \<Longrightarrow> later s (Client_FireError env k m t)" "later s t \<Longrightarrow> later s (FireResponse env k r t)"
  by (simp_all add: Client_FireError_def FireResponse_def call_out_later hc_plain_def)

lemma resume_later:
  assumes "later s t" "i < length (cl_ctxs s)" "x_taskCtx (ctx i t)" "e = HcResume (x_ticket (ctx i t)) v \<or> e = HcResumeError (x_ticket (ctx i t)) m"
  shows "later s (hc_call_out env e (ctx_update i (\<lambda>c. c\<lparr>x_taskCtx := False\<rparr>) t))"
proof -
  let ?t = "hc e (ctx_update i (\<lambda>c. c\<lparr>x_taskCtx := False\<rparr>) t)"
  have t: "client_inv t" "i < length (cl_ctxs t)" using laterD [OF assms(1,2)] by simp_all
  from resume_inv [OF t assms(3) refl assms(4)] have "client_inv ?t" .
  with code_later [OF this, of e] assms(1) show ?thesis by (simp add: hc_call_out_def later_def)
qed

lemma DeliverResult_later:
  assumes "later s t" "i < length (cl_ctxs s)"
  shows "later s (DeliverResult env i t)"
  unfolding DeliverResult_def Let_def
  by (rule later_update) (auto simp: assms fire_later intro: resume_later [OF assms])

lemma CheckAllClosed_later: "later s t \<Longrightarrow> i < length (cl_ctxs s) \<Longrightarrow> later s (CheckAllClosed env i t)"
  by (auto simp: CheckAllClosed_def OnAllClosed_def intro!: later_update DeliverResult_later later_remove)

lemma CloseHandles_later: "later s t \<Longrightarrow> i < length (cl_ctxs s) \<Longrightarrow> later s (Ctx_CloseHandles env i t)"
  by (auto simp: Ctx_CloseHandles_def intro!: CheckAllClosed_later later_close later_update)

lemma FinishError_later: "later s t \<Longrightarrow> i < length (cl_ctxs s) \<Longrightarrow> later s (FinishError env i kind detail t)"
  by (auto simp: FinishError_def intro!: CloseHandles_later later_update)

lemma AddIdleRequest_later:
  "later s t \<Longrightarrow> i < length (cl_ctxs s) \<Longrightarrow> later s (AddIdleRequest env n i t)"
proof (induction n arbitrary: t)
  case 0
  then show ?case by (auto simp: later_def client_inv_def intro!: later_idle)
next
  case (Suc n)
  have push: "later s (t\<lparr>cl_idle := cl_idle t @ [i]\<rparr>)" using Suc.prems by (auto simp: later_def client_inv_def)
  show ?case
  proof (cases "cl_idle t")
    case (Cons oldest others)
    have t: "later s (t\<lparr>cl_idle := others\<rparr>)" using Suc.prems Cons by (auto simp: later_def client_inv_def)
    have old: "oldest < length (cl_ctxs t)" using Suc.prems Cons by (simp add: later_def client_inv_def)
    let ?t = "Ctx_CloseHandles env oldest (ctx_update oldest (\<lambda>c. c\<lparr>x_idle := False\<rparr>) (t\<lparr>cl_idle := others\<rparr>))"
    have "later (t\<lparr>cl_idle := others\<rparr>) ?t"
      using t old by (intro CloseHandles_later later_update later_refl) (simp_all add: later_def)
    with t have "later s ?t" by (rule later_trans)
    with Suc push Cons show ?thesis by simp
  qed (use push in simp)
qed

lemma keep_connection_later: "later s t \<Longrightarrow> i < length (cl_ctxs s) \<Longrightarrow> later s (keep_connection env i t)"
  by (auto simp: keep_connection_def Let_def hc_plain_def intro!: DeliverResult_later AddIdleRequest_later later_remove later_update later_hc later_close)

lemma FinishSuccess_later: "later s t \<Longrightarrow> i < length (cl_ctxs s) \<Longrightarrow> later s (FinishSuccess env i t)"
  by (auto simp: FinishSuccess_def Let_def intro!: keep_connection_later CloseHandles_later DeliverResult_later later_update)

lemma OnConnected_later: "later s t \<Longrightarrow> i < length (cl_ctxs s) \<Longrightarrow> later s (Ctx_OnConnected env i status t)"
  by (auto simp: Ctx_OnConnected_def hc_plain_def intro!: FinishError_later later_hc)

lemma start_timer_later: "later s t \<Longrightarrow> i < length (cl_ctxs s) \<Longrightarrow> later s (start_timer i t)"
  by (auto simp: start_timer_def Let_def hc_plain_def intro!: later_update later_hc)

lemma Begin_later: "later s t \<Longrightarrow> i < length (cl_ctxs s) \<Longrightarrow> later s (snd (Begin env i url t))"
  by (auto simp: Begin_def Let_def hc_plain_def build_request_def intro!: OnConnected_later start_timer_later later_update later_hc)

lemma follow_redirect_later:
  assumes "later s t" "i < length (cl_ctxs s)"
  shows "later s (follow_redirect env i next t)"
proof -
  define t1 where "t1 = ctx_update i (\<lambda>c. c\<lparr>x_redirectsDone := x_redirectsDone c + 1, x_taskCtx := False, x_isAsync := False\<rparr>) t"
  define n where "n = HttpRequestContext_new\<lparr>x_opts := redirect_options (x_status (ctx i t)) (IsSameOrigin (x_url (ctx i t)) (ParseUrl next)) (x_opts (ctx i t)),
    x_redirectsDone := x_redirectsDone (ctx i t) + 1, x_taskCtx := x_taskCtx (ctx i t), x_isAsync := x_isAsync (ctx i t), x_selfGuard := True, x_ticket := x_ticket (ctx i t)\<rparr>"
  define j where "j = length (cl_ctxs t1)"
  define t2 where "t2 = t1\<lparr>cl_ctxs := cl_ctxs t1 @ [n], cl_active := cl_active t1 @ [j]\<rparr>"
  have t: "client_inv t" "i < length (cl_ctxs t)" using laterD [OF assms] by simp_all
  have "held u t1 + of_bool (x_taskCtx (ctx i t) \<and> x_ticket (ctx i t) = u) = held u t" for u
    using held_ctx_update [OF t(2), of u "\<lambda>c. c\<lparr>x_redirectsDone := x_redirectsDone c + 1, x_taskCtx := False, x_isAsync := False\<rparr>"] by (simp add: t1_def)
  moreover have "held u t2 = held u t1 + of_bool (x_taskCtx (ctx i t) \<and> x_ticket (ctx i t) = u)" for u by (simp add: held_def t2_def n_def)
  ultimately have h: "held u t2 = held u t" for u by simp
  have "resumed u t2 = resumed u t" for u by (simp add: t2_def t1_def)
  with h t(1) have "\<forall>u. held u t2 + resumed u t2 \<le> of_bool (u < cl_tickets t2)" by (simp add: client_inv_def t2_def t1_def)
  moreover have "\<forall>k \<in> set (cl_active t2). k < length (cl_ctxs t2)" "\<forall>k \<in> set (cl_idle t2). k < length (cl_ctxs t2)"
    using t(1) by (auto simp: t2_def t1_def j_def client_inv_def)
  ultimately have inv: "client_inv t2" by (simp add: client_inv_def)
  have len: "length (cl_ctxs t2) = Suc (length (cl_ctxs t))" "j < length (cl_ctxs t2)" by (simp_all add: t2_def t1_def j_def)
  have "later t2 (Ctx_CloseHandles env i t2)" using inv t(2) len by (intro CloseHandles_later later_refl) simp_all
  then have b: "later t2 (snd (Begin env j next (Ctx_CloseHandles env i t2)))" using len by (intro Begin_later) simp_all
  then have f: "later t2 (FinishError env j ''redirect'' err (snd (Begin env j next (Ctx_CloseHandles env i t2))))" for err
    using len by (intro FinishError_later) simp_all
  have "follow_redirect env i next t =
    (if fst (Begin env j next (Ctx_CloseHandles env i t2)) = [] then snd (Begin env j next (Ctx_CloseHandles env i t2))
     else FinishError env j ''redirect'' (fst (Begin env j next (Ctx_CloseHandles env i t2))) (snd (Begin env j next (Ctx_CloseHandles env i t2))))"
    by (simp add: follow_redirect_def Let_def t2_def t1_def j_def n_def split_beta)
  then have "later t2 (follow_redirect env i next t)" using b f by simp
  then show ?thesis using assms(1) len(1) by (simp add: later_def)
qed

lemma CompleteResponse_later: "later s t \<Longrightarrow> i < length (cl_ctxs s) \<Longrightarrow> later s (CompleteResponse env i t)"
  unfolding CompleteResponse_def Let_def by (auto intro!: FinishError_later follow_redirect_later FinishSuccess_later)

lemma call_onData_later: "later s t \<Longrightarrow> later s (call_onData env i d t)"
  by (simp add: call_onData_def call_out_later hc_plain_def)

lemma chunk_rounds_later: "later s t \<Longrightarrow> i < length (cl_ctxs s) \<Longrightarrow> later s (chunk_rounds env i n t)"
proof (induction n arbitrary: t)
  case (Suc n)
  show ?case
  proof (cases "chunk_step (ctx i t)")
    case (Chunk_Next c)
    with Suc chunk_step_task [of "ctx i t" c] show ?thesis by (auto intro!: Suc.IH later_set)
  next
    case (Chunk_Data d c)
    with chunk_step_task [of "ctx i t" c d] have "later s (ctx_update i (\<lambda>_. c) t)" using Suc.prems by (intro later_set) simp_all
    from call_onData_later [OF this] Suc.prems
    have "later s (ctx_update i after_chunk (call_onData env i d (ctx_update i (\<lambda>_. c) t)))"
      by (intro later_update) (simp_all add: after_chunk_def)
    with Suc Chunk_Data show ?thesis by simp
  qed (use Suc in \<open>auto intro!: FinishError_later CompleteResponse_later\<close>)
qed simp

lemma parse_response_body_later: "later s t \<Longrightarrow> i < length (cl_ctxs s) \<Longrightarrow> later s (parse_response_body env i t)"
  unfolding parse_response_body_def Let_def
  by (auto simp del: chunk_rounds.simps split: BodyMode.split intro!: chunk_rounds_later CompleteResponse_later call_onData_later later_update)

lemma TryParse_later:
  assumes "later s t" "i < length (cl_ctxs s)"
  shows "later s (TryParse env i t)"
proof -
  have "later s (case ParseHeaders idx ((ctx i t)\<lparr>x_headerEnd := Some idx\<rparr>) of
      (Some (kind, detail), c) \<Rightarrow> FinishError env i kind detail (ctx_update i (\<lambda>_. c) t)
    | (None, c) \<Rightarrow> parse_response_body env i (ctx_update i (\<lambda>_. c\<lparr>x_pos := idx + 4\<rparr>) t))" for idx
  proof (cases "ParseHeaders idx ((ctx i t)\<lparr>x_headerEnd := Some idx\<rparr>)")
    case (Pair m c)
    from ParseHeaders_task [OF Pair] have "task_kept (ctx i t) c" "task_kept (ctx i t) (c\<lparr>x_pos := idx + 4\<rparr>)" by (simp_all add: task_kept_def)
    with Pair assms show ?thesis by (auto split: option.split intro!: FinishError_later parse_response_body_later later_set)
  qed
  then show ?thesis using assms unfolding TryParse_def
    by (auto split: option.split intro!: FinishError_later parse_response_body_later)
qed

lemma OnRead_later: "later s t \<Longrightarrow> i < length (cl_ctxs s) \<Longrightarrow> later s (Ctx_OnRead env i r t)"
  unfolding Ctx_OnRead_def OnEof_def Let_def
  by (auto split: sum.split intro!: FinishError_later TryParse_later CompleteResponse_later later_update)

lemma fold_later:
  assumes "\<And>i t. later s t \<Longrightarrow> i < length (cl_ctxs s) \<Longrightarrow> later s (f i t)"
  shows "later s t \<Longrightarrow> \<forall>i \<in> set is. i < length (cl_ctxs s) \<Longrightarrow> later s (fold f is t)"
  by (induction "is" arbitrary: t) (auto intro!: assms)

lemma RequestClose_later:
  assumes "client_inv s"
  shows "later s (Client_RequestClose env s)"
proof -
  define s1 where "s1 = s\<lparr>cl_closed := True\<rparr>"
  define s2 where "s2 = fold (\<lambda>i. FinishError env i ''aborted'' ''client closed'') (cl_active s1) s1"
  define s3 where "s3 = fold (\<lambda>i s. Ctx_CloseHandles env i (ctx_update i (\<lambda>c. c\<lparr>x_idle := False\<rparr>) s)) (cl_idle s2) (s2\<lparr>cl_idle := []\<rparr>)"
  have s1: "client_inv s1" "length (cl_ctxs s1) = length (cl_ctxs s)" using assms by (simp_all add: s1_def)
  have s2: "later s1 s2" unfolding s2_def
    using s1(1) by (intro fold_later FinishError_later later_refl) (auto simp: client_inv_def)
  then have idle: "\<forall>i \<in> set (cl_idle s2). i < length (cl_ctxs s2)" "client_inv (s2\<lparr>cl_idle := []\<rparr>)" by (simp_all add: later_def client_inv_def)
  have "later (s2\<lparr>cl_idle := []\<rparr>) s3" unfolding s3_def
    using idle by (intro fold_later CloseHandles_later later_update later_refl) simp_all
  then have "later s s3" using s1(2) s2 by (simp add: later_def)
  then have "later s (hc HcRemoveClient s3)" by (rule later_hc) (simp add: hc_plain_def)
  then show ?thesis using later_refl [OF assms] by (simp add: Client_RequestClose_def Let_def s1_def s2_def s3_def)
qed

lemma call_later:
  assumes "client_inv s"
  shows "later s (snd (HttpClientMethods env call s))"
proof (cases call)
  case (CcRequest async args)
  show ?thesis
  proof (cases "\<exists>url i s1. begin_call env async args url s = Some (None, i, s1) \<and> \<not> cl_shuttingDown s \<and> \<not> cl_closed s \<and> arg args 0 = LString url")
    case True
    then obtain url i s1 where c: "begin_call env async args url s = Some (None, i, s1)" "\<not> cl_shuttingDown s" "\<not> cl_closed s" "arg args 0 = LString url"
      by blast
    define s2 where "s2 = ctx_update i (\<lambda>c. c\<lparr>x_taskCtx := \<not> async\<rparr>) (s1\<lparr>cl_active := cl_active s1 @ [i]\<rparr>)"
    define b where "b = Begin env i url s2"
    define s4 where "s4 = (ctx_update i (\<lambda>c. c\<lparr>x_taskCtx := False\<rparr>) (snd b))\<lparr>cl_active := butlast (cl_active (snd b))\<rparr>"
    from begin_call_taken [OF assms c(1), where b = "\<not> async"] have s2: "client_inv s2" "i < length (cl_ctxs s2)" "length (cl_ctxs s) \<le> length (cl_ctxs s2)"
      by (simp_all add: s2_def)
    have b: "later s2 (snd b)" unfolding b_def using s2 by (intro Begin_later later_refl)
    have cl: "later s2 (ctx_update i (\<lambda>c. c\<lparr>x_taskCtx := False\<rparr>) (snd b))" using b s2(2) by (intro later_update) simp_all
    then have s4: "later s2 s4" unfolding s4_def
      by (intro later_active) (auto simp: later_def client_inv_def dest: in_set_butlastD)
    then have fire: "later s2 (Client_FireError env t err s4)" for t err by (rule fire_later)
    have "snd (HttpClientMethods env call s) = snd b \<or> snd (HttpClientMethods env call s) = s4 \<or>
        (\<exists>t err. snd (HttpClientMethods env call s) = Client_FireError env t err s4)"
      using c by (auto simp: CcRequest HttpClientMethods_def Client_MethodRequest_def Let_def split_beta s2_def b_def s4_def)
    then have "later s2 (snd (HttpClientMethods env call s))" using b s4 fire by metis
    then show ?thesis using s2(3) by (simp add: later_def)
  next
    case False
    with MethodRequest_refused [of env async args s] show ?thesis
      using begin_call_later [OF assms] later_refl [OF assms] by (auto simp: CcRequest HttpClientMethods_def)
  qed
qed (simp add: HttpClientMethods_def RequestClose_later assms)

lemma calls_later: "client_inv s \<Longrightarrow> later s (fold (\<lambda>call s. snd (HttpClientMethods env call s)) calls s)"
proof (induction calls arbitrary: s)
  case (Cons call calls)
  from call_later [OF Cons.prems] have "later s (snd (HttpClientMethods env call s))" .
  with Cons.IH [of "snd (HttpClientMethods env call s)"] show ?case by (simp add: later_def)
qed (simp add: later_refl)

lemma Fetch_inv: "client_inv (snd (Fetch env shutting args))"
proof -
  define s where "s = HttpClient_new\<lparr>cl_tickets := 1, cl_active := [0], cl_ctxs := [HttpRequestContext_new\<lparr>x_selfGuard := True, x_taskCtx := True\<rparr>]\<rparr>"
  have new: "client_inv HttpClient_new" "client_inv s" "0 < length (cl_ctxs s)"
    by (auto simp: client_inv_def held_def resumed_def HttpClient_new_def s_def HttpRequestContext_new_def)
  have b: "later s (snd (Begin env 0 url (ctx_update 0 (\<lambda>c. c\<lparr>x_opts := opts\<rparr>) s)))" for url opts
    using new by (intro Begin_later later_update later_refl) simp_all
  then have d: "later s ((ctx_update 0 (\<lambda>c. c\<lparr>x_taskCtx := False\<rparr>) (snd (Begin env 0 url (ctx_update 0 (\<lambda>c. c\<lparr>x_opts := opts\<rparr>) s))))\<lparr>cl_active := []\<rparr>)" for url opts
    using new by (intro later_active later_update) simp_all
  show ?thesis using new(1,2) b d unfolding Fetch_def Let_def s_def [symmetric]
    by (auto simp: later_def split_beta split: lvalue.split option.split sum.split)
qed

lemma create_inv: "HttpClient_Create shutting args = Inr s \<Longrightarrow> client_inv s"
  by (auto simp: HttpClient_Create_def HttpClient_new_def client_inv_def held_def resumed_def split: if_splits lvalue.splits sum.splits)

lemma client_reach_inv: "client_reach env s \<Longrightarrow> client_inv s"
proof (induction rule: client_reach.induct)
  case (call s c)
  then show ?case using call_later by (simp add: later_def)
next
  case (shutdown s)
  then show ?case using RequestClose_later [of "s\<lparr>cl_shuttingDown := True\<rparr>"] by (simp add: later_def)
next
  case (resolved s i status)
  then have "later s (Ctx_OnResolved env i status s)" unfolding Ctx_OnResolved_def Let_def
    by (auto simp: hc_plain_def build_request_def intro!: CheckAllClosed_later FinishError_later later_update later_hc later_refl)
  then show ?case by (simp add: later_def)
next
  case (connected s i status)
  then have "later s (Ctx_OnConnected env i status s)" by (intro OnConnected_later later_refl)
  then show ?case by (simp add: later_def)
next
  case (written s i d status)
  then have "later s (Ctx_OnWritten env i status s)" unfolding Ctx_OnWritten_def
    by (auto simp: hc_plain_def intro!: FinishError_later later_update later_hc later_refl)
  then show ?case by (simp add: later_def)
next
  case (read s i r)
  then have "later s (Ctx_OnRead env i r s)" by (intro OnRead_later later_refl)
  then show ?case by (simp add: later_def)
next
  case (timeout s i)
  then have "later s (Ctx_OnTimeout env i s)" unfolding Ctx_OnTimeout_def
    by (auto intro!: CloseHandles_later FinishError_later later_remove later_update later_refl)
  then show ?case by (simp add: later_def)
next
  case (handle_closed s i)
  then have "later s (Ctx_OnHandleClosed env i s)" unfolding Ctx_OnHandleClosed_def
    by (auto simp: hc_plain_def intro!: CheckAllClosed_later later_update later_hc later_refl)
  then show ?case by (simp add: later_def)
qed (simp_all add: create_inv Fetch_inv)

end

lemma client_nested_handlers: "client_handlers (client_nested n script base)"
proof (induction n)
  case 0
  show ?case by unfold_locales (simp add: later_refl)
next
  case (Suc n)
  show ?case by unfold_locales (simp add: client_handlers.calls_later [OF Suc.IH])
qed

interpretation nested_clients: client_handlers "client_nested n script base" for n script base
  by (rule client_nested_handlers)

section \<open>The parser and its effects\<close>

text \<open>What the client does with an outcome of the parser.\<close>

definition act_on :: "http_client_env \<Rightarrow> nat \<Rightarrow> HttpClient \<Rightarrow> parse_outcome \<times> HttpRequestContext \<Rightarrow> HttpClient" where
  "act_on env i s r =
     (let s1 = ctx_update i (\<lambda>_. snd r) s
      in case fst r of
           Parse_Wait \<Rightarrow> s1
         | Parse_Fail kind detail \<Rightarrow> FinishError env i kind detail s1
         | Parse_Complete \<Rightarrow> CompleteResponse env i s1)"

lemma ctx_update_same: "i < length (cl_ctxs s) \<Longrightarrow> ctx_update i (\<lambda>_. ctx i s) s = s"
  by (simp add: ctx_update_def)

lemma ctx_update_update: "i < length (cl_ctxs s) \<Longrightarrow> ctx_update i f (ctx_update i g s) = ctx_update i (f \<circ> g) s"
  by (simp add: ctx_update_def)

lemma act_on_update: "i < length (cl_ctxs s) \<Longrightarrow> act_on env i (ctx_update i (\<lambda>_. c) s) r = act_on env i s r"
  by (simp add: act_on_def ctx_update_update comp_def)

definition running :: "http_client_env \<Rightarrow> HttpRequestContext \<Rightarrow> bool" where
  "running env c \<longleftrightarrow> \<not> x_requestComplete c \<and> \<not> cl_is_function env (o_onData (x_opts c))"

lemma chunk_step_running: "chunk_step c = Chunk_Next d \<or> chunk_step c = Chunk_Data x d \<Longrightarrow> running env d = running env c"
  by (auto simp: chunk_step_def size_line_def add_chunk_def running_def Let_def split: BodyState.splits option.splits if_splits)

lemma chunk_rounds_run:
  "i < length (cl_ctxs s) \<Longrightarrow> running env (ctx i s) \<Longrightarrow> chunk_rounds env i n s = act_on env i s (chunk_run n (ctx i s))"
proof (induction n arbitrary: s)
  case 0
  then show ?case by (simp add: act_on_def ctx_update_same)
next
  case (Suc n)
  have go: "\<not> x_requestComplete (ctx i s)" using Suc.prems by (simp add: running_def)
  show ?case
  proof (cases "chunk_step (ctx i s)")
    case (Chunk_Next d)
    with Suc go chunk_step_running [of "ctx i s" d] show ?thesis by (simp add: act_on_update)
  next
    case (Chunk_Data x d)
    then have d: "running env d" using chunk_step_running [of "ctx i s" d x] Suc.prems by simp
    then have "call_onData env i x (ctx_update i (\<lambda>_. d) s) = ctx_update i (\<lambda>_. d) s"
      using Suc.prems(1) by (simp add: call_onData_def running_def)
    moreover have "ctx_update i after_chunk (ctx_update i (\<lambda>_. d) s) = ctx_update i (\<lambda>_. after_chunk d) s"
      using Suc.prems(1) by (simp add: ctx_update_update comp_def)
    moreover have "running env (after_chunk d)" using d by (simp add: running_def after_chunk_def)
    ultimately show ?thesis using Suc go Chunk_Data by (simp add: act_on_update)
  qed (use go Suc.prems in \<open>simp_all add: act_on_def ctx_update_same\<close>)
qed

lemma body_parse_acts:
  assumes "i < length (cl_ctxs s)" "running env (ctx i s)"
  shows "parse_response_body env i s = act_on env i s (body_parse (ctx i s))"
proof (cases "x_bodyMode (ctx i s)")
  case Body_Chunked
  then show ?thesis using chunk_rounds_run [OF assms]
    by (simp add: parse_response_body_def body_parse_def Let_def del: chunk_rounds.simps chunk_run.simps)
next
  case Body_ContentLength
  let ?c = "(ctx i s)\<lparr>x_raw := take (the (x_headerEnd (ctx i s)) + 4 + x_contentLength (ctx i s)) (x_raw (ctx i s))\<rparr>"
  have "ctx_update i (\<lambda>c. c\<lparr>x_raw := take (the (x_headerEnd (ctx i s)) + 4 + x_contentLength (ctx i s)) (x_raw c)\<rparr>) s = ctx_update i (\<lambda>_. ?c) s"
    by (simp add: ctx_update_def)
  moreover have "call_onData env i d (ctx_update i (\<lambda>_. ?c) s) = ctx_update i (\<lambda>_. ?c) s" for d
    using assms by (simp add: call_onData_def running_def)
  ultimately show ?thesis using Body_ContentLength assms(1)
    by (simp add: parse_response_body_def body_parse_def act_on_def ctx_update_same Let_def)
qed (use assms(1) in \<open>simp add: parse_response_body_def body_parse_def act_on_def ctx_update_same\<close>)

lemma status_line_running: "status_line l c = (m, d) \<Longrightarrow> running env d = running env c"
  by (auto simp: status_line_def running_def Let_def split: option.splits if_splits)

lemma body_framing_running: "body_framing c = (m, d) \<Longrightarrow> running env d = running env c"
  by (auto simp: body_framing_def running_def Let_def split: sum.splits if_splits)

lemma ParseHeaders_running: "ParseHeaders e c = (m, d) \<Longrightarrow> running env d = running env c"
  by (auto simp: ParseHeaders_def Let_def split: option.splits if_splits prod.splits bool.splits
      dest!: status_line_running [where env = env] body_framing_running [where env = env]) (auto simp: running_def)

section \<open>Properties\<close>


text \<open>C5. Whatever the network and the Luau code do, redirects, reused connections, timeouts and \<open>Close\<close> included, the
  coroutine that waits for a request is resumed at most once.\<close>

theorem http_resumed_once:
  assumes "client_reach (client_nested n script base) s"
  shows "resumed t s \<le> 1"
proof -
  have "held t s + resumed t s \<le> of_bool (t < cl_tickets s)" using nested_clients.client_reach_inv [OF assms] by (simp add: client_inv_def)
  then show ?thesis by (cases "t < cl_tickets s") simp_all
qed

text \<open>A handler of \<open>ResponseReceived\<close> that asks the same server again.\<close>

definition ask_again :: "string \<Rightarrow> http_client_env \<Rightarrow> http_client_env" where
  "ask_again url base = base\<lparr>cl_code := \<lambda>e s. case e of
     HcFireResponse _ _ \<Rightarrow> snd (Client_MethodRequest (base\<lparr>cl_code := \<lambda>_ s. s\<rparr>) True [LString url] s) | _ \<Rightarrow> s\<rparr>"

lemma start_timer_ctx: "i < length (cl_ctxs s) \<Longrightarrow> ctx i (start_timer i s) = (ctx i s)\<lparr>x_timerInited := True\<rparr> \<and> length (cl_ctxs (start_timer i s)) = length (cl_ctxs s)"
  by (simp add: start_timer_def Let_def)

lemma Begin_reuse:
  assumes "i < length (cl_ctxs s)" "x_connectionReady (ctx i s)" "\<not> x_requestComplete (ctx i s)" "u_valid (ParseUrl url)" "u_scheme (ParseUrl url) = ''http''"
  shows "fst (Begin env i url s) = [] \<and> task_kept (ctx i s) (ctx i (snd (Begin env i url s))) \<and> length (cl_ctxs (snd (Begin env i url s))) = length (cl_ctxs s)"
proof -
  let ?s = "ctx_update i (\<lambda>c. c\<lparr>x_url := ParseUrl url\<rparr>) s"
  have t: "ctx i (start_timer i ?s) = (ctx i s)\<lparr>x_url := ParseUrl url, x_timerInited := True\<rparr>" "length (cl_ctxs (start_timer i ?s)) = length (cl_ctxs s)"
    using start_timer_ctx [of i ?s] assms(1) by simp_all
  have "Begin env i url s = ([], hc (HcUvWrite i (x_requestText (ctx i (build_request i (start_timer i ?s))))) (build_request i (start_timer i ?s)))"
    using assms t by (simp add: Begin_def Let_def Ctx_OnConnected_def build_request_def)
  then show ?thesis using assms(1) t by (simp add: build_request_def task_kept_def)
qed

lemma ask_reuse:
  assumes "i < length (cl_ctxs s)" "cl_idle s = [i]" "IsSameOrigin (x_url (ctx i s)) (ParseUrl url)" "u_valid (ParseUrl url)"
    "u_scheme (ParseUrl url) = ''http''" "\<not> cl_closed s" "\<not> cl_shuttingDown s"
  shows "x_ticket (ctx i (snd (Client_MethodRequest env True [LString url] s))) = cl_tickets s \<and>
    \<not> x_taskCtx (ctx i (snd (Client_MethodRequest env True [LString url] s))) \<and>
    length (cl_ctxs (snd (Client_MethodRequest env True [LString url] s))) = length (cl_ctxs s)"
proof -
  let ?s1 = "ctx_update i PrepareForReuse (RemoveIdleRequest i (s\<lparr>cl_tickets := cl_tickets s + 1\<rparr>))"
  let ?s2 = "ctx_update i (\<lambda>c. c\<lparr>x_isAsync := True, x_ticket := cl_tickets s\<rparr>) ?s1"
  let ?s3 = "ctx_update i (\<lambda>c. c\<lparr>x_taskCtx := False\<rparr>) (?s2\<lparr>cl_active := cl_active ?s2 @ [i]\<rparr>)"
  have "AcquireRequest url (s\<lparr>cl_tickets := cl_tickets s + 1\<rparr>) = (i, ?s1)" using assms by (simp add: AcquireRequest_def)
  then have "begin_call env True [LString url] url s = Some (None, i, ?s2)" by (simp add: begin_call_def Let_def)
  then have "snd (Client_MethodRequest env True [LString url] s) =
      (if fst (Begin env i url ?s3) = [] then snd (Begin env i url ?s3)
       else Client_FireError env (x_ticket (ctx i ?s3)) (fst (Begin env i url ?s3))
         ((ctx_update i (\<lambda>c. c\<lparr>x_taskCtx := False\<rparr>) (snd (Begin env i url ?s3)))\<lparr>cl_active := butlast (cl_active (snd (Begin env i url ?s3)))\<rparr>))"
    using assms(6,7) by (simp add: Client_MethodRequest_def arg_def split_beta Let_def)
  moreover have "x_connectionReady (ctx i ?s3)" "\<not> x_requestComplete (ctx i ?s3)" "i < length (cl_ctxs ?s3)" "length (cl_ctxs ?s3) = length (cl_ctxs s)"
    "x_ticket (ctx i ?s3) = cl_tickets s" "\<not> x_taskCtx (ctx i ?s3)"
    using assms(1) by (simp_all add: PrepareForReuse_def RemoveIdleRequest_def)
  ultimately show ?thesis using Begin_reuse [of i ?s3 url env] assms(4,5) by (simp add: task_kept_def)
qed

lemma ctx_stop_reading_fields:
  "i < length (cl_ctxs s) \<Longrightarrow> ctx i (ctx_stop_reading i s) = (ctx i s)\<lparr>x_reading := False\<rparr>"
  "length (cl_ctxs (ctx_stop_reading i s)) = length (cl_ctxs s)" "cl_idle (ctx_stop_reading i s) = cl_idle s" "cl_closed (ctx_stop_reading i s) = cl_closed s"
  "cl_shuttingDown (ctx_stop_reading i s) = cl_shuttingDown s" "cl_tickets (ctx_stop_reading i s) = cl_tickets s"
  by (simp_all add: ctx_stop_reading_def hc_def ctx_update_def)

lemma kept_state:
  assumes "i < length (cl_ctxs s)" "cl_idle s = []"
  obtains t where "keep_connection env i s = DeliverResult env i t" "i < length (cl_ctxs t)" "cl_idle t = [i]" "cl_closed t = cl_closed s"
    "cl_shuttingDown t = cl_shuttingDown s" "cl_tickets t = cl_tickets s"
    "ctx i t = (ctx i s)\<lparr>x_reading := False, x_idle := True, x_reuseCount := x_reuseCount (ctx i s) + 1\<rparr>"
proof -
  define s2 where "s2 = (if x_timerInited (ctx i (ctx_stop_reading i s)) \<and> \<not> x_timerClosed (ctx i (ctx_stop_reading i s))
    then hc (HcTimerStart i (cl_idleTimeoutMs (ctx_stop_reading i s))) (hc (HcTimerStop i) (ctx_stop_reading i s)) else ctx_stop_reading i s)"
  define s3 where "s3 = RemoveRequest i (ctx_update i (\<lambda>c. c\<lparr>x_idle := True, x_reuseCount := x_reuseCount c + 1\<rparr>) s2)"
  have s2: "cl_ctxs s2 = cl_ctxs (ctx_stop_reading i s)" "cl_idle s2 = []" "cl_closed s2 = cl_closed s" "cl_shuttingDown s2 = cl_shuttingDown s" "cl_tickets s2 = cl_tickets s"
    using assms(2) by (simp_all add: s2_def hc_def ctx_stop_reading_fields)
  have s3: "cl_idle s3 = []" "keep_connection env i s = DeliverResult env i (AddIdleRequest env (length (cl_idle s3)) i s3)"
    using s2 by (simp_all add: keep_connection_def Let_def s2_def s3_def RemoveRequest_def)
  then have "keep_connection env i s = DeliverResult env i (s3\<lparr>cl_idle := [i]\<rparr>)" by simp
  moreover have "ctx i s3 = (ctx i s)\<lparr>x_reading := False, x_idle := True, x_reuseCount := x_reuseCount (ctx i s) + 1\<rparr>" "i < length (cl_ctxs s3)"
    using assms(1) s2 by (simp_all add: s3_def RemoveRequest_def ctx_stop_reading_fields ctx_update_def)
  moreover have "cl_closed s3 = cl_closed s" "cl_shuttingDown s3 = cl_shuttingDown s" "cl_tickets s3 = cl_tickets s"
    using s2 by (simp_all add: s3_def RemoveRequest_def ctx_update_def)
  ultimately show ?thesis using that [of "s3\<lparr>cl_idle := [i]\<rparr>"] by simp
qed

text \<open>When a response on a kept connection is delivered to \<open>ResponseReceived\<close> and the handler asks the same server again
  with \<open>RequestAsync\<close>, the new request is served by the same context, which then forgets that anybody waits for it: whatever
  becomes of the second request, nothing is ever reported.\<close>

theorem chained_async_lost:
  assumes "i < length (cl_ctxs s)" "\<not> x_requestComplete (ctx i s)" "x_isAsync (ctx i s)" "\<not> x_taskCtx (ctx i s)" "CanReuseConnection i s"
    "cl_idle s = []" "\<not> cl_shuttingDown s" "r_errorKind (x_result (ctx i s)) = []" "IsSameOrigin (x_url (ctx i s)) (ParseUrl url)"
    "u_valid (ParseUrl url)" "u_scheme (ParseUrl url) = ''http''"
  shows "x_ticket (ctx i (FinishSuccess (ask_again url base) i s)) = cl_tickets s \<and>
    cl_trace (DeliverResult env i (ctx_update i (\<lambda>c. c\<lparr>x_result := r\<rparr>) (FinishSuccess (ask_again url base) i s))) =
      cl_trace (FinishSuccess (ask_again url base) i s)"
proof -
  let ?env = "ask_again url base" and ?s = "ctx_update i (\<lambda>c. c\<lparr>x_requestComplete := True, x_result := success_result c\<rparr>) s"
  have "CanReuseConnection i ?s" using assms(1,5) by (simp add: CanReuseConnection_def Let_def ctx_update_def)
  then have fin: "FinishSuccess ?env i s = keep_connection ?env i ?s" using assms(2) by (simp add: FinishSuccess_def Let_def)
  obtain t where t: "keep_connection ?env i ?s = DeliverResult ?env i t" "i < length (cl_ctxs t)" "cl_idle t = [i]" "cl_closed t = cl_closed ?s"
    "cl_shuttingDown t = cl_shuttingDown ?s" "cl_tickets t = cl_tickets ?s"
    "ctx i t = (ctx i ?s)\<lparr>x_reading := False, x_idle := True, x_reuseCount := x_reuseCount (ctx i ?s) + 1\<rparr>"
    by (rule kept_state [of i ?s ?env]) (use assms(1,6) in \<open>simp_all add: ctx_update_def\<close>)
  have c: "ctx i ?s = (ctx i s)\<lparr>x_requestComplete := True, x_result := success_result (ctx i s)\<rparr>" using assms(1) by simp
  have open1: "\<not> cl_closed t" "\<not> cl_shuttingDown t" using assms(5,7) t(4,5) by (simp_all add: CanReuseConnection_def ctx_update_def Let_def)
  have flags: "\<not> x_taskCtx (ctx i t)" "x_isAsync (ctx i t)" "r_errorKind (x_result (ctx i t)) = []"
    unfolding t(7) c using assms(3,4,8) by (simp_all add: success_result_def)
  let ?e = "HcFireResponse (x_ticket (ctx i t)) (BuildResponseTable (x_result (ctx i t)))"
  let ?u = "snd (Client_MethodRequest (base\<lparr>cl_code := \<lambda>_ s. s\<rparr>) True [LString url] (hc ?e t))"
  have "DeliverResult ?env i t = ctx_update i (\<lambda>c. c\<lparr>x_isAsync := False\<rparr>) ?u"
    using open1 flags by (simp add: DeliverResult_def Let_def FireResponse_def hc_call_out_def) (simp add: ask_again_def)
  with fin t(1) have f: "FinishSuccess ?env i s = ctx_update i (\<lambda>c. c\<lparr>x_isAsync := False\<rparr>) ?u" by simp
  have "x_ticket (ctx i ?u) = cl_tickets (hc ?e t) \<and> \<not> x_taskCtx (ctx i ?u) \<and> length (cl_ctxs ?u) = length (cl_ctxs (hc ?e t))"
    using assms(9-11) open1 t(2,3,7) c by (intro ask_reuse) (simp_all add: hc_def)
  moreover have "cl_tickets (hc ?e t) = cl_tickets s" using t(6) by simp
  ultimately show ?thesis using t(2) unfolding f by (simp add: DeliverResult_def Let_def)
qed

definition waiting_state :: HttpClient where
  "waiting_state = HttpClient_new\<lparr>cl_tickets := 1, cl_active := [0], cl_ctxs := [HttpRequestContext_new\<lparr>x_url := ParseUrl ''http://h:81?b#c'',
     x_dnsDone := True, x_tcpInited := True, x_timerInited := True, x_reading := True, x_isAsync := True, x_selfGuard := True,
     x_status := 200, x_bodyMode := Body_ContentLength, x_headerEnd := Some 0, x_raw := ''abcd''\<rparr>]\<rparr>"

definition quiet_client :: http_client_env where
  "quiet_client = \<lparr>cl_code = \<lambda>e s. s, cl_getaddrinfo = \<lambda>_ _. 0, cl_strerror = \<lambda>_. [], cl_eof = - 4095, cl_etimedout = - 110, cl_is_function = \<lambda>_. False\<rparr>"

theorem chained_async_lost_witness:
  "x_ticket (ctx 0 (FinishSuccess (ask_again ''http://h:81?b#c'' quiet_client) 0 waiting_state)) = 1 \<and>
   cl_trace (DeliverResult quiet_client 0 (ctx_update 0 (\<lambda>c. c\<lparr>x_result := HttpResponseData_new\<rparr>) (FinishSuccess (ask_again ''http://h:81?b#c'' quiet_client) 0 waiting_state))) =
     cl_trace (FinishSuccess (ask_again ''http://h:81?b#c'' quiet_client) 0 waiting_state)"
proof -
  have "CanReuseConnection 0 waiting_state"
    by (simp add: CanReuseConnection_def waiting_state_def HttpClient_new_def HttpRequestContext_new_def HttpRequestOptions_new_def HeaderValue_def)
  then show ?thesis
    using chained_async_lost [of 0 waiting_state "''http://h:81?b#c''" quiet_client quiet_client HttpResponseData_new]
    by (simp add: waiting_state_def HttpClient_new_def HttpRequestContext_new_def HttpResponseData_new_def IsSameOrigin_def demo_url accepted_url_def)
qed

theorem http_resumed_once_witness: "resumed 0 (snd (Fetch quiet_client False [LString ''http://h:81?b#c''])) \<le> 1"
proof (rule http_resumed_once)
  have "client_nested 0 (\<lambda>_ _. []) quiet_client = quiet_client" by (simp add: quiet_client_def)
  then show "client_reach (client_nested 0 (\<lambda>_ _. []) quiet_client) (snd (Fetch quiet_client False [LString ''http://h:81?b#c'']))"
    using client_reach.fetch [of quiet_client False "[LString ''http://h:81?b#c'']"] by simp
qed


end
