(* ===== verification/Lode_HttpExchange.thy ===== *)
theory Lode_HttpExchange
  imports Lode_HttpMessage
begin

text \<open>
  The two ends of the http module together: what the client's \<open>BuildRequestText\<close> sends is what the server's
  \<open>TryParseRequest\<close> reads, and what the server's \<open>End\<close> sends is what the client's \<open>TryParse\<close> reads, however TCP cuts
  the bytes.
\<close>

section \<open>Requests\<close>

definition client_fields :: "ParsedUrl \<Rightarrow> HttpRequestOptions \<Rightarrow> (string \<times> string) list" where
  "client_fields url opts =
     filter kept_header (o_headers opts) @ [(''Host'', u_authority url), (''Connection'', if o_keepAlive opts then ''keep-alive'' else ''close'')] @
     (if o_chunkedUpload opts then [(''Transfer-Encoding'', ''chunked'')]
      else if o_body opts \<noteq> [] then [(''Content-Length'', nat_string (length (o_body opts)))] else [])"

definition client_request :: "ParsedUrl \<Rightarrow> HttpRequestOptions \<Rightarrow> http_request" where
  "client_request url opts =
     \<lparr>rq_method = map to_upper (if o_method opts = [] then ''GET'' else o_method opts), rq_url = (if u_path url = [] then ''/'' else u_path url),
      rq_version = ''HTTP/1.1'', rq_headers = client_fields url opts,
      rq_body = (if o_chunkedUpload opts then chunk_text (o_body opts) else o_body opts)\<rparr>"

text \<open>The caller sets none of the fields that the client sets itself.\<close>

definition plain_options :: "HttpRequestOptions \<Rightarrow> bool" where
  "plain_options opts \<longleftrightarrow>
     \<not> has_header ''host'' (o_headers opts) \<and> \<not> has_header ''connection'' (o_headers opts) \<and> \<not> has_header ''content-length'' (o_headers opts)"

lemma BuildRequestText_eq:
  assumes "plain_options opts"
  shows "BuildRequestText url opts = request_text (client_request url opts)"
proof -
  let ?q = "client_request url opts"
  have ne: "client_fields url opts \<noteq> []" by (simp add: client_fields_def)
  have "request_text ?q = (rq_method ?q @ '' '' @ rq_url ?q @ '' '' @ rq_version ?q) @ CRLF @ concat (map field_line (client_fields url opts)) @ CRLF @ rq_body ?q"
    using ne by (simp add: request_text_def request_head_def fields_join_crlf [OF ne] join_crlf_Cons client_request_def)
  also have "\<dots> = BuildRequestText url opts"
    using assms by (simp add: BuildRequestText_def client_request_def client_fields_def plain_options_def field_line_def chunk_text_def Let_def)
  finally show ?thesis by simp
qed

definition proper_client_request :: "ParsedUrl \<Rightarrow> HttpRequestOptions \<Rightarrow> bool" where
  "proper_client_request url opts \<longleftrightarrow>
     plain_options opts \<and> list_all proper_field (o_headers opts) \<and> proper_field (''Host'', u_authority url) \<and>
     list_all (\<lambda>c. c \<noteq> CR \<and> c \<noteq> LF \<and> c \<noteq> CHR '' '') (o_method opts) \<and> list_all (\<lambda>c. c \<noteq> CR \<and> c \<noteq> LF \<and> c \<noteq> CHR '' '') (u_path url) \<and>
     (if o_chunkedUpload opts then marker_free (o_body opts) else True) \<and> length (BuildRequestText url opts) < 2 ^ 64"

lemma to_upper_plain: "c \<noteq> CR \<and> c \<noteq> LF \<and> c \<noteq> CHR '' '' \<Longrightarrow> to_upper c \<noteq> CR \<and> to_upper c \<noteq> LF \<and> to_upper c \<noteq> CHR '' ''"
proof -
  assume c: "c \<noteq> CR \<and> c \<noteq> LF \<and> c \<noteq> CHR '' ''"
  have "is_lower c \<Longrightarrow> ascii (to_upper c) \<ge> 65" by (auto simp: ascii_to_upper is_lower_def)
  then have "is_lower c \<Longrightarrow> to_upper c \<noteq> CR \<and> to_upper c \<noteq> LF \<and> to_upper c \<noteq> CHR '' ''" by (intro conjI notI) simp_all
  then show ?thesis using c by (cases "is_lower c") (simp_all add: to_upper_def)
qed

lemma client_request_proper:
  assumes "proper_client_request url opts"
  shows "proper_request (client_request url opts)"
proof -
  have blank: "\<not> is_blank x" if "is_digit x" for x using that by (auto simp: is_blank_def is_digit_def)
  have num: "proper_field (''Content-Length'', nat_string n)" for n
  proof -
    have d: "list_all is_digit (nat_string n)" "nat_string n \<noteq> []" by (simp_all add: nat_string_digits nat_string_nonempty)
    then have "is_digit (hd (nat_string n))" "is_digit (last (nat_string n))" by (simp_all add: list_all_iff)
    then show ?thesis using blank nat_string_no_space [of n] by (simp add: proper_field_def trimmed_def)
  qed
  have "list_all proper_field (client_fields url opts)"
    using assms num by (auto simp: client_fields_def proper_client_request_def list_all_iff proper_field_def trimmed_def is_blank_def)
  moreover have "\<forall>c \<in> set (rq_method (client_request url opts)). c \<noteq> CR \<and> c \<noteq> LF \<and> c \<noteq> CHR '' ''"
    using assms to_upper_plain by (auto simp: client_request_def proper_client_request_def list_all_iff)
  moreover have "\<forall>c \<in> set (rq_url (client_request url opts)). c \<noteq> CR \<and> c \<noteq> LF \<and> c \<noteq> CHR '' ''"
    using assms by (auto simp: client_request_def proper_client_request_def list_all_iff)
  moreover have "rq_version (client_request url opts) = ''HTTP/1.1''" "rq_headers (client_request url opts) = client_fields url opts"
    "client_fields url opts \<noteq> []" by (simp_all add: client_request_def client_fields_def)
  ultimately show ?thesis unfolding proper_request_def proper_line_def by auto
qed

lemma note_length_none: "list_all (\<lambda>h. map to_lower (fst h) \<noteq> ''content-length'') hdrs \<Longrightarrow> fold note_length hdrs c = c"
  by (induction hdrs arbitrary: c) (auto simp: note_length_def)

lemma own_fields:
  "is_chunked [(''Transfer-Encoding'', ''chunked'')]" "\<not> is_chunked [(''Host'', v)]" "\<not> is_chunked [(''Connection'', v)]"
  "\<not> is_chunked [(''Content-Length'', v)]"
  by (code_simp, simp_all add: is_chunked_def)

lemma is_chunked_append: "is_chunked (a @ b) \<longleftrightarrow> is_chunked a \<or> is_chunked b"
  by (simp add: is_chunked_def)

lemma is_chunked_Cons: "b \<noteq> [] \<Longrightarrow> is_chunked (h # b) \<longleftrightarrow> is_chunked [h] \<or> is_chunked b"
  using is_chunked_append [of "[h]" b] by simp

lemma note_length_own:
  "stoull 10 v = Some n \<Longrightarrow> note_length (''Content-Length'', v) c = c\<lparr>expectedContentLength := n, hasContentLength := True\<rparr>"
  "note_length (''Host'', v) c = c" "note_length (''Connection'', v) c = c"
proof -
  have "map to_lower ''Content-Length'' = ''content-length''" by code_simp
  then show "stoull 10 v = Some n \<Longrightarrow> note_length (''Content-Length'', v) c = c\<lparr>expectedContentLength := n, hasContentLength := True\<rparr>"
    unfolding note_length_def fst_conv snd_conv by (simp only: if_True option.case simp_thms)
qed (simp_all add: note_length_def)

lemma client_request_carries:
  assumes "proper_client_request url opts"
  shows "carries (client_request url opts) (o_body opts)"
proof -
  let ?k = "filter kept_header (o_headers opts)"
  have kept: "list_all (\<lambda>h. map to_lower (fst h) \<noteq> ''content-length'') ?k" "list_all (\<lambda>h. map to_lower (fst h) \<noteq> ''transfer-encoding'') ?k"
    by (auto simp: list_all_iff kept_header_def)
  have len: "length (request_text (client_request url opts)) < 2 ^ 64"
    using assms BuildRequestText_eq [of opts url] by (simp add: proper_client_request_def)
  show ?thesis
  proof (cases "o_chunkedUpload opts")
    case True
    then have "is_chunked (rq_headers (client_request url opts))"
      by (simp add: client_request_def client_fields_def is_chunked_append is_chunked_Cons own_fields)
    then show ?thesis using True assms len by (simp add: carries_def client_request_def proper_client_request_def)
  next
    case False
    have nc: "\<not> is_chunked (rq_headers (client_request url opts))"
    proof -
      have "\<not> is_chunked ?k" using kept(2) by (auto simp: is_chunked_def list_all_iff list_ex_iff)
      then show ?thesis using False by (simp add: client_request_def client_fields_def is_chunked_append is_chunked_Cons own_fields)
    qed
    have "length (o_body opts) < 2 ^ 64" using len False by (simp add: request_text_def client_request_def)
    then have n: "stoull 10 (nat_string (length (o_body opts))) = Some (length (o_body opts))" by (rule stoull_nat_string)
    have "fold note_length (client_fields url opts) HttpServerConnection_new =
        (if o_body opts \<noteq> [] then HttpServerConnection_new\<lparr>expectedContentLength := length (o_body opts), hasContentLength := True\<rparr> else HttpServerConnection_new)"
      using False note_length_none [OF kept(1)] by (simp add: client_fields_def note_length_own n)
    then have "framed (client_request url opts)" using nc False
      by (simp add: framed_def client_request_def Let_def) (simp add: HttpServerConnection_new_def)
    then show ?thesis using False by (simp add: carries_def client_request_def)
  qed
qed


section \<open>Responses\<close>

lemma set_header_new: "\<not> has_header (map to_lower n) hdrs \<Longrightarrow> set_header n v hdrs = hdrs @ [(n, v)]"
  by (induction hdrs) (auto simp: has_header_def)

definition server_fields :: "HttpServerResponse \<Rightarrow> string \<Rightarrow> (string \<times> string) list" where
  "server_fields r body =
     resp_headers r @ [(''Content-Length'', nat_string (length body))] @
     (if has_header ''connection'' (resp_headers r) then [] else [(''Connection'', ''close'')])"

lemma Response_End_text:
  assumes "\<not> finished r" "\<not> has_header ''content-length'' (resp_headers r)"
  shows "fst (Response_End data r) =
    Some (response_head (statusCode r) (statusText r) (server_fields r (bodyBuffer r @ data)) @ bodyBuffer r @ data)"
proof -
  let ?b = "bodyBuffer r @ data" and ?f = "server_fields r (bodyBuffer r @ data)"
  have low: "map to_lower ''Content-Length'' = ''content-length''" "map to_lower ''Connection'' = ''connection''" by code_simp+
  have cl: "set_header ''Content-Length'' v (resp_headers r) = resp_headers r @ [(''Content-Length'', v)]" for v
    using assms(2) by (intro set_header_new) (simp only: low simp_thms)
  have "has_header ''connection'' (resp_headers r @ [(''Content-Length'', v)]) = has_header ''connection'' (resp_headers r)" for v
    by (simp add: has_header_def)
  then have co: "\<not> has_header ''connection'' (resp_headers r) \<Longrightarrow> set_header ''Connection'' w (resp_headers r @ [(''Content-Length'', v)]) =
      resp_headers r @ [(''Content-Length'', v), (''Connection'', w)]" for v w
    using set_header_new [of "''Connection''" "resp_headers r @ [(''Content-Length'', v)]" w] by (simp only: low append_assoc append_Cons append_Nil simp_thms)
  have "complete_headers (r\<lparr>finished := True, bodyBuffer := ?b\<rparr>) = r\<lparr>finished := True, bodyBuffer := ?b, resp_headers := ?f\<rparr>"
    using assms(2) cl co by (cases r) (simp add: complete_headers_def SetHeader_def server_fields_def Let_def)
  moreover have "?f \<noteq> []" by (simp add: server_fields_def)
  ultimately show ?thesis using assms(1)
    by (simp add: Response_End_def render_response_def response_head_def status_text_def fields_join_crlf join_crlf_Cons Let_def)
qed

lemma lower_names_absent: "\<not> has_header n hdrs \<Longrightarrow> filter (\<lambda>h. fst h = n) (lower_names hdrs) = []"
  by (induction hdrs) (auto simp: has_header_def lower_names_def)

lemma lower_server_fields:
  assumes "\<not> has_header ''content-length'' (resp_headers r)" "\<not> has_header ''transfer-encoding'' (resp_headers r)"
  shows "filter (\<lambda>h. fst h = ''content-length'') (lower_names (server_fields r body)) = [(''content-length'', nat_string (length body))]"
    "filter (\<lambda>h. fst h = ''transfer-encoding'') (lower_names (server_fields r body)) = []"
proof -
  have low: "map to_lower ''Content-Length'' = ''content-length''" "map to_lower ''Connection'' = ''connection''" by code_simp+
  have f: "lower_names (server_fields r body) = lower_names (resp_headers r) @ [(''content-length'', nat_string (length body))] @
      (if has_header ''connection'' (resp_headers r) then [] else [(''connection'', ''close'')])"
    using low by (simp add: lower_names_def server_fields_def)
  show "filter (\<lambda>h. fst h = ''content-length'') (lower_names (server_fields r body)) = [(''content-length'', nat_string (length body))]"
    "filter (\<lambda>h. fst h = ''transfer-encoding'') (lower_names (server_fields r body)) = []"
    unfolding f using lower_names_absent [OF assms(1)] lower_names_absent [OF assms(2)] by simp_all
qed

lemma server_fields_proper:
  assumes "list_all proper_response_field (resp_headers r)"
  shows "list_all proper_response_field (server_fields r body)"
proof -
  have d: "is_digit (hd (nat_string n)) \<and> is_digit (last (nat_string n))" for n
    using nat_string_digits [of n] nat_string_nonempty [of n] by (simp add: list_all_iff)
  have blank: "\<not> is_blank x" if "is_digit x" for x using that by (auto simp: is_blank_def is_digit_def)
  have "proper_response_field (''Content-Length'', nat_string n)" for n
    using nat_string_no_space [of n] d [of n] blank by (simp add: proper_response_field_def proper_field_def trimmed_def is_blank_def)
  moreover have "proper_response_field (''Connection'', ''close'')" by (simp add: proper_response_field_def proper_field_def trimmed_def is_blank_def)
  ultimately show ?thesis using assms by (simp add: server_fields_def)
qed



section \<open>Examples\<close>

definition example_url :: ParsedUrl where
  "example_url = ParsedUrl_new\<lparr>u_valid := True, u_scheme := ''http'', u_host := ''h'', u_port := 80, u_path := ''/a'', u_authority := ''h''\<rparr>"

definition example_options :: HttpRequestOptions where
  "example_options = HttpRequestOptions_new\<lparr>o_method := ''POST'', o_body := ''hi''\<rparr>"

lemma small_numbers: "nat_string (Suc (Suc 0)) = ''2''" "status_string 200 = ''200''"
  by code_simp+




end
