(* ===== verification/Spec2Isabelle.thy ===== *)
theory Spec2Isabelle
  imports Lode_Buffer Lode_Sha256 Lode_WsStream Lode_Manifest Lode_Signal Lode_Task Lode_EventLoop Lode_TcpServer
    Lode_Lockfile Lode_CdefText Lode_HttpConn Lode_HttpClient Lode_HttpExchange
begin

text \<open>
  A verification library for the Lode runtime, a Luau runtime in C++: a core (\<open>src/src\<close>,
  \<open>src/include/Lode\<close>) that hosts the Luau virtual machine, an event loop on libuv and a package
  manager, and native modules (\<open>src/modules\<close>) that give Luau code sockets, websockets, files and so on.

  \<^bold>\<open>Parts and how they interact.\<close> Luau code calls methods of native objects; native objects talk to libuv
  and report through signals (\<open>Signal.cpp\<close>), which run Luau callbacks on the loop thread, or resume a
  waiting coroutine. A websocket (\<open>modules/websocket\<close>) is layered on a TCP socket (\<open>modules/tcp\<close>) through
  four native callbacks, and both report through signals. The http module has a client with a pool of
  connections, whose requests resume a coroutine or fire a signal, and a server that gives Luau handlers a request table and a
  response object; both are on libuv sockets of their own. Values cross the border as Luau numbers,
  strings, buffers and tables (\<open>Numeric.hpp\<close>, \<open>Buffer.cpp\<close>). The package manager reads and writes
  manifests (\<open>PackageManifest.cpp\<close>), writes the resolved graph to a lockfile (\<open>PackageLockfile.cpp\<close>) and identifies packages by their SHA-256 digest (\<open>Sha256.cpp\<close>).

  \<^bold>\<open>Theories.\<close>
  \<^item> \<open>Lode_Prelude\<close>: bytes, characters, searching in lists, little-endian numbers, decimal text.
  \<^item> \<open>Lode_Value\<close>: Luau values, C++ doubles as NaN, infinities and rationals, and the checked conversions of
    \<open>Numeric.hpp\<close> (they accept exactly the values the result type represents).
  \<^item> \<open>Lode_Buffer\<close>: \<open>Buffer.cpp\<close> over a heap of Luau buffer objects, spans with 64-bit offsets and wrap-around,
    undefined behaviour as \<^const>\<open>None\<close>. No method leaves its object; fields round-trip; \<open>CopyFrom\<close> is a memmove.
    The locale of typed fields is interpreted for every width.
  \<^item> \<open>Lode_Sha256\<close>: \<open>Sha256.cpp\<close>, the streaming hasher against the digest of the padded message, also for files
    read in pieces; a locale of streaming digests is interpreted on the hasher.
  \<^item> \<open>Lode_WsCodec\<close>: SHA-1, base64, the mask generator and the frame format of the websocket module, encoder
    against parser, with the wrap-around of the parser's size arithmetic.
  \<^item> \<open>Lode_WsHandshake\<close>: URLs, header blocks and both ends of the opening handshake.
  \<^item> \<open>Lode_WsClient\<close>: the websocket object (\<open>WsClient.cpp\<close>) as a state machine with a trace of effects; the
    locale \<open>luau_code\<close> states what Luau handlers may do to it and is interpreted on handlers that call its
    methods, nested to any depth.
  \<^item> \<open>Lode_WsStream\<close>: reassembly of messages from a stream cut anywhere, at-most-once events, release of
    handles, progress.
  \<^item> \<open>Lode_Signal\<close>: \<open>Signal.cpp\<close> over a heap of shared connection objects; reentrant callbacks as a locale,
    interpreted on callbacks that use the signal again.
  \<^item> \<open>Lode_Task\<close>: the task scheduler (\<open>Task.cpp\<close>) over a heap of timers with the flags of their libuv handles; the
    locale \<open>quiet_code\<close> states what Luau code may do to it and is interpreted on code that uses its operations,
    nested to any depth. No use after free, one-shot timers run at most once, cancellation is final, shutdown
    frees; and the use after free when code runs the loop inside a callback.
  \<^item> \<open>Lode_EventLoop\<close>: the event loop (\<open>EventLoop.cpp\<close>): order of posted work, close hooks, the collector hook and
    the loop that \<open>Run\<close> ends with, with the contract of code on the loop as the locale \<open>loop_client\<close>.
  \<^item> \<open>Lode_TcpClient\<close>, \<open>Lode_TcpServer\<close>: the socket and the listening socket of the tcp module on libuv, with the
    return code of every libuv call as a parameter and the libuv contract as the guards of the step relations
    \<^const>\<open>tcp_reach\<close> and \<^const>\<open>server_reach\<close>.
  \<^item> \<open>Lode_HttpUrl\<close>: URLs, redirects and request options of the http module (\<open>HttpHelpers.cpp\<close>): what the parser
    accepts is well formed and in canonical form, and the relative redirect whose query holds a URL.
  \<^item> \<open>Lode_HttpServer\<close>: the request parser and the response object of the server; requests cut anywhere, the
    search for the end of a chunked body and its consequences, the exception of an over-long chunk size.
  \<^item> \<open>Lode_HttpConn\<close>: the server and its connections on libuv, with the libuv contract as the guards of a step
    relation. A connection carries at most one response, and a request that arrived is dispatched with its fields;
    the locale \<open>http_handlers\<close> states what request handlers may do and is interpreted on handlers that use the
    response and server objects, nested to any depth.
  \<^item> \<open>Lode_HttpMessage\<close>: the request contexts of the client: request text, response heads, the body framing and
    the incremental chunk decoder, with the independence of the segmentation.
  \<^item> \<open>Lode_HttpClient\<close>: the client on libuv (resolving, connecting, reading, timeouts, redirects, the pool of idle
    connections, the manager), with the locale \<open>client_handlers\<close> for Luau code. A waiting coroutine is resumed at most once; the parser
    on the client refines the pure decoder; the response a second request on the same connection loses.
  \<^item> \<open>Lode_HttpExchange\<close>: both ends together: the server reads the request the client wrote, and the client the
    response the server wrote, and every well-formed chunked response.
  \<^item> \<open>Lode_Text\<close>: cutting, trimming, header lines and the number parsers of the C++ library, shared by the websocket and http theories.
  \<^item> \<open>Lode_Manifest\<close>: the parser and serializer of package manifests; a manifest read from any text survives
    writing and reading.
  \<^item> \<open>Lode_Lockfile\<close>: the dependency graph and its lockfile (\<open>PackageLockfile.cpp\<close>): independence of the numbering
    of packages for every sort the standard allows, exactness of the errors, renumbered targets, atomic
    replacement; the locale of sorts is interpreted on an executable one.

  \<^bold>\<open>Conventions.\<close> A C++ object is a record, its methods are functions on the record, and what it does to the
  world is appended to a trace in the record, so that statements about order and number of events are
  statements about a list. Code outside the sources (libuv, the Luau machine, user handlers, IEEE
  multiplication) is a field of an environment record that the functions take. An exception or raised error
  is a value of a sum type, undefined behaviour is \<^const>\<open>None\<close> or a constructor of its own. \<open>size_t\<close> and the
  fixed-width integers are words wherever their overflow can matter; counters that only grow by one per
  event (connection and timer ids) are unbounded numbers.

  \<^bold>\<open>Bounds and termination.\<close> Loops are structural recursion or \<open>function\<close>s with a measure; the frame loop of the
  websocket and the update loop of the hasher are partial functions into \<open>option\<close>, and the progress
  theorems show that they return; the loop that turns libuv until nothing is alive is one too, and need not return. Handlers are nested to a depth \<open>n\<close> that is universally quantified, so no
  bound is chosen. The chunk loop of the http client is given as many rounds as the received bytes plus one, which is enough
  because every round that goes on moves the read position forward (lemma \<open>chunk_run_moves\<close>); the loop that evicts idle
  connections is given as many rounds as there are idle connections.

  \<^bold>\<open>Not modelled.\<close> TLS (the Windows build, and the TLS branches of the http
  module); formatting of socket addresses, which only calls
  libuv; metatables and method tables as Luau objects. Of the core: the command line and the module loader,
  the compiler driver, package installation, caching, archives and
  Git access, logging. Of the modules: ffi, sys, stdio, tty, pipe, udp, filesystem, crypto, address,
  json, memory and task, and the modules written in Luau. The manifest of the development lists them all.
\<close>

end
